(* ===== verification/McPrelude.thy ===== *)
theory McPrelude
  imports Complex_Main "HOL-Library.AList" "HOL-Library.Sublist" "HOL-Library.Char_ord"
    "HOL-Library.List_Lexorder"
begin

text \<open>
  Shared vocabulary of the development: Python text, dictionaries, exceptions and JSON values.

  \<^item> A Python \<open>str\<close> is a HOL \<^typ>\<open>string\<close> whose characters are the code points U+0000 to
    U+00FF. On that range \<open>isspace\<close>, \<open>isdigit\<close>, \<open>isascii\<close> and \<open>lower\<close> are exact; \<open>upper\<close> is exact
    except for U+00B5 and U+00FF, whose capitals lie above U+00FF and which are left alone.
  \<^item> A Python \<open>dict\<close> is an association list in insertion order: \<^const>\<open>AList.update\<close> overwrites
    in place or appends, \<^const>\<open>AList.delete\<close> removes, \<^const>\<open>map_of\<close> looks up.
  \<^item> A raising operation returns \<^typ>\<open>'e + 'a\<close>, with \<^const>\<open>Inl\<close> for the exception.
  \<^item> Floats (clock readings, signal values) are exact rationals.
\<close>

named_theorems text_simps \<open>facts about the Python string operations\<close>
named_theorems dict_simps \<open>facts about Python dictionaries\<close>

section \<open>Exceptions\<close>

datatype py_error = AttributeError | TypeError | ValueError | KeyError | OSError | RuntimeError
  | OverflowError | IndexError | StructError

type_synonym 'a res = "py_error + 'a"

fun bind_res :: "'a res \<Rightarrow> ('a \<Rightarrow> 'b res) \<Rightarrow> 'b res" where
  "bind_res (Inl e) f = Inl e"
| "bind_res (Inr a) f = f a"

lemma bind_res_eq_Inr [simp]:
  "bind_res m f = Inr b \<longleftrightarrow> (\<exists>a. m = Inr a \<and> f a = Inr b)"
  by (cases m) auto

lemma bind_res_eq_Inl:
  "bind_res m f = Inl e \<longleftrightarrow> m = Inl e \<or> (\<exists>a. m = Inr a \<and> f a = Inl e)"
  by (cases m) auto

lemma res_error_iff: "(\<exists>e. m = Inl e) \<longleftrightarrow> (\<forall>b. m \<noteq> Inr b)"
  by (cases m) auto

lemma bind_res_assoc: "bind_res (bind_res m f) g = bind_res m (\<lambda>a. bind_res (f a) g)"
  by (cases m) auto

lemma bind_res_split:
  "P (bind_res m f) \<longleftrightarrow> (\<forall>e. m = Inl e \<longrightarrow> P (Inl e)) \<and> (\<forall>a. m = Inr a \<longrightarrow> P (f a))"
  by (cases m) auto

section \<open>Characters\<close>

abbreviation cp :: "char \<Rightarrow> nat" where
  "cp c \<equiv> of_char c"

definition is_space :: "char \<Rightarrow> bool" where
  "is_space c \<longleftrightarrow> (let n = cp c in
     (9 \<le> n \<and> n \<le> 13) \<or> (28 \<le> n \<and> n \<le> 32) \<or> n = 133 \<or> n = 160)"

definition is_ascii :: "char \<Rightarrow> bool" where
  "is_ascii c \<longleftrightarrow> cp c < 128"

definition ascii_digit :: "char \<Rightarrow> bool" where
  "ascii_digit c \<longleftrightarrow> 48 \<le> cp c \<and> cp c \<le> 57"

text \<open>\<open>str.isdigit\<close> also accepts the superscripts U+00B2, U+00B3 and U+00B9.\<close>

definition is_digit :: "char \<Rightarrow> bool" where
  "is_digit c \<longleftrightarrow> ascii_digit c \<or> cp c = 178 \<or> cp c = 179 \<or> cp c = 185"

definition ascii_upper :: "char \<Rightarrow> bool" where
  "ascii_upper c \<longleftrightarrow> 65 \<le> cp c \<and> cp c \<le> 90"

definition ascii_lower :: "char \<Rightarrow> bool" where
  "ascii_lower c \<longleftrightarrow> 97 \<le> cp c \<and> cp c \<le> 122"

definition upper_char :: "char \<Rightarrow> string" where
  "upper_char c = (let n = cp c in
     if 97 \<le> n \<and> n \<le> 122 then [char_of (n - 32)]
     else if 224 \<le> n \<and> n \<le> 254 \<and> n \<noteq> 247 then [char_of (n - 32)]
     else if n = 223 then ''SS''
     else [c])"

definition lower_char :: "char \<Rightarrow> char" where
  "lower_char c = (let n = cp c in
     if (65 \<le> n \<and> n \<le> 90) \<or> (192 \<le> n \<and> n \<le> 222 \<and> n \<noteq> 215) then char_of (n + 32) else c)"

definition digit_val :: "char \<Rightarrow> int" where
  "digit_val c = int (cp c) - 48"

lemmas char_class_defs = is_space_def is_ascii_def ascii_digit_def is_digit_def
  ascii_upper_def ascii_lower_def

lemma digit_not_space: "ascii_digit c \<Longrightarrow> \<not> is_space c"
  by (auto simp: char_class_defs)

lemma ascii_digit_is_digit [simp]: "ascii_digit c \<Longrightarrow> is_digit c"
  by (simp add: is_digit_def)

lemma ascii_is_digit_iff: "is_ascii c \<Longrightarrow> is_digit c \<longleftrightarrow> ascii_digit c"
  by (auto simp: char_class_defs)

lemma upper_char_nonempty [simp]: "upper_char c \<noteq> []"
  by (simp add: upper_char_def Let_def)

lemma upper_char_ascii_case:
  "is_ascii c \<Longrightarrow> upper_char c = (if ascii_lower c then [char_of (cp c - 32)] else [c])"
  by (auto simp: upper_char_def char_class_defs Let_def)

lemma upper_char_fixed: "\<not> ascii_lower c \<Longrightarrow> is_ascii c \<Longrightarrow> upper_char c = [c]"
  by (simp add: upper_char_ascii_case)

text \<open>Uppercasing produces only capitals, apart from characters it leaves alone.\<close>

lemma upper_char_cases:
  "d \<in> set (upper_char c) \<Longrightarrow> d = c \<or> (65 \<le> cp d \<and> cp d \<le> 90) \<or> (192 \<le> cp d \<and> cp d \<le> 222)"
  by (auto simp: upper_char_def Let_def split: if_splits)

lemma upper_char_id_of:
  "d \<in> set (upper_char c) \<Longrightarrow> cp d < 65 \<or> (90 < cp d \<and> cp d < 192) \<Longrightarrow> d = c"
  using upper_char_cases[of d c] by auto

section \<open>Text\<close>

definition upper :: "string \<Rightarrow> string" where
  "upper s = concat (map upper_char s)"

definition lower :: "string \<Rightarrow> string" where
  "lower s = map lower_char s"

definition lstrip :: "string \<Rightarrow> string" where
  "lstrip s = dropWhile is_space s"

definition rstrip :: "string \<Rightarrow> string" where
  "rstrip s = rev (dropWhile is_space (rev s))"

definition strip :: "string \<Rightarrow> string" where
  "strip s = rstrip (lstrip s)"

definition isascii :: "string \<Rightarrow> bool" where
  "isascii s \<longleftrightarrow> list_all is_ascii s"

definition isdigit :: "string \<Rightarrow> bool" where
  "isdigit s \<longleftrightarrow> s \<noteq> [] \<and> list_all is_digit s"

definition startswith :: "string \<Rightarrow> string \<Rightarrow> bool" where
  "startswith s p \<longleftrightarrow> take (length p) s = p"

definition endswith :: "string \<Rightarrow> string \<Rightarrow> bool" where
  "endswith s p \<longleftrightarrow> startswith (rev s) (rev p)"

fun contains :: "string \<Rightarrow> string \<Rightarrow> bool" where
  "contains [] p = (p = [])"
| "contains (c # s) p = (startswith (c # s) p \<or> contains s p)"

text \<open>\<open>s.split(sep)\<close> for a one-character separator, and \<open>s.split()\<close> on whitespace runs.\<close>

fun split_by :: "(char \<Rightarrow> bool) \<Rightarrow> string \<Rightarrow> string list" where
  "split_by P [] = [[]]"
| "split_by P (c # s) =
     (if P c then [] # split_by P s
      else (case split_by P s of [] \<Rightarrow> [[c]] | w # ws \<Rightarrow> (c # w) # ws))"

definition split_on :: "char \<Rightarrow> string \<Rightarrow> string list" where
  "split_on c s = split_by (\<lambda>x. x = c) s"

definition split_ws :: "string \<Rightarrow> string list" where
  "split_ws s = filter (\<lambda>w. w \<noteq> []) (split_by is_space s)"

text \<open>\<open>s.split(c, 1)[0]\<close>, \<open>s.split(c, 1)[1]\<close> (with \<open>c\<close> in \<open>s\<close>) and \<open>s.rsplit(c, 1)[-1]\<close>.\<close>

definition before :: "char \<Rightarrow> string \<Rightarrow> string" where
  "before c s = takeWhile (\<lambda>x. x \<noteq> c) s"

definition after :: "char \<Rightarrow> string \<Rightarrow> string" where
  "after c s = tl (dropWhile (\<lambda>x. x \<noteq> c) s)"

definition after_last :: "char \<Rightarrow> string \<Rightarrow> string" where
  "after_last c s = rev (takeWhile (\<lambda>x. x \<noteq> c) (rev s))"

fun join :: "string \<Rightarrow> string list \<Rightarrow> string" where
  "join sep [] = []"
| "join sep [w] = w"
| "join sep (w # v # ws) = w @ sep @ join sep (v # ws)"

subsection \<open>Facts about stripping, splitting and case\<close>

lemma startswith_prefix: "startswith s p \<longleftrightarrow> prefix p s"
  by (auto simp: startswith_def prefix_def) (metis append_take_drop_id)

lemma startswith_Nil [simp]: "startswith s []"
  by (simp add: startswith_def)

lemma startswith_Cons [simp]: "startswith (c # s) (d # p) \<longleftrightarrow> c = d \<and> startswith s p"
  by (auto simp: startswith_def)

lemma startswith_Nil_Cons [simp]: "\<not> startswith [] (d # p)"
  by (simp add: startswith_def)

lemma startswith_decomp: "startswith s p \<Longrightarrow> s = p @ drop (length p) s"
  unfolding startswith_def by (metis append_take_drop_id)

lemma startswith_append [simp]: "startswith (p @ s) p"
  by (simp add: startswith_def)

lemma contains_iff: "contains s p \<longleftrightarrow> (\<exists>u v. s = u @ p @ v)"
proof (induction s)
  case Nil
  then show ?case by simp
next
  case (Cons c s)
  have "startswith (c # s) p \<longleftrightarrow> (\<exists>v. c # s = p @ v)"
    by (auto simp: startswith_prefix prefix_def)
  then show ?case
    by (simp add: Cons.IH) (metis (no_types, lifting) append_Cons append_self_conv2 append_eq_Cons_conv)
qed

lemma lstrip_set: "set (lstrip s) \<subseteq> set s"
  by (auto simp: lstrip_def dest: set_dropWhileD)

lemma strip_set: "set (strip s) \<subseteq> set s"
  unfolding strip_def rstrip_def lstrip_def by (auto dest!: set_dropWhileD)

lemma strip_length: "length (strip s) \<le> length s"
  unfolding strip_def rstrip_def lstrip_def
  by (metis length_dropWhile_le length_rev le_trans)

lemma lstrip_id: "s = [] \<or> \<not> is_space (hd s) \<Longrightarrow> lstrip s = s"
  by (cases s) (auto simp: lstrip_def)

lemma rstrip_id: "s = [] \<or> \<not> is_space (last s) \<Longrightarrow> rstrip s = s"
  by (cases s rule: rev_cases) (auto simp: rstrip_def)

lemma hd_lstrip: "lstrip s \<noteq> [] \<Longrightarrow> \<not> is_space (hd (lstrip s))"
  by (auto simp: lstrip_def hd_dropWhile)

lemma last_rstrip: "rstrip s \<noteq> [] \<Longrightarrow> \<not> is_space (last (rstrip s))"
  by (auto simp: rstrip_def last_rev hd_dropWhile)

lemma rstrip_prefix: "\<exists>t. s = rstrip s @ t"
  by (metis rev_append rev_rev_ident rstrip_def takeWhile_dropWhile_id)

lemma hd_rstrip: "rstrip s \<noteq> [] \<Longrightarrow> hd (rstrip s) = hd s"
  by (metis hd_append2 rstrip_prefix)

lemma strip_idem [simp]: "strip (strip s) = strip s"
proof (cases "strip s = []")
  case True
  show ?thesis unfolding True by (simp add: strip_def lstrip_def rstrip_def)
next
  case False
  have "lstrip (strip s) = strip s"
  proof (rule lstrip_id)
    from False have "lstrip s \<noteq> []" by (auto simp: strip_def rstrip_def)
    then show "strip s = [] \<or> \<not> is_space (hd (strip s))"
      using False hd_lstrip hd_rstrip by (simp add: strip_def)
  qed
  moreover have "rstrip (strip s) = strip s"
    using False last_rstrip by (intro rstrip_id) (simp add: strip_def)
  ultimately show ?thesis by (simp add: strip_def)
qed

lemma strip_id: "s = [] \<or> (\<not> is_space (hd s) \<and> \<not> is_space (last s)) \<Longrightarrow> strip s = s"
  by (metis lstrip_id rstrip_id strip_def)

lemma strip_no_space: "list_all (\<lambda>c. \<not> is_space c) s \<Longrightarrow> strip s = s"
  by (rule strip_id) (auto simp: list_all_iff)

lemma split_by_nonempty [simp]: "split_by P s \<noteq> []"
  by (induction s) (auto split: list.splits)

lemma split_by_pieces: "w \<in> set (split_by P s) \<Longrightarrow> x \<in> set w \<Longrightarrow> x \<in> set s \<and> \<not> P x"
proof (induction s arbitrary: w)
  case (Cons c s)
  obtain v vs where v: "split_by P s = v # vs" by (meson split_by_nonempty neq_Nil_conv)
  with Cons.prems Cons.IH[of v] Cons.IH[of w] show ?case by (auto split: if_splits)
qed simp

lemma split_by_none: "\<forall>x \<in> set s. \<not> P x \<Longrightarrow> split_by P s = [s]"
  by (induction s) auto

lemma split_by_append:
  "\<forall>x \<in> set w. \<not> P x \<Longrightarrow> P c \<Longrightarrow> split_by P (w @ c # s) = w # split_by P s"
  by (induction w) auto

lemma split_by_length: "w \<in> set (split_by P s) \<Longrightarrow> length w \<le> length s"
proof (induction s arbitrary: w)
  case (Cons c s)
  obtain v vs where v: "split_by P s = v # vs" by (meson split_by_nonempty neq_Nil_conv)
  with Cons.prems Cons.IH[of v] Cons.IH[of w] show ?case by (auto split: if_splits)
qed simp

lemma join_Cons: "ws \<noteq> [] \<Longrightarrow> join sep (w # ws) = w @ sep @ join sep ws"
  by (cases ws) auto

lemma join_split_on: "join [c] (split_on c s) = s"
proof (induction s)
  case (Cons d s)
  obtain v vs where v: "split_by (\<lambda>x. x = c) s = v # vs" by (meson split_by_nonempty neq_Nil_conv)
  with Cons show ?case by (cases vs) (auto simp: split_on_def join_Cons)
qed (simp add: split_on_def)

lemma takeWhile_stop: "\<not> P y \<Longrightarrow> takeWhile P (xs @ y # ys) = takeWhile P xs"
  by (induction xs) auto

lemma split_ws_pieces:
  "w \<in> set (split_ws s) \<Longrightarrow> w \<noteq> [] \<and> (\<forall>x \<in> set w. x \<in> set s \<and> \<not> is_space x)"
  by (auto simp: split_ws_def dest: split_by_pieces)

lemma split_ws_tl_pieces: "w \<in> set (tl (split_ws s)) \<Longrightarrow> w \<noteq> [] \<and> (\<forall>x \<in> set w. \<not> is_space x)"
  by (metis list.sel(2) list.set_sel(2) split_ws_pieces)

lemma after_last_no_sep: "c \<notin> set (after_last c s)"
  by (auto simp: after_last_def dest: set_takeWhileD)

lemma after_last_set: "set (after_last c s) \<subseteq> set s"
  by (auto simp: after_last_def dest: set_takeWhileD)

lemma after_last_id: "c \<notin> set s \<Longrightarrow> after_last c s = s"
  unfolding after_last_def by (subst takeWhile_eq_all_conv[THEN iffD2]) auto

lemma after_last_append: "c \<notin> set t \<Longrightarrow> after_last c (s @ c # t) = t"
  by (simp add: after_last_def takeWhile_append)

lemma before_no_sep: "c \<notin> set (before c s)"
  by (auto simp: before_def dest: set_takeWhileD)

lemma before_id: "c \<notin> set s \<Longrightarrow> before c s = s"
  unfolding before_def by (subst takeWhile_eq_all_conv[THEN iffD2]) auto

lemma before_set: "set (before c s) \<subseteq> set s"
  by (auto simp: before_def dest: set_takeWhileD)

lemma before_append [simp]: "c \<notin> set w \<Longrightarrow> before c (w @ c # s) = w"
  by (simp add: before_def takeWhile_append)

lemma upper_Nil [simp]: "upper [] = []"
  by (simp add: upper_def)

lemma upper_Cons: "upper (c # s) = upper_char c @ upper s"
  by (simp add: upper_def)

lemma upper_append [simp]: "upper (s @ t) = upper s @ upper t"
  by (simp add: upper_def)

lemma upper_eq_Nil [simp]: "upper s = [] \<longleftrightarrow> s = []"
  by (cases s) (auto simp: upper_Cons)

lemma upper_char_stable: "d \<in> set (upper_char c) \<Longrightarrow> upper_char d = [d]"
  by (auto simp: upper_char_def Let_def split: if_splits)

lemma upper_plain_iff:
  "cp d < 65 \<or> (90 < cp d \<and> cp d < 97) \<or> (122 < cp d \<and> cp d < 192) \<Longrightarrow> d \<in> set (upper s) \<longleftrightarrow> d \<in> set s"
  by (induction s) (auto simp: upper_Cons upper_char_def Let_def dest: upper_char_id_of)

lemma upper_stable: "\<forall>d \<in> set s. upper_char d = [d] \<Longrightarrow> upper s = s"
  by (induction s) (auto simp: upper_Cons)

lemma upper_idem [simp]: "upper (upper s) = upper s"
  by (rule upper_stable) (auto simp: upper_def dest: upper_char_stable)

lemma upper_length: "length s \<le> length (upper s)"
  by (induction s) (auto simp: upper_Cons upper_char_def Let_def)

lemma upper_ascii_length: "isascii s \<Longrightarrow> length (upper s) = length s"
  by (induction s) (auto simp: upper_Cons isascii_def upper_char_ascii_case)

section \<open>Python integers from text\<close>

text \<open>
  \<open>int(s)\<close> strips whitespace, takes an optional sign and ASCII digits that single underscores may
  separate, and since Python 3.11 raises \<open>ValueError\<close> beyond 4300 digits.
\<close>

definition int_max_str_digits :: nat where
  "int_max_str_digits = 4300"

definition dec_val :: "string \<Rightarrow> int" where
  "dec_val s = foldl (\<lambda>a c. 10 * a + digit_val c) 0 s"

definition digit_groups :: "string \<Rightarrow> string option" where
  "digit_groups s =
     (let gs = split_on (CHR ''_'') s
      in if list_all (\<lambda>g. g \<noteq> [] \<and> list_all ascii_digit g) gs then Some (concat gs) else None)"

definition py_int :: "string \<Rightarrow> int res" where
  "py_int s0 =
     (let s = strip s0;
          neg = startswith s ''-'';
          body = (if neg \<or> startswith s ''+'' then tl s else s)
      in case digit_groups body of
           None \<Rightarrow> Inl ValueError
         | Some ds \<Rightarrow>
             if length ds > int_max_str_digits then Inl ValueError
             else Inr (if neg then - dec_val ds else dec_val ds))"

lemma dec_val_nonneg_aux: "list_all ascii_digit s \<Longrightarrow> 0 \<le> a \<Longrightarrow> 0 \<le> foldl (\<lambda>a c. 10 * a + digit_val c) a s"
  by (induction s arbitrary: a) (auto simp: digit_val_def ascii_digit_def)

lemma dec_val_nonneg: "list_all ascii_digit s \<Longrightarrow> 0 \<le> dec_val s"
  by (simp add: dec_val_def dec_val_nonneg_aux)

lemma dec_val_foldl: "foldl (\<lambda>a c. 10 * a + digit_val c) b s = b * 10 ^ length s + dec_val s"
proof (induction s arbitrary: b)
  case (Cons c s)
  have "dec_val (c # s) = digit_val c * 10 ^ length s + dec_val s"
    using Cons[of "digit_val c"] by (simp add: dec_val_def)
  then show ?case
    using Cons[of "10 * b + digit_val c"] by (simp add: algebra_simps)
qed (simp add: dec_val_def)

lemma dec_val_append: "dec_val (s @ t) = dec_val s * 10 ^ length t + dec_val t"
  using dec_val_foldl[of "dec_val s" t] by (simp add: dec_val_def)

lemma py_int_digits:
  assumes "s \<noteq> []" "list_all ascii_digit s" "length s \<le> int_max_str_digits"
  shows "py_int s = Inr (dec_val s)"
proof -
  from assms(2) have ns: "strip s = s"
    by (intro strip_no_space) (auto simp: list_all_iff digit_not_space)
  from assms(1,2) have hd: "\<not> startswith s ''-''" "\<not> startswith s ''+''"
    by (cases s; auto simp: ascii_digit_def)+
  have "split_on (CHR ''_'') s = [s]"
    using assms(2) by (auto simp: split_on_def list_all_iff ascii_digit_def intro!: split_by_none)
  then have "digit_groups s = Some s"
    using assms(1,2) by (simp add: digit_groups_def)
  with ns hd assms(3) show ?thesis by (simp add: py_int_def)
qed

section \<open>Dictionaries and JSON values\<close>

type_synonym ('k, 'v) dict = "('k \<times> 'v) list"

definition dict_get :: "('k, 'v) dict \<Rightarrow> 'k \<Rightarrow> 'v \<Rightarrow> 'v" where
  "dict_get d k v = (case map_of d k of None \<Rightarrow> v | Some x \<Rightarrow> x)"

definition in_dict :: "'k \<Rightarrow> ('k, 'v) dict \<Rightarrow> bool" where
  "in_dict k d \<longleftrightarrow> map_of d k \<noteq> None"

datatype json =
    JNull
  | JBool bool
  | JInt int
  | JFloat rat
  | JStr string
  | JList "json list"
  | JObj "(string \<times> json) list"

type_synonym msgd = "(string, json) dict"

fun truthy :: "json \<Rightarrow> bool" where
  "truthy JNull = False"
| "truthy (JBool b) = b"
| "truthy (JInt i) = (i \<noteq> 0)"
| "truthy (JFloat r) = (r \<noteq> 0)"
| "truthy (JStr s) = (s \<noteq> [])"
| "truthy (JList xs) = (xs \<noteq> [])"
| "truthy (JObj kvs) = (kvs \<noteq> [])"

text \<open>A string method on a value that is not a string raises \<open>AttributeError\<close>.\<close>

fun str_of :: "json \<Rightarrow> string res" where
  "str_of (JStr s) = Inr s"
| "str_of _ = Inl AttributeError"

text \<open>The defensive form \<open>v if isinstance(v, str) else default\<close>.\<close>

fun str_or :: "string \<Rightarrow> json \<Rightarrow> string" where
  "str_or d (JStr s) = s"
| "str_or d _ = d"

lemma str_of_eq_Inr [simp]: "str_of v = Inr s \<longleftrightarrow> v = JStr s"
  by (cases v) auto

lemma map_of_update_eq [dict_simps, simp]:
  "map_of (AList.update k v d) k' = (if k' = k then Some v else map_of d k')"
  by (simp add: update_conv')

lemma map_of_delete_eq [dict_simps, simp]:
  "map_of (AList.delete k d) k' = (if k' = k then None else map_of d k')"
  by (simp add: AList.delete_conv')

lemma in_dict_update [dict_simps, simp]: "in_dict k (AList.update k' v d) \<longleftrightarrow> k = k' \<or> in_dict k d"
  by (auto simp: in_dict_def)

lemma in_dict_delete [dict_simps, simp]: "in_dict k (AList.delete k' d) \<longleftrightarrow> k \<noteq> k' \<and> in_dict k d"
  by (auto simp: in_dict_def)

lemma in_dict_Nil [dict_simps, simp]: "\<not> in_dict k []"
  by (simp add: in_dict_def)

lemma in_dict_iff: "in_dict k d \<longleftrightarrow> k \<in> fst ` set d"
  by (auto simp: in_dict_def map_of_eq_None_iff)

lemma dict_get_update [dict_simps, simp]:
  "dict_get (AList.update k v d) k' w = (if k' = k then v else dict_get d k' w)"
  by (simp add: dict_get_def)

text \<open>Dictionaries under update and deletion, entry by entry.\<close>

lemma list_all_update [dict_simps]: "list_all P d \<Longrightarrow> P (k, v) \<Longrightarrow> list_all P (AList.update k v d)"
  by (induction d) auto

lemma list_all_delete [dict_simps]: "list_all P d \<Longrightarrow> list_all P (AList.delete k d)"
  by (induction d) auto

lemma list_all_lookup: "list_all P d \<Longrightarrow> map_of d k = Some v \<Longrightarrow> P (k, v)"
  by (auto simp: list_all_iff dest: map_of_SomeD)

lemma length_update [dict_simps]:
  "length (AList.update k v d) = (if in_dict k d then length d else Suc (length d))"
  by (induction d) (auto simp: in_dict_def)

lemma length_delete_le [dict_simps]: "length (AList.delete k d) \<le> length d"
  by (induction d) auto

end
