(* ===== verification/Regex.thy ===== *)
theory Regex
  imports McPrelude
begin

text \<open>
  Regular expressions as data, so that a compiled pattern of the source is transcribed symbol by
  symbol. \<open>rx_match\<close> decides a full match with Brzozowski derivatives; \<open>rx_lang\<close> is the language
  and \<open>rx_match_iff\<close> relates the two. \<open>rx_end\<close> is a match up to Python's \<open>$\<close>, which also accepts
  one trailing newline. Lookaheads at the start of a pattern are intersections (\<open>RAnd\<close>).
\<close>

datatype rx =
    RNone
  | REps
  | RCls "char \<Rightarrow> bool"
  | RSeq rx rx
  | RAlt rx rx
  | RStar rx
  | RAnd rx rx

section \<open>The matcher\<close>

fun rx_null :: "rx \<Rightarrow> bool" where
  "rx_null RNone = False"
| "rx_null REps = True"
| "rx_null (RCls P) = False"
| "rx_null (RSeq r s) = (rx_null r \<and> rx_null s)"
| "rx_null (RAlt r s) = (rx_null r \<or> rx_null s)"
| "rx_null (RStar r) = True"
| "rx_null (RAnd r s) = (rx_null r \<and> rx_null s)"

fun mk_seq :: "rx \<Rightarrow> rx \<Rightarrow> rx" where
  "mk_seq RNone s = RNone"
| "mk_seq REps s = s"
| "mk_seq r s = RSeq r s"

fun mk_alt :: "rx \<Rightarrow> rx \<Rightarrow> rx" where
  "mk_alt RNone s = s"
| "mk_alt r RNone = r"
| "mk_alt r s = RAlt r s"

fun mk_and :: "rx \<Rightarrow> rx \<Rightarrow> rx" where
  "mk_and RNone s = RNone"
| "mk_and r RNone = RNone"
| "mk_and r s = RAnd r s"

fun rx_deriv :: "char \<Rightarrow> rx \<Rightarrow> rx" where
  "rx_deriv c RNone = RNone"
| "rx_deriv c REps = RNone"
| "rx_deriv c (RCls P) = (if P c then REps else RNone)"
| "rx_deriv c (RSeq r s) =
     (if rx_null r then mk_alt (mk_seq (rx_deriv c r) s) (rx_deriv c s)
      else mk_seq (rx_deriv c r) s)"
| "rx_deriv c (RAlt r s) = mk_alt (rx_deriv c r) (rx_deriv c s)"
| "rx_deriv c (RStar r) = mk_seq (rx_deriv c r) (RStar r)"
| "rx_deriv c (RAnd r s) = mk_and (rx_deriv c r) (rx_deriv c s)"

fun rx_match :: "rx \<Rightarrow> string \<Rightarrow> bool" where
  "rx_match r [] = rx_null r"
| "rx_match r (c # s) = rx_match (rx_deriv c r) s"

definition newline :: char where
  "newline = CHR 0x0A"

definition rx_end :: "rx \<Rightarrow> string \<Rightarrow> bool" where
  "rx_end r s \<longleftrightarrow> rx_match r s \<or> (s \<noteq> [] \<and> last s = newline \<and> rx_match r (butlast s))"

subsection \<open>Derived forms\<close>

definition rx_opt :: "rx \<Rightarrow> rx" where
  "rx_opt r = RAlt REps r"

fun rx_times :: "nat \<Rightarrow> rx \<Rightarrow> rx" where
  "rx_times 0 r = REps"
| "rx_times (Suc n) r = RSeq r (rx_times n r)"

fun rx_upto :: "nat \<Rightarrow> rx \<Rightarrow> rx" where
  "rx_upto 0 r = REps"
| "rx_upto (Suc n) r = RAlt REps (RSeq r (rx_upto n r))"

text \<open>\<open>r{m,n}\<close>\<close>

definition rx_range :: "nat \<Rightarrow> nat \<Rightarrow> rx \<Rightarrow> rx" where
  "rx_range m n r = RSeq (rx_times m r) (rx_upto (n - m) r)"

definition rx_plus :: "rx \<Rightarrow> rx" where
  "rx_plus r = RSeq r (RStar r)"

definition rx_chr :: "char \<Rightarrow> rx" where
  "rx_chr c = RCls (\<lambda>x. x = c)"

text \<open>The lookahead \<open>(?=.*[P])\<close> at the start of a line without newlines.\<close>

definition rx_look :: "(char \<Rightarrow> bool) \<Rightarrow> rx" where
  "rx_look P = RSeq (RStar (RCls (\<lambda>_. True))) (RSeq (RCls P) (RStar (RCls (\<lambda>_. True))))"

section \<open>The language\<close>

inductive_set str_star :: "string set \<Rightarrow> string set" for A where
  star_Nil: "[] \<in> str_star A"
| star_app: "u \<in> A \<Longrightarrow> v \<in> str_star A \<Longrightarrow> u @ v \<in> str_star A"

fun rx_lang :: "rx \<Rightarrow> string set" where
  "rx_lang RNone = {}"
| "rx_lang REps = {[]}"
| "rx_lang (RCls P) = {[c] | c. P c}"
| "rx_lang (RSeq r s) = {u @ v | u v. u \<in> rx_lang r \<and> v \<in> rx_lang s}"
| "rx_lang (RAlt r s) = rx_lang r \<union> rx_lang s"
| "rx_lang (RStar r) = str_star (rx_lang r)"
| "rx_lang (RAnd r s) = rx_lang r \<inter> rx_lang s"

lemma rx_null_iff: "rx_null r \<longleftrightarrow> [] \<in> rx_lang r"
  by (induction r) (auto intro: star_Nil)

lemma mk_seq_lang [simp]: "rx_lang (mk_seq r s) = rx_lang (RSeq r s)"
  by (cases "(r, s)" rule: mk_seq.cases) auto

lemma mk_alt_lang [simp]: "rx_lang (mk_alt r s) = rx_lang r \<union> rx_lang s"
  by (cases "(r, s)" rule: mk_alt.cases) auto

lemma mk_and_lang [simp]: "rx_lang (mk_and r s) = rx_lang r \<inter> rx_lang s"
  by (cases "(r, s)" rule: mk_and.cases) auto

lemma star_Cons_iff:
  "c # s \<in> str_star A \<longleftrightarrow> (\<exists>u v. s = u @ v \<and> c # u \<in> A \<and> v \<in> str_star A)"
proof
  assume "c # s \<in> str_star A"
  then show "\<exists>u v. s = u @ v \<and> c # u \<in> A \<and> v \<in> str_star A"
  proof (induction "c # s" arbitrary: c s rule: str_star.induct)
    case (star_app u v)
    then show ?case by (cases u) auto
  qed
next
  assume "\<exists>u v. s = u @ v \<and> c # u \<in> A \<and> v \<in> str_star A"
  then show "c # s \<in> str_star A" by (metis append_Cons star_app)
qed

lemma rx_deriv_lang: "s \<in> rx_lang (rx_deriv c r) \<longleftrightarrow> c # s \<in> rx_lang r"
proof (induction r arbitrary: s)
  case (RSeq r1 r2)
  have "c # s \<in> rx_lang (RSeq r1 r2) \<longleftrightarrow>
      ([] \<in> rx_lang r1 \<and> c # s \<in> rx_lang r2) \<or>
      (\<exists>u v. s = u @ v \<and> c # u \<in> rx_lang r1 \<and> v \<in> rx_lang r2)"
    by (auto simp: Cons_eq_append_conv)
  then show ?case using RSeq by (auto simp: rx_null_iff)
next
  case (RStar r)
  then show ?case by (auto simp: star_Cons_iff)
qed auto

lemma rx_match_iff: "rx_match r s \<longleftrightarrow> s \<in> rx_lang r"
  by (induction s arbitrary: r) (auto simp: rx_null_iff rx_deriv_lang)

lemma str_star_cls: "s \<in> str_star {[c] | c. P c} \<longleftrightarrow> list_all P s"
proof
  assume "s \<in> str_star {[c] | c. P c}"
  then show "list_all P s" by (induction rule: str_star.induct) auto
next
  assume "list_all P s"
  then show "s \<in> str_star {[c] | c. P c}"
  proof (induction s)
    case (Cons c s)
    then have "[c] @ s \<in> str_star {[c] | c. P c}" by (intro star_app) auto
    then show ?case by simp
  qed (rule star_Nil)
qed

lemma lang_chr_seq: "s \<in> rx_lang (RSeq (rx_chr c) r) \<longleftrightarrow> (\<exists>v. s = c # v \<and> v \<in> rx_lang r)"
  by (auto simp: rx_chr_def)

lemma lang_cls_seq: "s \<in> rx_lang (RSeq (RCls P) r) \<longleftrightarrow> (\<exists>c v. s = c # v \<and> P c \<and> v \<in> rx_lang r)"
  by auto (metis append_Cons append_Nil)

lemma lang_plus_cls: "s \<in> rx_lang (rx_plus (RCls P)) \<longleftrightarrow> s \<noteq> [] \<and> list_all P s"
  by (cases s) (auto simp del: rx_lang.simps simp: rx_plus_def lang_cls_seq, auto simp: str_star_cls)

section \<open>Length bounds and alphabets of a pattern\<close>

fun rx_minlen :: "rx \<Rightarrow> nat" where
  "rx_minlen (RCls P) = 1"
| "rx_minlen (RSeq r s) = rx_minlen r + rx_minlen s"
| "rx_minlen (RAlt r s) = min (rx_minlen r) (rx_minlen s)"
| "rx_minlen (RAnd r s) = max (rx_minlen r) (rx_minlen s)"
| "rx_minlen _ = 0"

fun rx_maxlen :: "rx \<Rightarrow> nat option" where
  "rx_maxlen RNone = Some 0"
| "rx_maxlen REps = Some 0"
| "rx_maxlen (RCls P) = Some 1"
| "rx_maxlen (RSeq r s) =
     (case (rx_maxlen r, rx_maxlen s) of (Some m, Some n) \<Rightarrow> Some (m + n) | _ \<Rightarrow> None)"
| "rx_maxlen (RAlt r s) =
     (case (rx_maxlen r, rx_maxlen s) of (Some m, Some n) \<Rightarrow> Some (max m n) | _ \<Rightarrow> None)"
| "rx_maxlen (RStar r) = None"
| "rx_maxlen (RAnd r s) =
     (case (rx_maxlen r, rx_maxlen s) of
        (Some m, Some n) \<Rightarrow> Some (min m n) | (Some m, None) \<Rightarrow> Some m | (None, x) \<Rightarrow> x)"

fun rx_alpha :: "rx \<Rightarrow> char \<Rightarrow> bool" where
  "rx_alpha RNone c = False"
| "rx_alpha REps c = False"
| "rx_alpha (RCls P) c = P c"
| "rx_alpha (RSeq r s) c = (rx_alpha r c \<or> rx_alpha s c)"
| "rx_alpha (RAlt r s) c = (rx_alpha r c \<or> rx_alpha s c)"
| "rx_alpha (RStar r) c = rx_alpha r c"
| "rx_alpha (RAnd r s) c = (rx_alpha r c \<and> rx_alpha s c)"

lemma rx_minlen_le: "s \<in> rx_lang r \<Longrightarrow> rx_minlen r \<le> length s"
  by (induction r arbitrary: s) (force simp: min_le_iff_disj intro: add_mono)+

lemma rx_maxlen_ge: "s \<in> rx_lang r \<Longrightarrow> rx_maxlen r = Some n \<Longrightarrow> length s \<le> n"
  by (induction r arbitrary: s n)
    (force split: option.splits simp: le_max_iff_disj min_le_iff_disj intro: add_mono)+

lemma star_alpha:
  "s \<in> str_star A \<Longrightarrow> (\<And>u. u \<in> A \<Longrightarrow> list_all P u) \<Longrightarrow> list_all P s"
  by (induction rule: str_star.induct) auto

lemma rx_alpha_all: "s \<in> rx_lang r \<Longrightarrow> list_all (rx_alpha r) s"
proof (induction r arbitrary: s)
  case (RStar r)
  then show ?case using star_alpha[of s "rx_lang r" "rx_alpha r"] by auto
next
  case (RSeq r1 r2)
  then obtain u v where "s = u @ v" "list_all (rx_alpha r1) u" "list_all (rx_alpha r2) v"
    by auto
  then show ?case by (auto simp: list_all_iff)
next
  case (RAlt r1 r2)
  then have "list_all (rx_alpha r1) s \<or> list_all (rx_alpha r2) s" by auto
  then show ?case by (auto simp: list_all_iff)
next
  case (RAnd r1 r2)
  then have "list_all (rx_alpha r1) s \<and> list_all (rx_alpha r2) s" by auto
  then show ?case by (auto simp: list_all_iff)
qed auto

lemma rx_match_bounds:
  "rx_match r s \<Longrightarrow> rx_maxlen r = Some n \<Longrightarrow> rx_minlen r \<le> length s \<and> length s \<le> n"
  by (simp add: rx_match_iff rx_minlen_le rx_maxlen_ge)

lemma rx_match_alpha: "rx_match r s \<Longrightarrow> c \<in> set s \<Longrightarrow> rx_alpha r c"
  using rx_alpha_all[of s r] by (auto simp: rx_match_iff list_all_iff)

lemma rx_end_no_newline: "newline \<notin> set s \<Longrightarrow> rx_end r s \<longleftrightarrow> rx_match r s"
  by (auto simp: rx_end_def in_set_conv_decomp) (metis append_butlast_last_id last_in_set)+

lemma rx_times_alpha: "rx_alpha (rx_times n r) c \<Longrightarrow> rx_alpha r c"
  by (induction n) auto

lemma rx_upto_alpha: "rx_alpha (rx_upto n r) c \<Longrightarrow> rx_alpha r c"
  by (induction n) auto

lemma rx_alpha_simps [simp]:
  "rx_alpha (rx_opt r) c = rx_alpha r c"
  "rx_alpha (rx_plus r) c = rx_alpha r c"
  "rx_alpha (rx_chr d) c = (c = d)"
  by (auto simp: rx_opt_def rx_plus_def rx_chr_def)

lemma rx_range_alpha: "rx_alpha (rx_range m n r) c \<Longrightarrow> rx_alpha r c"
  by (auto simp: rx_range_def dest: rx_times_alpha rx_upto_alpha)

lemmas rx_form_defs = rx_opt_def rx_plus_def rx_chr_def rx_range_def rx_look_def

end
