(* ===== verification/Callsigns.thy ===== *)
theory Callsigns
  imports Regex
begin

text \<open>
  The callsign patterns of \<open>commands/constants.py\<close>, the callsign and ack-suffix helpers of
  \<open>util.py\<close> and \<open>strip_relay_path\<close> of \<open>commands/parsing.py\<close>.
\<close>

section \<open>Patterns (commands/constants.py)\<close>

definition alnum_upper :: "char \<Rightarrow> bool" where
  "alnum_upper c \<longleftrightarrow> ascii_upper c \<or> ascii_digit c"

text \<open>\<open>(-\d{1,2})?\<close>\<close>

definition ssid_opt :: rx where
  "ssid_opt = rx_opt (RSeq (rx_chr (CHR ''-'')) (rx_range 1 2 (RCls ascii_digit)))"

definition CALLSIGN_TARGET_RE :: rx where
  "CALLSIGN_TARGET_RE =
     RAnd (rx_look ascii_upper) (RAnd (rx_look ascii_digit)
       (RSeq (rx_range 3 8 (RCls alnum_upper)) ssid_opt))"

definition CALLSIGN_STRICT_RE :: rx where
  "CALLSIGN_STRICT_RE =
     RSeq (RAlt (rx_range 1 2 (RCls ascii_upper))
            (RAlt (RSeq (RCls ascii_digit) (rx_range 1 2 (RCls ascii_upper)))
              (RSeq (RCls ascii_upper) (RCls ascii_digit))))
       (RSeq (RCls ascii_digit) (RSeq (rx_range 1 3 (RCls ascii_upper)) ssid_opt))"

definition DST_CALLSIGN_RE :: rx where
  "DST_CALLSIGN_RE = RSeq (rx_range 2 8 (RCls alnum_upper)) ssid_opt"

text \<open>The first and third end in \<open>$\<close>, the strict one in \<open>\Z\<close>.\<close>

definition callsign_target :: "string \<Rightarrow> bool" where
  "callsign_target s \<longleftrightarrow> rx_end CALLSIGN_TARGET_RE s"

definition callsign_strict :: "string \<Rightarrow> bool" where
  "callsign_strict s \<longleftrightarrow> rx_match CALLSIGN_STRICT_RE s"

definition dst_callsign :: "string \<Rightarrow> bool" where
  "dst_callsign s \<longleftrightarrow> rx_end DST_CALLSIGN_RE s"

lemmas callsign_pattern_defs = CALLSIGN_TARGET_RE_def CALLSIGN_STRICT_RE_def DST_CALLSIGN_RE_def
  ssid_opt_def

text \<open>Evaluating a pattern on a literal: unfold the forms and compute derivatives.\<close>

lemmas callsign_eval = callsign_target_def callsign_strict_def dst_callsign_def
  callsign_pattern_defs rx_form_defs rx_end_def newline_def alnum_upper_def char_class_defs
  eval_nat_numeral

definition call_char :: "char \<Rightarrow> bool" where
  "call_char c \<longleftrightarrow> alnum_upper c \<or> c = CHR ''-''"

lemma ssid_opt_alpha: "rx_alpha ssid_opt c \<Longrightarrow> call_char c"
  by (auto simp: ssid_opt_def call_char_def alnum_upper_def dest!: rx_range_alpha)

lemma CALLSIGN_STRICT_RE_alpha: "rx_alpha CALLSIGN_STRICT_RE c \<Longrightarrow> call_char c"
  by (auto simp: CALLSIGN_STRICT_RE_def call_char_def alnum_upper_def
      dest!: rx_range_alpha ssid_opt_alpha)

lemma CALLSIGN_TARGET_RE_alpha: "rx_alpha CALLSIGN_TARGET_RE c \<Longrightarrow> call_char c"
  by (auto simp: CALLSIGN_TARGET_RE_def call_char_def dest!: rx_range_alpha ssid_opt_alpha)

lemma callsign_strict_chars: "callsign_strict s \<Longrightarrow> list_all call_char s"
  unfolding callsign_strict_def list_all_iff
  by (blast dest: rx_match_alpha CALLSIGN_STRICT_RE_alpha)

lemma callsign_target_chars:
  "callsign_target s \<Longrightarrow> newline \<notin> set s \<Longrightarrow> list_all call_char s"
  unfolding callsign_target_def list_all_iff rx_end_no_newline
  by (blast dest: rx_match_alpha CALLSIGN_TARGET_RE_alpha)

lemma callsign_strict_len:
  "callsign_strict s \<Longrightarrow> 3 \<le> length s \<and> length s \<le> 10"
  unfolding callsign_strict_def
  using rx_match_bounds[of CALLSIGN_STRICT_RE s 10]
  by (simp add: callsign_pattern_defs rx_form_defs eval_nat_numeral)

lemma callsign_target_len:
  "rx_match CALLSIGN_TARGET_RE s \<Longrightarrow> 3 \<le> length s \<and> length s \<le> 11"
  using rx_match_bounds[of CALLSIGN_TARGET_RE s 11]
  by (simp add: callsign_pattern_defs rx_form_defs eval_nat_numeral)

lemma callsign_target_nonempty [simp]: "\<not> callsign_target []"
  by (simp add: callsign_target_def rx_end_def callsign_pattern_defs rx_form_defs)

lemma call_char_simps: "call_char c \<Longrightarrow> c \<noteq> CHR '','' \<and> c \<noteq> CHR '':'' \<and> c \<noteq> CHR ''*'' \<and>
    c \<noteq> CHR ''#'' \<and> \<not> is_space c \<and> is_ascii c \<and> upper_char c = [c]"
  by (auto simp: call_char_def alnum_upper_def char_class_defs upper_char_def Let_def)

lemma call_chars_upper: "list_all call_char s \<Longrightarrow> upper s = s"
  by (rule upper_stable) (auto simp: list_all_iff dest: call_char_simps)

lemma call_chars_strip: "list_all call_char s \<Longrightarrow> strip s = s"
  by (rule strip_no_space) (auto simp: list_all_iff dest: call_char_simps)

section \<open>Helpers of util.py\<close>

definition PLACEHOLDER_CALLSIGN_BASES :: "string list" where
  "PLACEHOLDER_CALLSIGN_BASES = [''XX0XXX'', ''DK0XXX'', ''DX0XXX'']"

definition is_placeholder_callsign :: "string \<Rightarrow> bool" where
  "is_placeholder_callsign callsign =
     (if callsign = [] then False
      else before (CHR ''-'') (upper (strip callsign)) \<in> set PLACEHOLDER_CALLSIGN_BASES)"

text \<open>
  \<open>ACK_SUFFIX_RE\<close> is \<open>\{([0-9]+)$\<close>: an opening brace, one or more digits, then the end or one
  newline. A digit is no brace, so there is at most one match: the last brace, followed by digits.
  \<open>drop_nl\<close> is the text in front of which \<open>$\<close> may match.
\<close>

definition drop_nl :: "string \<Rightarrow> string \<times> string" where
  "drop_nl s = (if s \<noteq> [] \<and> last s = newline then (butlast s, [newline]) else (s, []))"

text \<open>The digits at the end of the text, and what stands before them.\<close>

definition trailing_digits :: "string \<Rightarrow> string \<times> string" where
  "trailing_digits s =
     (rev (dropWhile ascii_digit (rev s)), rev (takeWhile ascii_digit (rev s)))"

text \<open>A match: the text before the brace, the digits, and the newline that \<open>$\<close> left unmatched.\<close>

definition ack_suffix_match :: "(nat \<Rightarrow> bool) \<Rightarrow> string \<Rightarrow> (string \<times> string \<times> string) option" where
  "ack_suffix_match width text =
     (let (body, nl) = drop_nl text; (pre, ds) = trailing_digits body
      in if width (length ds) \<and> pre \<noteq> [] \<and> last pre = CHR ''{''
         then Some (butlast pre, ds, nl) else None)"

definition ack_suffix :: "string \<Rightarrow> (string \<times> string \<times> string) option" where
  "ack_suffix text = ack_suffix_match (\<lambda>n. 1 \<le> n) text"

definition match_ack_suffix :: "string \<Rightarrow> (string \<times> string \<times> string) option" where
  "match_ack_suffix text = ack_suffix_match (\<lambda>n. n = 3) text"

definition strip_ack_suffix :: "string \<Rightarrow> string" where
  "strip_ack_suffix text =
     strip (case ack_suffix text of Some (pre, ds, nl) \<Rightarrow> pre @ nl | None \<Rightarrow> text)"

lemma trailing_digits_split:
  "trailing_digits s = (p, d) \<Longrightarrow> s = p @ d \<and> list_all ascii_digit d \<and>
     (p = [] \<or> \<not> ascii_digit (last p))"
proof -
  assume "trailing_digits s = (p, d)"
  then have p: "p = rev (dropWhile ascii_digit (rev s))"
    and d: "d = rev (takeWhile ascii_digit (rev s))"
    by (auto simp: trailing_digits_def)
  have "s = p @ d" unfolding p d by (metis rev_append rev_rev_ident takeWhile_dropWhile_id)
  moreover have "list_all ascii_digit d" by (auto simp: d list_all_iff dest: set_takeWhileD)
  moreover have "p = [] \<or> \<not> ascii_digit (last p)"
    unfolding p by (metis hd_dropWhile last_rev rev_is_Nil_conv dropWhile_eq_Nil_conv)
  ultimately show ?thesis by blast
qed

lemma trailing_digits_append:
  assumes "list_all ascii_digit d" "\<not> ascii_digit c"
  shows "trailing_digits (p @ c # d) = (p @ [c], d)"
proof -
  have "rev (p @ c # d) = rev d @ c # rev p" by simp
  moreover have "\<forall>x \<in> set (rev d). ascii_digit x" using assms(1) by (simp add: list_all_iff)
  ultimately show ?thesis using assms(2)
    by (simp add: trailing_digits_def dropWhile_append takeWhile_append)
qed

lemma drop_nl_eq: "drop_nl s = (b, n) \<Longrightarrow> s = b @ n"
  by (auto simp: drop_nl_def split: if_splits) (metis append_butlast_last_id)

lemma drop_nl_no_newline: "s = [] \<or> last s \<noteq> newline \<Longrightarrow> drop_nl s = (s, [])"
  by (auto simp: drop_nl_def)

lemma ack_suffix_match_sound:
  "ack_suffix_match w text = Some (pre, ds, nl) \<Longrightarrow>
     text = pre @ CHR ''{'' # ds @ nl \<and> list_all ascii_digit ds \<and> w (length ds)"
proof -
  assume m: "ack_suffix_match w text = Some (pre, ds, nl)"
  obtain body nl' where b: "drop_nl text = (body, nl')" by fastforce
  obtain p d where p: "trailing_digits body = (p, d)" by fastforce
  from m b p have *: "w (length d)" "p \<noteq> []" "last p = CHR ''{''" "pre = butlast p" "ds = d" "nl = nl'"
    by (auto simp: ack_suffix_match_def split: if_splits)
  from *(2,3) have "p = butlast p @ [CHR ''{'']" by (metis append_butlast_last_id)
  with b p * show ?thesis
    by (metis append.assoc append_Cons append_Nil drop_nl_eq trailing_digits_split)
qed

lemma ack_suffix_match_complete:
  assumes "list_all ascii_digit ds" "ds \<noteq> []" "w (length ds)"
  shows "ack_suffix_match w (pre @ CHR ''{'' # ds) = Some (pre, ds, [])"
proof -
  have "last (pre @ CHR ''{'' # ds) \<noteq> newline"
    using assms(1,2) by (auto simp: list_all_iff newline_def ascii_digit_def dest!: bspec[OF _ last_in_set])
  then have "drop_nl (pre @ CHR ''{'' # ds) = (pre @ CHR ''{'' # ds, [])"
    by (intro drop_nl_no_newline) blast
  moreover have "trailing_digits (pre @ CHR ''{'' # ds) = (pre @ [CHR ''{''], ds)"
    using assms(1) by (intro trailing_digits_append) (auto simp: ascii_digit_def)
  ultimately show ?thesis using assms(3) by (simp add: ack_suffix_match_def)
qed

lemma strip_ack_suffix_length: "length (strip_ack_suffix t) \<le> length t"
proof (cases "ack_suffix t")
  case None
  then show ?thesis by (simp add: strip_ack_suffix_def strip_length)
next
  case (Some m)
  obtain pre ds nl where m: "m = (pre, ds, nl)" by (cases m)
  with Some have "t = pre @ CHR ''{'' # ds @ nl"
    by (auto simp: ack_suffix_def dest: ack_suffix_match_sound)
  with Some m show ?thesis
    using strip_length[of "pre @ nl"] by (simp add: strip_ack_suffix_def)
qed

section \<open>Relay paths (commands/parsing.py)\<close>

definition strip_relay_path :: "string \<Rightarrow> string" where
  "strip_relay_path src_raw =
     (if CHR '','' \<in> set src_raw then upper (strip (before (CHR '','') src_raw))
      else upper (strip src_raw))"

lemma strip_relay_path_eq: "strip_relay_path s = upper (strip (before (CHR '','') s))"
  by (simp add: strip_relay_path_def before_id)

lemma strip_relay_path_no_comma: "CHR '','' \<notin> set (strip_relay_path s)"
proof
  assume "CHR '','' \<in> set (strip_relay_path s)"
  then have "CHR '','' \<in> set (strip (before (CHR '','') s))"
    by (simp add: strip_relay_path_eq upper_plain_iff)
  then have "CHR '','' \<in> set (before (CHR '','') s)"
    using strip_set by blast
  then show False by (simp add: before_no_sep)
qed

end
