(* ===== verification/Destinations.thy ===== *)
theory Destinations
  imports Callsigns
begin

text \<open>
  Destination classification: \<open>is_group\<close>, \<open>resolve_dst_target\<close>, \<open>is_hashtag\<close> and \<open>dst_kind\<close> of
  \<open>commands/parsing.py\<close>, and \<open>compute_conversation_key\<close> of \<open>storage/constants.py\<close>.
\<close>

section \<open>Operations\<close>

definition MAX_GROUP_NUM :: int where
  "MAX_GROUP_NUM = 99999"

text \<open>\<open>int()\<close> raises on more than 4300 digits, so the predicate can raise.\<close>

definition is_group :: "string \<Rightarrow> bool res" where
  "is_group dst =
     (if dst = [] then Inr False
      else if upper dst = ''TEST'' then Inr True
      else if isascii dst \<and> isdigit dst then
        bind_res (py_int dst) (\<lambda>n. Inr (1 \<le> n \<and> n \<le> MAX_GROUP_NUM))
      else Inr False)"

definition hashtag_char :: "char \<Rightarrow> bool" where
  "hashtag_char c \<longleftrightarrow> ascii_upper c \<or> ascii_lower c \<or> ascii_digit c \<or> c = CHR ''-''"

definition HASHTAG_DST_RE :: rx where
  "HASHTAG_DST_RE = RSeq (rx_chr (CHR ''#'')) (rx_plus (RCls hashtag_char))"

definition resolve_dst_target :: "string \<Rightarrow> string" where
  "resolve_dst_target dst = strip (after_last (CHR '','') dst)"

definition is_hashtag :: "string \<Rightarrow> bool" where
  "is_hashtag dst = (if dst = [] then False else rx_end HASHTAG_DST_RE (resolve_dst_target dst))"

datatype dkind = Broadcast | Group | Hashtag | Direct | Unknown

definition dst_kind :: "string \<Rightarrow> dkind res" where
  "dst_kind dst =
     (let target = resolve_dst_target dst in
      if target = [] then Inr Unknown
      else if upper target = ''*'' \<or> upper target = ''ALL'' then Inr Broadcast
      else bind_res (is_group target) (\<lambda>g.
        if g then Inr Group
        else if is_hashtag target then Inr Hashtag
        else if startswith target ''#'' \<or> (isascii target \<and> isdigit target) then Inr Unknown
        else Inr Direct))"

definition compute_conversation_key :: "string \<Rightarrow> string \<Rightarrow> string option res" where
  "compute_conversation_key src dst =
     (if dst = [] then Inr None
      else let target = resolve_dst_target dst in
        bind_res (is_group target) (\<lambda>g.
          if g \<or> target = ''*'' then Inr (Some target)
          else if is_hashtag target then Inr (Some target)
          else if startswith target ''#'' \<or> (isascii target \<and> isdigit target) then Inr None
          else let base_src = before (CHR ''-'') (before (CHR '','') src);
                   base_dst = before (CHR ''-'') target;
                   pair = sort [base_src, base_dst]
               in Inr (Some (pair ! 0 @ ''<>'' @ pair ! 1))))"

section \<open>Groups\<close>

lemma isascii_isdigit: "isascii s \<and> isdigit s \<longleftrightarrow> s \<noteq> [] \<and> list_all ascii_digit s"
  by (auto simp: isascii_def isdigit_def list_all_iff ascii_is_digit_iff) (auto simp: char_class_defs)

lemma digits_not_TEST: "list_all ascii_digit s \<Longrightarrow> upper s \<noteq> ''TEST''"
proof -
  assume d: "list_all ascii_digit s"
  then have "upper s = s"
    by (intro upper_stable) (auto simp: list_all_iff char_class_defs upper_char_def)
  with d show ?thesis by (auto simp: char_class_defs)
qed

lemma strip_digits: "list_all ascii_digit s \<Longrightarrow> strip s = s"
  by (rule strip_no_space) (auto simp: list_all_iff digit_not_space)

lemma digit_groups_digits: "s \<noteq> [] \<Longrightarrow> list_all ascii_digit s \<Longrightarrow> digit_groups s = Some s"
proof -
  assume s: "s \<noteq> []" "list_all ascii_digit s"
  then have "split_on (CHR ''_'') s = [s]"
    by (auto simp: split_on_def list_all_iff ascii_digit_def intro!: split_by_none)
  with s show ?thesis by (simp add: digit_groups_def)
qed

lemma py_int_all_digits:
  assumes "s \<noteq> []" "list_all ascii_digit s"
  shows "py_int s = (if length s \<le> int_max_str_digits then Inr (dec_val s) else Inl ValueError)"
proof (cases "length s \<le> int_max_str_digits")
  case True
  with assms show ?thesis by (simp add: py_int_digits)
next
  case False
  from assms have "\<not> startswith s ''-''" "\<not> startswith s ''+''"
    by (cases s; auto simp: ascii_digit_def)+
  with False assms show ?thesis
    by (simp add: py_int_def strip_digits digit_groups_digits)
qed

text \<open>The group predicate as a specification, on inputs where it returns.\<close>

definition group_spec :: "string \<Rightarrow> bool" where
  "group_spec dst \<longleftrightarrow> upper dst = ''TEST'' \<or>
     (dst \<noteq> [] \<and> list_all ascii_digit dst \<and> 1 \<le> dec_val dst \<and> dec_val dst \<le> 99999)"

lemma is_group_eq:
  "is_group dst =
     (if dst \<noteq> [] \<and> list_all ascii_digit dst \<and> int_max_str_digits < length dst
      then Inl ValueError else Inr (group_spec dst))"
proof (cases "dst \<noteq> [] \<and> list_all ascii_digit dst")
  case True
  then show ?thesis
    by (simp add: is_group_def digits_not_TEST isascii_isdigit py_int_all_digits group_spec_def
        MAX_GROUP_NUM_def)
next
  case False
  then show ?thesis
    by (auto simp: is_group_def isascii_isdigit group_spec_def)
qed

lemma is_group_Inr: "is_group dst = Inr b \<Longrightarrow> b = group_spec dst"
  by (simp add: is_group_eq split: if_splits)

lemma is_group_bounded: "length dst \<le> int_max_str_digits \<Longrightarrow> is_group dst = Inr (group_spec dst)"
  by (simp add: is_group_eq)

lemma group_spec_Nil [simp]: "\<not> group_spec []"
  by (simp add: group_spec_def)

lemma is_group_Nil [simp]: "is_group [] = Inr False"
  by (simp add: is_group_def)

lemma group_spec_hash: "startswith s ''#'' \<Longrightarrow> \<not> group_spec s"
proof
  assume s: "startswith s ''#''" and g: "group_spec s"
  then have "CHR ''#'' \<in> set s" by (auto simp: startswith_prefix prefix_def)
  then have "CHR ''#'' \<in> set (upper s)" by (subst upper_plain_iff) auto
  with g have "list_all ascii_digit s" by (auto simp: group_spec_def)
  with \<open>CHR ''#'' \<in> set s\<close> show False by (auto simp: list_all_iff ascii_digit_def)
qed

section \<open>Hashtags\<close>

lemma resolve_Nil [simp]: "resolve_dst_target [] = []"
  by (simp add: resolve_dst_target_def after_last_def strip_def lstrip_def rstrip_def)

lemma hashtag_lang:
  "rx_match HASHTAG_DST_RE s \<longleftrightarrow> (\<exists>t. s = CHR ''#'' # t \<and> t \<noteq> [] \<and> list_all hashtag_char t)"
  by (simp only: rx_match_iff HASHTAG_DST_RE_def lang_chr_seq lang_plus_cls)

lemma resolve_strip: "strip (resolve_dst_target dst) = resolve_dst_target dst"
  by (simp add: resolve_dst_target_def)

lemma resolve_no_comma: "CHR '','' \<notin> set (resolve_dst_target dst)"
  using after_last_no_sep strip_set by (fastforce simp: resolve_dst_target_def)

lemma resolve_idem [simp]: "resolve_dst_target (resolve_dst_target dst) = resolve_dst_target dst"
  using resolve_no_comma[of dst] by (simp add: resolve_dst_target_def after_last_id)

lemma resolve_length: "length (resolve_dst_target dst) \<le> length dst"
proof -
  have "length (after_last (CHR '','') dst) \<le> length dst"
    by (metis after_last_def length_rev length_takeWhile_le)
  then show ?thesis using strip_length le_trans by (fastforce simp: resolve_dst_target_def)
qed

lemma strip_last: "strip s \<noteq> [] \<Longrightarrow> \<not> is_space (last (strip s))"
  by (simp add: strip_def last_rstrip)

lemma resolve_end_match: "rx_end r (resolve_dst_target dst) \<longleftrightarrow> rx_match r (resolve_dst_target dst)"
proof -
  have "resolve_dst_target dst = [] \<or> last (resolve_dst_target dst) \<noteq> newline"
    using strip_last[of "after_last (CHR '','') dst"]
    by (auto simp: resolve_dst_target_def newline_def is_space_def)
  then show ?thesis by (auto simp: rx_end_def)
qed

lemma is_hashtag_eq:
  "is_hashtag dst \<longleftrightarrow>
     (\<exists>t. resolve_dst_target dst = CHR ''#'' # t \<and> t \<noteq> [] \<and> list_all hashtag_char t)"
  by (cases "dst = []") (simp_all add: is_hashtag_def resolve_end_match hashtag_lang)

lemma is_hashtag_hash: "is_hashtag dst \<Longrightarrow> startswith (resolve_dst_target dst) ''#''"
  by (auto simp: is_hashtag_eq)

section \<open>Kinds and keys\<close>

lemma via_resolve [simp]:
  "resolve_dst_target (via @ CHR '','' # t) = resolve_dst_target t"
proof -
  have "after_last (CHR '','') (via @ CHR '','' # t) = after_last (CHR '','') t"
  proof (cases "CHR '','' \<in> set t")
    case True
    then obtain u v where "t = u @ CHR '','' # v" "CHR '','' \<notin> set v"
      by (metis split_list_last)
    then show ?thesis
      using after_last_append[of "CHR '',''" v "via @ CHR '','' # u"] after_last_append[of "CHR '',''" v u]
      by simp
  next
    case False
    then show ?thesis by (simp add: after_last_append after_last_id)
  qed
  then show ?thesis by (simp add: resolve_dst_target_def)
qed

lemma dst_kind_via: "dst_kind (via @ CHR '','' # t) = dst_kind t"
  by (simp add: dst_kind_def)

lemma dst_kind_resolved: "dst_kind (resolve_dst_target dst) = dst_kind dst"
  by (simp add: dst_kind_def)

lemma is_hashtag_resolved: "is_hashtag (resolve_dst_target dst) = is_hashtag dst"
  by (simp add: is_hashtag_eq)

lemmas key_defs = compute_conversation_key_def dst_kind_def Let_def

lemma sort_pair: "sort [a, b] = (if a \<le> b then [a, b] else [b, a :: string])"
  by simp

lemma dst_kind_Direct_iff:
  "dst_kind dst = Inr Direct \<longleftrightarrow>
     (let t = resolve_dst_target dst in
      t \<noteq> [] \<and> upper t \<noteq> ''*'' \<and> upper t \<noteq> ''ALL'' \<and> is_group t = Inr False \<and>
      \<not> is_hashtag dst \<and> \<not> startswith t ''#'' \<and> \<not> (isascii t \<and> isdigit t))"
  by (auto simp: dst_kind_def Let_def is_hashtag_resolved split: if_splits)

lemma dst_kind_keyed_iff:
  "dst_kind dst = Inr Group \<or> dst_kind dst = Inr Hashtag \<longleftrightarrow>
     (let t = resolve_dst_target dst in
      t \<noteq> [] \<and> upper t \<noteq> ''*'' \<and> upper t \<noteq> ''ALL'' \<and>
      (is_group t = Inr True \<or> is_group t = Inr False \<and> is_hashtag dst))"
  by (auto simp: dst_kind_def Let_def is_hashtag_resolved split: if_splits)

lemma upper_star: "upper ''*'' = ''*''"
  by (simp add: upper_def upper_char_def)

lemma conversation_key_keyed:
  assumes "dst_kind dst = Inr Group \<or> dst_kind dst = Inr Hashtag"
  shows "compute_conversation_key src dst = Inr (Some (resolve_dst_target dst))"
proof -
  from assms have "dst \<noteq> []" by (auto simp: dst_kind_keyed_iff Let_def)
  with assms show ?thesis
    unfolding dst_kind_keyed_iff compute_conversation_key_def Let_def
    by (auto simp: is_hashtag_resolved)
qed

lemma conversation_key_direct:
  assumes "dst_kind dst = Inr Direct"
  shows "compute_conversation_key src dst =
    (let a = before (CHR ''-'') (before (CHR '','') src); b = before (CHR ''-'') (resolve_dst_target dst)
     in Inr (Some (if a \<le> b then a @ ''<>'' @ b else b @ ''<>'' @ a)))"
proof -
  from assms have "dst \<noteq> []" "resolve_dst_target dst \<noteq> ''*''"
    by (auto simp: dst_kind_Direct_iff Let_def upper_star)
  with assms show ?thesis
    unfolding dst_kind_Direct_iff compute_conversation_key_def Let_def
    by (simp add: is_hashtag_resolved)
qed

section \<open>Properties\<close>

lemma dst_kind_Unknown_iff:
  "dst_kind dst = Inr Unknown \<longleftrightarrow>
     (let t = resolve_dst_target dst in
      t = [] \<or> upper t \<noteq> ''*'' \<and> upper t \<noteq> ''ALL'' \<and> is_group t = Inr False \<and>
      \<not> is_hashtag dst \<and> (startswith t ''#'' \<or> isascii t \<and> isdigit t))"
  by (auto simp: dst_kind_def Let_def is_hashtag_resolved split: if_splits)

lemma hash_no_group_key:
  assumes "dst_kind dst = Inr Unknown" "resolve_dst_target dst \<noteq> []"
  shows "compute_conversation_key src dst = Inr None"
proof -
  from assms have "dst \<noteq> []" "resolve_dst_target dst \<noteq> ''*''"
    by (auto simp: dst_kind_Unknown_iff Let_def upper_star)
  with assms show ?thesis
    unfolding dst_kind_Unknown_iff compute_conversation_key_def Let_def
    by (simp add: is_hashtag_resolved)
qed

lemma empty_target_key:
  assumes "dst \<noteq> []" "resolve_dst_target dst = []"
  shows "compute_conversation_key src dst =
    Inr (Some (''<>'' @ before (CHR ''-'') (before (CHR '','') src)))"
  using assms by (simp add: key_defs is_hashtag_eq isdigit_def before_def)

text \<open>The group predicate raises exactly on an all-digit destination of more than 4300 digits
  (Python's limit for \<open>int()\<close>), and on every other input it returns whether the destination is
  TEST in any case or an all-digit string of value 1 to 99999, leading zeros allowed.\<close>

theorem is_group_decides:
  "is_group dst =
     (if list_all ascii_digit dst \<and> 4300 < length dst then Inl ValueError
      else Inr (upper dst = ''TEST'' \<or>
        (dst \<noteq> [] \<and> list_all ascii_digit dst \<and> 1 \<le> dec_val dst \<and> dec_val dst \<le> 99999)))"
  by (auto simp: is_group_eq group_spec_def int_max_str_digits_def)

text \<open>Conversation keys follow the destination kind. Groups and hashtags key on the resolved
  target verbatim, whatever the sender and the relay prefix; an unknown destination has no key
  exactly when it is empty or its resolved target is not (a destination that ends in a comma is
  unknown and still gets the degenerate pair of the sender with the empty string).\<close>

theorem conversation_key_by_kind:
  assumes "dst_kind dst = Inr k"
  shows "(k = Group \<or> k = Hashtag \<longrightarrow>
           compute_conversation_key src (via @ CHR '','' # dst) = Inr (Some (resolve_dst_target dst)))
       \<and> (k = Unknown \<longrightarrow>
           (compute_conversation_key src dst = Inr None \<longleftrightarrow> dst = [] \<or> resolve_dst_target dst \<noteq> []))"
proof (intro conjI impI)
  assume "k = Group \<or> k = Hashtag"
  with assms have "dst_kind (via @ CHR '','' # dst) = Inr Group \<or>
      dst_kind (via @ CHR '','' # dst) = Inr Hashtag"
    by (auto simp: dst_kind_via)
  from conversation_key_keyed[OF this]
  show "compute_conversation_key src (via @ CHR '','' # dst) = Inr (Some (resolve_dst_target dst))"
    by simp
next
  assume k: "k = Unknown"
  show "compute_conversation_key src dst = Inr None \<longleftrightarrow> dst = [] \<or> resolve_dst_target dst \<noteq> []"
  proof (cases "dst = [] \<or> resolve_dst_target dst \<noteq> []")
    case True
    with assms k show ?thesis
      by (cases "dst = []") (auto simp: hash_no_group_key, simp add: compute_conversation_key_def)
  next
    case False
    then show ?thesis by (simp add: empty_target_key)
  qed
qed

theorem conversation_key_by_kind_witness:
  "compute_conversation_key ''DK5EN'' ''OE1KBC-12,#OE-SOTA'' = Inr (Some ''#OE-SOTA'') \<and>
   compute_conversation_key ''DK5EN'' ''OE1KBC-12,'' \<noteq> Inr None"
proof -
  have h: "dst_kind ''#OE-SOTA'' = Inr Hashtag" by code_simp
  have u: "dst_kind ''OE1KBC-12,'' = Inr Unknown" "resolve_dst_target ''OE1KBC-12,'' = []"
    by code_simp+
  have r: "resolve_dst_target ''#OE-SOTA'' = ''#OE-SOTA''" by code_simp
  show ?thesis
    using conversation_key_by_kind[OF h, of "''DK5EN''" "''OE1KBC-12''"]
      conversation_key_by_kind[OF u(1), of "''DK5EN''"] u(2) r by simp
qed

text \<open>Two stations that write to each other directly share one conversation: the key of a
  message from one callsign to the other does not depend on the direction, nor on the SSIDs.\<close>

theorem conversation_key_symmetric:
  assumes "dst_kind a = Inr Direct" "dst_kind b = Inr Direct"
    and "resolve_dst_target a = a" "resolve_dst_target b = b"
  shows "compute_conversation_key a b = compute_conversation_key b a \<and>
    compute_conversation_key (before (CHR ''-'') a) b = compute_conversation_key a b"
proof -
  have nc: "CHR '','' \<notin> set a" "CHR '','' \<notin> set b"
    using resolve_no_comma assms(3,4) by metis+
  have "CHR '','' \<notin> set (before (CHR ''-'') a)" using nc before_set by blast
  moreover have "before (CHR ''-'') (before (CHR ''-'') a) = before (CHR ''-'') a"
    by (simp add: before_id before_no_sep)
  ultimately show ?thesis
    using assms nc by (auto simp: conversation_key_direct before_id Let_def)
qed

theorem conversation_key_symmetric_witness:
  "compute_conversation_key ''DK5EN-9'' ''OE1ABC'' = compute_conversation_key ''OE1ABC'' ''DK5EN-9''"
proof -
  have "dst_kind ''DK5EN-9'' = Inr Direct" "dst_kind ''OE1ABC'' = Inr Direct"
    "resolve_dst_target ''DK5EN-9'' = ''DK5EN-9''" "resolve_dst_target ''OE1ABC'' = ''OE1ABC''"
    by code_simp+
  from conversation_key_symmetric[OF this] show ?thesis by blast
qed

text \<open>The destination of the finding: classified as unknown, and keyed all the same.\<close>

theorem unknown_destination_keyed:
  "dst_kind ''OE1KBC-12,'' = Inr Unknown \<and>
   compute_conversation_key ''DK5EN'' ''OE1KBC-12,'' = Inr (Some ''<>DK5EN'')"
  by code_simp

text \<open>The broadcast alias ALL is keyed as if it were a station.\<close>

theorem broadcast_alias_keyed_as_pair:
  "dst_kind ''ALL'' = Inr Broadcast \<and>
   compute_conversation_key ''DK5EN'' ''ALL'' = Inr (Some ''ALL<>DK5EN'')"
  by code_simp

end
