(* ===== verification/CommandParsing.thy ===== *)
theory CommandParsing
  imports Destinations
begin

text \<open>
  The command parser of \<open>commands/parsing.py\<close>: target extraction, the per-command argument
  parsers, \<open>parse_command\<close> with the command registry of \<open>commands/handler.py\<close>, and
  \<open>normalize_unified\<close>.
\<close>

section \<open>Target extraction\<close>

definition GREEDY_TEXT_COMMANDS :: "string list" where
  "GREEDY_TEXT_COMMANDS = [''WX'', ''WEATHER'']"

text \<open>Everything from a token \<open>TEXT:...\<close> on is free text of a greedy command.\<close>

definition scan_window :: "string \<Rightarrow> string list \<Rightarrow> string list" where
  "scan_window command scan =
     (if command \<in> set GREEDY_TEXT_COMMANDS
      then takeWhile (\<lambda>part. \<not> startswith part ''TEXT:'') scan else scan)"

text \<open>Priority 1: the first token \<open>TARGET:...\<close> decides, even when it is no callsign.\<close>

fun explicit_target :: "string list \<Rightarrow> string option option" where
  "explicit_target [] = None"
| "explicit_target (part # rest) =
     (if startswith part ''TARGET:'' then
        (let potential = drop 7 part in
         if potential = ''LOCAL'' \<or> potential = [] then Some None
         else if callsign_target potential then Some (Some potential)
         else Some None)
      else explicit_target rest)"

text \<open>Priority 2: the last token that is no \<open>key:value\<close> pair and looks like a callsign.\<close>

fun positional_target :: "string list \<Rightarrow> string option" where
  "positional_target [] = None"
| "positional_target (part # rest) =
     (if CHR '':'' \<in> set part then positional_target rest
      else if callsign_target (strip part) then Some (strip part)
      else positional_target rest)"

definition extract_target_callsign :: "string \<Rightarrow> string option" where
  "extract_target_callsign msg =
     (if msg = [] \<or> \<not> startswith msg ''!'' then None
      else let parts = split_ws (strip (upper msg)) in
        if length parts < 2 then None
        else let command = tl (parts ! 0) in
          if command \<in> {''GROUP'', ''KB'', ''TOPIC''} then None
          else let scan = scan_window command (tl parts) in
            (case explicit_target scan of
               Some r \<Rightarrow> r
             | None \<Rightarrow> positional_target (rev scan)))"

section \<open>Argument parsers\<close>

datatype pyval = PStr string | PInt int

type_synonym kwargs = "(string, pyval) dict"

definition collect_kv :: "string list \<Rightarrow> kwargs" where
  "collect_kv parts =
     foldl (\<lambda>kw part. if CHR '':'' \<in> set part
                       then AList.update (lower (before (CHR '':'') part)) (PStr (after (CHR '':'') part)) kw
                       else kw) [] (tl parts)"

definition has_positional :: "string list \<Rightarrow> bool" where
  "has_positional parts \<longleftrightarrow> length parts \<ge> 2 \<and> CHR '':'' \<notin> set (parts ! 1)"

text \<open>\<open>re.search(r"TEXT:(.*)", remaining, re.IGNORECASE)\<close>, group 1.\<close>

fun find_text :: "string \<Rightarrow> string option" where
  "find_text [] = None"
| "find_text (c # s) =
     (if lower (take 5 (c # s)) = ''text:''
      then Some (takeWhile (\<lambda>x. x \<noteq> newline) (drop 5 (c # s)))
      else find_text s)"

definition parse_wx :: "string list \<Rightarrow> string \<Rightarrow> kwargs" where
  "parse_wx parts msg_text =
     (let remaining = strip (drop (length (parts ! 0)) msg_text) in
      if remaining = [] then []
      else (case find_text remaining of None \<Rightarrow> [] | Some t \<Rightarrow> [(''text'', PStr (strip t))]))"

text \<open>The positional fallback that \<open>search\<close>, \<open>pos\<close> and \<open>group\<close> share.\<close>

definition kv_or_positional :: "string \<Rightarrow> string list \<Rightarrow> kwargs" where
  "kv_or_positional key parts =
     (let kw = collect_kv parts in
      if \<not> in_dict key kw \<and> has_positional parts then AList.update key (PStr (parts ! 1)) kw else kw)"

definition parse_search :: "string list \<Rightarrow> kwargs" where
  "parse_search parts = kv_or_positional ''call'' parts"

definition parse_pos :: "string list \<Rightarrow> kwargs" where
  "parse_pos parts = kv_or_positional ''call'' parts"

definition parse_group :: "string list \<Rightarrow> kwargs" where
  "parse_group parts = kv_or_positional ''state'' parts"

definition parse_stats :: "string list \<Rightarrow> kwargs" where
  "parse_stats parts =
     (let kw = collect_kv parts in
      if \<not> in_dict ''hours'' kw \<and> has_positional parts then
        (case py_int (parts ! 1) of Inr n \<Rightarrow> AList.update ''hours'' (PInt n) kw | Inl _ \<Rightarrow> kw)
      else kw)"

definition parse_mheard :: "string list \<Rightarrow> kwargs" where
  "parse_mheard parts =
     (let kw = collect_kv parts in
      if \<not> has_positional parts then kw
      else if in_dict ''limit'' kw then kw
      else (case py_int (parts ! 1) of
              Inr n \<Rightarrow> AList.update ''limit'' (PInt n) kw
            | Inl _ \<Rightarrow>
                if lower (parts ! 1) \<in> {''msg'', ''pos'', ''all''} \<and> \<not> in_dict ''type'' kw
                then AList.update ''type'' (PStr (lower (parts ! 1))) kw else kw))"

definition parse_ctcping :: "string list \<Rightarrow> kwargs" where
  "parse_ctcping parts =
     foldl (\<lambda>kw part.
       if CHR '':'' \<notin> set part then kw
       else let key = lower (before (CHR '':'') part); v = after (CHR '':'') part in
         if key = ''call'' then AList.update ''call'' (PStr (upper v)) kw
         else if key = ''payload'' \<or> key = ''repeat'' then AList.update key (PStr v) kw
         else kw) [] (tl parts)"

text \<open>The loop over \<open>parts[2:]\<close>: the words in front of an \<open>interval:\<close> token, and its value.\<close>

fun topic_scan :: "string list \<Rightarrow> string list \<times> int option" where
  "topic_scan [] = ([], None)"
| "topic_scan (part # rest) =
     (if startswith (lower part) ''interval:''
      then ([], case py_int (after (CHR '':'') part) of Inr n \<Rightarrow> Some n | Inl _ \<Rightarrow> None)
      else let (ws, iv) = topic_scan rest in (part # ws, iv))"

definition parse_topic :: "string list \<Rightarrow> kwargs res" where
  "parse_topic parts =
     (if length parts < 2 then Inr []
      else if upper (parts ! 1) = ''DELETE'' \<and> length parts \<ge> 3 then
        Inr [(''action'', PStr ''delete''), (''group'', PStr (upper (parts ! 2)))]
      else if length parts < 3 then Inr [(''group'', PStr (upper (parts ! 1)))]
      else
        let (text_parts, iv) = topic_scan (drop 2 parts);
            kw0 = [(''group'', PStr (upper (parts ! 1)))];
            kw1 = (case iv of None \<Rightarrow> kw0 | Some n \<Rightarrow> AList.update ''interval'' (PInt n) kw0);
            kw2 = (if text_parts = [] then kw1
                   else AList.update ''text'' (PStr (join '' '' text_parts)) kw1)
        in if iv = None \<and> length parts \<ge> 4 \<and> isdigit (last parts) then
             bind_res (py_int (last parts)) (\<lambda>n.
               let kw3 = AList.update ''interval'' (PInt n) kw2 in
               if text_parts \<noteq> [] \<and> last text_parts = last parts then
                 Inr (AList.update ''text''
                        (if butlast text_parts \<noteq> [] then PStr (join '' '' (butlast text_parts))
                         else dict_get kw3 ''text'' (PStr [])) kw3)
               else Inr kw3)
           else Inr kw2)"

definition parse_kb :: "string list \<Rightarrow> kwargs" where
  "parse_kb parts =
     (if length parts < 2 then []
      else let first_arg = upper (parts ! 1) in
        if first_arg = ''LIST'' \<or> first_arg = ''DELALL'' then [(''callsign'', PStr (lower first_arg))]
        else if length parts \<ge> 3 \<and> upper (parts ! 2) = ''DEL''
        then [(''callsign'', PStr first_arg), (''action'', PStr ''del'')]
        else [(''callsign'', PStr first_arg)])"

definition COMMANDS :: "string list" where
  "COMMANDS = [''search'', ''s'', ''stats'', ''mheard'', ''mh'', ''pos'', ''dice'', ''time'', ''wx'',
     ''weather'', ''group'', ''userinfo'', ''kb'', ''topic'', ''ctcping'', ''help'']"

definition run_command_parser :: "string \<Rightarrow> string list \<Rightarrow> kwargs res" where
  "run_command_parser cmd parts =
     (if cmd = ''s'' \<or> cmd = ''search'' then Inr (parse_search parts)
      else if cmd = ''pos'' then Inr (parse_pos parts)
      else if cmd = ''stats'' then Inr (parse_stats parts)
      else if cmd = ''mh'' \<or> cmd = ''mheard'' then Inr (parse_mheard parts)
      else if cmd = ''group'' then Inr (parse_group parts)
      else if cmd = ''ctcping'' then Inr (parse_ctcping parts)
      else if cmd = ''topic'' then parse_topic parts
      else if cmd = ''kb'' then Inr (parse_kb parts)
      else Inr (collect_kv parts))"

definition parse_command :: "string \<Rightarrow> (string \<times> kwargs) option res" where
  "parse_command msg_text =
     (if \<not> startswith msg_text ''!'' then Inr None
      else let parts = split_ws (tl msg_text) in
        if parts = [] then Inr None
        else let cmd = lower (parts ! 0) in
          if cmd \<notin> set COMMANDS then Inr None
          else if upper cmd \<in> set GREEDY_TEXT_COMMANDS then Inr (Some (cmd, parse_wx parts msg_text))
          else bind_res (run_command_parser cmd parts) (\<lambda>kw. Inr (Some (cmd, kw))))"

section \<open>Normalisation\<close>

datatype norm_context = CtxCommand | CtxMessage

text \<open>\<open>"," in src_raw\<close> raises \<open>TypeError\<close> on a scalar that is no string.\<close>

fun relay_src_of :: "json \<Rightarrow> string res" where
  "relay_src_of (JStr s) = Inr s"
| "relay_src_of (JList xs) = Inl AttributeError"
| "relay_src_of (JObj kvs) = Inl AttributeError"
| "relay_src_of _ = Inl TypeError"

definition normalize_unified :: "msgd \<Rightarrow> norm_context \<Rightarrow> msgd res" where
  "normalize_unified message_data context =
     (let src_default = (if context = CtxCommand then ''UNKNOWN'' else []) in
      bind_res (relay_src_of (dict_get message_data ''src'' (JStr src_default))) (\<lambda>src_raw.
      bind_res (str_of (dict_get message_data ''dst'' (JStr []))) (\<lambda>dst_raw.
      bind_res (str_of (dict_get message_data ''msg'' (JStr []))) (\<lambda>msg_raw.
        Inr (AList.update ''msg'' (JStr (strip_ack_suffix (strip msg_raw)))
              (AList.update ''dst'' (JStr (upper (strip dst_raw)))
                (AList.update ''src'' (JStr (strip_relay_path src_raw)) message_data)))))))"

section \<open>Lemmas\<close>

lemma explicit_target_callsign: "explicit_target ps = Some (Some t) \<Longrightarrow>
    callsign_target t \<and> ''TARGET:'' @ t \<in> set ps"
proof (induction ps)
  case (Cons p ps)
  show ?case
  proof (cases "startswith p ''TARGET:''")
    case True
    then have "p = ''TARGET:'' @ drop 7 p" using startswith_decomp[OF True] by (simp add: eval_nat_numeral)
    with True Cons.prems show ?thesis by (auto simp: Let_def split: if_splits)
  next
    case False
    with Cons show ?thesis by simp
  qed
qed simp

lemma positional_target_callsign: "positional_target ps = Some t \<Longrightarrow>
    callsign_target t \<and> (\<exists>p \<in> set ps. t = strip p \<and> CHR '':'' \<notin> set p)"
  by (induction ps) (auto split: if_splits)

lemma scan_window_subset: "set (scan_window c ps) \<subseteq> set ps"
  by (auto simp: scan_window_def dest: set_takeWhileD)

lemma extract_target_upper: "extract_target_callsign (upper msg) = extract_target_callsign msg"
proof -
  have "startswith (upper msg) ''!'' \<longleftrightarrow> startswith msg ''!''"
  proof (cases msg)
    case (Cons c s)
    have "hd (upper_char c) = CHR ''!'' \<longleftrightarrow> c = CHR ''!''"
    proof
      assume h: "hd (upper_char c) = CHR ''!''"
      then have "CHR ''!'' \<in> set (upper_char c)" by (metis hd_in_set upper_char_nonempty)
      then show "c = CHR ''!''" using upper_char_id_of[of "CHR ''!''" c] by simp
    qed (simp add: upper_char_def)
    moreover obtain d ds where "upper_char c = d # ds" by (metis neq_Nil_conv upper_char_nonempty)
    ultimately show ?thesis by (simp add: Cons upper_Cons)
  qed simp
  then show ?thesis by (simp add: extract_target_callsign_def)
qed

lemma extract_target_someD:
  assumes "extract_target_callsign msg = Some t"
  shows "startswith msg ''!'' \<and> callsign_target t \<and> list_all call_char t"
proof -
  define parts where "parts = split_ws (strip (upper msg))"
  define scan where "scan = scan_window (tl (parts ! 0)) (tl parts)"
  from assms have s: "startswith msg ''!''"
    and r: "explicit_target scan = Some (Some t) \<or> positional_target (rev scan) = Some t"
    by (auto simp: extract_target_callsign_def Let_def scan_def parts_def split: if_splits option.splits)
  have clean: "x \<in> set p \<Longrightarrow> p \<in> set scan \<Longrightarrow> \<not> is_space x" for p x
    using scan_window_subset[of "tl (parts ! 0)" "tl parts"] split_ws_tl_pieces[of p "strip (upper msg)"]
    unfolding scan_def parts_def by blast
  have nl: "is_space newline" by (simp add: is_space_def newline_def)
  from r have "callsign_target t \<and> newline \<notin> set t"
  proof
    assume e: "explicit_target scan = Some (Some t)"
    from explicit_target_callsign[OF e] have "callsign_target t" "''TARGET:'' @ t \<in> set scan" by auto
    with clean[of newline "''TARGET:'' @ t"] nl show ?thesis by auto
  next
    assume e: "positional_target (rev scan) = Some t"
    from positional_target_callsign[OF e] obtain p where
      "callsign_target t" "p \<in> set scan" "t = strip p" by auto
    with clean[of newline p] nl strip_set[of p] show ?thesis by auto
  qed
  with s show ?thesis by (simp add: callsign_target_chars)
qed

subsection \<open>Splitting a rendered command\<close>

definition word :: "string \<Rightarrow> bool" where
  "word w \<longleftrightarrow> w \<noteq> [] \<and> list_all (\<lambda>c. \<not> is_space c) w"

lemma split_ws_word: "word w \<Longrightarrow> split_ws (w @ CHR '' '' # s) = w # split_ws s"
  using split_by_append[of w is_space "CHR '' ''" s]
  by (simp add: word_def split_ws_def list_all_iff is_space_def)

lemma split_ws_last: "word w \<Longrightarrow> split_ws w = [w]"
  using split_by_none[of w is_space] by (simp add: word_def split_ws_def list_all_iff)

lemma after_append [simp]: "c \<notin> set k \<Longrightarrow> after c (k @ c # v) = v"
  by (simp add: after_def dropWhile_append)

lemma kv_token: "list_all (\<lambda>c. \<not> is_space c) k \<Longrightarrow> word v \<Longrightarrow> word (k @ CHR '':'' # v)"
  by (auto simp: word_def is_space_def)

subsection \<open>Errors of the parser\<close>

lemma py_int_error: "py_int s = Inl e \<Longrightarrow> e = ValueError"
  by (auto simp: py_int_def Let_def split: option.splits if_splits)

lemma parse_topic_error:
  "parse_topic parts = Inl e \<Longrightarrow>
     e = ValueError \<and> length parts \<ge> 4 \<and> isdigit (last parts) \<and> py_int (last parts) = Inl ValueError"
  by (cases "py_int (last parts)")
    (auto simp: parse_topic_def Let_def bind_res_eq_Inl dest: py_int_error split: if_splits prod.splits)

lemma run_command_parser_error:
  "run_command_parser cmd parts = Inl e \<Longrightarrow> cmd = ''topic'' \<and> parse_topic parts = Inl e"
  by (auto simp: run_command_parser_def split: if_splits)

lemma isdigit_py_int_error:
  assumes "isdigit s"
  shows "py_int s = Inl ValueError \<longleftrightarrow> \<not> (list_all ascii_digit s \<and> length s \<le> 4300)"
proof (cases "list_all ascii_digit s")
  case True
  with assms show ?thesis
    by (auto simp: isdigit_def py_int_all_digits int_max_str_digits_def)
next
  case False
  from assms have d: "s \<noteq> []" "list_all is_digit s" by (auto simp: isdigit_def)
  then have "strip s = s"
    by (intro strip_no_space) (auto simp: list_all_iff char_class_defs)
  moreover have "\<not> startswith s ''-''" "\<not> startswith s ''+''"
    using d by (cases s; auto simp: char_class_defs)+
  moreover have "split_on (CHR ''_'') s = [s]"
    using d by (auto simp: split_on_def list_all_iff char_class_defs intro!: split_by_none)
  ultimately show ?thesis using False by (simp add: py_int_def digit_groups_def)
qed

lemma relay_src_of_Inr: "relay_src_of v = Inr s \<longleftrightarrow> v = JStr s"
  by (cases v) auto

section \<open>Properties\<close>

text \<open>A target is only ever extracted from a command, never for the local commands GROUP, KB
  and TOPIC, it always has the shape of a callsign, and it stands in the scanned window: in a
  \<open>TARGET:\<close> token or as a token of its own, in front of any greedy \<open>TEXT:\<close> argument.\<close>

theorem extract_target_sound:
  assumes "extract_target_callsign msg = Some t"
  shows "startswith msg ''!'' \<and> list_all call_char t \<and> callsign_target t \<and>
    (let parts = split_ws (strip (upper msg)); command = tl (parts ! 0);
         window = scan_window command (tl parts)
     in command \<notin> {''GROUP'', ''KB'', ''TOPIC''} \<and> (''TARGET:'' @ t \<in> set window \<or> t \<in> set window))"
proof -
  define parts where "parts = split_ws (strip (upper msg))"
  define scan where "scan = scan_window (tl (parts ! 0)) (tl parts)"
  from assms have c: "tl (parts ! 0) \<notin> {''GROUP'', ''KB'', ''TOPIC''}"
    and r: "explicit_target scan = Some (Some t) \<or> positional_target (rev scan) = Some t"
    unfolding extract_target_callsign_def Let_def scan_def parts_def
    by (simp_all split: if_splits option.splits)
  have "p \<in> set scan \<Longrightarrow> strip p = p" for p
    using scan_window_subset[of "tl (parts ! 0)" "tl parts"] split_ws_tl_pieces[of p "strip (upper msg)"]
    unfolding scan_def parts_def by (intro strip_no_space) (auto simp: list_all_iff)
  with r have "''TARGET:'' @ t \<in> set scan \<or> t \<in> set scan"
    using explicit_target_callsign[of scan t] positional_target_callsign[of "rev scan" t] by auto
  with c extract_target_someD[OF assms] show ?thesis
    by (simp add: Let_def flip: parts_def scan_def)
qed

theorem extract_target_sound_witness:
  "list_all call_char ''OE1ABC-7'' \<and> callsign_target ''OE1ABC-7''"
proof -
  have "extract_target_callsign ''!time target:oe1abc-7'' = Some ''OE1ABC-7''" by code_simp
  from extract_target_sound[OF this] show ?thesis by blast
qed

text \<open>C1: the text of a weather command cannot choose the target. Two messages whose tokens agree
  up to a \<open>TEXT:\<close> token extract the same target, whatever follows that token.\<close>

theorem greedy_text_noninterference:
  assumes "split_ws (strip (upper m)) = (CHR ''!'' # cmd) # pre @ (''TEXT:'' @ w) # post"
    and "split_ws (strip (upper m')) = (CHR ''!'' # cmd) # pre @ (''TEXT:'' @ w') # post'"
    and "cmd \<in> set GREEDY_TEXT_COMMANDS" "startswith m ''!''" "startswith m' ''!''"
  shows "extract_target_callsign m = extract_target_callsign m'"
proof -
  have "m \<noteq> []" "m' \<noteq> []" using assms(4,5) by auto
  moreover have "scan_window cmd (pre @ (''TEXT:'' @ x) # ys) = takeWhile (\<lambda>p. \<not> startswith p ''TEXT:'') pre"
    for x ys using assms(3) takeWhile_stop[of "\<lambda>p. \<not> startswith p ''TEXT:''" "''TEXT:'' @ x" pre ys]
    by (simp add: scan_window_def)
  ultimately show ?thesis
    using assms by (simp add: extract_target_callsign_def Let_def)
qed

theorem greedy_text_noninterference_witness:
  "extract_target_callsign ''!wx OE1ABC text:73 de DK5EN'' =
   extract_target_callsign ''!wx OE1ABC text:73 de OE5XYZ target:DK5EN''"
proof -
  have "split_ws (strip (upper ''!wx OE1ABC text:73 de DK5EN'')) =
      (CHR ''!'' # ''WX'') # [''OE1ABC''] @ (''TEXT:'' @ ''73'') # [''DE'', ''DK5EN'']"
    and "split_ws (strip (upper ''!wx OE1ABC text:73 de OE5XYZ target:DK5EN'')) =
      (CHR ''!'' # ''WX'') # [''OE1ABC''] @ (''TEXT:'' @ ''73'') # [''DE'', ''OE5XYZ'', ''TARGET:DK5EN'']"
    and "''WX'' \<in> set GREEDY_TEXT_COMMANDS" by code_simp+
  from greedy_text_noninterference[OF this] show ?thesis by simp
qed

text \<open>Parsing a command raises in exactly one situation: a \<open>topic\<close> command of at least four
  words without an \<open>interval:\<close> value and not of the delete form, whose last word passes
  \<open>str.isdigit\<close> but is not a decimal number that \<open>int()\<close> takes (a superscript digit, or more than
  4300 digits).\<close>

theorem parse_command_error_iff:
  "parse_command msg = Inl e \<longleftrightarrow>
     (e = ValueError \<and> startswith msg ''!'' \<and>
      (let parts = split_ws (tl msg) in
         length parts \<ge> 4 \<and> lower (parts ! 0) = ''topic'' \<and> upper (parts ! 1) \<noteq> ''DELETE'' \<and>
         snd (topic_scan (drop 2 parts)) = None \<and> isdigit (last parts) \<and>
         \<not> (list_all ascii_digit (last parts) \<and> length (last parts) \<le> 4300)))"
  (is "?l \<longleftrightarrow> ?r")
proof
  assume ?l
  then have s: "startswith msg ''!''" and
    r: "run_command_parser (lower (split_ws (tl msg) ! 0)) (split_ws (tl msg)) = Inl e"
    by (auto simp: parse_command_def Let_def bind_res_eq_Inl split: if_splits)
  from run_command_parser_error[OF r] have t: "lower (split_ws (tl msg) ! 0) = ''topic''"
    "parse_topic (split_ws (tl msg)) = Inl e" by auto
  from parse_topic_error[OF t(2)] t(2) have "upper (split_ws (tl msg) ! 1) \<noteq> ''DELETE''"
    "snd (topic_scan (drop 2 (split_ws (tl msg)))) = None"
    by (auto simp: parse_topic_def Let_def split: if_splits prod.splits)
  with s t parse_topic_error[OF t(2)] show ?r
    by (auto simp: Let_def isdigit_py_int_error)
next
  assume r: ?r
  define parts where "parts = split_ws (tl msg)"
  from r have l: "length parts \<ge> 4" "lower (parts ! 0) = ''topic''" "upper (parts ! 1) \<noteq> ''DELETE''"
      "snd (topic_scan (drop 2 parts)) = None" "isdigit (last parts)" "py_int (last parts) = Inl ValueError"
    by (auto simp: Let_def isdigit_py_int_error parts_def)
  then have "parse_topic parts = Inl ValueError"
    by (auto simp: parse_topic_def Let_def split: prod.splits)
  moreover have "''topic'' \<in> set COMMANDS" "upper ''topic'' \<notin> set GREEDY_TEXT_COMMANDS" by code_simp+
  moreover have "parts \<noteq> []" using l(1) by auto
  ultimately show ?l
    using r l(2) by (simp add: parse_command_def Let_def run_command_parser_def flip: parts_def)
qed

text \<open>A rendered ping command parses back to its three arguments, the callsign uppercased.\<close>

theorem ctcping_roundtrip:
  assumes "word c" "word p" "word r"
  shows "parse_command (''!ctcping call:'' @ c @ '' payload:'' @ p @ '' repeat:'' @ r) =
    Inr (Some (''ctcping'', [(''call'', PStr (upper c)), (''payload'', PStr p), (''repeat'', PStr r)]))"
proof -
  let ?c = "''call'' @ CHR '':'' # c" and ?p = "''payload'' @ CHR '':'' # p"
    and ?r = "''repeat'' @ CHR '':'' # r"
  have w: "word ?c" "word ?p" "word ?r" "word ''ctcping''"
    using assms by (intro kv_token; simp add: is_space_def)+ (simp add: word_def is_space_def)
  have "split_ws (''ctcping'' @ CHR '' '' # ?c @ CHR '' '' # ?p @ CHR '' '' # ?r) =
      [''ctcping'', ?c, ?p, ?r]"
    using w by (simp only: split_ws_word split_ws_last)
  then have parts: "split_ws (tl (''!ctcping call:'' @ c @ '' payload:'' @ p @ '' repeat:'' @ r)) =
      [''ctcping'', ?c, ?p, ?r]" by simp
  have k: "lower ''ctcping'' = ''ctcping''" "''ctcping'' \<in> set COMMANDS"
    "upper ''ctcping'' \<notin> set GREEDY_TEXT_COMMANDS"
    "lower ''call'' = ''call''" "lower ''payload'' = ''payload''" "lower ''repeat'' = ''repeat''"
    by code_simp+
  have "before (CHR '':'') ?c = ''call''" "before (CHR '':'') ?p = ''payload''"
    "before (CHR '':'') ?r = ''repeat''" by (rule before_append; simp)+
  moreover have "after (CHR '':'') ?c = c" "after (CHR '':'') ?p = p" "after (CHR '':'') ?r = r"
    by (rule after_append; simp)+
  ultimately have "parse_ctcping [''ctcping'', ?c, ?p, ?r] =
      [(''call'', PStr (upper c)), (''payload'', PStr p), (''repeat'', PStr r)]"
    using k by (simp add: parse_ctcping_def Let_def del: append_Cons append_Nil)
  then show ?thesis
    unfolding parse_command_def Let_def parts
    using k by (simp add: run_command_parser_def)
qed

theorem ctcping_roundtrip_witness:
  "parse_command ''!ctcping call:oe1abc payload:25 repeat:3'' =
    Inr (Some (''ctcping'', [(''call'', PStr ''OE1ABC''), (''payload'', PStr ''25''), (''repeat'', PStr ''3'')]))"
proof -
  have w: "word ''oe1abc''" "word ''25''" "word ''3''" by code_simp+
  have u: "upper ''oe1abc'' = ''OE1ABC''" by code_simp
  show ?thesis using ctcping_roundtrip[OF w] by (simp add: u)
qed

text \<open>Normalisation raises exactly when one of the three fields is present and not a string;
  otherwise the sender has no relay path left, sender and destination are uppercase and trimmed at
  the outside before uppercasing, and every other field is unchanged.\<close>

theorem normalize_unified_shape:
  "((\<exists>e. normalize_unified d ctx = Inl e) \<longleftrightarrow>
     (\<exists>k \<in> {''src'', ''dst'', ''msg''}. \<exists>v. map_of d k = Some v \<and> (\<forall>s. v \<noteq> JStr s))) \<and>
   (\<forall>d'. normalize_unified d ctx = Inr d' \<longrightarrow>
     (\<exists>src dst msg. map_of d' ''src'' = Some (JStr src) \<and> CHR '','' \<notin> set src \<and> upper src = src \<and>
        map_of d' ''dst'' = Some (JStr dst) \<and> upper dst = dst \<and>
        map_of d' ''msg'' = Some (JStr msg) \<and> strip msg = msg) \<and>
     (\<forall>k. k \<notin> {''src'', ''dst'', ''msg''} \<longrightarrow> map_of d' k = map_of d k))"
proof (intro conjI allI impI)
  show "(\<exists>e. normalize_unified d ctx = Inl e) \<longleftrightarrow>
     (\<exists>k \<in> {''src'', ''dst'', ''msg''}. \<exists>v. map_of d k = Some v \<and> (\<forall>s. v \<noteq> JStr s))"
    by (auto simp: res_error_iff normalize_unified_def Let_def dict_get_def relay_src_of_Inr
        split: option.splits)
qed (auto simp: normalize_unified_def Let_def strip_relay_path_eq strip_ack_suffix_def
        strip_relay_path_no_comma[unfolded strip_relay_path_eq])

theorem normalize_unified_shape_witness:
  "\<exists>src. map_of (projr (normalize_unified [(''src'', JStr '' dk5en-9,oe1abc ''), (''dst'', JStr ''test'')] CtxMessage))
     ''src'' = Some (JStr src) \<and> CHR '','' \<notin> set src"
proof -
  let ?d = "[(''src'', JStr '' dk5en-9,oe1abc ''), (''dst'', JStr ''test'')]"
  have "\<not> (\<exists>k \<in> {''src'', ''dst'', ''msg''}. \<exists>v. map_of ?d k = Some v \<and> (\<forall>s. v \<noteq> JStr s))" by auto
  with normalize_unified_shape[of ?d CtxMessage] obtain d' where
    "normalize_unified ?d CtxMessage = Inr d'" by (metis sum.exhaust)
  with normalize_unified_shape[of ?d CtxMessage] show ?thesis by auto
qed

text \<open>The message of the finding: the token does not start with TEXT:, so the callsign of the
  signature is taken as a remote target, although the parser treats it as free text.\<close>

theorem wx_text_leak:
  "extract_target_callsign ''!wx mytext:73 de DK5EN'' = Some ''DK5EN'' \<and>
   parse_command ''!wx mytext:73 de DK5EN'' = Inr (Some (''wx'', [(''text'', PStr ''73 de DK5EN'')]))"
  by code_simp

text \<open>The other finding: a superscript digit as the last word of a beacon text.\<close>

theorem topic_superscript_raises:
  "parse_command (''!topic 9 fifty m'' @ [CHR 0xB2, CHR '' '', CHR 0xB2]) = Inl ValueError"
  by code_simp

end
