(* ===== verification/NumText.thy ===== *)
theory NumText
  imports McPrelude
begin

text \<open>
  Numbers as text: \<open>str(n)\<close> of an integer, the zero-padded hexadecimal form \<open>f"{n:0wX}"\<close>, and
  \<open>int(s, 16)\<close>, with their round trips.
\<close>

section \<open>Decimal\<close>

definition digit_char :: "nat \<Rightarrow> char" where
  "digit_char n = char_of (48 + n)"

fun nat_str :: "nat \<Rightarrow> string" where
  "nat_str n = (if n < 10 then [digit_char n] else nat_str (n div 10) @ [digit_char (n mod 10)])"

declare nat_str.simps [simp del]

definition int_str :: "int \<Rightarrow> string" where
  "int_str i = (if i < 0 then CHR ''-'' # nat_str (nat (- i)) else nat_str (nat i))"

lemma digit_char_facts: "n < 10 \<Longrightarrow> ascii_digit (digit_char n) \<and> digit_val (digit_char n) = int n"
  by (simp add: digit_char_def ascii_digit_def digit_val_def)

lemma nat_str_small: "n < 10 \<Longrightarrow> nat_str n = [digit_char n]"
  by (subst nat_str.simps) simp

lemma nat_str_big: "\<not> n < 10 \<Longrightarrow> nat_str n = nat_str (n div 10) @ [digit_char (n mod 10)]"
  by (subst nat_str.simps) simp

lemma nat_str_digits: "nat_str n \<noteq> [] \<and> list_all ascii_digit (nat_str n)"
proof (induction n rule: nat_str.induct)
  case (1 n)
  show ?case
  proof (cases "n < 10")
    case True
    then show ?thesis by (simp add: nat_str_small digit_char_facts)
  next
    case False
    with 1 show ?thesis by (simp add: nat_str_big digit_char_facts)
  qed
qed

lemma dec_val_single: "dec_val [c] = digit_val c"
  by (simp add: dec_val_def)

lemma dec_val_nat_str [simp]: "dec_val (nat_str n) = int n"
proof (induction n rule: nat_str.induct)
  case (1 n)
  show ?case
  proof (cases "n < 10")
    case True
    then show ?thesis by (subst nat_str.simps) (simp add: dec_val_single digit_char_facts)
  next
    case False
    have "dec_val (nat_str n) = dec_val (nat_str (n div 10)) * 10 + digit_val (digit_char (n mod 10))"
      using False by (subst nat_str.simps) (simp add: dec_val_append dec_val_single)
    also have "\<dots> = int (n div 10) * 10 + int (n mod 10)"
      using 1 False by (simp add: digit_char_facts)
    also have "\<dots> = int n" by presburger
    finally show ?thesis .
  qed
qed

lemma nat_str_length: "n < 10 ^ k \<Longrightarrow> 0 < k \<Longrightarrow> length (nat_str n) \<le> k"
proof (induction n arbitrary: k rule: nat_str.induct)
  case (1 n)
  show ?case
  proof (cases "n < 10")
    case True
    with 1 show ?thesis by (subst nat_str.simps) simp
  next
    case False
    with 1 obtain k' where k: "k = Suc k'" "k' \<noteq> 0" by (cases k; cases "k = 1") auto
    with False 1(1)[of k'] 1(2) have "length (nat_str (n div 10)) \<le> k'" by simp
    with False k show ?thesis by (subst nat_str.simps) simp
  qed
qed

lemma py_int_nat_str:
  assumes "n < 10 ^ int_max_str_digits"
  shows "py_int (nat_str n) = Inr (int n)"
proof -
  have "0 < int_max_str_digits" by (simp add: int_max_str_digits_def)
  with assms have "length (nat_str n) \<le> int_max_str_digits" by (rule nat_str_length)
  with nat_str_digits[of n] show ?thesis by (simp add: py_int_digits)
qed

section \<open>Hexadecimal\<close>

definition hex_digit :: "nat \<Rightarrow> char" where
  "hex_digit n = (if n < 10 then char_of (48 + n) else char_of (55 + n))"

fun hex_upper :: "nat \<Rightarrow> string" where
  "hex_upper n = (if n < 16 then [hex_digit n] else hex_upper (n div 16) @ [hex_digit (n mod 16)])"

declare hex_upper.simps [simp del]

definition pad_left :: "nat \<Rightarrow> char \<Rightarrow> string \<Rightarrow> string" where
  "pad_left w c s = replicate (w - length s) c @ s"

definition hex_padded :: "nat \<Rightarrow> nat \<Rightarrow> string" where
  "hex_padded w n = pad_left w (CHR ''0'') (hex_upper n)"

definition hex_digit_val :: "char \<Rightarrow> int option" where
  "hex_digit_val c =
     (if ascii_digit c then Some (int (cp c) - 48)
      else if 65 \<le> cp c \<and> cp c \<le> 70 then Some (int (cp c) - 55)
      else if 97 \<le> cp c \<and> cp c \<le> 102 then Some (int (cp c) - 87)
      else None)"

definition hex_val :: "string \<Rightarrow> int" where
  "hex_val s = foldl (\<lambda>a c. 16 * a + (case hex_digit_val c of None \<Rightarrow> 0 | Some v \<Rightarrow> v)) 0 s"

definition is_hex :: "char \<Rightarrow> bool" where
  "is_hex c \<longleftrightarrow> hex_digit_val c \<noteq> None"

text \<open>
  \<open>int(s, 16)\<close>: whitespace, a sign, an optional prefix \<open>0x\<close> that an underscore may follow, and hex
  digits that single underscores may separate. A power-of-two base has no digit limit.
\<close>

definition py_int16 :: "string \<Rightarrow> int res" where
  "py_int16 s0 =
     (let s = strip s0;
          neg = startswith s ''-'';
          b0 = (if neg \<or> startswith s ''+'' then tl s else s);
          prefixed = startswith b0 ''0x'' \<or> startswith b0 ''0X'';
          b1 = (if prefixed then drop 2 b0 else b0);
          b2 = (if prefixed \<and> startswith b1 ''_'' then tl b1 else b1);
          gs = split_on (CHR ''_'') b2
      in if list_all (\<lambda>g. g \<noteq> [] \<and> list_all is_hex g) gs
         then Inr (if neg then - hex_val (concat gs) else hex_val (concat gs))
         else Inl ValueError)"

lemma hex_digit_facts:
  assumes "n < 16"
  shows "hex_digit_val (hex_digit n) = Some (int n)" "\<not> is_space (hex_digit n)"
    "hex_digit n \<noteq> CHR ''_''" "hex_digit n \<noteq> CHR ''x''" "hex_digit n \<noteq> CHR ''X''"
    "hex_digit n \<noteq> CHR ''-''" "hex_digit n \<noteq> CHR ''+''"
proof -
  have c: "cp (hex_digit n) = (if n < 10 then 48 + n else 55 + n)"
    using assms by (simp add: hex_digit_def)
  have ne: "hex_digit n \<noteq> d" if "cp d \<noteq> cp (hex_digit n)" for d
    using that by auto
  show "hex_digit_val (hex_digit n) = Some (int n)" "\<not> is_space (hex_digit n)"
    using assms c by (auto simp: hex_digit_val_def char_class_defs)
  show "hex_digit n \<noteq> CHR ''_''" "hex_digit n \<noteq> CHR ''x''" "hex_digit n \<noteq> CHR ''X''"
    "hex_digit n \<noteq> CHR ''-''" "hex_digit n \<noteq> CHR ''+''"
    using assms by (rule_tac ne, simp add: c)+
qed

definition hex_text :: "string \<Rightarrow> bool" where
  "hex_text s \<longleftrightarrow> list_all (\<lambda>c. \<exists>n<16. c = hex_digit n) s"

lemma hex_upper_small: "n < 16 \<Longrightarrow> hex_upper n = [hex_digit n]"
  by (subst hex_upper.simps) simp

lemma hex_upper_big: "\<not> n < 16 \<Longrightarrow> hex_upper n = hex_upper (n div 16) @ [hex_digit (n mod 16)]"
  by (subst hex_upper.simps) simp

lemma hex_upper_text: "hex_upper n \<noteq> [] \<and> hex_text (hex_upper n)"
proof (induction n rule: hex_upper.induct)
  case (1 n)
  show ?case
  proof (cases "n < 16")
    case True
    then show ?thesis by (auto simp: hex_upper_small hex_text_def)
  next
    case False
    moreover have "\<exists>m<16. hex_digit (n mod 16) = hex_digit m" by (rule exI[of _ "n mod 16"]) simp
    ultimately show ?thesis using 1 by (simp add: hex_upper_big hex_text_def)
  qed
qed

lemma hex_val_snoc: "hex_val (s @ [c]) = 16 * hex_val s + (case hex_digit_val c of None \<Rightarrow> 0 | Some v \<Rightarrow> v)"
  by (simp add: hex_val_def)

lemma hex_val_hex_upper [simp]: "hex_val (hex_upper n) = int n"
proof (induction n rule: hex_upper.induct)
  case (1 n)
  show ?case
  proof (cases "n < 16")
    case True
    then show ?thesis by (subst hex_upper.simps) (simp add: hex_val_def hex_digit_facts)
  next
    case False
    have "hex_val (hex_upper n) = 16 * hex_val (hex_upper (n div 16)) + int (n mod 16)"
      using False by (subst hex_upper.simps) (simp add: hex_val_snoc hex_digit_facts)
    with 1 False have "hex_val (hex_upper n) = 16 * int (n div 16) + int (n mod 16)" by simp
    then show ?thesis by presburger
  qed
qed

lemma hex_zero: "CHR ''0'' = hex_digit 0"
  by code_simp

lemma hex_val_zeros: "hex_val (replicate k (CHR ''0'') @ s) = hex_val s"
  by (induction k) (simp_all add: hex_val_def hex_zero hex_digit_facts)

lemma hex_padded_text: "hex_padded w n \<noteq> [] \<and> hex_text (hex_padded w n)"
proof -
  have "\<exists>m<16. CHR ''0'' = hex_digit m" by (rule exI[of _ 0]) (simp add: hex_zero)
  then have "list_all (\<lambda>c. \<exists>n<16. c = hex_digit n) (replicate k (CHR ''0''))" for k
    by (simp add: list_all_iff)
  then show ?thesis using hex_upper_text[of n]
    by (simp add: hex_padded_def pad_left_def hex_text_def)
qed

lemma hex_text_facts:
  assumes "hex_text s"
  shows "list_all is_hex s" "list_all (\<lambda>c. \<not> is_space c) s"
    "CHR ''_'' \<notin> set s" "CHR ''x'' \<notin> set s" "CHR ''X'' \<notin> set s" "CHR ''-'' \<notin> set s" "CHR ''+'' \<notin> set s"
  using assms hex_digit_facts by (fastforce simp: hex_text_def list_all_iff is_hex_def)+

lemma py_int16_hex_text:
  assumes "hex_text s" "s \<noteq> []"
  shows "py_int16 s = Inr (hex_val s)"
proof -
  note f = hex_text_facts[OF assms(1)]
  have st: "strip s = s" using f(2) by (rule strip_no_space)
  have sg: "\<not> startswith s ''-''" "\<not> startswith s ''+''" "\<not> startswith s ''0x''" "\<not> startswith s ''0X''"
    using f(4-7) by (auto simp: startswith_prefix prefix_def)
  have "split_on (CHR ''_'') s = [s]"
    using f(3) by (auto simp: split_on_def intro!: split_by_none)
  then show ?thesis using st sg f(1) assms(2) by (simp add: py_int16_def)
qed

lemma py_int16_hex_padded: "py_int16 (hex_padded w n) = Inr (int n)"
  using py_int16_hex_text[of "hex_padded w n"] hex_padded_text[of w n]
  by (simp add: hex_padded_def pad_left_def hex_val_zeros)

lemma hex_upper_length: "n < 16 ^ k \<Longrightarrow> 0 < k \<Longrightarrow> length (hex_upper n) \<le> k"
proof (induction n arbitrary: k rule: hex_upper.induct)
  case (1 n)
  show ?case
  proof (cases "n < 16")
    case True
    with 1 show ?thesis by (subst hex_upper.simps) simp
  next
    case False
    with 1 obtain k' where k: "k = Suc k'" "k' \<noteq> 0" by (cases k; cases "k = 1") auto
    with False 1(1)[of k'] 1(2) have "length (hex_upper (n div 16)) \<le> k'" by simp
    with False k show ?thesis by (subst hex_upper.simps) simp
  qed
qed

lemma hex_padded_length: "n < 16 ^ k \<Longrightarrow> 0 < k \<Longrightarrow> k \<le> w \<Longrightarrow> length (hex_padded w n) = w"
  using hex_upper_length[of n k] by (simp add: hex_padded_def pad_left_def)

lemma digit_char_eval:
  "digit_char 0 = CHR ''0''" "digit_char (Suc 0) = CHR ''1''" "digit_char 2 = CHR ''2''" "digit_char 3 = CHR ''3''"
  "digit_char 4 = CHR ''4''" "digit_char 5 = CHR ''5''" "digit_char 6 = CHR ''6''" "digit_char 7 = CHR ''7''"
  "digit_char 8 = CHR ''8''" "digit_char 9 = CHR ''9''"
  by code_simp+

lemma hex_digit_eval:
  "hex_digit 0 = CHR ''0''" "hex_digit (Suc 0) = CHR ''1''" "hex_digit 2 = CHR ''2''" "hex_digit 3 = CHR ''3''"
  "hex_digit 4 = CHR ''4''" "hex_digit 5 = CHR ''5''" "hex_digit 6 = CHR ''6''" "hex_digit 7 = CHR ''7''"
  "hex_digit 8 = CHR ''8''" "hex_digit 9 = CHR ''9''" "hex_digit 10 = CHR ''A''" "hex_digit 11 = CHR ''B''"
  "hex_digit 12 = CHR ''C''" "hex_digit 13 = CHR ''D''" "hex_digit 14 = CHR ''E''" "hex_digit 15 = CHR ''F''"
  by code_simp+

text \<open>Evaluation of literals by the simplifier, which is faster than the code equations on large numbers.\<close>

lemmas num_text_eval = digit_char_eval hex_digit_eval nat_str.simps hex_upper.simps

section \<open>Floats\<close>

text \<open>
  \<open>float(i)\<close> of an integer raises \<open>OverflowError\<close> from the midpoint above the largest double on;
  below, the model keeps the exact value.
\<close>

definition py_float_of_int :: "int \<Rightarrow> rat res" where
  "py_float_of_int i = (if 2 ^ 1024 - 2 ^ 970 \<le> \<bar>i\<bar> then Inl OverflowError else Inr (of_int i))"

end
