(* ===== verification/Interfaces.thy ===== *)
theory Interfaces
  imports McPrelude
begin

text \<open>
  The interfaces between components, as locales with the laws the clients rely on.
  \<open>timed_cache\<close> is the contract of the three caches that remember what was seen (message ids,
  throttled commands, pushed messages); its client lemmas say which requests a check-and-mark
  client accepts, once for all of them. \<open>timed_cache_remark\<close> adds that a key may be marked again.
  \<open>group_test\<close> is the group predicate that the suppression functions take as an argument.
\<close>

type_synonym time = rat

section \<open>Caches with expiry\<close>

text \<open>
  A check-and-mark client: drop the dead entries, refuse a key that is still there, mark it
  otherwise. The specification keeps the list of accepted requests and compares times.
\<close>

fun requests :: "(time \<Rightarrow> 's \<Rightarrow> 's) \<Rightarrow> ('s \<Rightarrow> 'k \<Rightarrow> bool) \<Rightarrow> ('k \<Rightarrow> 'v \<Rightarrow> time \<Rightarrow> 's \<Rightarrow> 's) \<Rightarrow>
    (time \<times> 'k \<times> 'v) list \<Rightarrow> 's \<Rightarrow> bool list" where
  "requests sweep present mark [] s = []"
| "requests sweep present mark ((t, k, v) # rs) s =
     (let s' = sweep t s in
      if present s' k then False # requests sweep present mark rs s'
      else True # requests sweep present mark rs (mark k v t s'))"

definition live_in :: "('v \<Rightarrow> time) \<Rightarrow> (time \<times> 'k \<times> 'v) list \<Rightarrow> time \<Rightarrow> 'k \<Rightarrow> bool" where
  "live_in life acc t k \<longleftrightarrow> list_ex (\<lambda>(t0, k0, v0). k0 = k \<and> t \<le> t0 + life v0) acc"

fun spec_requests :: "('v \<Rightarrow> time) \<Rightarrow> (time \<times> 'k \<times> 'v) list \<Rightarrow> (time \<times> 'k \<times> 'v) list \<Rightarrow> bool list" where
  "spec_requests life [] acc = []"
| "spec_requests life ((t, k, v) # rs) acc =
     (if live_in life acc t k then False # spec_requests life rs acc
      else True # spec_requests life rs ((t, k, v) # acc))"

fun times_from :: "time \<Rightarrow> (time \<times> 'a) list \<Rightarrow> bool" where
  "times_from t [] = True"
| "times_from t ((t', x) # rs) = (t \<le> t' \<and> times_from t' rs)"

fun end_time :: "time \<Rightarrow> (time \<times> 'a) list \<Rightarrow> time" where
  "end_time t [] = t"
| "end_time t ((t', x) # es) = end_time t' es"

text \<open>Marks and sweeps in any order, and what they leave: the last mark of a key decides.\<close>

fun run_marks :: "(time \<Rightarrow> 's \<Rightarrow> 's) \<Rightarrow> ('k \<Rightarrow> 'v \<Rightarrow> time \<Rightarrow> 's \<Rightarrow> 's) \<Rightarrow>
    (time \<times> ('k \<times> 'v) option) list \<Rightarrow> 's \<Rightarrow> 's" where
  "run_marks sweep mark [] s = s"
| "run_marks sweep mark ((t, None) # es) s = run_marks sweep mark es (sweep t s)"
| "run_marks sweep mark ((t, Some (k, v)) # es) s = run_marks sweep mark es (mark k v t s)"

fun last_mark :: "('v \<Rightarrow> time) \<Rightarrow> (time \<times> ('k \<times> 'v) option) list \<Rightarrow> 'k \<Rightarrow> time option \<Rightarrow> time option" where
  "last_mark life [] k d = d"
| "last_mark life ((t, None) # es) k d = last_mark life es k d"
| "last_mark life ((t, Some (k', v)) # es) k d =
     last_mark life es k (if k' = k then Some (t + life v) else d)"

definition live_at :: "time option \<Rightarrow> time \<Rightarrow> bool" where
  "live_at d t \<longleftrightarrow> (case d of None \<Rightarrow> False | Some e \<Rightarrow> t \<le> e)"

lemma live_at_simps [simp]: "\<not> live_at None t" "live_at (Some e) t \<longleftrightarrow> t \<le> e"
  by (simp_all add: live_at_def)

lemma live_in_simps [simp]:
  "\<not> live_in life [] t k"
  "live_in life ((t0, k0, v0) # acc) t k \<longleftrightarrow> (k0 = k \<and> t \<le> t0 + life v0) \<or> live_in life acc t k"
  by (auto simp: live_in_def)

lemma end_time_le: "times_from t es \<Longrightarrow> t \<le> end_time t es"
  by (induction t es rule: times_from.induct) auto

text \<open>
  The contract. \<open>deadline s k\<close> is the last instant at which the entry of \<open>k\<close> is still live, \<open>sweep\<close>
  removes the dead entries, \<open>mark\<close> inserts an entry that lives for \<open>life v\<close>, and \<open>invar t s\<close> is the
  invariant of a cache whose entries were made no later than \<open>t\<close>.
\<close>

locale timed_cache =
  fixes deadline :: "'s \<Rightarrow> 'k \<Rightarrow> time option"
    and present :: "'s \<Rightarrow> 'k \<Rightarrow> bool"
    and sweep :: "time \<Rightarrow> 's \<Rightarrow> 's"
    and mark :: "'k \<Rightarrow> 'v \<Rightarrow> time \<Rightarrow> 's \<Rightarrow> 's"
    and life :: "'v \<Rightarrow> time"
    and invar :: "time \<Rightarrow> 's \<Rightarrow> bool"
    and empty :: 's
  assumes deadline_empty: "deadline empty k = None"
    and present_iff: "present s k \<longleftrightarrow> deadline s k \<noteq> None"
    and deadline_sweep: "invar t s \<Longrightarrow> t \<le> t' \<Longrightarrow>
      deadline (sweep t' s) k = (if live_at (deadline s k) t' then deadline s k else None)"
    and deadline_mark: "invar t s \<Longrightarrow> t \<le> t' \<Longrightarrow> \<not> present s k \<Longrightarrow>
      deadline (mark k v t' s) k' = (if k' = k then Some (t' + life v) else deadline s k')"
    and invar_empty: "invar t empty"
    and invar_sweep: "invar t s \<Longrightarrow> t \<le> t' \<Longrightarrow> invar t' (sweep t' s)"
    and invar_mark: "invar t s \<Longrightarrow> t \<le> t' \<Longrightarrow> \<not> present s k \<Longrightarrow> invar t' (mark k v t' s)"
begin

definition agrees :: "time \<Rightarrow> 's \<Rightarrow> (time \<times> 'k \<times> 'v) list \<Rightarrow> bool" where
  "agrees t s acc \<longleftrightarrow> invar t s \<and>
     (\<forall>k t'. t \<le> t' \<longrightarrow> live_at (deadline s k) t' = live_in life acc t' k)"

lemma agrees_sweep:
  assumes "agrees t s acc" "t \<le> t'"
  shows "agrees t' (sweep t' s) acc" and "present (sweep t' s) k \<longleftrightarrow> live_in life acc t' k"
proof -
  have i: "invar t s" and a: "\<And>k u. t \<le> u \<Longrightarrow> live_at (deadline s k) u = live_in life acc u k"
    using assms(1) by (auto simp: agrees_def)
  note d = deadline_sweep[OF i assms(2)]
  have "live_at (deadline (sweep t' s) k) u = live_in life acc u k" if "t' \<le> u" for k u
    using a[of u k] that assms(2) by (cases "deadline s k") (auto simp: d)
  then show "agrees t' (sweep t' s) acc"
    using invar_sweep[OF i assms(2)] by (simp add: agrees_def)
  show "present (sweep t' s) k \<longleftrightarrow> live_in life acc t' k"
    using a[OF assms(2), of k] by (cases "deadline s k") (auto simp: present_iff d)
qed

lemma agrees_mark:
  assumes "agrees t s acc" "\<not> live_in life acc t k" "\<not> present s k"
  shows "agrees t (mark k v t s) ((t, k, v) # acc)"
proof -
  have i: "invar t s" and a: "\<And>k u. t \<le> u \<Longrightarrow> live_at (deadline s k) u = live_in life acc u k"
    using assms(1) by (auto simp: agrees_def)
  have n: "deadline s k = None" using assms(3) present_iff by simp
  have "live_at (deadline (mark k v t s) k') u = live_in life ((t, k, v) # acc) u k'" if "t \<le> u" for k' u
    using a[OF that, of k'] n by (cases "k' = k") (auto simp: deadline_mark[OF i order_refl assms(3)])
  then show ?thesis using invar_mark[OF i order_refl assms(3)] by (simp add: agrees_def)
qed

lemma requests_refine:
  "agrees t s acc \<Longrightarrow> times_from t rs \<Longrightarrow> requests sweep present mark rs s = spec_requests life rs acc"
proof (induction rs arbitrary: t s acc)
  case (Cons r rs)
  obtain t' k v where r: "r = (t', k, v)" by (cases r)
  with Cons.prems have le: "t \<le> t'" and rest: "times_from t' rs" by auto
  note sw = agrees_sweep[OF Cons.prems(1) le]
  show ?case
  proof (cases "live_in life acc t' k")
    case True
    with sw(2) Cons.IH[OF sw(1) rest] show ?thesis by (simp add: r)
  next
    case False
    with sw(2) have n: "\<not> present (sweep t' s) k" by simp
    from Cons.IH[OF agrees_mark[OF sw(1) False n] rest] False n show ?thesis by (simp add: r)
  qed
qed simp

theorem requests_spec:
  "times_from t rs \<Longrightarrow> requests sweep present mark rs empty = spec_requests life rs []"
  by (rule requests_refine[of t]) (auto simp: agrees_def invar_empty deadline_empty)

end

text \<open>A cache in which marking a live key again restarts its life.\<close>

locale timed_cache_remark = timed_cache deadline present sweep mark life invar empty
  for deadline :: "'s \<Rightarrow> 'k \<Rightarrow> time option"
    and present :: "'s \<Rightarrow> 'k \<Rightarrow> bool"
    and sweep :: "time \<Rightarrow> 's \<Rightarrow> 's"
    and mark :: "'k \<Rightarrow> 'v \<Rightarrow> time \<Rightarrow> 's \<Rightarrow> 's"
    and life :: "'v \<Rightarrow> time"
    and invar :: "time \<Rightarrow> 's \<Rightarrow> bool"
    and empty :: 's +
  assumes deadline_remark: "invar t s \<Longrightarrow> t \<le> t' \<Longrightarrow>
      deadline (mark k v t' s) k' = (if k' = k then Some (t' + life v) else deadline s k')"
    and invar_remark: "invar t s \<Longrightarrow> t \<le> t' \<Longrightarrow> invar t' (mark k v t' s)"
begin

lemma run_marks_live:
  "invar t s \<Longrightarrow> times_from t es \<Longrightarrow> end_time t es \<le> now \<Longrightarrow>
   (\<And>u. now \<le> u \<Longrightarrow> live_at (deadline s k) u = live_at d u) \<Longrightarrow>
   invar (end_time t es) (run_marks sweep mark es s) \<and>
   (now \<le> u \<longrightarrow> live_at (deadline (run_marks sweep mark es s) k) u = live_at (last_mark life es k d) u)"
proof (induction es arbitrary: t s d)
  case (Cons ev es)
  obtain t' x where ev: "ev = (t', x)" by (cases ev)
  with Cons.prems have le: "t \<le> t'" "times_from t' es" "end_time t' es \<le> now" by auto
  then have "t' \<le> now" using end_time_le by fastforce
  show ?case
  proof (cases x)
    case None
    have "live_at (deadline (sweep t' s) k) u = live_at d u" if "now \<le> u" for u
      using deadline_sweep[OF Cons.prems(1) le(1), of k] Cons.prems(4)[OF that] \<open>t' \<le> now\<close> that
      by (cases "deadline s k") auto
    from Cons.IH[OF invar_sweep[OF Cons.prems(1) le(1)] le(2,3) this] show ?thesis
      by (simp add: ev None)
  next
    case (Some kv)
    obtain k' v where kv: "kv = (k', v)" by (cases kv)
    have "live_at (deadline (mark k' v t' s) k) u = live_at (if k' = k then Some (t' + life v) else d) u"
      if "now \<le> u" for u
      using deadline_remark[OF Cons.prems(1) le(1)] Cons.prems(4)[OF that] by auto
    from Cons.IH[OF invar_remark[OF Cons.prems(1) le(1)] le(2,3) this] show ?thesis
      by (simp add: ev Some kv)
  qed
qed simp

theorem present_iff_last_mark:
  assumes "times_from t es" "end_time t es \<le> now"
  shows "present (sweep now (run_marks sweep mark es empty)) k \<longleftrightarrow> live_at (last_mark life es k None) now"
proof -
  have "invar (end_time t es) (run_marks sweep mark es empty) \<and> (now \<le> now \<longrightarrow>
     live_at (deadline (run_marks sweep mark es empty) k) now = live_at (last_mark life es k None) now)"
    by (rule run_marks_live[OF invar_empty assms]) (simp add: deadline_empty)
  with deadline_sweep[OF _ assms(2), of "run_marks sweep mark es empty" k] show ?thesis
    by (auto simp: present_iff live_at_def split: option.splits)
qed

end

section \<open>The group predicate as an argument\<close>

text \<open>
  What the suppression functions rely on in the predicate they are given: it never accepts the
  broadcast destinations, and no callsign-shaped destination makes it raise.
\<close>

locale group_test =
  fixes is_group_func :: "string \<Rightarrow> bool res"
  assumes not_empty: "is_group_func [] = Inr False"
    and not_star: "is_group_func ''*'' = Inr False"
    and not_all: "is_group_func ''ALL'' = Inr False"
    and short_returns: "length dst \<le> 4300 \<Longrightarrow> \<exists>b. is_group_func dst = Inr b"
begin

lemma broadcast_not_group: "dst \<in> {[], ''*'', ''ALL''} \<Longrightarrow> is_group_func dst = Inr False"
  using not_empty not_star not_all by auto

end

end
