(* ===== verification/Suppression.thy ===== *)
theory Suppression
  imports CommandParsing NumText Interfaces
begin

text \<open>
  Outbound messages: the suppression decision of \<open>suppression.py\<close>, and the routing of a message
  from the webapp in \<open>main.py\<close> (\<open>_should_suppress_outbound\<close>, \<open>_handle_outbound\<close>,
  \<open>_handle_outgoing_message\<close>, \<open>_create_synthetic_message\<close>, \<open>_send_via_udp\<close>, \<open>_send_via_ble\<close>).
  The suppression functions take the group predicate as an argument, as in the source; what they
  rely on in it is the locale \<open>group_test\<close>, interpreted here on \<open>is_group\<close>.
\<close>

section \<open>The suppression functions\<close>

text \<open>Messages are dictionaries of JSON values; a method call on a non-string raises.\<close>

definition is_command :: "json \<Rightarrow> bool res" where
  "is_command msg = (if \<not> truthy msg then Inr False else bind_res (str_of msg) (\<lambda>s. Inr (startswith s ''!'')))"

definition is_valid_destination :: "json \<Rightarrow> (string \<Rightarrow> bool res) \<Rightarrow> bool res" where
  "is_valid_destination dst is_group_func =
     (if \<not> truthy dst \<or> dst = JStr ''*'' \<or> dst = JStr ''ALL'' then Inr False
      else case dst of
        JStr d \<Rightarrow> if dst_callsign d then Inr True else is_group_func d
      | _ \<Rightarrow> Inl TypeError)"

definition should_suppress_outbound :: "msgd \<Rightarrow> string \<Rightarrow> (string \<Rightarrow> bool res) \<Rightarrow> bool res" where
  "should_suppress_outbound message_data my_callsign is_group_func =
     (let src = dict_get message_data ''src'' (JStr []);
          dst = dict_get message_data ''dst'' (JStr []);
          msg = dict_get message_data ''msg'' (JStr [])
      in if src \<noteq> JStr my_callsign then Inr False
         else bind_res (is_command msg) (\<lambda>c.
           if \<not> c then Inr False
           else bind_res (is_valid_destination dst is_group_func) (\<lambda>v.
             if \<not> v then Inr True
             else bind_res (str_of msg) (\<lambda>m.
               let target = extract_target_callsign m
               in Inr (target = None \<or> target = Some my_callsign)))))"

datatype suppress_reason =
    NotOurMessage json
  | NotACommand
  | InvalidDestination json
  | NoTargetLocal
  | TargetIsUs string
  | TargetIs string

definition get_suppression_reason ::
  "msgd \<Rightarrow> string \<Rightarrow> (string \<Rightarrow> bool res) \<Rightarrow> suppress_reason res" where
  "get_suppression_reason message_data my_callsign is_group_func =
     (let src = dict_get message_data ''src'' (JStr []);
          dst = dict_get message_data ''dst'' (JStr []);
          msg = dict_get message_data ''msg'' (JStr [])
      in if src \<noteq> JStr my_callsign then Inr (NotOurMessage src)
         else bind_res (is_command msg) (\<lambda>c.
           if \<not> c then Inr NotACommand
           else bind_res (is_valid_destination dst is_group_func) (\<lambda>v.
             if \<not> v then Inr (InvalidDestination dst)
             else bind_res (str_of msg) (\<lambda>m.
               case extract_target_callsign m of
                 None \<Rightarrow> Inr NoTargetLocal
               | Some t \<Rightarrow> Inr (if t = my_callsign then TargetIsUs t else TargetIs t)))))"

fun local_reason :: "suppress_reason \<Rightarrow> bool" where
  "local_reason (InvalidDestination d) = True"
| "local_reason NoTargetLocal = True"
| "local_reason (TargetIsUs t) = True"
| "local_reason _ = False"

section \<open>Routing an outbound message\<close>

record outbound_node =
  ob_my_callsign :: "string option"   \<comment> \<open>\<open>MessageRouter.my_callsign\<close>\<close>
  ob_validator :: "string option"     \<comment> \<open>the \<open>MessageValidator\<close>, by its callsign\<close>

definition create_synthetic_message :: "msgd \<Rightarrow> string \<Rightarrow> nat \<Rightarrow> msgd" where
  "create_synthetic_message original protocol_type now_ms =
     [(''src'', dict_get original ''src'' JNull),
      (''dst'', dict_get original ''dst'' JNull),
      (''msg'', dict_get original ''msg'' JNull),
      (''msg_id'', JStr (hex_padded 12 now_ms)),
      (''type'', JStr ''msg''),
      (''src_type'', JStr protocol_type),
      (''timestamp'', JInt (int now_ms))]"

definition suppress_decision :: "outbound_node \<Rightarrow> msgd \<Rightarrow> (bool \<times> suppress_reason option) res" where
  "suppress_decision node message_data =
     (case ob_validator node of
        None \<Rightarrow> Inr (False, None)
      | Some me \<Rightarrow>
          bind_res (should_suppress_outbound message_data me is_group) (\<lambda>suppress.
          bind_res (get_suppression_reason message_data me is_group) (\<lambda>reason.
            Inr (suppress, Some reason))))"

definition is_message_to_self :: "outbound_node \<Rightarrow> msgd \<Rightarrow> bool" where
  "is_message_to_self node message_data =
     (case ob_my_callsign node of
        None \<Rightarrow> False
      | Some me \<Rightarrow> me \<noteq> [] \<and> dict_get message_data ''dst'' (JStr []) = JStr me)"

text \<open>Where the message goes: to the command handler as a synthetic message, or to the transport.\<close>

datatype outbound =
    Suppressed msgd
  | SelfMessage msgd
  | Transmitted msgd

definition handle_outbound :: "outbound_node \<Rightarrow> msgd \<Rightarrow> string \<Rightarrow> nat \<Rightarrow> outbound res" where
  "handle_outbound node message_data protocol now_ms =
     (if ob_validator node = None then Inl RuntimeError
      else bind_res (normalize_unified message_data CtxMessage) (\<lambda>normalized0.
        let normalized =
              (case ob_my_callsign node of
                 Some me \<Rightarrow>
                   if \<not> truthy (dict_get normalized0 ''src'' JNull) \<and> me \<noteq> []
                   then AList.update ''src'' (JStr me) normalized0 else normalized0
               | None \<Rightarrow> normalized0)
        in bind_res (suppress_decision node normalized) (\<lambda>(suppress, reason).
             if suppress then Inr (Suppressed (create_synthetic_message normalized protocol now_ms))
             else if is_message_to_self node normalized
             then Inr (SelfMessage (create_synthetic_message normalized protocol now_ms))
             else Inr (Transmitted normalized))))"

section \<open>The transports\<close>

datatype send_effect =
    UdpSent msgd
  | ErrorToast string
  | SendFailed json json json string
  | BleSent json json

text \<open>
  The UDP transport answers with the text of its exception, if it raises one. Only \<open>type\<close>, \<open>dst\<close>,
  \<open>msg\<close> and \<open>src\<close> go to the firmware, so \<open>src_type\<close> is removed first.
\<close>

definition publish_send_failed :: "msgd \<Rightarrow> string \<Rightarrow> send_effect" where
  "publish_send_failed d reason =
     SendFailed (dict_get d ''src'' JNull) (dict_get d ''dst'' JNull) (dict_get d ''msg'' JNull) reason"

definition send_via_udp :: "(msgd \<Rightarrow> string option) option \<Rightarrow> msgd \<Rightarrow> send_effect list" where
  "send_via_udp udp_handler normalized_data =
     (let d = AList.delete ''src_type'' normalized_data in
      case udp_handler of
        None \<Rightarrow> [ErrorToast ''UDP handler not available'', publish_send_failed d ''UDP handler not available'']
      | Some send \<Rightarrow>
          (case send d of
             None \<Rightarrow> [UdpSent d]
           | Some e \<Rightarrow> [ErrorToast (''Failed to send UDP message: '' @ e), publish_send_failed d e]))"

definition send_via_ble :: "bool \<Rightarrow> msgd \<Rightarrow> send_effect list" where
  "send_via_ble client normalized_data =
     (if client then [BleSent (dict_get normalized_data ''msg'' JNull) (dict_get normalized_data ''dst'' JNull)]
      else [])"

section \<open>The group predicate\<close>

interpretation mesh_group: group_test is_group
  by unfold_locales (simp_all add: is_group_eq group_spec_def int_max_str_digits_def
      upper_def upper_char_def list_all_iff ascii_digit_def Let_def)

section \<open>Lemmas\<close>

lemma is_command_JStr [simp]: "is_command (JStr s) = Inr (startswith s ''!'')"
  by (cases s) (simp_all add: is_command_def)

lemma dst_callsign_broadcast: "d \<in> {[], ''*'', ''ALL''} \<Longrightarrow>
    is_valid_destination (JStr d) f = Inr False"
  by (auto simp: is_valid_destination_def)

lemma valid_destination_JStr:
  "is_valid_destination (JStr d) f = Inr v \<Longrightarrow>
   v \<longleftrightarrow> d \<notin> {[], ''*'', ''ALL''} \<and> (dst_callsign d \<or> f d = Inr True)"
  by (auto simp: is_valid_destination_def split: if_splits)

text \<open>An own command in normal form, with the decision the functions reach.\<close>

definition own_command :: "msgd \<Rightarrow> string \<Rightarrow> string \<Rightarrow> string \<Rightarrow> bool" where
  "own_command d me dst msg \<longleftrightarrow> dict_get d ''src'' (JStr []) = JStr me \<and>
     dict_get d ''dst'' (JStr []) = JStr dst \<and> dict_get d ''msg'' (JStr []) = JStr msg \<and>
     startswith msg ''!''"

context group_test
begin

lemma own_command_suppressed:
  assumes "own_command d me dst msg" "length dst \<le> 4300"
  shows "\<exists>v. is_valid_destination (JStr dst) is_group_func = Inr v \<and>
    should_suppress_outbound d me is_group_func =
      Inr (\<not> v \<or> extract_target_callsign msg = None \<or> extract_target_callsign msg = Some me)"
proof -
  have "\<exists>v. is_valid_destination (JStr dst) is_group_func = Inr v"
    using short_returns[OF assms(2)] by (force simp: is_valid_destination_def)
  then obtain v where v: "is_valid_destination (JStr dst) is_group_func = Inr v" ..
  with assms(1) show ?thesis
    by (auto simp: own_command_def should_suppress_outbound_def Let_def)
qed

lemma broadcast_suppressed:
  assumes "own_command d me dst msg" "dst \<in> {[], ''*'', ''ALL''}"
  shows "should_suppress_outbound d me is_group_func = Inr True"
  using assms dst_callsign_broadcast[OF assms(2)]
  by (auto simp: own_command_def should_suppress_outbound_def)

end

lemma should_suppress_reason:
  "should_suppress_outbound d me f =
   (case get_suppression_reason d me f of Inl e \<Rightarrow> Inl e | Inr r \<Rightarrow> Inr (local_reason r))"
  by (simp add: should_suppress_outbound_def get_suppression_reason_def Let_def
      split: bind_res_split option.split)

lemma normalize_fields:
  "normalize_unified d ctx = Inr n \<Longrightarrow>
   \<exists>src dst msg. map_of n ''src'' = Some (JStr src) \<and> map_of n ''dst'' = Some (JStr dst) \<and>
     map_of n ''msg'' = Some (JStr msg)"
  by (auto simp: normalize_unified_def Let_def)

text \<open>The decision and the reason shown for it never disagree: the message is suppressed exactly
  when the reason is a local one (invalid destination, no target, or the own callsign as target),
  and one of the two functions raises exactly when the other does, with the same error.\<close>

theorem suppression_reason_agrees:
  "should_suppress_outbound d me f =
   (case get_suppression_reason d me f of Inl e \<Rightarrow> Inl e | Inr r \<Rightarrow> Inr (local_reason r))"
  by (rule should_suppress_reason)

text \<open>C5: what reaches the radio. A message from the webapp is transmitted only when it is not addressed
  to the node itself and, if it is an own command, only when its destination is a callsign or group
  and it names another station as target: a command meant for this node never goes on the air.
\<close>

theorem no_local_command_transmitted:
  assumes "handle_outbound \<lparr>ob_my_callsign = Some me, ob_validator = Some me\<rparr> message protocol now_ms
      = Inr (Transmitted d)"
    and "me \<noteq> []"
  shows "dict_get d ''dst'' (JStr []) \<noteq> JStr me \<and>
    (if own_command d me dst msg
     then dst \<notin> {[], ''*'', ''ALL''} \<and> (dst_callsign dst \<or> is_group dst = Inr True) \<and>
       (\<exists>t. extract_target_callsign msg = Some t \<and> t \<noteq> me)
     else True)"
proof -
  let ?node = "\<lparr>ob_my_callsign = Some me, ob_validator = Some me\<rparr>"
  from assms obtain r where n: "suppress_decision ?node d = Inr (False, r)" "\<not> is_message_to_self ?node d"
    by (auto simp: handle_outbound_def Let_def split: if_splits prod.splits)
  then have s: "should_suppress_outbound d me is_group = Inr False"
    by (auto simp: suppress_decision_def)
  from n(2) assms(2) have "dict_get d ''dst'' (JStr []) \<noteq> JStr me" by (simp add: is_message_to_self_def)
  moreover
  have "dst \<notin> {[], ''*'', ''ALL''} \<and> (dst_callsign dst \<or> is_group dst = Inr True) \<and>
       (\<exists>t. extract_target_callsign msg = Some t \<and> t \<noteq> me)" if o: "own_command d me dst msg"
  proof -
    from s o obtain "is_valid_destination (JStr dst) is_group = Inr True"
      "extract_target_callsign msg \<noteq> None" "extract_target_callsign msg \<noteq> Some me"
      by (auto simp: own_command_def should_suppress_outbound_def Let_def split: if_splits)
    with valid_destination_JStr[of dst is_group True] show ?thesis by auto
  qed
  ultimately show ?thesis by simp
qed

theorem no_local_command_transmitted_witness:
  "\<exists>d. handle_outbound \<lparr>ob_my_callsign = Some ''DK5EN-1'', ob_validator = Some ''DK5EN-1''\<rparr>
      [(''dst'', JStr ''oe1abc''), (''msg'', JStr ''!wx OE1ABC'')] ''udp'' 5 = Inr (Transmitted d) \<and>
    dict_get d ''dst'' (JStr []) \<noteq> JStr ''DK5EN-1'' \<and>
    (if own_command d ''DK5EN-1'' ''OE1ABC'' ''!wx OE1ABC''
     then ''OE1ABC'' \<notin> {[], ''*'', ''ALL''} \<and> (dst_callsign ''OE1ABC'' \<or> is_group ''OE1ABC'' = Inr True) \<and>
       (\<exists>t. extract_target_callsign ''!wx OE1ABC'' = Some t \<and> t \<noteq> ''DK5EN-1'')
     else True)"
proof -
  have h: "handle_outbound \<lparr>ob_my_callsign = Some ''DK5EN-1'', ob_validator = Some ''DK5EN-1''\<rparr>
      [(''dst'', JStr ''oe1abc''), (''msg'', JStr ''!wx OE1ABC'')] ''udp'' 5
    = Inr (Transmitted [(''dst'', JStr ''OE1ABC''), (''msg'', JStr ''!wx OE1ABC''), (''src'', JStr ''DK5EN-1'')])"
    by code_simp
  from h no_local_command_transmitted[OF h] show ?thesis by blast
qed

text \<open>An own command to a broadcast destination always stays local, whatever its text: it is handed
  to the command handler as a synthetic message that carries the normalised text.
\<close>

theorem own_broadcast_command_stays_local:
  assumes "normalize_unified message CtxMessage = Inr n" "own_command n me dst msg"
    and "dst \<in> {[], ''*'', ''ALL''}" "me \<noteq> []"
  shows "handle_outbound \<lparr>ob_my_callsign = Some me, ob_validator = Some me\<rparr> message protocol now_ms =
    Inr (Suppressed (create_synthetic_message n protocol now_ms))"
proof -
  have s: "should_suppress_outbound n me is_group = Inr True"
    using assms(2,3) by (rule mesh_group.broadcast_suppressed)
  then obtain r where r: "get_suppression_reason n me is_group = Inr r"
    by (cases "get_suppression_reason n me is_group") (simp_all add: should_suppress_reason)
  from assms(1) obtain v where "map_of n ''src'' = Some (JStr v)"
    using normalize_fields by blast
  with assms(2,4) have "truthy (dict_get n ''src'' JNull)"
    by (auto simp: own_command_def dict_get_def)
  with assms(1) s r show ?thesis
    by (simp add: handle_outbound_def suppress_decision_def)
qed

theorem own_broadcast_command_stays_local_witness:
  "handle_outbound \<lparr>ob_my_callsign = Some ''DK5EN-1'', ob_validator = Some ''DK5EN-1''\<rparr>
      [(''src'', JStr ''DK5EN-1''), (''dst'', JStr ''all''), (''msg'', JStr ''!wx OE1ABC'')] ''udp'' 7 =
    Inr (Suppressed (create_synthetic_message
      [(''src'', JStr ''DK5EN-1''), (''dst'', JStr ''ALL''), (''msg'', JStr ''!wx OE1ABC'')] ''udp'' 7))"
  by (rule own_broadcast_command_stays_local[where dst = "''ALL''" and msg = "''!wx OE1ABC''"])
    (code_simp | simp add: own_command_def dict_get_def)+

end
