(* ===== verification/Identity.thy ===== *)
theory Identity
  imports Suppression
begin

text \<open>
  The node identity, held twice: by \<open>MessageRouter\<close> (\<open>my_callsign\<close>, \<open>validator\<close>) and by
  \<open>CommandHandler\<close> (\<open>my_callsign\<close>, \<open>admin_callsign_base\<close>, \<open>user_info_text\<close>).
  \<open>MessageRouter.apply_callsign\<close> writes both; \<open>CommandHandler.__init__\<close> initialises the second.
  Also \<open>RoutingMixin._is_admin\<close> and \<open>AdminCommandsMixin.handle_group_control\<close>.
\<close>

section \<open>State\<close>

record identity =
  router_callsign :: "string option"
  validator_callsign :: "string option"

record cmd_identity =
  my_callsign :: string
  admin_callsign_base :: string
  user_info_text :: string
  group_responses_enabled :: bool

definition default_info :: "string \<Rightarrow> string" where
  "default_info c = c @ '' Node | No additional info configured''"

text \<open>\<open>str.casefold\<close> differs from \<open>lower\<close> on the sharp s only, in the modelled range.\<close>

definition casefold :: "string \<Rightarrow> string" where
  "casefold s = concat (map (\<lambda>c. if cp c = 223 then ''ss'' else [lower_char c]) s)"

definition callsign_base :: "string \<Rightarrow> string" where
  "callsign_base c = before (CHR ''-'') c"

section \<open>Operations\<close>

definition command_handler_init :: "string \<Rightarrow> string option \<Rightarrow> cmd_identity" where
  "command_handler_init callsign info =
     \<lparr>my_callsign = upper callsign,
      admin_callsign_base = callsign_base (upper callsign),
      user_info_text = (case info of
          Some t \<Rightarrow> if t \<noteq> [] then t else default_info callsign
        | None \<Rightarrow> default_info callsign),
      group_responses_enabled = False\<rparr>"

definition apply_callsign ::
  "string \<Rightarrow> identity \<times> cmd_identity option \<Rightarrow> bool \<times> identity \<times> cmd_identity option" where
  "apply_callsign callsign st =
     (let (router, handler) = st; new = upper (strip callsign) in
      if new = [] \<or> router_callsign router = Some new then (False, st)
      else
        let router' = router\<lparr>router_callsign := Some new, validator_callsign := Some (upper new)\<rparr>;
            handler' = (case handler of
                None \<Rightarrow> None
              | Some h \<Rightarrow>
                  let h1 = (case router_callsign router of
                      Some old \<Rightarrow>
                        if casefold (user_info_text h) = casefold (default_info old)
                        then h\<lparr>user_info_text := default_info new\<rparr> else h
                    | None \<Rightarrow> h)
                  in Some (h1\<lparr>my_callsign := new, admin_callsign_base := callsign_base new\<rparr>))
        in (True, router', handler'))"

definition is_admin :: "cmd_identity \<Rightarrow> string option \<Rightarrow> bool" where
  "is_admin h callsign =
     (case callsign of
        None \<Rightarrow> False
      | Some c \<Rightarrow> if c = [] then False
                 else upper (callsign_base c) = upper (admin_callsign_base h))"

datatype group_reply = GroupAdminRequired | GroupEnabled | GroupDisabled | GroupState bool

definition kwarg_str :: "kwargs \<Rightarrow> string \<Rightarrow> string res" where
  "kwarg_str kw k =
     (case map_of kw k of None \<Rightarrow> Inr [] | Some (PStr s) \<Rightarrow> Inr s | Some (PInt i) \<Rightarrow> Inl AttributeError)"

definition handle_group_control ::
  "cmd_identity \<Rightarrow> kwargs \<Rightarrow> string \<Rightarrow> (cmd_identity \<times> group_reply) res" where
  "handle_group_control h kw requester =
     (if \<not> is_admin h (Some requester) then Inr (h, GroupAdminRequired)
      else bind_res (kwarg_str kw ''state'') (\<lambda>st0.
        let state = lower st0 in
        if state = ''on'' then Inr (h\<lparr>group_responses_enabled := True\<rparr>, GroupEnabled)
        else if state = ''off'' then Inr (h\<lparr>group_responses_enabled := False\<rparr>, GroupDisabled)
        else Inr (h, GroupState (group_responses_enabled h))))"

section \<open>Lemmas\<close>

lemma apply_callsign_result:
  assumes "apply_callsign c (r, h) = (b, r', h')"
  shows "b \<longleftrightarrow> upper (strip c) \<noteq> [] \<and> router_callsign r \<noteq> Some (upper (strip c))"
    and "b \<Longrightarrow> router_callsign r' = Some (upper (strip c)) \<and> validator_callsign r' = Some (upper (strip c))"
    and "\<not> b \<Longrightarrow> r' = r \<and> h' = h"
    and "b \<Longrightarrow> map_option my_callsign h' = map_option (\<lambda>_. upper (strip c)) h \<and>
      map_option admin_callsign_base h' = map_option (\<lambda>_. callsign_base (upper (strip c))) h"
  using assms
  by (cases h; auto simp: apply_callsign_def Let_def split: if_splits option.splits)+

text \<open>The two copies agree, and the info text is the operator's or the current default.\<close>

definition identities_agree :: "string option \<Rightarrow> identity \<times> cmd_identity option \<Rightarrow> bool" where
  "identities_agree operator_text st \<longleftrightarrow>
     (let (r, h) = st in
      validator_callsign r = router_callsign r \<and>
      (case h of None \<Rightarrow> True | Some h \<Rightarrow>
         router_callsign r = Some (my_callsign h) \<and>
         admin_callsign_base h = callsign_base (my_callsign h) \<and>
         (case operator_text of
            Some t \<Rightarrow> user_info_text h = t
          | None \<Rightarrow> casefold (user_info_text h) = casefold (default_info (my_callsign h)))))"

definition apply_all :: "string list \<Rightarrow> identity \<times> cmd_identity option \<Rightarrow> identity \<times> cmd_identity option" where
  "apply_all cs st = fold (\<lambda>c s. snd (apply_callsign c s)) cs st"

definition operator_authored :: "string option \<Rightarrow> bool" where
  "operator_authored t \<longleftrightarrow> (case t of None \<Rightarrow> True | Some t \<Rightarrow>
     \<not> endswith (casefold t) (casefold (default_info [])))"

lemma casefold_append: "casefold (s @ t) = casefold s @ casefold t"
  by (simp add: casefold_def)

lemma endswith_append [simp]: "endswith (s @ t) t"
  by (simp add: endswith_def)

lemma authored_not_default:
  "operator_authored (Some t) \<Longrightarrow> casefold t \<noteq> casefold (default_info c)"
  by (auto simp: operator_authored_def default_info_def casefold_append)

lemma apply_callsign_agree:
  "operator_authored t \<Longrightarrow> identities_agree t st \<Longrightarrow> identities_agree t (snd (apply_callsign c st))"
  by (cases st)
    (auto simp: identities_agree_def apply_callsign_def Let_def authored_not_default
      split: option.splits)

text \<open>Pairing another node never leaves a stale copy of the identity behind. After any sequence of
  callsign changes the router, its validator and the command handler agree on the callsign and the
  administrator base, and the information text is still the operator's, or the default text of the
  current callsign (up to case) when the operator wrote none.
\<close>

theorem identity_never_stale:
  assumes "operator_authored t" "identities_agree t st"
  shows "identities_agree t (apply_all cs st)"
  using assms(2)
proof (induction cs arbitrary: st)
  case (Cons c cs)
  from Cons.IH[OF apply_callsign_agree[OF assms(1) Cons.prems, of c]] show ?case
    by (simp add: apply_all_def)
qed (simp add: apply_all_def)

theorem identity_never_stale_witness:
  "identities_agree None
     (apply_all ['' '', ''oe1xyz-2 '', ''dk5en-9'']
       (\<lparr>router_callsign = Some ''DK5EN-1'', validator_callsign = Some ''DK5EN-1''\<rparr>,
        Some (command_handler_init ''dk5en-1'' None)))"
  by (rule identity_never_stale) (simp add: operator_authored_def, code_simp)

end
