(* ===== verification/Blocklist.thy ===== *)
theory Blocklist
  imports Identity
begin

text \<open>
  The callsign blocklist: \<open>CommandHandler.blocked_callsigns\<close> with its two sources, the curated
  sperrliste (\<open>commands/handler.py\<close>) and the persisted admin kickbans (\<open>commands/admin_commands.py\<close>,
  \<open>storage/prefs.py\<close>), and its enforcement in \<open>main.py\<close> (\<open>blocklist_decision\<close>,
  \<open>filter_history_row\<close>).
\<close>

section \<open>State\<close>

record blocklist =
  blocked_callsigns :: "string set"
  sperrliste_entries :: "string set"
  sperrliste_etag :: "string option"
  kickban_table :: "string set option"   \<comment> \<open>the table of the storage handler, if there is one\<close>

definition blocklist_init :: "string set option \<Rightarrow> blocklist" where
  "blocklist_init table =
     \<lparr>blocked_callsigns = {}, sperrliste_entries = {}, sperrliste_etag = None, kickban_table = table\<rparr>"

text \<open>What one storage call does: it answers, or it raises.\<close>

datatype storage_call = StorageOk | StorageRaises

section \<open>Loading\<close>

definition load_persisted_kickbans :: "storage_call \<Rightarrow> blocklist \<Rightarrow> blocklist" where
  "load_persisted_kickbans call s =
     (case kickban_table s of
        None \<Rightarrow> s
      | Some persisted \<Rightarrow>
          (case call of
             StorageRaises \<Rightarrow> s
           | StorageOk \<Rightarrow> s\<lparr>blocked_callsigns := blocked_callsigns s \<union> persisted\<rparr>))"

text \<open>One HTTP round trip: an error or status, 304, or a JSON body with its ETag header.\<close>

datatype http_answer =
    HttpFailure
  | HttpNotModified
  | HttpBody json "string option"

datatype fetched = FetchFailed | NotModified | Fetched "string set"

fun string_items :: "json list \<Rightarrow> string list option" where
  "string_items [] = Some []"
| "string_items (JStr s # xs) = map_option ((#) s) (string_items xs)"
| "string_items (_ # xs) = None"

definition fetch_sperrliste :: "http_answer \<Rightarrow> blocklist \<Rightarrow> fetched \<times> blocklist" where
  "fetch_sperrliste answer s =
     (case answer of
        HttpFailure \<Rightarrow> (FetchFailed, s)
      | HttpNotModified \<Rightarrow> (NotModified, s)
      | HttpBody body etag \<Rightarrow>
          (case body of
             JList items \<Rightarrow>
               (case string_items items of
                  None \<Rightarrow> (FetchFailed, s)
                | Some cs \<Rightarrow> (Fetched (set (map upper cs)), s\<lparr>sperrliste_etag := etag\<rparr>))
           | _ \<Rightarrow> (FetchFailed, s)))"

definition protected_kickbans :: "storage_call \<Rightarrow> blocklist \<Rightarrow> string set" where
  "protected_kickbans call s =
     (case kickban_table s of
        None \<Rightarrow> {}
      | Some persisted \<Rightarrow> (case call of StorageOk \<Rightarrow> persisted | StorageRaises \<Rightarrow> blocked_callsigns s))"

text \<open>The flag tells whether the new set is broadcast.\<close>

definition apply_sperrliste :: "storage_call \<Rightarrow> string set \<Rightarrow> blocklist \<Rightarrow> blocklist \<times> bool" where
  "apply_sperrliste call data s =
     (let before = blocked_callsigns s;
          stale = sperrliste_entries s - data;
          kept = (if stale \<noteq> {} then before - (stale - protected_kickbans call s) else before);
          s' = s\<lparr>blocked_callsigns := kept \<union> data, sperrliste_entries := data\<rparr>
      in (s', blocked_callsigns s' \<noteq> before))"

definition SPERRLISTE_RETRY_LADDER_S :: "nat list" where
  "SPERRLISTE_RETRY_LADDER_S = [30, 60, 120, 300]"

definition SPERRLISTE_REFRESH_INTERVAL_S :: nat where
  "SPERRLISTE_REFRESH_INTERVAL_S = 15 * 60"

text \<open>
  The background loop, on the answers of its successive fetches; it is stopped when they run out.
  The result has the delays it waited for.
\<close>

fun refresh_phase :: "(http_answer \<times> storage_call) list \<Rightarrow> blocklist \<Rightarrow> blocklist \<times> nat list" where
  "refresh_phase [] s = (s, [])"
| "refresh_phase ((answer, call) # rest) s =
     (let (r, s1) = fetch_sperrliste answer s;
          s2 = (case r of Fetched data \<Rightarrow> fst (apply_sperrliste call data s1) | _ \<Rightarrow> s1);
          (s3, waits) = refresh_phase rest s2
      in (s3, SPERRLISTE_REFRESH_INTERVAL_S # waits))"

fun retry_phase :: "nat \<Rightarrow> (http_answer \<times> storage_call) list \<Rightarrow> blocklist \<Rightarrow> blocklist \<times> nat list" where
  "retry_phase idx [] s = (s, [])"
| "retry_phase idx ((answer, call) # rest) s =
     (let (r, s1) = fetch_sperrliste answer s in
      case r of
        NotModified \<Rightarrow> refresh_phase rest s1
      | Fetched data \<Rightarrow> refresh_phase rest (fst (apply_sperrliste call data s1))
      | FetchFailed \<Rightarrow>
          let delay = SPERRLISTE_RETRY_LADDER_S ! min idx (length SPERRLISTE_RETRY_LADDER_S - 1);
              (s2, waits) = retry_phase (idx + 1) rest s1
          in (s2, delay # waits))"

definition load_sperrliste :: "(http_answer \<times> storage_call) list \<Rightarrow> blocklist \<Rightarrow> blocklist \<times> nat list" where
  "load_sperrliste answers s = retry_phase 0 answers s"

section \<open>The kickban command\<close>

datatype kb_reply =
    KbAdminRequired | KbEmpty | KbList "string list" | KbCleared nat
  | KbInvalid | KbOwnCallsign | KbUnblocked string | KbNotBlocked string
  | KbAlreadyBlocked string | KbBlocked string | KbError py_error

text \<open>
  An exception of a storage call leaves the handler after the in-memory set has been changed and
  before the broadcast; \<open>execute_command\<close> turns it into an error reply.
\<close>

definition store_kickbans :: "storage_call \<Rightarrow> (string set \<Rightarrow> string set) \<Rightarrow> blocklist \<Rightarrow> kb_reply \<Rightarrow>
    blocklist \<times> kb_reply \<times> bool" where
  "store_kickbans call f s reply =
     (case kickban_table s of
        None \<Rightarrow> (s, reply, True)
      | Some table \<Rightarrow>
          (case call of
             StorageRaises \<Rightarrow> (s, KbError OSError, False)
           | StorageOk \<Rightarrow> (s\<lparr>kickban_table := Some (f table)\<rparr>, reply, True)))"

definition handle_kickban :: "cmd_identity \<Rightarrow> storage_call \<Rightarrow> kwargs \<Rightarrow> string \<Rightarrow> blocklist \<Rightarrow>
    blocklist \<times> kb_reply \<times> bool" where
  "handle_kickban h call kw requester s =
     (if \<not> is_admin h (Some requester) then (s, KbAdminRequired, False)
      else if kw = [] \<or> map_of kw ''callsign'' = Some (PStr ''list'') then
        (if blocked_callsigns s = {} then (s, KbEmpty, False)
         else (s, KbList (sorted_list_of_set (blocked_callsigns s)), False))
      else if map_of kw ''callsign'' = Some (PStr ''delall'') then
        store_kickbans call (\<lambda>_. {}) (s\<lparr>blocked_callsigns := {}\<rparr>) (KbCleared (card (blocked_callsigns s)))
      else case (kwarg_str kw ''callsign'', kwarg_str kw ''action'') of
        (Inl e, _) \<Rightarrow> (s, KbError e, False)
      | (Inr _, Inl e) \<Rightarrow> (s, KbError e, False)
      | (Inr c0, Inr a0) \<Rightarrow>
          let callsign = upper c0; action = lower a0 in
          if \<not> callsign_strict callsign then (s, KbInvalid, False)
          else if callsign_base callsign = admin_callsign_base h then (s, KbOwnCallsign, False)
          else if action = ''del'' then
            (if callsign \<in> blocked_callsigns s then
               store_kickbans call (\<lambda>t. t - {callsign})
                 (s\<lparr>blocked_callsigns := blocked_callsigns s - {callsign}\<rparr>) (KbUnblocked callsign)
             else (s, KbNotBlocked callsign, False))
          else if callsign \<in> blocked_callsigns s then (s, KbAlreadyBlocked callsign, False)
          else
            store_kickbans call (insert callsign)
              (s\<lparr>blocked_callsigns := insert callsign (blocked_callsigns s)\<rparr>) (KbBlocked callsign))"

section \<open>Enforcement\<close>

datatype decision = Pass | Redirect | Drop

definition SPAM_GROUP :: string where
  "SPAM_GROUP = ''9999''"

text \<open>\<open>blocked\<close> is the set of the command handler, if one is registered.\<close>

definition is_callsign_blocked :: "string set option \<Rightarrow> string \<Rightarrow> bool" where
  "is_callsign_blocked blocked callsign = (case blocked of None \<Rightarrow> False | Some b \<Rightarrow> callsign \<in> b)"

definition or_empty :: "json \<Rightarrow> json" where
  "or_empty v = (if truthy v then v else JStr [])"

definition blocklist_decision :: "string set option \<Rightarrow> msgd \<Rightarrow> decision res" where
  "blocklist_decision blocked data =
     bind_res (relay_src_of (or_empty (dict_get data ''src'' JNull))) (\<lambda>src0.
       let src = strip_relay_path src0 in
       if \<not> is_callsign_blocked blocked src then Inr Pass
       else bind_res (str_of (or_empty (dict_get data ''dst'' JNull))) (\<lambda>dst.
         bind_res (dst_kind dst) (\<lambda>kind.
           if kind \<in> {Group, Broadcast, Hashtag} then Inr Redirect else Inr Drop)))"

definition filter_history_row :: "string set option \<Rightarrow> msgd \<Rightarrow> msgd option res" where
  "filter_history_row blocked row =
     bind_res (blocklist_decision blocked row) (\<lambda>d.
       case d of
         Drop \<Rightarrow> Inr None
       | Redirect \<Rightarrow> Inr (Some (AList.update ''dst'' (JStr SPAM_GROUP) row))
       | Pass \<Rightarrow> Inr (Some row))"

text \<open>\<open>_storage_handler\<close> stores exactly what passes.\<close>

definition storage_accepts :: "string set option \<Rightarrow> msgd \<Rightarrow> bool res" where
  "storage_accepts blocked data = bind_res (blocklist_decision blocked data) (\<lambda>d. Inr (d = Pass))"

section \<open>Reachable states\<close>

datatype bl_event =
    EvRefresh http_answer storage_call
  | EvKickban storage_call kwargs string
  | EvLoad storage_call

definition bl_step :: "cmd_identity \<Rightarrow> bl_event \<Rightarrow> blocklist \<Rightarrow> blocklist" where
  "bl_step h ev s =
     (case ev of
        EvRefresh answer call \<Rightarrow>
          (let (r, s1) = fetch_sperrliste answer s in
           case r of Fetched data \<Rightarrow> fst (apply_sperrliste call data s1) | _ \<Rightarrow> s1)
      | EvKickban call kw requester \<Rightarrow> fst (handle_kickban h call kw requester s)
      | EvLoad call \<Rightarrow> load_persisted_kickbans call s)"

fun storage_answers :: "bl_event \<Rightarrow> bool" where
  "storage_answers (EvRefresh a c) = (c = StorageOk)"
| "storage_answers (EvKickban c kw r) = (c = StorageOk)"
| "storage_answers (EvLoad c) = (c = StorageOk)"

inductive bl_reach :: "cmd_identity \<Rightarrow> string set \<Rightarrow> blocklist \<Rightarrow> bool"
  for h :: cmd_identity and table :: "string set" where
  boot: "bl_reach h table (load_persisted_kickbans StorageOk (blocklist_init (Some table)))"
| step: "bl_reach h table s \<Longrightarrow> storage_answers ev \<Longrightarrow> bl_reach h table (bl_step h ev s)"

text \<open>
  Every admin kickban is blocked, every blocked callsign has a source, and no kickban names the
  node itself unless it was persisted before.
\<close>

definition bl_inv :: "cmd_identity \<Rightarrow> string set \<Rightarrow> blocklist \<Rightarrow> bool" where
  "bl_inv h table s \<longleftrightarrow> (\<exists>k. kickban_table s = Some k \<and> k \<subseteq> blocked_callsigns s \<and>
     blocked_callsigns s \<subseteq> k \<union> sperrliste_entries s \<and>
     (\<forall>c \<in> k - table. callsign_strict c \<and> callsign_base c \<noteq> admin_callsign_base h))"

lemma fetch_fields: "fetch_sperrliste a s = (r, s') \<Longrightarrow>
  blocked_callsigns s' = blocked_callsigns s \<and> sperrliste_entries s' = sperrliste_entries s \<and>
  kickban_table s' = kickban_table s"
  by (auto simp: fetch_sperrliste_def split: http_answer.splits json.splits option.splits)

lemma apply_sperrliste_blocked:
  assumes "bl_inv h table s" "kickban_table s = Some k"
  shows "blocked_callsigns (fst (apply_sperrliste StorageOk data s)) = k \<union> data"
    and "kickban_table (fst (apply_sperrliste call data s)) = Some k"
    and "sperrliste_entries (fst (apply_sperrliste call data s)) = data"
  using assms by (auto simp: bl_inv_def apply_sperrliste_def protected_kickbans_def Let_def)

lemma bl_inv_refresh:
  assumes i: "bl_inv h table s"
  shows "bl_inv h table (fst (apply_sperrliste StorageOk data s))"
proof -
  from i obtain k where k: "kickban_table s = Some k" by (auto simp: bl_inv_def)
  from apply_sperrliste_blocked[OF i k] i k show ?thesis by (auto simp: bl_inv_def)
qed

lemma bl_inv_fetch: "fetch_sperrliste a s = (r, s') \<Longrightarrow> bl_inv h table s' = bl_inv h table s"
  by (drule fetch_fields) (simp add: bl_inv_def)

lemma bl_inv_kickban:
  "bl_inv h table s \<Longrightarrow> bl_inv h table (fst (handle_kickban h StorageOk kw requester s))"
  unfolding bl_inv_def
  by (auto simp: handle_kickban_def store_kickbans_def Let_def split: option.splits sum.splits)

lemma bl_inv_step: "bl_inv h table s \<Longrightarrow> storage_answers ev \<Longrightarrow> bl_inv h table (bl_step h ev s)"
  by (cases ev)
    (auto simp: bl_step_def bl_inv_kickban bl_inv_fetch bl_inv_refresh split: prod.splits fetched.splits,
      auto simp: bl_inv_def load_persisted_kickbans_def)

lemma bl_reach_inv: "bl_reach h table s \<Longrightarrow> bl_inv h table s"
proof (induction rule: bl_reach.induct)
  case boot
  show ?case by (auto simp: bl_inv_def load_persisted_kickbans_def blocklist_init_def)
qed (rule bl_inv_step)

section \<open>The background loop\<close>

definition failing :: "http_answer \<Rightarrow> bool" where
  "failing a \<longleftrightarrow> fst (fetch_sperrliste a (blocklist_init None)) = FetchFailed"

lemma failing_fetch: "failing a \<Longrightarrow> fetch_sperrliste a s = (FetchFailed, s)"
  unfolding failing_def fetch_sperrliste_def
  by (auto split: http_answer.splits json.splits option.splits)

lemma retry_failures:
  "\<forall>(a, c) \<in> set fs. failing a \<Longrightarrow>
   retry_phase idx (fs @ rest) s =
     (let (s', waits) = retry_phase (idx + length fs) rest s
      in (s', map (\<lambda>i. SPERRLISTE_RETRY_LADDER_S ! min i 3) [idx..<idx + length fs] @ waits))"
proof (induction fs arbitrary: idx)
  case (Cons f fs)
  obtain a c where f: "f = (a, c)" by (cases f)
  have up: "[idx..<Suc (idx + length fs)] = idx # [Suc idx..<Suc (idx + length fs)]"
    by (subst upt_conv_Cons) simp_all
  have len: "length SPERRLISTE_RETRY_LADDER_S = 4" by (simp add: SPERRLISTE_RETRY_LADDER_S_def)
  from Cons f show ?case
    by (simp add: failing_fetch len split: prod.splits del: upt_Suc) (simp add: up del: upt_Suc)
qed simp

lemma refresh_waits: "snd (refresh_phase xs s) = replicate (length xs) SPERRLISTE_REFRESH_INTERVAL_S"
  by (induction xs s rule: refresh_phase.induct) (auto split: prod.splits fetched.splits)

lemma refresh_waits_pair:
  "refresh_phase xs s = (s', waits) \<Longrightarrow> waits = replicate (length xs) SPERRLISTE_REFRESH_INTERVAL_S"
  by (metis refresh_waits snd_conv)

section \<open>Properties\<close>

text \<open>C6: reconciliation of the curated list. In every state the node can reach from its start, while
  the storage answers, a successful refresh leaves exactly the admin kickbans and the entries of
  the new list blocked: removals upstream take effect, kickbans survive them, and the persisted
  kickbans are untouched.
\<close>

theorem refresh_replaces_curated:
  assumes "bl_reach h table s" and "fetch_sperrliste answer s = (Fetched data, s1)"
  shows "\<exists>k. kickban_table s = Some k \<and>
    blocked_callsigns (bl_step h (EvRefresh answer StorageOk) s) = k \<union> data \<and>
    kickban_table (bl_step h (EvRefresh answer StorageOk) s) = Some k"
proof -
  have i: "bl_inv h table s1" using bl_reach_inv[OF assms(1)] bl_inv_fetch[OF assms(2)] by simp
  from i obtain k where k: "kickban_table s1 = Some k" by (auto simp: bl_inv_def)
  with apply_sperrliste_blocked[OF i k] fetch_fields[OF assms(2)] assms(2) show ?thesis
    by (intro exI[of _ k]) (simp add: bl_step_def)
qed

definition demo_admin :: cmd_identity where
  "demo_admin = command_handler_init ''DK5EN-1'' None"

theorem refresh_replaces_curated_witness:
  "\<exists>s k. bl_reach demo_admin {''OE1ABC''} s \<and> kickban_table s = Some k \<and>
    blocked_callsigns (bl_step demo_admin
      (EvRefresh (HttpBody (JList [JStr ''dl1xyz'']) None) StorageOk) s) = k \<union> {''DL1XYZ''}"
proof -
  let ?s = "load_persisted_kickbans StorageOk (blocklist_init (Some {''OE1ABC''}))"
  let ?a = "HttpBody (JList [JStr ''dl1xyz'']) None"
  have r: "bl_reach demo_admin {''OE1ABC''} ?s" by (rule bl_reach.boot)
  have u: "upper ''dl1xyz'' = ''DL1XYZ''" by code_simp
  have f: "fetch_sperrliste ?a ?s = (Fetched {''DL1XYZ''}, ?s\<lparr>sperrliste_etag := None\<rparr>)"
    by (simp add: fetch_sperrliste_def u)
  from refresh_replaces_curated[OF r f] r show ?thesis by blast
qed



text \<open>The background loop survives an offline start. After any number of failed fetches it has
  waited the ladder 30, 60, 120, 300, 300, ... seconds and changed nothing; the first good list is
  then applied, and every later fetch is 15 minutes after the one before.
\<close>

theorem sperrliste_loop_schedule:
  assumes "\<forall>(a, c) \<in> set failures. failing a"
    and "fetch_sperrliste answer s = (Fetched data, s1)"
  shows "load_sperrliste failures s =
      (s, map (\<lambda>i. SPERRLISTE_RETRY_LADDER_S ! min i 3) [0..<length failures]) \<and>
    snd (load_sperrliste (failures @ (answer, call) # later) s) =
      map (\<lambda>i. SPERRLISTE_RETRY_LADDER_S ! min i 3) [0..<length failures] @
      replicate (length later) SPERRLISTE_REFRESH_INTERVAL_S \<and>
    fst (load_sperrliste (failures @ [(answer, call)]) s) = fst (apply_sperrliste call data s1)"
  using retry_failures[OF assms(1), of 0 "[]" s] retry_failures[OF assms(1), of 0 "[(answer, call)]" s]
    retry_failures[OF assms(1), of 0 "(answer, call) # later" s] assms(2)
  by (simp_all add: load_sperrliste_def refresh_waits_pair split: prod.splits)

theorem sperrliste_loop_schedule_witness:
  "snd (load_sperrliste (replicate 6 (HttpFailure, StorageOk) @
      (HttpBody (JList []) None, StorageOk) # [(HttpNotModified, StorageOk)]) (blocklist_init None)) =
    [30, 60, 120, 300, 300, 300, 900]"
proof -
  have f: "\<forall>(a, c) \<in> set (replicate 6 (HttpFailure, StorageOk)). failing a"
    by (simp add: failing_def fetch_sperrliste_def)
  have a: "fetch_sperrliste (HttpBody (JList []) None) (blocklist_init None) =
      (Fetched {}, (blocklist_init None)\<lparr>sperrliste_etag := None\<rparr>)"
    by (simp add: fetch_sperrliste_def)
  from sperrliste_loop_schedule[OF f a, of StorageOk "[(HttpNotModified, StorageOk)]"]
  show ?thesis
    by (simp add: SPERRLISTE_RETRY_LADDER_S_def SPERRLISTE_REFRESH_INTERVAL_S_def upt_rec eval_nat_numeral)
qed

text \<open>The read path of the history. A row of an unblocked sender is emitted as it is; a row of a
  blocked sender is never emitted under its own destination: it is dropped, or, when it was
  addressed to a group, a hashtag or everyone, emitted with nothing but the destination changed, and
  then it is filed in the conversation of the quarantine group.
\<close>

theorem history_never_shows_blocked:
  assumes "map_of row ''src'' = Some (JStr src)" "map_of row ''dst'' = Some (JStr dst)"
    and "filter_history_row (Some blocked) row = Inr out"
  shows "(if strip_relay_path src \<notin> blocked then out = Some row
     else case dst_kind dst of
         Inl e \<Rightarrow> False
       | Inr k \<Rightarrow>
           (if k \<in> {Group, Broadcast, Hashtag} then
              \<exists>row'. out = Some row' \<and> map_of row' = (map_of row)(''dst'' \<mapsto> JStr SPAM_GROUP) \<and>
                compute_conversation_key src SPAM_GROUP = Inr (Some SPAM_GROUP)
            else out = None))"
proof -
  have key: "compute_conversation_key src SPAM_GROUP = Inr (Some SPAM_GROUP)"
  proof -
    have "resolve_dst_target SPAM_GROUP = SPAM_GROUP" "is_group SPAM_GROUP = Inr True" "SPAM_GROUP \<noteq> []"
      by code_simp+
    then show ?thesis by (simp add: compute_conversation_key_def)
  qed
  have fields: "relay_src_of (or_empty (dict_get row ''src'' JNull)) = Inr src"
    "str_of (or_empty (dict_get row ''dst'' JNull)) = Inr dst"
    using assms(1,2) by (simp_all add: or_empty_def dict_get_def)
  note defs = filter_history_row_def blocklist_decision_def fields is_callsign_blocked_def Let_def
  show ?thesis
  proof (cases "strip_relay_path src \<in> blocked")
    case False
    with assms(3) show ?thesis by (simp add: defs)
  next
    case True
    with assms(3) obtain k where k: "dst_kind dst = Inr k" by (auto simp: defs)
    show ?thesis
    proof (cases "k \<in> {Group, Broadcast, Hashtag}")
      case in_group: True
      with True k assms(3) have "out = Some (AList.update ''dst'' (JStr SPAM_GROUP) row)"
        by (auto simp: defs)
      with True k in_group key show ?thesis by (simp add: fun_eq_iff)
    next
      case False
      with True k assms(3) have "out = None" by (auto simp: defs)
      with True k False show ?thesis by simp
    qed
  qed
qed

theorem history_never_shows_blocked_witness:
  "\<exists>row'. filter_history_row (Some {''OE1ABC-1''})
      [(''src'', JStr ''oe1abc-1,DB0X''), (''dst'', JStr ''DB0X,232''), (''msg'', JStr ''hi'')] = Inr (Some row') \<and>
    map_of row' ''dst'' = Some (JStr ''9999'') \<and> map_of row' ''msg'' = Some (JStr ''hi'')"
proof -
  let ?row = "[(''src'', JStr ''oe1abc-1,DB0X''), (''dst'', JStr ''DB0X,232''), (''msg'', JStr ''hi'')]"
  have f: "filter_history_row (Some {''OE1ABC-1''}) ?row =
      Inr (Some [(''src'', JStr ''oe1abc-1,DB0X''), (''dst'', JStr ''9999''), (''msg'', JStr ''hi'')])"
    by code_simp
  have s: "strip_relay_path ''oe1abc-1,DB0X'' = ''OE1ABC-1''" "dst_kind ''DB0X,232'' = Inr Group"
    by code_simp+
  from history_never_shows_blocked[OF _ _ f] s f show ?thesis by (simp add: SPAM_GROUP_def)
qed

section \<open>A finding\<close>

text \<open>
  The handler documents that an entry an admin kickbanned is protected even if it also happens to be
  in the curated list. A \<open>!kb\<close> of a callsign that is already listed answers that it is already
  blocked and persists nothing, so the next removal upstream unblocks it.
\<close>

theorem kickban_of_listed_not_protected:
  "let listed = bl_step demo_admin (EvRefresh (HttpBody (JList [JStr ''OE1ABC'']) None) StorageOk)
        (load_persisted_kickbans StorageOk (blocklist_init (Some {})));
       banned = bl_step demo_admin (EvKickban StorageOk [(''callsign'', PStr ''OE1ABC'')] ''DK5EN-1'') listed;
       removed = bl_step demo_admin (EvRefresh (HttpBody (JList []) None) StorageOk) banned
   in ''OE1ABC'' \<in> blocked_callsigns banned \<and> ''OE1ABC'' \<notin> blocked_callsigns removed"
  by code_simp

end
