(* ===== verification/Dedup.thy ===== *)
theory Dedup
  imports CommandParsing Interfaces NumText
begin

text \<open>
  \<open>commands/dedup.py\<close>: the message-id cache and the content throttle. Both are dictionaries swept of
  expired entries before every look-up; both meet the contract \<open>timed_cache_remark\<close>. Clock readings
  are arguments; \<open>hashlib.md5\<close> is a parameter.
\<close>

section \<open>Operations\<close>

definition MSG_ID_TIMEOUT_SECONDS :: time where
  "MSG_ID_TIMEOUT_SECONDS = 5 * 60"

definition CONTENT_HASH_LENGTH :: nat where
  "CONTENT_HASH_LENGTH = 8"

definition DEFAULT_THROTTLE_TIMEOUT :: time where
  "DEFAULT_THROTTLE_TIMEOUT = 5 * 60"

definition COMMAND_THROTTLING :: "(string, time) dict" where
  "COMMAND_THROTTLING = [(''dice'', 5), (''time'', 5), (''group'', 5), (''kb'', 5), (''topic'', 5)]"

type_synonym msg_id_cache = "(json, time) dict"

record throttle_entry =
  te_timestamp :: time
  te_command :: "string option"

type_synonym throttle_cache = "(string, throttle_entry) dict"

text \<open>\<open>for k in expired: del d[k]\<close>\<close>

definition del_keys :: "'k list \<Rightarrow> ('k, 'v) dict \<Rightarrow> ('k, 'v) dict" where
  "del_keys ks d = fold AList.delete ks d"

definition cleanup_msg_id_cache :: "time \<Rightarrow> msg_id_cache \<Rightarrow> msg_id_cache" where
  "cleanup_msg_id_cache current_time cache =
     (let cutoff = current_time - MSG_ID_TIMEOUT_SECONDS;
          expired = map fst (filter (\<lambda>(mid, timestamp). timestamp < cutoff) cache)
      in del_keys expired cache)"

definition is_duplicate_msg_id :: "json \<Rightarrow> time \<Rightarrow> msg_id_cache \<Rightarrow> bool \<times> msg_id_cache" where
  "is_duplicate_msg_id msg_id current_time cache =
     (let cache' = cleanup_msg_id_cache current_time cache in (in_dict msg_id cache', cache'))"

definition mark_msg_id_processed :: "json \<Rightarrow> time \<Rightarrow> msg_id_cache \<Rightarrow> msg_id_cache" where
  "mark_msg_id_processed msg_id current_time cache = AList.update msg_id current_time cache"

definition entry_timeout :: "string option \<Rightarrow> time" where
  "entry_timeout cmd =
     (case cmd of
        None \<Rightarrow> DEFAULT_THROTTLE_TIMEOUT
      | Some c \<Rightarrow> if c \<noteq> [] \<and> in_dict c COMMAND_THROTTLING
                 then dict_get COMMAND_THROTTLING c DEFAULT_THROTTLE_TIMEOUT else DEFAULT_THROTTLE_TIMEOUT)"

definition cleanup_throttle_cache :: "time \<Rightarrow> throttle_cache \<Rightarrow> throttle_cache" where
  "cleanup_throttle_cache current_time cache =
     (let expired = map fst (filter (\<lambda>(chash, data).
            current_time - te_timestamp data > entry_timeout (te_command data)) cache)
      in del_keys expired cache)"

definition is_throttled :: "string \<Rightarrow> time \<Rightarrow> throttle_cache \<Rightarrow> bool \<times> throttle_cache" where
  "is_throttled content_hash current_time cache =
     (let cache' = cleanup_throttle_cache current_time cache in (in_dict content_hash cache', cache'))"

definition mark_content_processed :: "string \<Rightarrow> string option \<Rightarrow> time \<Rightarrow> throttle_cache \<Rightarrow> throttle_cache" where
  "mark_content_processed content_hash command current_time cache =
     AList.update content_hash \<lparr>te_timestamp = current_time, te_command = command\<rparr> cache"

text \<open>The text that is hashed, and the hash.\<close>

definition content_key :: "string \<Rightarrow> string \<Rightarrow> string option \<Rightarrow> string" where
  "content_key src msg_text dst =
     (let d = (case dst of None \<Rightarrow> [] | Some d \<Rightarrow> d) in
      if startswith msg_text ''!'' then
        (let parts = split_ws (tl msg_text) in
         if parts \<noteq> [] then
           (let command = lower (parts ! 0) in
            if in_dict command COMMAND_THROTTLING then
              (if d \<noteq> [] then src @ '':'' @ d @ '':!'' @ command else src @ '':!'' @ command)
            else if d \<noteq> [] then src @ '':'' @ d @ '':'' @ msg_text
            else src @ '':'' @ msg_text)
         else src @ '':'' @ msg_text)
      else src @ '':'' @ msg_text)"

definition get_content_hash :: "(string \<Rightarrow> string) \<Rightarrow> string \<Rightarrow> string \<Rightarrow> string option \<Rightarrow> string" where
  "get_content_hash md5_hexdigest src msg_text dst =
     take CONTENT_HASH_LENGTH (md5_hexdigest (content_key src msg_text dst))"

text \<open>One sweep of the hourly cleanup loop.\<close>

definition dedup_cleanup :: "time \<Rightarrow> msg_id_cache \<times> throttle_cache \<Rightarrow> msg_id_cache \<times> throttle_cache" where
  "dedup_cleanup now caches = (cleanup_msg_id_cache now (fst caches), cleanup_throttle_cache now (snd caches))"

section \<open>The contract\<close>

lemma map_of_del_keys: "map_of (del_keys ks d) k = (if k \<in> set ks then None else map_of d k)"
  unfolding del_keys_def by (induction ks arbitrary: d) auto

lemma distinct_del_keys: "distinct (map fst d) \<Longrightarrow> distinct (map fst (del_keys ks d))"
  unfolding del_keys_def by (induction ks arbitrary: d) (simp_all add: distinct_delete)

lemma del_keys_filter:
  assumes "distinct (map fst d)"
  shows "map_of (del_keys (map fst (filter (\<lambda>(k, v). P v) d)) d) k =
    (case map_of d k of None \<Rightarrow> None | Some v \<Rightarrow> if P v then None else Some v)"
proof (cases "map_of d k")
  case (Some v)
  have "k \<in> set (map fst (filter (\<lambda>(k, v). P v) d)) \<longleftrightarrow> P v"
  proof
    assume "k \<in> set (map fst (filter (\<lambda>(k, v). P v) d))"
    then obtain w where "(k, w) \<in> set d" "P w" by auto
    with assms Some show "P v" by simp
  next
    assume "P v"
    with map_of_SomeD[OF Some] show "k \<in> set (map fst (filter (\<lambda>(k, v). P v) d))" by force
  qed
  with Some show ?thesis by (simp add: map_of_del_keys)
qed (simp add: map_of_del_keys)

interpretation msg_ids: timed_cache_remark
  "\<lambda>s k. map_option (\<lambda>ts. ts + MSG_ID_TIMEOUT_SECONDS) (map_of s k)" "\<lambda>s k. in_dict k s"
  cleanup_msg_id_cache "\<lambda>k (v :: unit). mark_msg_id_processed k" "\<lambda>_. MSG_ID_TIMEOUT_SECONDS"
  "\<lambda>t s. distinct (map fst s)" "[]"
proof unfold_locales
  fix s :: msg_id_cache and t t' :: time and k
  assume "distinct (map fst s)"
  then show "map_option (\<lambda>ts. ts + MSG_ID_TIMEOUT_SECONDS) (map_of (cleanup_msg_id_cache t' s) k) =
    (if live_at (map_option (\<lambda>ts. ts + MSG_ID_TIMEOUT_SECONDS) (map_of s k)) t'
     then map_option (\<lambda>ts. ts + MSG_ID_TIMEOUT_SECONDS) (map_of s k) else None)"
    by (auto simp: cleanup_msg_id_cache_def Let_def del_keys_filter split: option.splits)
qed (auto simp: mark_msg_id_processed_def cleanup_msg_id_cache_def distinct_del_keys distinct_update
    in_dict_def Let_def)

interpretation throttle: timed_cache_remark
  "\<lambda>s k. map_option (\<lambda>e. te_timestamp e + entry_timeout (te_command e)) (map_of s k)" "\<lambda>s k. in_dict k s"
  cleanup_throttle_cache mark_content_processed entry_timeout "\<lambda>t s. distinct (map fst s)" "[]"
proof unfold_locales
  fix s :: throttle_cache and t t' :: time and k
  assume "distinct (map fst s)"
  then show "map_option (\<lambda>e. te_timestamp e + entry_timeout (te_command e)) (map_of (cleanup_throttle_cache t' s) k) =
    (if live_at (map_option (\<lambda>e. te_timestamp e + entry_timeout (te_command e)) (map_of s k)) t'
     then map_option (\<lambda>e. te_timestamp e + entry_timeout (te_command e)) (map_of s k) else None)"
    by (auto simp: cleanup_throttle_cache_def Let_def del_keys_filter split: option.splits)
qed (auto simp: mark_content_processed_def cleanup_throttle_cache_def distinct_del_keys distinct_update
    in_dict_def Let_def)

section \<open>Properties\<close>

text \<open>The message-id cache refuses exactly the repetitions. For any sequence of messages with their
  arrival times in order, a message is taken if and only if no message with the same id was taken at
  most five minutes before it; a refused repetition does not prolong the window.
\<close>

theorem msg_id_dedup_exact:
  assumes "times_from t arrivals"
  shows "requests cleanup_msg_id_cache (\<lambda>s k. in_dict k s) (\<lambda>k (v :: unit). mark_msg_id_processed k) arrivals [] =
    spec_requests (\<lambda>_. MSG_ID_TIMEOUT_SECONDS) arrivals []"
  using assms by (rule msg_ids.requests_spec)

theorem msg_id_dedup_exact_witness:
  "requests cleanup_msg_id_cache (\<lambda>s k. in_dict k s) (\<lambda>k (v :: unit). mark_msg_id_processed k)
     [(0, JStr ''A'', ()), (299, JStr ''A'', ()), (300, JStr ''A'', ()), (301, JStr ''A'', ())] [] =
   [True, False, False, True]"
  by (subst msg_id_dedup_exact[of 0]) (simp_all add: MSG_ID_TIMEOUT_SECONDS_def)

text \<open>The throttle window is the one of the command. After any sequence of executed commands and
  sweeps, with their times in order, a request is throttled at time \<open>now\<close> exactly when the last
  execution with its content hash is not older than the window of that execution's command:
  5 seconds for the listed commands, 5 minutes for all others.
\<close>

theorem throttle_window:
  assumes "times_from t events" "end_time t events \<le> now"
  shows "fst (is_throttled h now (run_marks cleanup_throttle_cache mark_content_processed events [])) =
    live_at (last_mark entry_timeout events h None) now"
  using throttle.present_iff_last_mark[OF assms, of h] by (simp add: is_throttled_def Let_def)

theorem throttle_window_witness:
  "let s = run_marks cleanup_throttle_cache mark_content_processed
       [(0, Some (''h1'', Some ''dice'')), (1, Some (''h2'', Some ''wx'')), (3, None)] []
   in fst (is_throttled ''h1'' 5 s) \<and> \<not> fst (is_throttled ''h1'' 6 s) \<and> fst (is_throttled ''h2'' 301 s)"
proof -
  let ?ev = "[(0, Some (''h1'', Some ''dice'')), (1, Some (''h2'', Some ''wx'')), (3, None)] ::
      (time \<times> (string \<times> string option) option) list"
  have t: "times_from 0 ?ev" by simp
  have e: "end_time 0 ?ev = 3" by simp
  have l: "entry_timeout (Some ''dice'') = 5" "entry_timeout (Some ''wx'') = 300"
    by (simp_all add: entry_timeout_def COMMAND_THROTTLING_def DEFAULT_THROTTLE_TIMEOUT_def
        in_dict_def dict_get_def)
  show ?thesis
    using throttle_window[OF t, of 5 "''h1''"] throttle_window[OF t, of 6 "''h1''"]
      throttle_window[OF t, of 301 "''h2''"] by (simp add: e l)
qed

text \<open>What counts as the same request. Two requests of one sender to one destination fall into the
  same throttle slot when they use the same listed command, whatever their arguments and the case
  of the command; for any other command the whole text counts.
\<close>

theorem content_key_slots:
  assumes "split_ws (tl m1) = c1 # args1" "split_ws (tl m2) = c2 # args2"
    and "startswith m1 ''!''" "startswith m2 ''!''"
  shows "(if in_dict (lower c1) COMMAND_THROTTLING \<and> in_dict (lower c2) COMMAND_THROTTLING
     then content_key src m1 (Some dst) = content_key src m2 (Some dst) \<longleftrightarrow> lower c1 = lower c2
     else if \<not> in_dict (lower c1) COMMAND_THROTTLING \<and> \<not> in_dict (lower c2) COMMAND_THROTTLING
     then content_key src m1 (Some dst) = content_key src m2 (Some dst) \<longleftrightarrow> m1 = m2
     else True)"
  using assms by (auto simp: content_key_def Let_def)

theorem content_key_slots_witness:
  "content_key ''OE1ABC'' ''!dice'' (Some ''20'') = content_key ''OE1ABC'' ''!DICE  now'' (Some ''20'') \<and>
   content_key ''OE1ABC'' ''!wx'' (Some ''20'') \<noteq> content_key ''OE1ABC'' ''!WX'' (Some ''20'')"
proof
  have a: "split_ws (tl ''!dice'') = [''dice'']" "split_ws (tl ''!DICE  now'') = [''DICE'', ''now'']"
    "in_dict (lower ''dice'') COMMAND_THROTTLING" "in_dict (lower ''DICE'') COMMAND_THROTTLING"
    "lower ''dice'' = lower ''DICE''" by code_simp+
  from content_key_slots[OF a(1,2)] a(3-5)
  show "content_key ''OE1ABC'' ''!dice'' (Some ''20'') = content_key ''OE1ABC'' ''!DICE  now'' (Some ''20'')" by simp
  have b: "split_ws (tl ''!wx'') = [''wx'']" "split_ws (tl ''!WX'') = [''WX'']"
    "\<not> in_dict (lower ''wx'') COMMAND_THROTTLING" "\<not> in_dict (lower ''WX'') COMMAND_THROTTLING" by code_simp+
  from content_key_slots[OF b(1,2)] b(3,4)
  show "content_key ''OE1ABC'' ''!wx'' (Some ''20'') \<noteq> content_key ''OE1ABC'' ''!WX'' (Some ''20'')" by simp
qed

end
