(* ===== verification/LinkFrames.thy ===== *)
theory LinkFrames
  imports NumText "HOL-Library.Word"
begin

text \<open>
  \<open>linkcheck.py\<close>: the parser of the firmware's \<open>{ping}\<close>/\<open>{pong}\<close> exchange. The correlation token
  is a 32-bit word, written as eight hex digits by one side and as a signed decimal by the other.
\<close>

section \<open>Operations\<close>

definition PING_PAYLOAD :: string where
  "PING_PAYLOAD = ''{ping}''"

text \<open>\<open>_PONG_RE.match\<close>: the captured token of \<open>^\{pong\}\{(-?[0-9]{1,10})\}\<close>.\<close>

definition pong_match :: "string \<Rightarrow> string option" where
  "pong_match msg =
     (if \<not> startswith msg ''{pong}{'' then None
      else let body = drop 7 msg;
               sign = (if startswith body ''-'' then ''-'' else []);
               digits = takeWhile ascii_digit (drop (length sign) body);
               rest = drop (length sign + length digits) body
           in if 1 \<le> length digits \<and> length digits \<le> 10 \<and> startswith rest ''}''
              then Some (sign @ digits) else None)"

definition MAX_HEX_ID_LEN :: nat where
  "MAX_HEX_ID_LEN = 16"

datatype link_kind = LinkPing | LinkPong

record link_frame =
  lf_kind :: link_kind
  lf_src :: string
  lf_dst :: string
  lf_origin :: string
  lf_heard_from :: string
  lf_hops :: nat
  lf_msg_id :: "string option"
  lf_correlates_to :: "32 word option"
  lf_rssi :: "int option"
  lf_snr :: "rat option"
  lf_src_type :: string

definition is_link_check_payload :: "json \<Rightarrow> bool" where
  "is_link_check_payload msg =
     (case msg of JStr s \<Rightarrow> startswith s PING_PAYLOAD \<or> pong_match s \<noteq> None | _ \<Rightarrow> False)"

text \<open>Masking with \<open>0xFFFFFFFF\<close> is the projection to 32 bits, also for negative integers.\<close>

definition normalise_id :: "json \<Rightarrow> 32 word option" where
  "normalise_id value =
     (case value of
        JInt i \<Rightarrow> Some (word_of_int i)
      | JStr s \<Rightarrow>
          (let candidate = strip s in
           if candidate = [] \<or> MAX_HEX_ID_LEN < length candidate then None
           else case py_int16 candidate of Inl e \<Rightarrow> None | Inr parsed \<Rightarrow> Some (word_of_int parsed))
      | _ \<Rightarrow> None)"

definition as_optional_str :: "json \<Rightarrow> string option" where
  "as_optional_str v = (case v of JStr s \<Rightarrow> Some s | _ \<Rightarrow> None)"

definition as_int :: "json \<Rightarrow> int option" where
  "as_int v = (case v of JInt i \<Rightarrow> Some i | _ \<Rightarrow> None)"

definition as_float :: "json \<Rightarrow> rat option res" where
  "as_float v =
     (case v of
        JInt i \<Rightarrow> bind_res (py_float_of_int i) (\<lambda>r. Inr (Some r))
      | JFloat r \<Rightarrow> Inr (Some r)
      | _ \<Rightarrow> Inr None)"

definition build_frame :: "msgd \<Rightarrow> link_kind \<Rightarrow> 32 word option \<Rightarrow> link_frame option res" where
  "build_frame message kind correlates_to =
     (let src = str_or [] (dict_get message ''src'' JNull);
          parts = split_on (CHR '','') src
      in bind_res (as_float (dict_get message ''snr'' JNull)) (\<lambda>snr.
        Inr (Some \<lparr>
          lf_kind = kind,
          lf_src = src,
          lf_dst = str_or [] (dict_get message ''dst'' JNull),
          lf_origin = hd parts,
          lf_heard_from = last parts,
          lf_hops = length (filter (\<lambda>c. c = CHR '','') src),
          lf_msg_id = as_optional_str (dict_get message ''msg_id'' JNull),
          lf_correlates_to = correlates_to,
          lf_rssi = as_int (dict_get message ''rssi'' JNull),
          lf_snr = snr,
          lf_src_type = str_or [] (dict_get message ''src_type'' JNull)\<rparr>)))"

definition parse_link_frame :: "msgd \<Rightarrow> link_frame option res" where
  "parse_link_frame message =
     (case dict_get message ''msg'' JNull of
        JStr msg \<Rightarrow>
          if startswith msg PING_PAYLOAD then build_frame message LinkPing None
          else (case pong_match msg of
                  None \<Rightarrow> Inr None
                | Some token \<Rightarrow>
                    bind_res (py_int token) (\<lambda>n. build_frame message LinkPong (normalise_id (JInt n))))
      | _ \<Rightarrow> Inr None)"

section \<open>The wire format of the firmware\<close>

text \<open>The two renderings of one id: \<open>%08X\<close> in the echo, and \<open>%i\<close> or \<open>%u\<close> in the pong payload.\<close>

definition echo_id :: "32 word \<Rightarrow> string" where
  "echo_id w = hex_padded 8 (unat w)"

definition pong_signed :: "32 word \<Rightarrow> string" where
  "pong_signed w = ''{pong}{'' @ int_str (sint w) @ ''}''"

definition pong_unsigned :: "32 word \<Rightarrow> string" where
  "pong_unsigned w = ''{pong}{'' @ int_str (uint w) @ ''}''"

section \<open>Lemmas\<close>

lemma ascii_not_brace: "\<not> ascii_digit (CHR ''}'')"
  by (simp add: ascii_digit_def)

lemma takeWhile_digits: "list_all ascii_digit ds \<Longrightarrow> takeWhile ascii_digit (ds @ ''}'' @ rest) = ds"
  by (induction ds) (simp_all add: ascii_not_brace)

lemma digits_no_sign:
  assumes "ds \<noteq> []" "list_all ascii_digit ds"
  shows "\<not> startswith (ds @ r) ''-''"
  using assms by (cases ds) (auto simp: ascii_digit_def)

lemma pong_match_pos:
  assumes "ds \<noteq> []" "list_all ascii_digit ds" "length ds \<le> 10"
  shows "pong_match (''{pong}{'' @ ds @ ''}'' @ r) = Some ds"
  using assms takeWhile_digits[OF assms(2), of r] digits_no_sign[OF assms(1,2), of "''}'' @ r"]
  by (cases ds) (simp_all add: pong_match_def Let_def)

lemma pong_match_neg:
  assumes "ds \<noteq> []" "list_all ascii_digit ds" "length ds \<le> 10"
  shows "pong_match (''{pong}{-'' @ ds @ ''}'' @ r) = Some (CHR ''-'' # ds)"
  using assms takeWhile_digits[OF assms(2), of r]
  by (cases ds) (simp_all add: pong_match_def Let_def)

lemma pong_match_int_str:
  assumes "\<bar>i\<bar> < 10 ^ 10"
  shows "pong_match (''{pong}{'' @ int_str i @ ''}'' @ r) = Some (int_str i)"
proof -
  have "nat \<bar>i\<bar> < 10 ^ 10" using assms by (simp add: nat_less_iff)
  then have "length (nat_str (nat \<bar>i\<bar>)) \<le> 10" by (rule nat_str_length) simp
  with pong_match_pos[of "nat_str (nat i)" r] pong_match_neg[of "nat_str (nat (- i))" r]
    nat_str_digits show ?thesis
    by (cases "i < 0") (simp_all add: int_str_def)
qed

lemma py_int_neg_digits:
  assumes "s \<noteq> []" "list_all ascii_digit s" "length s \<le> int_max_str_digits"
  shows "py_int (CHR ''-'' # s) = Inr (- dec_val s)"
proof -
  have ns: "list_all (\<lambda>c. \<not> is_space c) (CHR ''-'' # s)"
    using assms(2) by (auto simp: list_all_iff digit_not_space char_class_defs)
  have "strip (CHR ''-'' # s) = CHR ''-'' # s" by (rule strip_no_space[OF ns])
  moreover have "split_on (CHR ''_'') s = [s]"
    using assms(2) by (auto simp: split_on_def list_all_iff ascii_digit_def intro!: split_by_none)
  ultimately show ?thesis using assms by (simp add: py_int_def digit_groups_def)
qed

lemma py_int_int_str:
  assumes "\<bar>i\<bar> < 10 ^ 10"
  shows "py_int (int_str i) = Inr i"
proof -
  have "nat \<bar>i\<bar> < 10 ^ 10" using assms by (simp add: nat_less_iff)
  then have "length (nat_str (nat \<bar>i\<bar>)) \<le> 10" by (rule nat_str_length) simp
  then have l: "length (nat_str (nat \<bar>i\<bar>)) \<le> int_max_str_digits" by (simp add: int_max_str_digits_def)
  show ?thesis
  proof (cases "i < 0")
    case True
    with l py_int_neg_digits[of "nat_str (nat (- i))"] nat_str_digits show ?thesis
      by (simp add: int_str_def)
  next
    case False
    with l py_int_digits[of "nat_str (nat i)"] nat_str_digits show ?thesis
      by (simp add: int_str_def)
  qed
qed

lemma pong_match_digits: "pong_match msg = Some token \<Longrightarrow>
   \<exists>ds. ds \<noteq> [] \<and> list_all ascii_digit ds \<and> length ds \<le> 10 \<and> (token = ds \<or> token = CHR ''-'' # ds)"
  unfolding pong_match_def Let_def
  by (rule exI[of _ "takeWhile ascii_digit (drop (length (if startswith (drop 7 msg) ''-'' then ''-'' else [])) (drop 7 msg))"])
    (auto simp: list_all_iff split: if_splits dest: set_takeWhileD)

lemma pong_token_int: "pong_match msg = Some token \<Longrightarrow> \<exists>n. py_int token = Inr n"
  using pong_match_digits[of msg token] py_int_digits py_int_neg_digits
  by (fastforce simp: int_max_str_digits_def)

lemma ping_not_pong: "startswith s PING_PAYLOAD \<Longrightarrow> pong_match s = None"
  by (auto simp: pong_match_def PING_PAYLOAD_def startswith_prefix prefix_def)

lemma int_bounds_word: "\<bar>sint (w :: 32 word)\<bar> < 10 ^ 10" "\<bar>uint w\<bar> < 10 ^ 10"
proof -
  have "- (2 ^ 31) \<le> sint w" "sint w < 2 ^ 31" using sint_range_size[of w] by (simp_all add: word_size)
  then show "\<bar>sint w\<bar> < 10 ^ 10" by simp
  have "0 \<le> uint w" "uint w < 2 ^ 32" using unsigned_less[of w, where 'a = int] by simp_all
  then show "\<bar>uint w\<bar> < 10 ^ 10" by simp
qed

section \<open>Properties\<close>

text \<open>The two sides of a link check always agree on the id. For every 32-bit id, the hex id of the
  echo and both decimal renderings of the pong (signed or not, with any text behind the frame)
  normalise to the same word, so a pong correlates with the ping it answers.
\<close>

theorem link_ids_correlate:
  assumes "map_of message ''msg'' = Some (JStr payload)"
    and "payload = pong_signed w @ tail \<or> payload = pong_unsigned w @ tail"
    and "as_float (dict_get message ''snr'' JNull) = Inr snr"
  shows "\<exists>f. parse_link_frame message = Inr (Some f) \<and> lf_kind f = LinkPong \<and>
    lf_correlates_to f = normalise_id (JStr (echo_id w)) \<and> lf_correlates_to f = Some w"
proof -
  have len: "length (echo_id w) = 8"
  proof -
    have "unat w < 16 ^ 8" using unsigned_less[of w, where 'a = nat] by simp
    then show ?thesis unfolding echo_id_def by (rule hex_padded_length) simp_all
  qed
  have "strip (echo_id w) = echo_id w"
    using hex_padded_text[of 8 "unat w"] hex_text_facts(2) by (auto simp: echo_id_def intro: strip_no_space)
  then have e: "normalise_id (JStr (echo_id w)) = Some w"
    using len hex_padded_text[of 8 "unat w"]
    by (simp add: normalise_id_def MAX_HEX_ID_LEN_def echo_id_def py_int16_hex_padded Let_def)
  from assms(2) obtain i where i: "payload = ''{pong}{'' @ int_str i @ ''}'' @ tail"
      "\<bar>i\<bar> < 10 ^ 10" "word_of_int i = w"
    using int_bounds_word[of w] by (auto simp: pong_signed_def pong_unsigned_def)
  from i(1) have "\<not> startswith payload PING_PAYLOAD"
    by (simp add: PING_PAYLOAD_def)
  with assms(1,3) i e pong_match_int_str[OF i(2), of tail] py_int_int_str[OF i(2)] show ?thesis
    by (auto simp: parse_link_frame_def build_frame_def dict_get_def normalise_id_def Let_def)
qed

theorem link_ids_correlate_witness:
  "\<exists>f. parse_link_frame [(''msg'', JStr ''{pong}{-427408969}''), (''src'', JStr ''DL2JA-2'')] = Inr (Some f) \<and>
    lf_correlates_to f = Some (word_of_int (- 427408969)) \<and>
    lf_correlates_to f = normalise_id (JStr ''E68641B7'')"
proof -
  let ?w = "word_of_int (- 427408969) :: 32 word"
  let ?m = "[(''msg'', JStr ''{pong}{-427408969}''), (''src'', JStr ''DL2JA-2'')]"
  have s: "sint ?w = - 427408969" by simp
  have n: "nat_str 427408969 = ''427408969''" by (simp add: num_text_eval)
  have p: "pong_signed ?w = ''{pong}{-427408969}''"
    by (simp only: pong_signed_def s) (simp add: int_str_def n)
  have u: "unat ?w = 3867558327" by simp
  have "hex_padded 8 3867558327 = ''E68641B7''"
    by (simp add: hex_padded_def pad_left_def num_text_eval)
  with u have e: "echo_id ?w = ''E68641B7''" by (simp only: echo_id_def)
  have 1: "map_of ?m ''msg'' = Some (JStr ''{pong}{-427408969}'')" by simp
  have 2: "''{pong}{-427408969}'' = pong_signed ?w @ [] \<or> ''{pong}{-427408969}'' = pong_unsigned ?w @ []"
    using p by simp
  have 3: "as_float (dict_get ?m ''snr'' JNull) = Inr None" by (simp add: dict_get_def as_float_def)
  from link_ids_correlate[OF 1 2 3] e show ?thesis by auto
qed

lemma parse_link_frame_cases:
  assumes "v = dict_get message ''msg'' JNull"
  shows "is_link_check_payload v \<Longrightarrow> \<exists>k c. parse_link_frame message = build_frame message k c"
    and "\<not> is_link_check_payload v \<Longrightarrow> parse_link_frame message = Inr None"
proof -
  assume p: "is_link_check_payload v"
  then obtain s where v: "dict_get message ''msg'' JNull = JStr s"
    using assms by (auto simp: is_link_check_payload_def split: json.splits)
  show "\<exists>k c. parse_link_frame message = build_frame message k c"
  proof (cases "startswith s PING_PAYLOAD")
    case False
    with p v assms obtain token where tk: "pong_match s = Some token"
      by (auto simp: is_link_check_payload_def)
    then obtain n where "py_int token = Inr n" using pong_token_int by blast
    with tk v False show ?thesis by (auto simp: parse_link_frame_def)
  qed (auto simp: parse_link_frame_def v)
next
  assume "\<not> is_link_check_payload v"
  then show "parse_link_frame message = Inr None"
    using assms by (auto simp: is_link_check_payload_def parse_link_frame_def split: json.splits)
qed

lemma build_frame_total:
  "(\<exists>f. build_frame message k c = Inr (Some f)) \<longleftrightarrow> (\<exists>s. as_float (dict_get message ''snr'' JNull) = Inr s)"
  "build_frame message k c = Inl e \<longleftrightarrow> as_float (dict_get message ''snr'' JNull) = Inl e"
  by (cases "as_float (dict_get message ''snr'' JNull)"; simp add: build_frame_def Let_def)+

lemma as_float_error:
  "as_float v = Inl e \<longleftrightarrow> e = OverflowError \<and> (\<exists>i. v = JInt i \<and> 2 ^ 1024 - 2 ^ 970 \<le> \<bar>i\<bar>)"
  by (cases v) (auto simp: as_float_def py_float_of_int_def)

text \<open>The parser accepts exactly the payloads that the guards of the chat paths filter out, and
  the only way it can raise is a JSON integer too large for a float in the field \<open>snr\<close>.
\<close>

theorem parse_link_frame_total:
  "(\<exists>f. parse_link_frame message = Inr (Some f)) = (is_link_check_payload (dict_get message ''msg'' JNull) \<and>
     (\<exists>s. as_float (dict_get message ''snr'' JNull) = Inr s)) \<and>
   (parse_link_frame message = Inl e) = (e = OverflowError \<and>
     is_link_check_payload (dict_get message ''msg'' JNull) \<and>
     (\<exists>i. dict_get message ''snr'' JNull = JInt i \<and> 2 ^ 1024 - 2 ^ 970 \<le> \<bar>i\<bar>))"
proof (cases "is_link_check_payload (dict_get message ''msg'' JNull)")
  case True
  from parse_link_frame_cases(1)[OF refl True] obtain k c where
    "parse_link_frame message = build_frame message k c" by blast
  with True show ?thesis by (simp only: build_frame_total as_float_error) blast
next
  case False
  with parse_link_frame_cases(2)[OF refl False] show ?thesis by simp
qed

end
