(* ===== verification/LinkSessions.thy ===== *)
theory LinkSessions
  imports LinkFrames Identity
begin

text \<open>
  \<open>commands/linkcheck.py\<close>: the session engine of the link check. A session is driven by one task;
  between two of its \<open>await\<close>s any other event may happen (an echo, a pong, a stop), so the driver
  is modelled by a program counter and the engine as a step function over events. The clock
  readings are arguments of the events: \<open>now\<close> in milliseconds, \<open>clk\<close> in seconds.
\<close>

section \<open>State\<close>

definition LINKCHECK_ATTEMPT_TIMEOUT_MS :: int where
  "LINKCHECK_ATTEMPT_TIMEOUT_MS = 90000"

definition LINKCHECK_LATE_WINDOW_MS :: int where
  "LINKCHECK_LATE_WINDOW_MS = 180000"

definition MAX_LINKCHECK_ATTEMPTS :: int where
  "MAX_LINKCHECK_ATTEMPTS = 5"

definition MAX_CONCURRENT_LINKCHECKS :: nat where
  "MAX_CONCURRENT_LINKCHECKS = 3"

definition LINKCHECK_COOLDOWN_S :: time where
  "LINKCHECK_COOLDOWN_S = 60"

definition MAX_TARGET_CALLSIGN_LEN :: nat where
  "MAX_TARGET_CALLSIGN_LEN = 9"

datatype link_status = Running | Completed | TimedOut | Failed | Stopped

record link_attempt =
  la_seq :: nat
  la_sent_ms :: int
  la_ping_id :: "32 word option"
  la_resolved :: bool
  la_timed_out :: bool
  la_rssi :: "int option"
  la_snr :: "rat option"
  la_response_ms :: "int option"
  la_hops :: "nat option"
  la_late :: bool
  la_internet_reply :: bool

text \<open>Where the driver task is: before attempt \<open>k\<close>, in its send, or waiting for its answer.\<close>

datatype driver_pc = AtAttempt nat | Publishing nat | Waiting nat

record link_session =
  ls_requester :: string
  ls_total :: nat
  ls_started_ms :: int
  ls_attempts :: "link_attempt list"
  ls_status :: link_status
  ls_pc :: driver_pc
  ls_sent :: nat
  ls_received :: nat

text \<open>\<open>lk_wake\<close> maps a waiting target to the state of its event.\<close>

record link_state =
  lk_sessions :: "(string, link_session) dict"
  lk_cooldown :: "(string, time) dict"
  lk_wake :: "(string, bool) dict"

definition link_init :: link_state where
  "link_init = \<lparr>lk_sessions = [], lk_cooldown = [], lk_wake = []\<rparr>"

record link_env =
  lk_my_callsign :: string
  lk_blocked :: "string set"

datatype start_reply =
    StartInvalid | StartOwn | StartBlocked | StartCount | StartRunning
  | StartCooldown time | StartTooMany | StartLength | Started string nat

datatype link_output =
    PingOnAir string
  | EvSent string nat
  | EvResult string link_attempt
  | EvTimeout string nat bool
  | EvDone string nat nat link_status

section \<open>The public operations\<close>

definition link_target :: "json \<Rightarrow> string" where
  "link_target target = (case target of JStr s \<Rightarrow> upper (strip s) | _ \<Rightarrow> [])"

definition start_link_check :: "link_env \<Rightarrow> json \<Rightarrow> json \<Rightarrow> string \<Rightarrow> int \<Rightarrow> time \<Rightarrow> link_state \<Rightarrow>
    start_reply \<times> link_state" where
  "start_link_check env target count requester now clk st =
     (let call = link_target target in
      if call = [] \<or> \<not> callsign_strict call then (StartInvalid, st)
      else if call = lk_my_callsign env then (StartOwn, st)
      else if call \<in> lk_blocked env then (StartBlocked, st)
      else (case count of
        JInt n \<Rightarrow>
          if \<not> (1 \<le> n \<and> n \<le> MAX_LINKCHECK_ATTEMPTS) then (StartCount, st)
          else if in_dict call (lk_sessions st) then (StartRunning, st)
          else let cooldown = (case map_of (lk_cooldown st) call of
                     Some until \<Rightarrow> if clk < until then Some (until - clk) else None
                   | None \<Rightarrow> None) in
            (case cooldown of
              Some remaining \<Rightarrow> (StartCooldown remaining, st)
            | None \<Rightarrow>
                if MAX_CONCURRENT_LINKCHECKS \<le> length (lk_sessions st) then (StartTooMany, st)
                else if MAX_TARGET_CALLSIGN_LEN < length call then (StartLength, st)
                else (Started call (nat n), st\<lparr>lk_sessions := AList.update call
                       \<lparr>ls_requester = requester, ls_total = nat n, ls_started_ms = now, ls_attempts = [],
                        ls_status = Running, ls_pc = AtAttempt 1, ls_sent = 0, ls_received = 0\<rparr> (lk_sessions st)\<rparr>))
      | _ \<Rightarrow> (StartCount, st)))"

text \<open>The end of the driver task: the final event, then its \<open>finally\<close> block.\<close>

definition release_session :: "string \<Rightarrow> link_session \<Rightarrow> time \<Rightarrow> link_state \<Rightarrow> link_state \<times> link_output list" where
  "release_session target s clk st =
     (st\<lparr>lk_sessions := AList.delete target (lk_sessions st),
        lk_wake := AList.delete target (lk_wake st),
        lk_cooldown := (if ls_status s \<noteq> Stopped
          then AList.update target (clk + LINKCHECK_COOLDOWN_S) (lk_cooldown st) else lk_cooldown st)\<rparr>,
      [EvDone target (ls_sent s) (ls_received s) (ls_status s)])"

definition stop_link_check :: "json \<Rightarrow> time \<Rightarrow> link_state \<Rightarrow> bool \<times> link_state \<times> link_output list" where
  "stop_link_check target clk st =
     (let call = link_target target in
      case map_of (lk_sessions st) call of
        None \<Rightarrow> (False, st, [])
      | Some s \<Rightarrow> (True, release_session call (s\<lparr>ls_status := Stopped\<rparr>) clk st))"

definition stop_linkcheck :: "link_state \<Rightarrow> link_state \<times> link_output list" where
  "stop_linkcheck st =
     (link_init, map (\<lambda>(t, s). EvDone t (ls_sent s) (ls_received s) Stopped) (lk_sessions st))"

section \<open>Inbound frames\<close>

definition handle_linkcheck_echo :: "link_frame \<Rightarrow> link_state \<Rightarrow> link_state" where
  "handle_linkcheck_echo f st =
     (let call = upper (strip (lf_dst f)) in
      case map_of (lk_sessions st) call of
        None \<Rightarrow> st
      | Some s \<Rightarrow>
          if ls_attempts s = [] then st
          else let a = last (ls_attempts s) in
            if la_ping_id a = None then
              let pid = (case lf_msg_id f of None \<Rightarrow> None | Some m \<Rightarrow> normalise_id (JStr m)) in
              st\<lparr>lk_sessions := AList.update call
                   (s\<lparr>ls_attempts := butlast (ls_attempts s) @ [a\<lparr>la_ping_id := pid\<rparr>]\<rparr>) (lk_sessions st)\<rparr>
            else st)"

text \<open>The first attempt in scan order that waits for the id and is not too old.\<close>

definition pong_fits :: "32 word \<Rightarrow> int \<Rightarrow> link_attempt \<Rightarrow> bool" where
  "pong_fits w now a \<longleftrightarrow> la_ping_id a = Some w \<and> now - la_sent_ms a \<le> LINKCHECK_LATE_WINDOW_MS"

fun find_attempt :: "(link_attempt \<Rightarrow> bool) \<Rightarrow> link_attempt list \<Rightarrow> nat option" where
  "find_attempt P [] = None"
| "find_attempt P (a # as) = (if P a then Some 0 else map_option Suc (find_attempt P as))"

fun find_session :: "(link_attempt \<Rightarrow> bool) \<Rightarrow> (string, link_session) dict \<Rightarrow> (string \<times> link_session \<times> nat) option" where
  "find_session P [] = None"
| "find_session P ((t, s) # ss) =
     (case find_attempt P (ls_attempts s) of
        Some i \<Rightarrow> Some (t, s, i)
      | None \<Rightarrow> find_session P ss)"

definition set_attempt :: "string \<Rightarrow> link_session \<Rightarrow> nat \<Rightarrow> link_attempt \<Rightarrow> link_state \<Rightarrow> link_state" where
  "set_attempt t s i a st = st\<lparr>lk_sessions := AList.update t (s\<lparr>ls_attempts := (ls_attempts s)[i := a]\<rparr>) (lk_sessions st)\<rparr>"

definition handle_linkcheck_pong :: "link_frame \<Rightarrow> int \<Rightarrow> link_state \<Rightarrow> link_state \<times> link_output list" where
  "handle_linkcheck_pong f now st =
     (case lf_correlates_to f of
        None \<Rightarrow> (st, [])
      | Some w \<Rightarrow>
          (case find_session (pong_fits w now) (lk_sessions st) of
             None \<Rightarrow> (st, [])
           | Some (t, s, i) \<Rightarrow>
               let a = ls_attempts s ! i; response = now - la_sent_ms a in
               if lf_src_type f = ''udp'' then (set_attempt t s i (a\<lparr>la_internet_reply := True\<rparr>) st, [])
               else if lf_src_type f \<noteq> ''lora'' then (st, [])
               else if la_resolved a then (st, [])
               else let a' = a\<lparr>la_resolved := True, la_response_ms := Some response,
                        la_rssi := lf_rssi f, la_snr := lf_snr f, la_hops := Some (lf_hops f),
                        la_late := la_timed_out a \<or> LINKCHECK_ATTEMPT_TIMEOUT_MS < response\<rparr>;
                        st1 = set_attempt t s i a' st;
                        st2 = (if in_dict t (lk_wake st) then st1\<lparr>lk_wake := AList.update t True (lk_wake st)\<rparr> else st1)
                    in (st2, [EvResult t a'])))"

text \<open>An exception of the parser is logged and swallowed.\<close>

definition handle_link_check_frame :: "msgd \<Rightarrow> int \<Rightarrow> link_state \<Rightarrow> link_state \<times> link_output list" where
  "handle_link_check_frame message now st =
     (case parse_link_frame message of
        Inl e \<Rightarrow> (st, [])
      | Inr None \<Rightarrow> (st, [])
      | Inr (Some f) \<Rightarrow>
          (case lf_kind f of
             LinkPing \<Rightarrow> (if lf_src_type f = ''node'' then (handle_linkcheck_echo f st, []) else (st, []))
           | LinkPong \<Rightarrow> handle_linkcheck_pong f now st))"

section \<open>The driver task\<close>

definition new_attempt :: "nat \<Rightarrow> int \<Rightarrow> link_attempt" where
  "new_attempt seq now = \<lparr>la_seq = seq, la_sent_ms = now, la_ping_id = None, la_resolved = False,
     la_timed_out = False, la_rssi = None, la_snr = None, la_response_ms = None, la_hops = None,
     la_late = False, la_internet_reply = False\<rparr>"

definition put_session :: "string \<Rightarrow> link_session \<Rightarrow> link_state \<Rightarrow> link_state" where
  "put_session t s st = st\<lparr>lk_sessions := AList.update t s (lk_sessions st)\<rparr>"

text \<open>Top of the loop: send the next ping, or finish.\<close>

definition driver_begin :: "string \<Rightarrow> nat \<Rightarrow> link_session \<Rightarrow> int \<Rightarrow> time \<Rightarrow> link_state \<Rightarrow> link_state \<times> link_output list" where
  "driver_begin t k s now clk st =
     (if k \<le> ls_total s \<and> ls_status s = Running then
        (put_session t (s\<lparr>ls_attempts := ls_attempts s @ [new_attempt k now], ls_pc := Publishing k\<rparr>) st, [PingOnAir t])
      else let s' = (if ls_status s = Running
                     then s\<lparr>ls_status := (if 0 < ls_received s then Completed else TimedOut)\<rparr> else s)
           in release_session t s' clk st)"

text \<open>The send returned, or raised: then the session ends in error.\<close>

definition driver_published :: "string \<Rightarrow> nat \<Rightarrow> link_session \<Rightarrow> bool \<Rightarrow> time \<Rightarrow> link_state \<Rightarrow> link_state \<times> link_output list" where
  "driver_published t k s ok clk st =
     (if ok then
        (let st1 = put_session t (s\<lparr>ls_sent := ls_sent s + 1, ls_pc := Waiting k\<rparr>) st in
         (st1\<lparr>lk_wake := AList.update t False (lk_wake st1)\<rparr>, [EvSent t k]))
      else release_session t (s\<lparr>ls_status := Failed\<rparr>) clk st)"

text \<open>The wait ended, by the event or by the timeout.\<close>

definition driver_resume :: "string \<Rightarrow> nat \<Rightarrow> link_session \<Rightarrow> link_state \<Rightarrow> link_state \<times> link_output list" where
  "driver_resume t k s st =
     (let a = last (ls_attempts s); st1 = st\<lparr>lk_wake := AList.delete t (lk_wake st)\<rparr> in
      if la_resolved a then
        (put_session t (s\<lparr>ls_received := ls_received s + 1, ls_pc := AtAttempt (k + 1)\<rparr>) st1, [])
      else
        (put_session t (s\<lparr>ls_attempts := butlast (ls_attempts s) @ [a\<lparr>la_timed_out := True\<rparr>],
            ls_pc := AtAttempt (k + 1)\<rparr>) st1, [EvTimeout t k (la_internet_reply a)]))"

datatype link_event =
    LStart json json string int time
  | LStop json time
  | LShutdown
  | LFrame msgd int
  | LDriver string bool int time   \<comment> \<open>target, whether the send succeeds, clocks\<close>

definition link_driver :: "string \<Rightarrow> bool \<Rightarrow> int \<Rightarrow> time \<Rightarrow> link_state \<Rightarrow> link_state \<times> link_output list" where
  "link_driver t ok now clk st =
     (case map_of (lk_sessions st) t of
        None \<Rightarrow> (st, [])
      | Some s \<Rightarrow>
          (case ls_pc s of
             AtAttempt k \<Rightarrow> driver_begin t k s now clk st
           | Publishing k \<Rightarrow> driver_published t k s ok clk st
           | Waiting k \<Rightarrow> driver_resume t k s st))"

definition link_step :: "link_env \<Rightarrow> link_event \<Rightarrow> link_state \<Rightarrow> link_state \<times> link_output list" where
  "link_step env ev st =
     (case ev of
        LStart target count requester now clk \<Rightarrow>
          (snd (start_link_check env target count requester now clk st), [])
      | LStop target clk \<Rightarrow> snd (stop_link_check target clk st)
      | LShutdown \<Rightarrow> stop_linkcheck st
      | LFrame message now \<Rightarrow> handle_link_check_frame message now st
      | LDriver t ok now clk \<Rightarrow> link_driver t ok now clk st)"

inductive link_reach :: "link_env \<Rightarrow> link_state \<Rightarrow> bool" for env :: link_env where
  init: "link_reach env link_init"
| step: "link_reach env st \<Longrightarrow> link_reach env (fst (link_step env ev st))"

section \<open>The invariant\<close>

definition answered :: "link_attempt \<Rightarrow> bool" where
  "answered a \<longleftrightarrow> la_resolved a \<or> la_timed_out a"

text \<open>The attempts the driver has left behind: all but the one in flight.\<close>

definition settled :: "link_session \<Rightarrow> link_attempt list" where
  "settled s = (case ls_pc s of AtAttempt k \<Rightarrow> ls_attempts s | _ \<Rightarrow> butlast (ls_attempts s))"

definition session_ok :: "link_session \<Rightarrow> bool" where
  "session_ok s \<longleftrightarrow> ls_status s = Running \<and> 1 \<le> ls_total s \<and> ls_total s \<le> 5 \<and>
     map la_seq (ls_attempts s) = [1..<length (ls_attempts s) + 1] \<and>
     list_all answered (settled s) \<and> ls_received s \<le> length (filter la_resolved (settled s)) \<and>
     (case ls_pc s of
        AtAttempt k \<Rightarrow> length (ls_attempts s) = k - 1 \<and> 1 \<le> k \<and> k \<le> ls_total s + 1 \<and> ls_sent s = k - 1
      | Publishing k \<Rightarrow> length (ls_attempts s) = k \<and> 1 \<le> k \<and> k \<le> ls_total s \<and> ls_sent s = k - 1
      | Waiting k \<Rightarrow> length (ls_attempts s) = k \<and> 1 \<le> k \<and> k \<le> ls_total s \<and> ls_sent s = k)"

definition target_ok :: "link_env \<Rightarrow> string \<Rightarrow> bool" where
  "target_ok env t \<longleftrightarrow> callsign_strict t \<and> length t \<le> 9 \<and> t \<noteq> lk_my_callsign env \<and> t \<notin> lk_blocked env"

definition link_inv :: "link_env \<Rightarrow> link_state \<Rightarrow> bool" where
  "link_inv env st \<longleftrightarrow> length (lk_sessions st) \<le> 3 \<and> distinct (map fst (lk_sessions st)) \<and>
     list_all (\<lambda>(t, s). target_ok env t \<and> session_ok s) (lk_sessions st)"

lemma link_inv_lookup:
  "link_inv env st \<Longrightarrow> map_of (lk_sessions st) t = Some s \<Longrightarrow> target_ok env t \<and> session_ok s"
  by (auto simp: link_inv_def dest: list_all_lookup)

lemma link_inv_put:
  "link_inv env st \<Longrightarrow> map_of (lk_sessions st) t = Some s \<Longrightarrow>
   lk_sessions st' = AList.update t s' (lk_sessions st) \<Longrightarrow> session_ok s' \<Longrightarrow> link_inv env st'"
  using link_inv_lookup[of env st t s]
  by (auto simp: link_inv_def in_dict_def length_update distinct_update intro!: list_all_update)

lemma link_inv_release:
  "link_inv env st \<Longrightarrow> link_inv env (fst (release_session t s clk st))"
  using length_delete_le[of t "lk_sessions st"]
  by (auto simp: link_inv_def release_session_def distinct_delete intro!: list_all_delete)

definition fresh_session :: "string \<Rightarrow> nat \<Rightarrow> int \<Rightarrow> link_session" where
  "fresh_session requester n now = \<lparr>ls_requester = requester, ls_total = n, ls_started_ms = now,
     ls_attempts = [], ls_status = Running, ls_pc = AtAttempt 1, ls_sent = 0, ls_received = 0\<rparr>"

lemma start_accepted:
  "fst (start_link_check env target count req now clk st) = Started call k \<Longrightarrow>
   call = link_target target \<and> target_ok env call \<and> count = JInt (int k) \<and> 1 \<le> k \<and> k \<le> 5 \<and>
   length (lk_sessions st) < 3 \<and> \<not> in_dict call (lk_sessions st) \<and>
   (\<forall>until. map_of (lk_cooldown st) call = Some until \<longrightarrow> until \<le> clk) \<and>
   snd (start_link_check env target count req now clk st) =
     st\<lparr>lk_sessions := AList.update call (fresh_session req k now) (lk_sessions st)\<rparr>"
  by (cases count; simp add: start_link_check_def Let_def fresh_session_def MAX_CONCURRENT_LINKCHECKS_def
      MAX_TARGET_CALLSIGN_LEN_def MAX_LINKCHECK_ATTEMPTS_def target_ok_def split: if_splits option.splits)
    (auto simp: nat_le_iff)

lemma start_rejected:
  "case fst (start_link_check env target count req now clk st) of Started call k \<Rightarrow> True
   | _ \<Rightarrow> snd (start_link_check env target count req now clk st) = st"
  by (cases count) (simp_all add: start_link_check_def Let_def split: option.split)

lemma fresh_session_ok: "1 \<le> k \<Longrightarrow> k \<le> 5 \<Longrightarrow> session_ok (fresh_session req k now)"
  by (simp add: fresh_session_def session_ok_def settled_def)

lemma link_inv_start:
  assumes "link_inv env st"
  shows "link_inv env (snd (start_link_check env target count req now clk st))"
proof (cases "\<exists>call k. fst (start_link_check env target count req now clk st) = Started call k")
  case True
  then obtain call k where r: "fst (start_link_check env target count req now clk st) = Started call k"
    by blast
  note s = start_accepted[OF r]
  then have ok: "target_ok env call" "session_ok (fresh_session req k now)" "length (lk_sessions st) < 3"
    by (auto intro: fresh_session_ok)
  from s have e: "snd (start_link_check env target count req now clk st) =
     st\<lparr>lk_sessions := AList.update call (fresh_session req k now) (lk_sessions st)\<rparr>" by blast
  from ok assms show ?thesis unfolding e
    by (simp add: link_inv_def length_update distinct_update list_all_update)
next
  case False
  with start_rejected[of env target count req now clk st] assms show ?thesis
    by (auto split: start_reply.splits)
qed

text \<open>Updating one attempt without touching its number keeps the session in order.\<close>

lemma set_attempt_map_seq: "la_seq a' = la_seq (as ! i) \<Longrightarrow> map la_seq (as[i := a']) = map la_seq as"
  by (cases "i < length as") (simp_all add: map_update list_update_same_conv list_update_beyond)

lemma list_all_update_nth: "list_all P as \<Longrightarrow> P a \<Longrightarrow> list_all P (as[i := a])"
  by (auto simp: list_all_iff dest: set_update_subset_insert[THEN subsetD])

lemma butlast_list_update: "i < length as \<Longrightarrow> butlast (as[i := a]) = (if i = length as - 1 then butlast as else (butlast as)[i := a])"
  by (cases as rule: rev_cases) (auto simp: list_update_append)

lemma filter_update_mono:
  "(i < length as \<Longrightarrow> P (as ! i) \<Longrightarrow> P a) \<Longrightarrow> length (filter P as) \<le> length (filter P (as[i := a]))"
proof (induction as arbitrary: i)
  case (Cons x xs)
  show ?case
  proof (cases i)
    case (Suc j)
    with Cons.prems Cons.IH[of j] show ?thesis by simp
  qed (use Cons.prems in auto)
qed simp

text \<open>What an inbound frame may do to an attempt: number and send time stay, answers are kept.\<close>

definition attempt_grows :: "link_attempt \<Rightarrow> link_attempt \<Rightarrow> bool" where
  "attempt_grows a a' \<longleftrightarrow> la_seq a' = la_seq a \<and> la_sent_ms a' = la_sent_ms a \<and>
     (la_resolved a \<longrightarrow> la_resolved a') \<and> la_timed_out a' = la_timed_out a"

lemma session_ok_attempt:
  assumes "session_ok s" "i < length (ls_attempts s)" "attempt_grows (ls_attempts s ! i) a'"
  shows "session_ok (s\<lparr>ls_attempts := (ls_attempts s)[i := a']\<rparr>)"
proof -
  let ?s' = "s\<lparr>ls_attempts := (ls_attempts s)[i := a']\<rparr>"
  have g: "la_seq a' = la_seq (ls_attempts s ! i)" "answered (ls_attempts s ! i) \<Longrightarrow> answered a'"
    "la_resolved (ls_attempts s ! i) \<Longrightarrow> la_resolved a'"
    using assms(3) by (auto simp: attempt_grows_def answered_def)
  have st: "settled ?s' = settled s \<or> settled ?s' = (settled s)[i := a'] \<and>
      (i < length (settled s) \<and> settled s ! i = ls_attempts s ! i \<or> length (settled s) \<le> i)"
    using assms(2) by (auto simp: settled_def butlast_list_update nth_butlast split: driver_pc.splits)
  have "list_all answered (settled ?s')"
  proof (cases "settled ?s' = settled s \<or> length (settled s) \<le> i")
    case True
    with st assms(1) show ?thesis by (auto simp: session_ok_def list_update_beyond)
  next
    case False
    with st have "settled ?s' = (settled s)[i := a']" "i < length (settled s)"
      "settled s ! i = ls_attempts s ! i" by auto
    moreover from this assms(1) have "answered a'" "list_all answered (settled s)"
      using g(2) by (auto simp: session_ok_def list_all_length)
    ultimately show ?thesis by (simp add: list_all_update_nth)
  qed
  moreover have "length (filter la_resolved (settled s)) \<le> length (filter la_resolved (settled ?s'))"
    using st g(3) filter_update_mono[of i "settled s" la_resolved a'] by auto
  ultimately show ?thesis
    using assms(1) set_attempt_map_seq[OF g(1)] by (auto simp: session_ok_def split: driver_pc.splits)
qed

lemma find_attempt_Some: "find_attempt P as = Some i \<Longrightarrow> i < length as \<and> P (as ! i)"
  by (induction as arbitrary: i) (auto split: if_splits)

lemma find_session_Some:
  "find_session P ss = Some (t, s, i) \<Longrightarrow> (t, s) \<in> set ss \<and> i < length (ls_attempts s) \<and> P (ls_attempts s ! i)"
proof (induction ss)
  case (Cons x ss)
  then show ?case by (cases x) (auto split: option.splits dest: find_attempt_Some)
qed simp

lemma last_update: "as \<noteq> [] \<Longrightarrow> butlast as @ [a] = as[length as - 1 := a]"
  by (cases as rule: rev_cases) auto

lemma link_inv_set_attempt:
  assumes "link_inv env st" "(t, s) \<in> set (lk_sessions st)" "i < length (ls_attempts s)"
    and "lk_sessions st' = lk_sessions (set_attempt t s i a' st)" "attempt_grows (ls_attempts s ! i) a'"
  shows "link_inv env st'"
proof -
  from assms(1,2) have m: "map_of (lk_sessions st) t = Some s" by (auto simp: link_inv_def)
  with assms(1) have "session_ok s" using link_inv_lookup by blast
  with assms(3,5) have "session_ok (s\<lparr>ls_attempts := (ls_attempts s)[i := a']\<rparr>)"
    by (intro session_ok_attempt)
  from link_inv_put[OF assms(1) m _ this] assms(4) show ?thesis by (simp add: set_attempt_def)
qed

lemma link_inv_pong: "link_inv env st \<Longrightarrow> link_inv env (fst (handle_linkcheck_pong f now st))"
proof (cases "lf_correlates_to f")
  case (Some w)
  assume i: "link_inv env st"
  show ?thesis
  proof (cases "find_session (pong_fits w now) (lk_sessions st)")
    case hit: (Some r)
    obtain t s k where r: "r = (t, s, k)" by (cases r)
    note h = find_session_Some[OF hit[unfolded r]]
    show ?thesis
      using i h Some hit
      by (auto simp: handle_linkcheck_pong_def r Let_def attempt_grows_def
          elim!: link_inv_set_attempt)
  qed (use i Some in \<open>simp add: handle_linkcheck_pong_def\<close>)
qed (simp add: handle_linkcheck_pong_def)

lemma link_inv_echo: "link_inv env st \<Longrightarrow> link_inv env (handle_linkcheck_echo f st)"
proof (cases "map_of (lk_sessions st) (upper (strip (lf_dst f)))")
  case (Some s)
  assume i: "link_inv env st"
  show ?thesis
  proof (cases "ls_attempts s = [] \<or> la_ping_id (last (ls_attempts s)) \<noteq> None")
    case False
    let ?n = "length (ls_attempts s) - 1"
    from False have n: "?n < length (ls_attempts s)" "last (ls_attempts s) = ls_attempts s ! ?n"
      by (auto simp: last_conv_nth)
    have s: "(upper (strip (lf_dst f)), s) \<in> set (lk_sessions st)" using Some by (rule map_of_SomeD)
    show ?thesis
      using False Some n(2)
      by (auto simp: handle_linkcheck_echo_def Let_def last_update set_attempt_def attempt_grows_def
          intro!: link_inv_set_attempt[OF i s n(1)])
  qed (use i Some in \<open>auto simp: handle_linkcheck_echo_def\<close>)
qed (simp add: handle_linkcheck_echo_def)

lemma link_inv_frame: "link_inv env st \<Longrightarrow> link_inv env (fst (handle_link_check_frame m now st))"
  by (auto simp: handle_link_check_frame_def link_inv_pong link_inv_echo
      split: sum.split option.split link_kind.split)

lemma session_ok_begin:
  "session_ok s \<Longrightarrow> ls_pc s = AtAttempt k \<Longrightarrow> k \<le> ls_total s \<Longrightarrow>
   session_ok (s\<lparr>ls_attempts := ls_attempts s @ [new_attempt k now], ls_pc := Publishing k\<rparr>)"
  by (cases k) (auto simp: session_ok_def settled_def new_attempt_def)

lemma session_ok_published:
  "session_ok s \<Longrightarrow> ls_pc s = Publishing k \<Longrightarrow>
   session_ok (s\<lparr>ls_sent := ls_sent s + 1, ls_pc := Waiting k\<rparr>)"
  by (auto simp: session_ok_def settled_def)

lemma session_ok_resume:
  assumes "session_ok s" "ls_pc s = Waiting k"
  shows "la_resolved (last (ls_attempts s)) \<Longrightarrow>
      session_ok (s\<lparr>ls_received := ls_received s + 1, ls_pc := AtAttempt (k + 1)\<rparr>)"
    and "\<not> la_resolved (last (ls_attempts s)) \<Longrightarrow>
      session_ok (s\<lparr>ls_attempts := butlast (ls_attempts s) @ [(last (ls_attempts s))\<lparr>la_timed_out := True\<rparr>],
        ls_pc := AtAttempt (k + 1)\<rparr>)"
  using assms
  by (cases "ls_attempts s" rule: rev_cases; auto simp: session_ok_def settled_def answered_def)+

lemma link_inv_driver: "link_inv env st \<Longrightarrow> link_inv env (fst (link_driver t ok now clk st))"
proof (cases "map_of (lk_sessions st) t")
  case (Some s)
  assume i: "link_inv env st"
  then have s: "session_ok s" using link_inv_lookup[OF i Some] by simp
  note put = link_inv_put[OF i Some]
  show ?thesis
  proof (cases "ls_pc s")
    case (AtAttempt k)
    with s i Some show ?thesis
      by (auto simp: link_driver_def driver_begin_def Let_def put_session_def
          intro!: link_inv_release intro: put session_ok_begin)
  next
    case (Publishing k)
    with s i Some show ?thesis
      by (auto simp: link_driver_def driver_published_def Let_def put_session_def
          intro!: link_inv_release intro: put session_ok_published[unfolded Suc_eq_plus1[symmetric]])
  next
    case (Waiting k)
    with s i Some show ?thesis
      by (auto simp: link_driver_def driver_resume_def Let_def put_session_def
          intro: put session_ok_resume[unfolded Suc_eq_plus1[symmetric]])
  qed
qed (simp add: link_driver_def)

lemma link_inv_init: "link_inv env link_init"
  by (simp add: link_inv_def link_init_def)

lemma link_inv_step: "link_inv env st \<Longrightarrow> link_inv env (fst (link_step env ev st))"
proof (cases ev)
  case (LStop target clk)
  assume "link_inv env st"
  with LStop show ?thesis
    by (auto simp: link_step_def stop_link_check_def Let_def link_inv_release split: option.split)
qed (simp_all add: link_step_def link_inv_start link_inv_frame link_inv_driver stop_linkcheck_def
      link_inv_init)

lemma link_reach_inv: "link_reach env st \<Longrightarrow> link_inv env st"
  by (induction rule: link_reach.induct) (simp_all add: link_inv_step link_inv_init)

section \<open>Progress\<close>

text \<open>How many steps the driver of a target still has to make.\<close>

definition remaining :: "link_state \<Rightarrow> string \<Rightarrow> nat" where
  "remaining st t =
     (case map_of (lk_sessions st) t of
        None \<Rightarrow> 0
      | Some s \<Rightarrow>
          (case ls_pc s of
             AtAttempt k \<Rightarrow> 3 * (ls_total s + 1 - k) + 1
           | Publishing k \<Rightarrow> 3 * (ls_total s + 1 - k)
           | Waiting k \<Rightarrow> 3 * (ls_total s + 1 - k) - 1))"

fun drives :: "string \<Rightarrow> link_event \<Rightarrow> bool" where
  "drives t (LDriver t' ok now clk) = (t' = t)"
| "drives t _ = False"

fun driver_or_frame :: "link_event \<Rightarrow> bool" where
  "driver_or_frame (LDriver t ok now clk) = True"
| "driver_or_frame (LFrame m now) = True"
| "driver_or_frame _ = False"

definition link_run :: "link_env \<Rightarrow> link_event list \<Rightarrow> link_state \<Rightarrow> link_state" where
  "link_run env evs st = fold (\<lambda>ev s. fst (link_step env ev s)) evs st"

lemma remaining_le: "link_inv env st \<Longrightarrow> remaining st t \<le> 16"
  using link_inv_lookup[of env st t]
  by (auto simp: remaining_def session_ok_def split: option.splits driver_pc.splits)

lemma remaining_zero: "link_inv env st \<Longrightarrow> remaining st t = 0 \<Longrightarrow> \<not> in_dict t (lk_sessions st)"
  using link_inv_lookup[of env st t]
  by (auto simp: remaining_def session_ok_def in_dict_def split: option.splits driver_pc.splits)

lemma remaining_put:
  "lk_sessions st' = AList.update t' s' (lk_sessions st) \<Longrightarrow> map_of (lk_sessions st) t' = Some s \<Longrightarrow>
   ls_pc s' = ls_pc s \<Longrightarrow> ls_total s' = ls_total s \<Longrightarrow> remaining st' t = remaining st t"
  by (auto simp: remaining_def split: driver_pc.split)

lemma remaining_cong:
  "map_of (lk_sessions st') t = map_of (lk_sessions st) t \<Longrightarrow> remaining st' t = remaining st t"
  by (simp add: remaining_def)

lemma remaining_frame:
  assumes "link_inv env st"
  shows "remaining (fst (handle_link_check_frame m now st)) t = remaining st t"
proof -
  have d: "distinct (map fst (lk_sessions st))" using assms by (simp add: link_inv_def)
  have e: "remaining (handle_linkcheck_echo f st) t = remaining st t" for f
    by (auto simp: handle_linkcheck_echo_def Let_def split: option.split intro!: remaining_put)
  have p: "remaining (fst (handle_linkcheck_pong f now st)) t = remaining st t" for f
  proof (cases "lf_correlates_to f")
    case (Some w)
    show ?thesis
    proof (cases "find_session (pong_fits w now) (lk_sessions st)")
      case hit: (Some r)
      obtain t' s k where r: "r = (t', s, k)" by (cases r)
      have "map_of (lk_sessions st) t' = Some s"
        using find_session_Some[OF hit[unfolded r]] d by simp
      then show ?thesis
        by (auto simp: handle_linkcheck_pong_def Some hit r Let_def set_attempt_def intro!: remaining_put)
    qed (simp add: handle_linkcheck_pong_def Some)
  qed (simp add: handle_linkcheck_pong_def)
  show ?thesis
    by (auto simp: handle_link_check_frame_def e p split: sum.split option.split link_kind.split)
qed

lemma remaining_release:
  "remaining (fst (release_session t' s clk st)) t = (if t = t' then 0 else remaining st t)"
  by (simp add: remaining_def release_session_def)

lemma driver_other:
  assumes "t \<noteq> t'"
  shows "map_of (lk_sessions (fst (link_driver t' ok now clk st))) t = map_of (lk_sessions st) t"
proof (cases "map_of (lk_sessions st) t'")
  case (Some s)
  show ?thesis
    by (cases "ls_pc s") (use assms Some in \<open>simp_all add: link_driver_def driver_begin_def
        driver_published_def driver_resume_def Let_def release_session_def put_session_def\<close>)
qed (simp add: link_driver_def)

lemma remaining_driver_own:
  assumes "link_inv env st"
  shows "remaining (fst (link_driver t ok now clk st)) t \<le> remaining st t - 1"
proof (cases "map_of (lk_sessions st) t")
  case (Some s)
  then have s: "session_ok s" using link_inv_lookup[OF assms] by blast
  show ?thesis
  proof (cases "ls_pc s")
    case (AtAttempt k)
    with s Some show ?thesis
      by (simp add: link_driver_def driver_begin_def Let_def remaining_release)
        (simp add: remaining_def put_session_def)
  next
    case (Publishing k)
    with s Some show ?thesis
      by (simp add: link_driver_def driver_published_def Let_def remaining_release)
        (simp add: remaining_def put_session_def session_ok_def)
  next
    case (Waiting k)
    with s have "k \<le> ls_total s" by (simp add: session_ok_def)
    with s Some Waiting show ?thesis
      by (simp add: link_driver_def driver_resume_def Let_def)
        (simp add: remaining_def put_session_def)
  qed
qed (simp add: link_driver_def remaining_def)

lemma remaining_driver:
  "link_inv env st \<Longrightarrow> remaining (fst (link_driver t' ok now clk st)) t \<le>
    (if t = t' then remaining st t - 1 else remaining st t)"
  using remaining_driver_own remaining_cong[OF driver_other, of t t' ok now clk st] by auto

lemma remaining_run:
  "link_inv env st \<Longrightarrow> \<forall>ev \<in> set evs. driver_or_frame ev \<Longrightarrow>
   remaining (link_run env evs st) t \<le> remaining st t - length (filter (drives t) evs) \<and>
   link_inv env (link_run env evs st)"
proof (induction evs arbitrary: st)
  case (Cons ev evs)
  let ?st = "fst (link_step env ev st)"
  have i: "link_inv env ?st" using Cons.prems(1) by (rule link_inv_step)
  have "remaining ?st t \<le> remaining st t - (if drives t ev then 1 else 0)"
  proof (cases ev)
    case (LDriver t' ok now clk)
    with remaining_driver[OF Cons.prems(1), of t' ok now clk t] show ?thesis
      by (auto simp: link_step_def split: if_splits)
  qed (use Cons.prems remaining_frame[OF Cons.prems(1)] in \<open>auto simp: link_step_def\<close>)
  moreover have "remaining (link_run env evs ?st) t \<le> remaining ?st t - length (filter (drives t) evs) \<and>
      link_inv env (link_run env evs ?st)"
    using Cons.IH[OF i] Cons.prems(2) by simp
  ultimately show ?case by (auto simp: link_run_def)
qed (simp add: link_run_def)

section \<open>Properties\<close>


definition demo_link_env :: link_env where
  "demo_link_env = \<lparr>lk_my_callsign = ''DK5EN-1'', lk_blocked = {}\<rparr>"

definition demo_link_state :: link_state where
  "demo_link_state = fst (link_step demo_link_env (LStart (JStr ''dl2ja-2'') (JInt 3) ''api'' 1000 5) link_init)"

lemma demo_link_reach: "link_reach demo_link_env demo_link_state"
  unfolding demo_link_state_def by (rule link_reach.step[OF link_reach.init])


text \<open>C9: every link check ends. Once a session runs, whatever frames arrive and whether its sends
  succeed or fail, sixteen steps of its driver task are enough for it to release its target.
\<close>

theorem link_check_terminates:
  assumes "link_reach env st" "\<forall>ev \<in> set evs. driver_or_frame ev"
    and "16 \<le> length (filter (drives t) evs)"
  shows "\<not> in_dict t (lk_sessions (link_run env evs st))"
proof -
  have i: "link_inv env st" using assms(1) by (rule link_reach_inv)
  note r = remaining_run[OF i assms(2), of t]
  with remaining_le[OF i, of t] assms(3) have "remaining (link_run env evs st) t = 0" by linarith
  with r show ?thesis using remaining_zero by blast
qed

theorem link_check_terminates_witness:
  "in_dict ''DL2JA-2'' (lk_sessions demo_link_state) \<and>
   \<not> in_dict ''DL2JA-2'' (lk_sessions (link_run demo_link_env (replicate 16 (LDriver ''DL2JA-2'' True 2000 9)) demo_link_state))"
proof
  show "in_dict ''DL2JA-2'' (lk_sessions demo_link_state)" by code_simp
  show "\<not> in_dict ''DL2JA-2'' (lk_sessions (link_run demo_link_env (replicate 16 (LDriver ''DL2JA-2'' True 2000 9)) demo_link_state))"
    by (rule link_check_terminates[OF demo_link_reach]) simp_all
qed


definition demo_pinged :: link_state where
  "demo_pinged = link_run demo_link_env
     [LDriver ''DL2JA-2'' True 2000 9,
      LFrame [(''msg'', JStr ''{ping}{087''), (''dst'', JStr ''DL2JA-2''), (''src_type'', JStr ''node''),
        (''msg_id'', JStr ''0000002A'')] 2100,
      LDriver ''DL2JA-2'' True 2200 9] demo_link_state"

lemma link_reach_run: "link_reach env st \<Longrightarrow> link_reach env (link_run env evs st)"
  by (induction evs arbitrary: st) (auto simp: link_run_def intro: link_reach.step)

definition demo_pong :: link_frame where
  "demo_pong = the (projr (parse_link_frame
     [(''msg'', JStr ''{pong}{42}''), (''src'', JStr ''DL2JA-2''), (''src_type'', JStr ''lora'')]))"


end
