(* ===== verification/CtcPing.thy ===== *)
theory CtcPing
  imports NumText Identity
begin

text \<open>
  \<open>commands/ctcping.py\<close>: ping tests over the mesh. A test sends up to five probes; the node's echo of a
  probe tells its message id, the target's acknowledgement names the id again. Every coroutine is
  cut at its \<open>await\<close>s: what may still run is a list of tasks in the state, and any of them may run
  next. \<open>cp_log\<close> is the history of what was published, tracked and recorded.
\<close>

section \<open>Recognising the frames\<close>

text \<open>\<open>:ack[0-9]{3}$\<close>, with the captured id\<close>

definition ack_id_match :: "string \<Rightarrow> string option" where
  "ack_id_match msg =
     (let body = fst (drop_nl msg); ds = drop (length body - 3) body; pre = take (length body - 3) body
      in if length ds = 3 \<and> list_all ascii_digit ds \<and> endswith pre '':ack'' then Some ds else None)"

text \<open>\<open>ping test (\d+)/(\d+)\<close>: the first match\<close>

definition seq_at :: "string \<Rightarrow> (string \<times> string) option" where
  "seq_at s =
     (if startswith s ''ping test '' then
        (let r = drop 10 s; d1 = takeWhile ascii_digit r; r1 = drop (length d1) r in
         if d1 \<noteq> [] \<and> startswith r1 ''/'' then
           (let d2 = takeWhile ascii_digit (tl r1) in if d2 \<noteq> [] then Some (d1, d2) else None)
         else None)
      else None)"

fun seq_search :: "string \<Rightarrow> (string \<times> string) option" where
  "seq_search [] = None"
| "seq_search (c # s) = (case seq_at (c # s) of Some r \<Rightarrow> Some r | None \<Rightarrow> seq_search s)"

text \<open>The checks run on whatever the field \<open>msg\<close> holds; a truthy non-string raises.\<close>

definition is_ack_message :: "json \<Rightarrow> bool res" where
  "is_ack_message msg =
     (if \<not> truthy msg then Inr False
      else case msg of JStr s \<Rightarrow> Inr (ack_id_match s \<noteq> None) | _ \<Rightarrow> Inl TypeError)"

definition is_echo_message :: "json \<Rightarrow> bool res" where
  "is_echo_message msg =
     (if \<not> truthy msg then Inr False
      else case msg of
        JStr s \<Rightarrow> Inr (contains s ''[CTC]'' \<and> match_ack_suffix s \<noteq> None)
      | JList xs \<Rightarrow> if JStr ''[CTC]'' \<in> set xs then Inl TypeError else Inr False
      | JObj kvs \<Rightarrow> if in_dict ''[CTC]'' kvs then Inl TypeError else Inr False
      | _ \<Rightarrow> Inl TypeError)"

definition is_ping_message :: "string \<Rightarrow> bool" where
  "is_ping_message msg \<longleftrightarrow> msg \<noteq> [] \<and> seq_search (lower msg) \<noteq> None"

definition extract_sequence_info :: "string \<Rightarrow> string option" where
  "extract_sequence_info msg = map_option (\<lambda>(cur, total). cur @ ''/'' @ total) (seq_search (lower msg))"

section \<open>State\<close>

datatype ping_status = PRunning | PCompleted | PTimeout

record active_ping =
  ap_target :: string
  ap_original_msg :: string
  ap_sent_time :: time
  ap_requester :: string
  ap_sequence_info :: "string option"
  ap_test_id :: "string option"
  ap_ack_processed :: bool

text \<open>A result is the sequence with its round-trip time, or with none for a timeout.\<close>

record ping_test =
  pt_target :: string
  pt_requester :: string
  pt_total :: nat
  pt_payload :: nat
  pt_status :: ping_status
  pt_results :: "(string \<times> time option) list"
  pt_completed :: nat
  pt_timeouts :: nat
  pt_completed_seqs :: "string set"
  pt_send_times :: "(string, time) dict"

datatype ping_task =
    TimeoutTask string
  | AckRecord string string "string \<times> time option"
  | CompleteTask string
  | DeleteTest string bool   \<comment> \<open>the end of \<open>_complete_test_with_cleanup\<close>, or of the monitor\<close>
  | DriverTask string nat
  | MonitorTask string

datatype ping_log =
    ProbeSent string string
  | PingReply string string "string option" time
  | PingTimeoutNotice string string "string option"
  | Summary string nat nat nat
  | DeadlineNotice string
  | Tracked string
  | Recorded string

record ping_state =
  cp_active :: "(string, active_ping) dict"
  cp_tests :: "(string, ping_test) dict"
  cp_completing :: "string set"
  cp_tasks :: "ping_task list"
  cp_used :: "string set"        \<comment> \<open>test ids ever created\<close>
  cp_log :: "ping_log list"

definition ctcping_init :: ping_state where
  "ctcping_init = \<lparr>cp_active = [], cp_tests = [], cp_completing = {}, cp_tasks = [], cp_used = {}, cp_log = []\<rparr>"

definition emit :: "ping_log list \<Rightarrow> ping_state \<Rightarrow> ping_state" where
  "emit ls st = st\<lparr>cp_log := cp_log st @ ls\<rparr>"

definition spawn :: "ping_task \<Rightarrow> ping_state \<Rightarrow> ping_state" where
  "spawn t st = st\<lparr>cp_tasks := cp_tasks st @ [t]\<rparr>"

section \<open>The command\<close>

datatype ctcping_reply =
    PingNoTarget | PingInvalidTarget | PingSelf | PingBlocked string
  | PingPayloadRange | PingPayloadInvalid | PingRepeatRange | PingRepeatInvalid
  | PingStarted string nat nat | PingError py_error

fun pyval_int :: "pyval \<Rightarrow> int res" where
  "pyval_int (PInt i) = Inr i"
| "pyval_int (PStr s) = py_int s"

text \<open>\<open>tid\<close> is the id the new test draws.\<close>

definition handle_ctcping :: "string \<Rightarrow> string set \<Rightarrow> kwargs \<Rightarrow> string \<Rightarrow> string \<Rightarrow> ping_state \<Rightarrow>
    ctcping_reply \<times> ping_state" where
  "handle_ctcping me blocked kw requester tid st =
     (case kwarg_str kw ''call'' of
        Inl e \<Rightarrow> (PingError e, st)
      | Inr c0 \<Rightarrow>
          let target = upper c0 in
          if target = [] then (PingNoTarget, st)
          else if \<not> callsign_strict target then (PingInvalidTarget, st)
          else if target = me then (PingSelf, st)
          else if target \<in> blocked then (PingBlocked target, st)
          else (case pyval_int (dict_get kw ''payload'' (PInt 25)) of
            Inl e \<Rightarrow> (PingPayloadInvalid, st)
          | Inr payload \<Rightarrow>
              if payload < 25 \<or> 140 < payload then (PingPayloadRange, st)
              else (case pyval_int (dict_get kw ''repeat'' (PInt 1)) of
                Inl e \<Rightarrow> (PingRepeatInvalid, st)
              | Inr rep \<Rightarrow>
                  if rep < 1 \<or> 5 < rep then (PingRepeatRange, st)
                  else (PingStarted target (nat rep) (nat payload),
                    spawn (DriverTask tid 1) (st\<lparr>
                      cp_tests := AList.update tid
                        \<lparr>pt_target = target, pt_requester = requester, pt_total = nat rep,
                         pt_payload = nat payload, pt_status = PRunning, pt_results = [],
                         pt_completed = 0, pt_timeouts = 0, pt_completed_seqs = {},
                         pt_send_times = []\<rparr> (cp_tests st),
                      cp_used := insert tid (cp_used st)\<rparr>)))))"

text \<open>The text of a probe: cut or padded to the payload size.\<close>

definition probe_text :: "nat \<Rightarrow> nat \<Rightarrow> nat \<Rightarrow> string" where
  "probe_text sequence repeat_count payload_size =
     (let base = ''[CTC] Ping test '' @ nat_str sequence @ ''/'' @ nat_str repeat_count @ '' to measure roundtrip'' in
      if payload_size < length base then take payload_size base
      else base @ replicate (payload_size - length base) (CHR ''.''))"

definition driver_step :: "string \<Rightarrow> nat \<Rightarrow> time \<Rightarrow> ping_state \<Rightarrow> ping_state" where
  "driver_step tid k now st =
     (case map_of (cp_tests st) tid of
        None \<Rightarrow> spawn (MonitorTask tid) st
      | Some t \<Rightarrow>
          if k \<le> pt_total t \<and> pt_status t = PRunning then
            (let key = nat_str k @ ''/'' @ nat_str (pt_total t);
                 t' = t\<lparr>pt_send_times := AList.update key now (pt_send_times t)\<rparr>
             in spawn (DriverTask tid (k + 1))
                 (emit [ProbeSent (pt_target t) (probe_text k (pt_total t) (pt_payload t))]
                   (st\<lparr>cp_tests := AList.update tid t' (cp_tests st)\<rparr>)))
          else spawn (MonitorTask tid) st)"

section \<open>Results\<close>

definition check_test_completion :: "ping_test \<Rightarrow> bool" where
  "check_test_completion t \<longleftrightarrow> pt_status t = PRunning \<and> pt_total t \<le> pt_completed t + pt_timeouts t"

text \<open>\<open>_record_ping_result\<close> with \<open>_trigger_completion_if_done\<close>; no await in between.\<close>

definition record_ping_result :: "string \<Rightarrow> string \<times> time option \<Rightarrow> ping_state \<Rightarrow> ping_state" where
  "record_ping_result tid result st =
     (case map_of (cp_tests st) tid of
        None \<Rightarrow> st
      | Some t \<Rightarrow>
          if pt_status t \<noteq> PRunning then st
          else
            let ok = snd result \<noteq> None;
                t' = t\<lparr>pt_results := pt_results t @ [result],
                       pt_completed := (if ok \<and> pt_completed t < pt_total t then pt_completed t + 1 else pt_completed t),
                       pt_timeouts := (if \<not> ok \<and> pt_timeouts t < pt_total t then pt_timeouts t + 1 else pt_timeouts t)\<rparr>;
                st1 = emit [Recorded tid] (st\<lparr>cp_tests := AList.update tid t' (cp_tests st)\<rparr>)
            in if check_test_completion t' \<and> tid \<notin> cp_completing st1
               then spawn (CompleteTask tid) (st1\<lparr>cp_completing := insert tid (cp_completing st1)\<rparr>)
               else st1)"

section \<open>Echo and acknowledgement\<close>

fun find_test :: "string \<Rightarrow> (string, ping_test) dict \<Rightarrow> string option" where
  "find_test target [] = None"
| "find_test target ((tid, t) # ts) =
     (if pt_target t = target \<and> pt_status t = PRunning then Some tid else find_test target ts)"

text \<open>Three string fields; an exception is logged and swallowed.\<close>

definition msg_fields :: "msgd \<Rightarrow> (string \<times> string \<times> string) option" where
  "msg_fields m =
     (case (dict_get m ''src'' (JStr []), dict_get m ''dst'' (JStr []), dict_get m ''msg'' (JStr [])) of
        (JStr s, JStr d, JStr t) \<Rightarrow> Some (upper s, upper d, t)
      | _ \<Rightarrow> None)"

definition handle_echo_message :: "string \<Rightarrow> msgd \<Rightarrow> time \<Rightarrow> ping_state \<Rightarrow> ping_state" where
  "handle_echo_message me message now st =
     (case msg_fields message of
        None \<Rightarrow> st
      | Some (src, dst, msg) \<Rightarrow>
          (case match_ack_suffix msg of
             None \<Rightarrow> st
           | Some (original, mid, nl) \<Rightarrow>
               if src \<noteq> me \<or> \<not> is_ping_message original then st
               else
                 let seq = extract_sequence_info original;
                     tid = find_test dst (cp_tests st);
                     sent = (case (tid, seq) of
                         (Some t, Some q) \<Rightarrow>
                           (case map_of (cp_tests st) t of
                              Some test \<Rightarrow> dict_get (pt_send_times test) q now
                            | None \<Rightarrow> now)
                       | _ \<Rightarrow> now)
                 in if in_dict mid (cp_active st) then st
                    else spawn (TimeoutTask mid) (emit [Tracked mid] (st\<lparr>cp_active := AList.update mid
                      \<lparr>ap_target = dst, ap_original_msg = original, ap_sent_time = sent, ap_requester = src,
                       ap_sequence_info = seq, ap_test_id = tid, ap_ack_processed = False\<rparr> (cp_active st)\<rparr>))))"

definition drop_active :: "string \<Rightarrow> ping_state \<Rightarrow> ping_state" where
  "drop_active mid st = st\<lparr>cp_active := AList.delete mid (cp_active st)\<rparr>"

text \<open>\<open>_record_ack_result\<close> up to its await: the reply is published, the result is still to be recorded.\<close>

definition handle_ack_message :: "string \<Rightarrow> msgd \<Rightarrow> time \<Rightarrow> ping_state \<Rightarrow> ping_state" where
  "handle_ack_message me message now st =
     (case msg_fields message of
        None \<Rightarrow> st
      | Some (src_raw, dst, msg) \<Rightarrow>
          (case ack_id_match msg of
             None \<Rightarrow> st
           | Some ack_id \<Rightarrow>
               (case map_of (cp_active st) ack_id of
                  None \<Rightarrow> st
                | Some p \<Rightarrow>
                    if ap_ack_processed p then st
                    else if strip_relay_path src_raw \<noteq> ap_target p \<or> dst \<noteq> me then st
                    else
                      let rtt = now - ap_sent_time p;
                          seq = (case ap_sequence_info p of None \<Rightarrow> [] | Some q \<Rightarrow> q);
                          st1 = st\<lparr>cp_active := AList.update ack_id (p\<lparr>ap_ack_processed := True\<rparr>) (cp_active st)\<rparr>
                      in (case ap_test_id p of
                            None \<Rightarrow> drop_active ack_id st1
                          | Some tid \<Rightarrow>
                              (case map_of (cp_tests st) tid of
                                 None \<Rightarrow> drop_active ack_id st1
                               | Some t \<Rightarrow>
                                   if pt_status t \<noteq> PRunning then drop_active ack_id st1
                                   else if seq \<noteq> [] \<and> seq \<in> pt_completed_seqs t then drop_active ack_id st1
                                   else
                                     let t' = (if seq \<noteq> [] then t\<lparr>pt_completed_seqs := insert seq (pt_completed_seqs t)\<rparr> else t)
                                     in spawn (AckRecord ack_id tid (seq, Some rtt))
                                          (emit [PingReply (ap_requester p) (ap_target p) (ap_sequence_info p) rtt]
                                            (st1\<lparr>cp_tests := AList.update tid t' (cp_tests st1)\<rparr>)))))))"

section \<open>Tasks\<close>

definition ping_timeout_task :: "string \<Rightarrow> ping_state \<Rightarrow> ping_state" where
  "ping_timeout_task mid st =
     (case map_of (cp_active st) mid of
        None \<Rightarrow> st
      | Some p \<Rightarrow>
          if ap_ack_processed p then st
          else
            let seq = (case ap_sequence_info p of None \<Rightarrow> [] | Some q \<Rightarrow> q);
                st1 = (case ap_test_id p of
                    None \<Rightarrow> st
                  | Some tid \<Rightarrow> if tid \<noteq> [] then record_ping_result tid (seq, None) st else st);
                st2 = drop_active mid st1
            in (case ap_test_id p of
                  None \<Rightarrow> st2
                | Some tid \<Rightarrow> if tid \<noteq> [] \<and> in_dict tid (cp_tests st2)
                    then emit [PingTimeoutNotice (ap_requester p) (ap_target p) (ap_sequence_info p)] st2 else st2))"

definition loss_percent :: "ping_test \<Rightarrow> nat" where
  "loss_percent t = pt_timeouts t * 100 div pt_total t"

text \<open>\<open>_complete_test\<close>: the monitor is cancelled, the summary published, the entry deleted after that.\<close>

definition complete_test :: "string \<Rightarrow> ping_state \<Rightarrow> ping_state" where
  "complete_test tid st =
     (case map_of (cp_tests st) tid of
        None \<Rightarrow> st\<lparr>cp_completing := cp_completing st - {tid}\<rparr>
      | Some t \<Rightarrow>
          if pt_status t \<noteq> PRunning then st\<lparr>cp_completing := cp_completing st - {tid}\<rparr>
          else
            spawn (DeleteTest tid True)
              (emit [Summary tid (pt_total t) (pt_completed t) (loss_percent t)]
                (st\<lparr>cp_tests := AList.update tid (t\<lparr>pt_status := PCompleted\<rparr>) (cp_tests st),
                    cp_tasks := filter (\<lambda>k. k \<noteq> MonitorTask tid) (cp_tasks st)\<rparr>)))"

definition delete_test :: "string \<Rightarrow> bool \<Rightarrow> ping_state \<Rightarrow> ping_state" where
  "delete_test tid final st =
     st\<lparr>cp_tests := AList.delete tid (cp_tests st),
        cp_completing := (if final then cp_completing st - {tid} else cp_completing st)\<rparr>"

definition monitor_test :: "string \<Rightarrow> ping_state \<Rightarrow> ping_state" where
  "monitor_test tid st =
     (case map_of (cp_tests st) tid of
        None \<Rightarrow> st
      | Some t \<Rightarrow>
          if pt_status t \<noteq> PRunning then st
          else spawn (DeleteTest tid False) (emit [DeadlineNotice tid]
                 (st\<lparr>cp_tests := AList.update tid (t\<lparr>pt_status := PTimeout\<rparr>) (cp_tests st)\<rparr>)))"

definition run_task :: "ping_task \<Rightarrow> time \<Rightarrow> ping_state \<Rightarrow> ping_state" where
  "run_task task now st =
     (case task of
        TimeoutTask mid \<Rightarrow> ping_timeout_task mid st
      | AckRecord mid tid result \<Rightarrow> drop_active mid (record_ping_result tid result st)
      | CompleteTask tid \<Rightarrow> complete_test tid st
      | DeleteTest tid final \<Rightarrow> delete_test tid final st
      | DriverTask tid k \<Rightarrow> driver_step tid k now st
      | MonitorTask tid \<Rightarrow> monitor_test tid st)"

definition stop_ctcping :: "ping_state \<Rightarrow> ping_state" where
  "stop_ctcping st = st\<lparr>cp_active := [], cp_tests := [], cp_completing := {}, cp_tasks := []\<rparr>"

datatype ping_event =
    PCommand kwargs string string
  | PEcho msgd time
  | PAck msgd time
  | PRun nat time
  | PStop

definition ping_step :: "string \<Rightarrow> string set \<Rightarrow> ping_event \<Rightarrow> ping_state \<Rightarrow> ping_state" where
  "ping_step me blocked ev st =
     (case ev of
        PCommand kw requester tid \<Rightarrow>
          (if tid = [] \<or> tid \<in> cp_used st then st else snd (handle_ctcping me blocked kw requester tid st))
      | PEcho m now \<Rightarrow> handle_echo_message me m now st
      | PAck m now \<Rightarrow> handle_ack_message me m now st
      | PRun n now \<Rightarrow>
          (if n < length (cp_tasks st)
           then run_task (cp_tasks st ! n) now (st\<lparr>cp_tasks := take n (cp_tasks st) @ drop (n + 1) (cp_tasks st)\<rparr>)
           else st)
      | PStop \<Rightarrow> stop_ctcping st)"

inductive ping_reach :: "string \<Rightarrow> string set \<Rightarrow> ping_state \<Rightarrow> bool" for me blocked where
  init: "ping_reach me blocked ctcping_init"
| step: "ping_reach me blocked st \<Longrightarrow> ping_reach me blocked (ping_step me blocked ev st)"

section \<open>Invariants\<close>

definition test_ok :: "string \<Rightarrow> string set \<Rightarrow> string \<times> ping_test \<Rightarrow> bool" where
  "test_ok me used e \<longleftrightarrow> (let (tid, t) = e in
     tid \<in> used \<and> callsign_strict (pt_target t) \<and> pt_target t \<noteq> me \<and>
     1 \<le> pt_total t \<and> pt_total t \<le> 5 \<and> 25 \<le> pt_payload t \<and> pt_payload t \<le> 140 \<and>
     pt_completed t \<le> pt_total t \<and> pt_timeouts t \<le> pt_total t \<and>
     pt_completed t + pt_timeouts t \<le> length (pt_results t))"

definition tests_inv :: "string \<Rightarrow> ping_state \<Rightarrow> bool" where
  "tests_inv me st \<longleftrightarrow> list_all (test_ok me (cp_used st)) (cp_tests st)"

lemma test_ok_simp [simp]: "test_ok me used (tid, t) \<longleftrightarrow>
     tid \<in> used \<and> callsign_strict (pt_target t) \<and> pt_target t \<noteq> me \<and>
     1 \<le> pt_total t \<and> pt_total t \<le> 5 \<and> 25 \<le> pt_payload t \<and> pt_payload t \<le> 140 \<and>
     pt_completed t \<le> pt_total t \<and> pt_timeouts t \<le> pt_total t \<and>
     pt_completed t + pt_timeouts t \<le> length (pt_results t)"
  by (simp add: test_ok_def)

lemma state_fields [simp]:
  "cp_tests (emit ls st) = cp_tests st" "cp_active (emit ls st) = cp_active st"
  "cp_tasks (emit ls st) = cp_tasks st" "cp_used (emit ls st) = cp_used st"
  "cp_completing (emit ls st) = cp_completing st" "cp_log (emit ls st) = cp_log st @ ls"
  "cp_tests (spawn k st) = cp_tests st" "cp_active (spawn k st) = cp_active st"
  "cp_tasks (spawn k st) = cp_tasks st @ [k]" "cp_used (spawn k st) = cp_used st"
  "cp_completing (spawn k st) = cp_completing st" "cp_log (spawn k st) = cp_log st"
  "cp_tests (drop_active m st) = cp_tests st" "cp_active (drop_active m st) = AList.delete m (cp_active st)"
  "cp_tasks (drop_active m st) = cp_tasks st" "cp_used (drop_active m st) = cp_used st"
  "cp_completing (drop_active m st) = cp_completing st" "cp_log (drop_active m st) = cp_log st"
  by (simp_all add: emit_def spawn_def drop_active_def)

lemma tests_inv_lookup: "tests_inv me st \<Longrightarrow> map_of (cp_tests st) tid = Some t \<Longrightarrow> test_ok me (cp_used st) (tid, t)"
  unfolding tests_inv_def by (rule list_all_lookup)

lemma tests_inv_same: "tests_inv me st \<Longrightarrow> cp_tests st' = cp_tests st \<Longrightarrow> cp_used st' = cp_used st \<Longrightarrow> tests_inv me st'"
  by (simp add: tests_inv_def)

lemma tests_inv_simps [simp]:
  "tests_inv me (emit ls st) = tests_inv me st" "tests_inv me (spawn k st) = tests_inv me st"
  "tests_inv me (drop_active m st) = tests_inv me st"
  "tests_inv me (st\<lparr>cp_active := a\<rparr>) = tests_inv me st" "tests_inv me (st\<lparr>cp_tasks := ks\<rparr>) = tests_inv me st"
  "tests_inv me (st\<lparr>cp_completing := c\<rparr>) = tests_inv me st"
  by (simp_all add: tests_inv_def)

lemma tests_inv_put:
  "tests_inv me st \<Longrightarrow> cp_tests st' = AList.update tid t (cp_tests st) \<Longrightarrow> cp_used st' = cp_used st \<Longrightarrow>
   test_ok me (cp_used st) (tid, t) \<Longrightarrow> tests_inv me st'"
  unfolding tests_inv_def by (simp only:) (rule list_all_update)

lemma tests_inv_record: "tests_inv me st \<Longrightarrow> tests_inv me (record_ping_result tid r st)"
proof (cases "map_of (cp_tests st) tid")
  case (Some t)
  assume i: "tests_inv me st"
  have ok: "test_ok me (cp_used st) (tid, t)" using i Some by (rule tests_inv_lookup)
  show ?thesis
    by (cases "pt_status t = PRunning")
      (use i Some ok in \<open>auto simp: record_ping_result_def Let_def intro!: tests_inv_put[OF i, of _ tid]\<close>)
qed (simp add: record_ping_result_def)

lemma tests_inv_command:
  assumes "tests_inv me st"
  shows "tests_inv me (snd (handle_ctcping me blocked kw req tid st))"
proof -
  have "list_all (test_ok me (insert tid (cp_used st))) (cp_tests st)"
    using assms by (auto simp: tests_inv_def list_all_iff)
  then show ?thesis using assms
    by (auto simp: handle_ctcping_def Let_def tests_inv_def intro!: list_all_update split: sum.split)
qed

lemma tests_inv_echo: "tests_inv me st \<Longrightarrow> tests_inv me (handle_echo_message me' m now st)"
  by (simp add: handle_echo_message_def Let_def split: option.split prod.split)

lemma tests_inv_ack:
  assumes i: "tests_inv me st"
  shows "tests_inv me (handle_ack_message me' m now st)"
proof (cases "msg_fields m")
  case (Some f)
  obtain src dst msg where f: "f = (src, dst, msg)" by (cases f)
  show ?thesis
  proof (cases "ack_id_match msg")
    case ack: (Some ack_id)
    show ?thesis
    proof (cases "map_of (cp_active st) ack_id")
      case p: (Some p)
      show ?thesis
      proof (cases "ap_test_id p")
        case tid: (Some tid)
        show ?thesis
          using tests_inv_lookup[OF i, of tid]
          by (cases "map_of (cp_tests st) tid")
            (auto simp: handle_ack_message_def Some f ack p tid i Let_def intro!: tests_inv_put[OF i])
      qed (simp add: handle_ack_message_def Some f ack p i Let_def)
    qed (simp add: handle_ack_message_def Some f ack i)
  qed (simp add: handle_ack_message_def Some f i)
qed (simp add: handle_ack_message_def i)

lemma tests_inv_task:
  assumes "tests_inv me st"
  shows "tests_inv me (run_task task now st)"
proof (cases task)
  case (TimeoutTask mid)
  have "tests_inv me (ping_timeout_task mid st)"
    by (simp add: ping_timeout_task_def Let_def assms tests_inv_record split: option.split)
  then show ?thesis by (simp add: run_task_def TimeoutTask)
next
  case (AckRecord mid tid r)
  show ?thesis by (simp add: run_task_def AckRecord tests_inv_record assms)
next
  case (CompleteTask tid)
  show ?thesis
    using tests_inv_lookup[OF assms, of tid]
    by (auto simp: run_task_def CompleteTask complete_test_def Let_def assms
        intro!: tests_inv_put[OF assms] split: option.split)
next
  case (DeleteTest tid fin)
  show ?thesis using assms
    by (auto simp: run_task_def DeleteTest delete_test_def tests_inv_def intro: list_all_delete)
next
  case (DriverTask tid k)
  show ?thesis
    using tests_inv_lookup[OF assms, of tid]
    by (auto simp: run_task_def DriverTask driver_step_def Let_def assms
        intro!: tests_inv_put[OF assms] split: option.split)
next
  case (MonitorTask tid)
  show ?thesis
    using tests_inv_lookup[OF assms, of tid]
    by (auto simp: run_task_def MonitorTask monitor_test_def Let_def assms
        intro!: tests_inv_put[OF assms] split: option.split)
qed

lemma tests_inv_step: "tests_inv me st \<Longrightarrow> tests_inv me (ping_step me blocked ev st)"
proof (cases ev)
  case (PRun n now)
  assume "tests_inv me st"
  then show ?thesis by (simp add: ping_step_def PRun tests_inv_task)
next
  case PStop
  show ?thesis by (simp add: ping_step_def PStop stop_ctcping_def tests_inv_def)
qed (simp_all add: ping_step_def tests_inv_command tests_inv_echo tests_inv_ack)

lemma ping_reach_tests: "ping_reach me blocked st \<Longrightarrow> tests_inv me st"
proof (induction rule: ping_reach.induct)
  case init
  show ?case by (simp add: tests_inv_def ctcping_init_def)
qed (rule tests_inv_step)

subsection \<open>A test is concluded at most once\<close>

fun concludes :: "string \<Rightarrow> ping_log \<Rightarrow> bool" where
  "concludes tid (Summary tid' n k l) = (tid' = tid)"
| "concludes tid (DeadlineNotice tid') = (tid' = tid)"
| "concludes tid _ = False"

definition conclusions :: "string \<Rightarrow> ping_state \<Rightarrow> nat" where
  "conclusions tid st = length (filter (concludes tid) (cp_log st))"

definition running :: "string \<Rightarrow> ping_state \<Rightarrow> bool" where
  "running tid st \<longleftrightarrow> (\<exists>t. map_of (cp_tests st) tid = Some t \<and> pt_status t = PRunning)"

definition once_inv :: "ping_state \<Rightarrow> bool" where
  "once_inv st \<longleftrightarrow> (\<forall>tid. conclusions tid st \<le> 1 \<and> (running tid st \<longrightarrow> conclusions tid st = 0) \<and>
     (tid \<notin> cp_used st \<longrightarrow> conclusions tid st = 0))"

text \<open>Steps that conclude nothing and revive nothing.\<close>

definition quiet :: "ping_state \<Rightarrow> ping_state \<Rightarrow> bool" where
  "quiet st st' \<longleftrightarrow> cp_used st' = cp_used st \<and>
     (\<forall>tid. conclusions tid st' = conclusions tid st \<and> (running tid st' \<longrightarrow> running tid st))"

lemma quiet_refl [simp]: "quiet st st"
  by (simp add: quiet_def)

lemma quiet_trans: "quiet st st' \<Longrightarrow> quiet st' st'' \<Longrightarrow> quiet st st''"
  by (auto simp: quiet_def)

lemma once_quiet: "once_inv st \<Longrightarrow> quiet st st' \<Longrightarrow> once_inv st'"
  by (simp add: once_inv_def quiet_def)

lemma running_simps [simp]:
  "running tid (emit ls st) = running tid st" "running tid (spawn k st) = running tid st"
  "running tid (drop_active m st) = running tid st"
  "running tid (st\<lparr>cp_active := a\<rparr>) = running tid st" "running tid (st\<lparr>cp_tasks := ks\<rparr>) = running tid st"
  "running tid (st\<lparr>cp_completing := c\<rparr>) = running tid st"
  by (simp_all add: running_def)

lemma conclusions_simps [simp]:
  "conclusions tid (emit ls st) = conclusions tid st + length (filter (concludes tid) ls)"
  "conclusions tid (spawn k st) = conclusions tid st"
  "conclusions tid (drop_active m st) = conclusions tid st"
  "conclusions tid (st\<lparr>cp_active := a\<rparr>) = conclusions tid st"
  "conclusions tid (st\<lparr>cp_tasks := ks\<rparr>) = conclusions tid st"
  "conclusions tid (st\<lparr>cp_completing := c\<rparr>) = conclusions tid st"
  "conclusions tid (st\<lparr>cp_tests := ts\<rparr>) = conclusions tid st"
  "conclusions tid (st\<lparr>cp_used := u\<rparr>) = conclusions tid st"
  by (simp_all add: conclusions_def)

lemma running_put:
  "running tid' (st\<lparr>cp_tests := AList.update tid t (cp_tests st)\<rparr>) \<longleftrightarrow>
     (if tid' = tid then pt_status t = PRunning else running tid' st)"
  "running tid' (st\<lparr>cp_active := a, cp_tests := AList.update tid t (cp_tests st)\<rparr>) \<longleftrightarrow>
     (if tid' = tid then pt_status t = PRunning else running tid' st)"
  by (auto simp: running_def)

lemma quiet_record: "quiet st (record_ping_result tid r st)"
  by (auto simp: record_ping_result_def Let_def quiet_def running_put split: option.split)
    (auto simp: running_def)

lemma quiet_echo: "quiet st (handle_echo_message me m now st)"
  by (auto simp: handle_echo_message_def Let_def quiet_def split: option.split)

lemma quiet_ack: "quiet st (handle_ack_message me m now st)"
proof (cases "msg_fields m")
  case (Some f)
  obtain src dst msg where f: "f = (src, dst, msg)" by (cases f)
  show ?thesis
  proof (cases "ack_id_match msg")
    case ack: (Some ack_id)
    show ?thesis
    proof (cases "map_of (cp_active st) ack_id")
      case p: (Some p)
      show ?thesis
      proof (cases "ap_test_id p")
        case tid: (Some tid)
        show ?thesis
        proof (cases "map_of (cp_tests st) tid")
          case (Some t)
          then have "pt_status t = PRunning \<Longrightarrow> running tid st" by (simp add: running_def)
          with Some show ?thesis
            by (auto simp: handle_ack_message_def \<open>msg_fields m = Some f\<close> f ack p tid Let_def quiet_def running_put)
        qed (simp add: handle_ack_message_def Some f ack p tid Let_def quiet_def)
      qed (simp add: handle_ack_message_def Some f ack p Let_def quiet_def)
    qed (simp add: handle_ack_message_def Some f ack)
  qed (simp add: handle_ack_message_def Some f)
qed (simp add: handle_ack_message_def)

lemma quiet_drop: "quiet st (drop_active mid st)"
  by (simp add: quiet_def)

lemma quiet_timeout: "quiet st (ping_timeout_task mid st)"
proof (cases "map_of (cp_active st) mid")
  case (Some p)
  have q: "quiet st (drop_active mid (record_ping_result tid r st))" for tid r
    using quiet_record quiet_drop by (rule quiet_trans)
  have n: "quiet st st' \<Longrightarrow> quiet st (emit [PingTimeoutNotice a b c] st')" for st' a b c
    by (simp add: quiet_def)
  show ?thesis
    by (cases "ap_test_id p") (simp_all add: ping_timeout_task_def Some Let_def quiet_drop q n)
qed (simp add: ping_timeout_task_def)

lemma quiet_put:
  "map_of (cp_tests st) tid = Some t \<Longrightarrow> pt_status t' = pt_status t \<Longrightarrow>
   quiet st (st\<lparr>cp_tests := AList.update tid t' (cp_tests st)\<rparr>)"
  by (auto simp: quiet_def running_put) (auto simp: running_def)

lemma quiet_publish:
  "quiet st (spawn k st') = quiet st st'" "quiet st (emit [ProbeSent a b] st') = quiet st st'"
  by (simp_all add: quiet_def)

lemma quiet_driver: "quiet st (driver_step tid k now st)"
proof (cases "map_of (cp_tests st) tid")
  case (Some t)
  show ?thesis
    unfolding driver_step_def Some option.case Let_def
    by (simp add: quiet_publish quiet_put[OF Some])
qed (simp add: driver_step_def quiet_publish)

lemma once_complete:
  assumes "once_inv st" "map_of (cp_tests st) tid = Some t" "pt_status t = PRunning" "s \<noteq> PRunning"
    and "concludes tid l" "\<And>tid'. concludes tid' l \<Longrightarrow> tid' = tid" "tid \<in> cp_used st"
    and "cp_log st' = cp_log st @ [l]" "cp_used st' = cp_used st"
    and "cp_tests st' = AList.update tid (t\<lparr>pt_status := s\<rparr>) (cp_tests st)"
  shows "once_inv st'"
proof -
  have r: "running tid st" using assms(2,3) by (simp add: running_def)
  have r': "running tid' st' \<longleftrightarrow> tid' \<noteq> tid \<and> running tid' st" for tid'
    using assms(4,10) by (auto simp: running_def)
  have "concludes tid' l \<longleftrightarrow> tid' = tid" for tid' using assms(5,6) by blast
  then have c: "conclusions tid' st' = conclusions tid' st + (if tid' = tid then 1 else 0)" for tid'
    by (simp add: conclusions_def assms(8))
  have "conclusions tid st = 0" using assms(1) r by (auto simp: once_inv_def split: if_splits)
  with assms(1,7,9) show ?thesis by (auto simp: once_inv_def r' c)
qed

lemma once_task:
  assumes i: "once_inv st" and ti: "tests_inv me st"
  shows "once_inv (run_task task now st)"
proof (cases task)
  case (CompleteTask tid)
  show ?thesis
  proof (cases "map_of (cp_tests st) tid")
    case (Some t)
    from tests_inv_lookup[OF ti Some] have u: "tid \<in> cp_used st" by simp
    show ?thesis
    proof (cases "pt_status t = PRunning")
      case True
      show ?thesis
        by (rule once_complete[OF i Some True _ _ _ u, of PCompleted "Summary tid (pt_total t) (pt_completed t) (loss_percent t)"])
          (auto simp: run_task_def CompleteTask complete_test_def Some True)
    qed (use i in \<open>auto intro: once_quiet simp: run_task_def CompleteTask complete_test_def Some quiet_def\<close>)
  qed (use i in \<open>auto intro: once_quiet simp: run_task_def CompleteTask complete_test_def quiet_def\<close>)
next
  case (MonitorTask tid)
  show ?thesis
  proof (cases "map_of (cp_tests st) tid")
    case (Some t)
    from tests_inv_lookup[OF ti Some] have u: "tid \<in> cp_used st" by simp
    show ?thesis
    proof (cases "pt_status t = PRunning")
      case True
      show ?thesis
        by (rule once_complete[OF i Some True _ _ _ u, of PTimeout "DeadlineNotice tid"])
          (auto simp: run_task_def MonitorTask monitor_test_def Some True)
    qed (use i in \<open>auto simp: run_task_def MonitorTask monitor_test_def Some\<close>)
  qed (use i in \<open>auto simp: run_task_def MonitorTask monitor_test_def\<close>)
next
  case (DeleteTest tid fin)
  have "quiet st (delete_test tid fin st)" by (auto simp: delete_test_def quiet_def running_def conclusions_def)
  with i show ?thesis by (simp add: run_task_def DeleteTest once_quiet)
next
  case (AckRecord mid tid r)
  have "quiet st (drop_active mid (record_ping_result tid r st))"
    using quiet_record quiet_drop quiet_trans by blast
  with i show ?thesis by (simp add: run_task_def AckRecord once_quiet)
qed (use i in \<open>simp_all add: run_task_def once_quiet[OF _ quiet_timeout] once_quiet[OF _ quiet_driver]\<close>)

lemma once_command:
  assumes "once_inv st" "tid \<notin> cp_used st"
  shows "once_inv (snd (handle_ctcping me blocked kw req tid st))"
proof -
  have "once_inv (spawn k (st\<lparr>cp_tests := AList.update tid t (cp_tests st), cp_used := insert tid (cp_used st)\<rparr>))"
    for k t
  proof -
    let ?s = "spawn k (st\<lparr>cp_tests := AList.update tid t (cp_tests st), cp_used := insert tid (cp_used st)\<rparr>)"
    have "conclusions tid st = 0" using assms by (auto simp: once_inv_def)
    moreover have "running tid' ?s \<longrightarrow> tid' = tid \<or> running tid' st" for tid' by (auto simp: running_def)
    moreover have "conclusions tid' ?s = conclusions tid' st" for tid' by (simp add: conclusions_def)
    ultimately show ?thesis
      using assms(1) by (auto simp: once_inv_def)
  qed
  then show ?thesis using assms(1) by (simp add: handle_ctcping_def Let_def split: sum.split)
qed

lemma once_step: "once_inv st \<Longrightarrow> tests_inv me st \<Longrightarrow> once_inv (ping_step me blocked ev st)"
proof (cases ev)
  case (PRun n now)
  assume a: "once_inv st" "tests_inv me st"
  then have "once_inv (st\<lparr>cp_tasks := ks\<rparr>)" "tests_inv me (st\<lparr>cp_tasks := ks\<rparr>)" for ks
    by (auto intro: once_quiet simp: quiet_def)
  with a show ?thesis by (simp add: ping_step_def PRun once_task)
next
  case PStop
  assume "once_inv st"
  then show ?thesis
    by (rule once_quiet) (auto simp: ping_step_def PStop stop_ctcping_def quiet_def running_def conclusions_def)
qed (simp_all add: ping_step_def once_command once_quiet[OF _ quiet_echo] once_quiet[OF _ quiet_ack])

lemma ping_reach_once: "ping_reach me blocked st \<Longrightarrow> once_inv st"
proof (induction rule: ping_reach.induct)
  case init
  show ?case by (simp add: once_inv_def ctcping_init_def conclusions_def)
next
  case (step st ev)
  then show ?case using once_step[OF step.IH ping_reach_tests[OF step.hyps]] by simp
qed

subsection \<open>No ping is counted twice\<close>

definition unprocessed :: "(string, active_ping) dict \<Rightarrow> nat" where
  "unprocessed d = length (filter (\<lambda>(m, p). \<not> ap_ack_processed p) d)"

fun is_ack_record :: "ping_task \<Rightarrow> bool" where
  "is_ack_record (AckRecord m t r) = True"
| "is_ack_record _ = False"

fun is_tracked :: "ping_log \<Rightarrow> bool" where
  "is_tracked (Tracked m) = True"
| "is_tracked _ = False"

fun is_recorded :: "ping_log \<Rightarrow> bool" where
  "is_recorded (Recorded t) = True"
| "is_recorded _ = False"

text \<open>The results recorded so far, and those that may still be.\<close>

definition outcome_count :: "ping_state \<Rightarrow> nat" where
  "outcome_count st = length (filter is_recorded (cp_log st)) + unprocessed (cp_active st) +
     length (filter is_ack_record (cp_tasks st))"

definition tracked_count :: "ping_state \<Rightarrow> nat" where
  "tracked_count st = length (filter is_tracked (cp_log st))"

definition count_inv :: "ping_state \<Rightarrow> bool" where
  "count_inv st \<longleftrightarrow> distinct (map fst (cp_active st)) \<and> outcome_count st \<le> tracked_count st"

lemma unprocessed_new: "\<not> in_dict k d \<Longrightarrow> unprocessed (AList.update k v d) = unprocessed d + (if ap_ack_processed v then 0 else 1)"
  by (induction d) (auto simp: unprocessed_def in_dict_def split: if_splits)

lemma unprocessed_mark:
  "map_of d k = Some p \<Longrightarrow> \<not> ap_ack_processed p \<Longrightarrow> distinct (map fst d) \<Longrightarrow>
   Suc (unprocessed (AList.update k (p\<lparr>ap_ack_processed := True\<rparr>) d)) = unprocessed d"
  by (induction d) (auto simp: unprocessed_def split: if_splits)

lemma unprocessed_delete_le: "unprocessed (AList.delete k d) \<le> unprocessed d"
  by (induction d) (auto simp: unprocessed_def)

lemma unprocessed_delete:
  "map_of d k = Some p \<Longrightarrow> \<not> ap_ack_processed p \<Longrightarrow> Suc (unprocessed (AList.delete k d)) \<le> unprocessed d"
proof (induction d)
  case (Cons e d)
  then show ?case using unprocessed_delete_le[of k d] by (cases e) (auto simp: unprocessed_def split: if_splits)
qed simp

text \<open>How one operation moves the three counters.\<close>

definition moves :: "ping_state \<Rightarrow> ping_state \<Rightarrow> bool" where
  "moves st st' \<longleftrightarrow> (distinct (map fst (cp_active st)) \<longrightarrow> distinct (map fst (cp_active st')) \<and>
     outcome_count st' + tracked_count st \<le> outcome_count st + tracked_count st')"

lemma count_moves: "count_inv st \<Longrightarrow> moves st st' \<Longrightarrow> count_inv st'"
  by (auto simp: count_inv_def moves_def)

lemma moves_refl [simp]: "moves st st"
  by (simp add: moves_def)

lemma record_counts:
  "outcome_count (record_ping_result tid r st) \<le> Suc (outcome_count st) \<and>
   tracked_count (record_ping_result tid r st) = tracked_count st \<and>
   cp_active (record_ping_result tid r st) = cp_active st"
  by (auto simp: record_ping_result_def Let_def outcome_count_def tracked_count_def split: option.split)

lemma drop_counts:
  "outcome_count (drop_active m st) \<le> outcome_count st" "tracked_count (drop_active m st) = tracked_count st"
  using unprocessed_delete_le[of m "cp_active st"] by (simp_all add: outcome_count_def tracked_count_def)

lemma moves_echo: "moves st (handle_echo_message me m now st)"
  by (auto simp: handle_echo_message_def Let_def moves_def outcome_count_def tracked_count_def
      unprocessed_new distinct_update split: option.split)

lemma moves_ack: "moves st (handle_ack_message me m now st)"
proof (cases "msg_fields m")
  case (Some f)
  obtain src dst msg where f: "f = (src, dst, msg)" by (cases f)
  show ?thesis
  proof (cases "ack_id_match msg")
    case ack: (Some ack_id)
    show ?thesis
    proof (cases "map_of (cp_active st) ack_id")
      case p: (Some p)
      let ?st1 = "st\<lparr>cp_active := AList.update ack_id (p\<lparr>ap_ack_processed := True\<rparr>) (cp_active st)\<rparr>"
      show ?thesis
      proof (cases "ap_ack_processed p")
        case np: False
        have one: "distinct (map fst (cp_active st)) \<Longrightarrow>
          Suc (outcome_count ?st1) = outcome_count st \<and> tracked_count ?st1 = tracked_count st \<and>
          distinct (map fst (cp_active ?st1))"
          using unprocessed_mark[OF p np] by (simp add: outcome_count_def tracked_count_def distinct_update)
        have drop: "moves st (drop_active ack_id ?st1)"
          using one drop_counts[of ack_id ?st1] by (auto simp: moves_def distinct_delete)
        have rec: "moves st (spawn (AckRecord ack_id tid r) (emit [PingReply a b c d] (?st1\<lparr>cp_tests := ts\<rparr>)))"
          for tid r a b c d ts
          using one by (simp add: moves_def outcome_count_def tracked_count_def)
        show ?thesis
          using drop rec np
          by (auto simp: handle_ack_message_def Some f ack p Let_def split: option.split)
      qed (simp add: handle_ack_message_def Some f ack p)
    qed (simp add: handle_ack_message_def Some f ack)
  qed (simp add: handle_ack_message_def Some f)
qed (simp add: handle_ack_message_def)

lemma moves_timeout: "moves st (ping_timeout_task mid st)"
proof (cases "map_of (cp_active st) mid")
  case (Some p)
  show ?thesis
  proof (cases "ap_ack_processed p")
    case False
    note d = unprocessed_delete[OF Some False]
    have s: "moves st (drop_active mid st)"
      using d by (simp add: moves_def outcome_count_def tracked_count_def distinct_delete)
    have r: "moves st (drop_active mid (record_ping_result tid r st))" for tid r
      using d record_counts[of tid r st]
      by (auto simp: moves_def outcome_count_def tracked_count_def distinct_delete)
    have n: "moves st st' \<Longrightarrow> moves st (emit [PingTimeoutNotice a b c] st')" for st' a b c
      by (simp add: moves_def outcome_count_def tracked_count_def)
    show ?thesis
      by (cases "ap_test_id p") (simp_all add: ping_timeout_task_def Some False Let_def s r n)
  qed (simp add: ping_timeout_task_def Some)
qed (simp add: ping_timeout_task_def)

lemma moves_same:
  "cp_active st' = cp_active st \<Longrightarrow> filter is_ack_record (cp_tasks st') = filter is_ack_record (cp_tasks st) \<Longrightarrow>
   filter is_recorded (cp_log st') = filter is_recorded (cp_log st) \<Longrightarrow>
   filter is_tracked (cp_log st') = filter is_tracked (cp_log st) \<Longrightarrow> moves st st'"
  by (simp add: moves_def outcome_count_def tracked_count_def)

lemma filter_ack_record:
  "filter (\<lambda>k. k \<noteq> MonitorTask tid \<and> is_ack_record k) ks = filter is_ack_record ks"
  by (induction ks) auto

lemma moves_task:
  "moves (st\<lparr>cp_tasks := task # ks\<rparr>) (run_task task now (st\<lparr>cp_tasks := ks\<rparr>))"
proof (cases task)
  case (TimeoutTask mid)
  have "moves (st\<lparr>cp_tasks := task # ks\<rparr>) (st\<lparr>cp_tasks := ks\<rparr>)"
    by (rule moves_same) (simp_all add: TimeoutTask)
  with moves_timeout[of "st\<lparr>cp_tasks := ks\<rparr>" mid] show ?thesis
    by (auto simp: run_task_def TimeoutTask moves_def)
next
  case (AckRecord mid tid r)
  let ?s = "st\<lparr>cp_tasks := ks\<rparr>"
  have "outcome_count (st\<lparr>cp_tasks := task # ks\<rparr>) = Suc (outcome_count ?s)"
    "tracked_count (st\<lparr>cp_tasks := task # ks\<rparr>) = tracked_count ?s"
    by (simp_all add: outcome_count_def tracked_count_def AckRecord)
  with record_counts[of tid r ?s] drop_counts[of mid "record_ping_result tid r ?s"] show ?thesis
    by (auto simp: run_task_def AckRecord moves_def distinct_delete)
qed (auto simp: run_task_def complete_test_def delete_test_def driver_step_def monitor_test_def Let_def
      filter_ack_record intro!: moves_same split: option.split)

lemma moves_pick:
  "n < length ks \<Longrightarrow> moves (st\<lparr>cp_tasks := ks\<rparr>) (st\<lparr>cp_tasks := ks ! n # take n ks @ drop (Suc n) ks\<rparr>)"
proof -
  assume n: "n < length ks"
  have "ks = take n ks @ ks ! n # drop (Suc n) ks" using n by (rule id_take_nth_drop)
  then have "length (filter is_ack_record ks) =
      length (filter is_ack_record (take n ks @ ks ! n # drop (Suc n) ks))" by simp
  then have "length (filter is_ack_record ks) =
      length (filter is_ack_record (ks ! n # take n ks @ drop (Suc n) ks))"
    by (simp only: filter.simps filter_append length_append split: if_split) simp
  then show ?thesis by (simp add: moves_def outcome_count_def tracked_count_def)
qed

lemma count_step: "count_inv st \<Longrightarrow> count_inv (ping_step me blocked ev st)"
proof (cases ev)
  case (PRun n now)
  assume i: "count_inv st"
  show ?thesis
  proof (cases "n < length (cp_tasks st)")
    case True
    let ?ks = "take n (cp_tasks st) @ drop (Suc n) (cp_tasks st)"
    have "count_inv (st\<lparr>cp_tasks := cp_tasks st ! n # ?ks\<rparr>)"
      using count_moves[OF i, of "st\<lparr>cp_tasks := cp_tasks st ! n # ?ks\<rparr>"] moves_pick[OF True, of st] by simp
    then have "count_inv (run_task (cp_tasks st ! n) now (st\<lparr>cp_tasks := ?ks\<rparr>))"
      using moves_task by (rule count_moves)
    with True show ?thesis by (simp add: ping_step_def PRun)
  qed (use i in \<open>simp add: ping_step_def PRun\<close>)
next
  case (PCommand kw requester tid)
  assume i: "count_inv st"
  have "moves st (snd (handle_ctcping me blocked kw requester tid st))"
    by (auto simp: handle_ctcping_def Let_def intro!: moves_same split: sum.split)
  with i show ?thesis by (auto simp: ping_step_def PCommand intro: count_moves)
next
  case PStop
  assume "count_inv st"
  then show ?thesis
    by (auto simp: ping_step_def PStop stop_ctcping_def count_inv_def outcome_count_def tracked_count_def unprocessed_def)
qed (auto simp: ping_step_def intro: count_moves moves_echo moves_ack)

lemma ping_reach_count: "ping_reach me blocked st \<Longrightarrow> count_inv st"
proof (induction rule: ping_reach.induct)
  case init
  show ?case by (simp add: count_inv_def ctcping_init_def outcome_count_def unprocessed_def)
qed (rule count_step)

section \<open>Probes are recognised\<close>

lemma small_cases: "1 \<le> (n :: nat) \<Longrightarrow> n \<le> 5 \<Longrightarrow> n \<in> {1, 2, 3, 4, 5}"
  by auto

lemma lower_append: "lower (s @ t) = lower s @ lower t"
  by (simp add: lower_def)

lemma nat_str_digit: "n \<in> {1, 2, 3, 4, 5} \<Longrightarrow> \<exists>d. nat_str n = [d] \<and> ascii_digit d \<and> lower [d] = [d]"
  by (auto simp: nat_str_small digit_char_eval char_class_defs lower_def lower_char_def)

text \<open>Whatever the payload size, the probe keeps its first twenty characters and its length.\<close>

lemma probe_text_shape:
  assumes "i \<in> {1, 2, 3, 4, 5}" "n \<in> {1, 2, 3, 4, 5}" "25 \<le> p"
  shows "length (probe_text i n p) = p \<and>
    (\<exists>rest. probe_text i n p = ''[CTC] Ping test '' @ nat_str i @ ''/'' @ nat_str n @ CHR '' '' # rest)"
proof -
  obtain d e where d: "nat_str i = [d]" "nat_str n = [e]"
    using nat_str_digit[OF assms(1)] nat_str_digit[OF assms(2)] by auto
  let ?pre = "''[CTC] Ping test '' @ [d] @ ''/'' @ [e]" and ?t = "''to measure roundtrip''"
  have l: "length ?pre = 19" "length (?pre @ CHR '' '' # ?t) = 40" by simp_all
  have base: "probe_text i n p = (if p < 40 then take p (?pre @ CHR '' '' # ?t)
      else (?pre @ CHR '' '' # ?t) @ replicate (p - 40) (CHR ''.''))"
    using l(2) by (simp only: probe_text_def d Let_def append.assoc append_Cons append_Nil)
  show ?thesis
  proof (cases "p < 40")
    case True
    have "p - 19 = Suc (p - 20)" using assms(3) by simp
    then have "take p (?pre @ CHR '' '' # ?t) = ?pre @ CHR '' '' # take (p - 20) ?t"
      by (simp only: take_append l(1) take_Suc_Cons) simp
    with True base have e: "probe_text i n p = ?pre @ CHR '' '' # take (p - 20) ?t" by presburger
    have "length (take (p - 20) ?t) = p - 20" using True by simp
    with e assms(3) have "length (probe_text i n p) = p" by simp
    with e d show ?thesis by auto
  next
    case False
    with base d show ?thesis by simp
  qed
qed

lemma seq_search_probe:
  assumes "ascii_digit d" "ascii_digit e" "\<not> ascii_digit c"
  shows "seq_search (''[ctc] ping test '' @ [d] @ ''/'' @ [e] @ c # rest) = Some ([d], [e])"
  using assms by (simp add: seq_at_def char_class_defs)

section \<open>Properties\<close>

text \<open>C11: every probe is recognised when it comes back. For each probe of a test (number \<open>i\<close> of \<open>n\<close>, payload
  25 to 140 characters) the text has exactly the payload length, and the node's echo of it, with any
  three-digit id, is taken for a ping echo of sequence \<open>i/n\<close> with that id, however short it was cut.
\<close>

theorem probe_echo_recognised:
  assumes "1 \<le> i" "i \<le> n" "n \<le> 5" "25 \<le> p" "length ds = 3" "list_all ascii_digit ds"
  shows "length (probe_text i n p) = p \<and>
    is_echo_message (JStr (probe_text i n p @ CHR ''{'' # ds)) = Inr True \<and>
    match_ack_suffix (probe_text i n p @ CHR ''{'' # ds) = Some (probe_text i n p, ds, []) \<and>
    is_ping_message (probe_text i n p) \<and>
    extract_sequence_info (probe_text i n p) = Some (nat_str i @ ''/'' @ nat_str n)"
proof -
  have i: "i \<in> {1, 2, 3, 4, 5}" "n \<in> {1, 2, 3, 4, 5}" using assms by (intro small_cases; simp)+
  obtain rest where r: "probe_text i n p = ''[CTC] Ping test '' @ nat_str i @ ''/'' @ nat_str n @ CHR '' '' # rest"
    and l: "length (probe_text i n p) = p"
    using probe_text_shape[OF i assms(4)] by blast
  obtain d e where d: "nat_str i = [d]" "ascii_digit d" "lower [d] = [d]"
    "nat_str n = [e]" "ascii_digit e" "lower [e] = [e]"
    using nat_str_digit[OF i(1)] nat_str_digit[OF i(2)] by auto
  have m: "match_ack_suffix (probe_text i n p @ CHR ''{'' # ds) = Some (probe_text i n p, ds, [])"
    unfolding match_ack_suffix_def using assms(5,6) by (intro ack_suffix_match_complete) auto
  have low: "lower (probe_text i n p) = ''[ctc] ping test '' @ [d] @ ''/'' @ [e] @ CHR '' '' # lower rest"
  proof -
    have "lower ''[CTC] Ping test '' = ''[ctc] ping test ''" "lower ''/'' = ''/''" "lower '' '' = '' ''" by code_simp+
    moreover have "CHR '' '' # rest = '' '' @ rest" by simp
    ultimately show ?thesis using d by (simp only: r lower_append) simp
  qed
  have s: "seq_search (lower (probe_text i n p)) = Some ([d], [e])"
    unfolding low by (rule seq_search_probe) (use d in \<open>simp_all add: char_class_defs\<close>)
  have c: "contains (probe_text i n p @ CHR ''{'' # ds) ''[CTC]''"
    by (simp add: r contains_iff) (metis append_Cons append_Nil)
  show ?thesis
    using l m s c d by (simp add: is_echo_message_def is_ping_message_def extract_sequence_info_def r)
qed

theorem probe_echo_recognised_witness:
  "extract_sequence_info (probe_text 2 3 25) = Some ''2/3'' \<and> is_echo_message (JStr (probe_text 2 3 25 @ ''{087'')) = Inr True"
  using probe_echo_recognised[of 2 3 25 "''087''"]
  by (simp add: char_class_defs nat_str_small digit_char_eval)

text \<open>The books of a ping test balance. In every reachable state each test is against a valid callsign
  other than the node's own, with one to five probes of 25 to 140 characters; it never reports more
  answers or more losses than probes, nor more outcomes than results, so the loss is at most 100 %.
\<close>

theorem ping_test_accounts:
  assumes "ping_reach me blocked st" "map_of (cp_tests st) tid = Some t"
  shows "callsign_strict (pt_target t) \<and> pt_target t \<noteq> me \<and> 1 \<le> pt_total t \<and> pt_total t \<le> 5 \<and>
    25 \<le> pt_payload t \<and> pt_payload t \<le> 140 \<and> pt_completed t \<le> pt_total t \<and> pt_timeouts t \<le> pt_total t \<and>
    pt_completed t + pt_timeouts t \<le> length (pt_results t) \<and> loss_percent t \<le> 100"
proof -
  have ok: "test_ok me (cp_used st) (tid, t)"
    using tests_inv_lookup[OF ping_reach_tests[OF assms(1)] assms(2)] .
  then have "loss_percent t \<le> pt_total t * 100 div pt_total t"
    unfolding loss_percent_def by (intro div_le_mono) simp
  with ok show ?thesis by simp
qed

definition demo_pings :: "ping_event list \<Rightarrow> ping_state" where
  "demo_pings evs = fold (ping_step ''DK5EN-1'' {}) evs ctcping_init"

definition demo_ping_events :: "ping_event list" where
  "demo_ping_events =
     [PCommand [(''call'', PStr ''OE1ABC-1''), (''repeat'', PInt 1)] ''DK5EN-1'' ''t1'',
      PRun 0 10,
      PEcho [(''src'', JStr ''DK5EN-1''), (''dst'', JStr ''OE1ABC-1''), (''msg'', JStr ''[CTC] Ping test 1/1 to me{087'')] 11,
      PAck [(''src'', JStr ''OE1ABC-1,DB0X''), (''dst'', JStr ''DK5EN-1''), (''msg'', JStr ''DK5EN-1  :ack087'')] 15,
      PRun 2 15]"

lemma demo_pings_reach: "ping_reach ''DK5EN-1'' {} (demo_pings evs)"
proof -
  have "ping_reach me blocked st \<Longrightarrow> ping_reach me blocked (fold (ping_step me blocked) evs st)" for me blocked st
    by (induction evs arbitrary: st) (auto intro: ping_reach.step)
  then show ?thesis unfolding demo_pings_def using ping_reach.init by blast
qed

theorem ping_test_accounts_witness:
  "\<exists>t. map_of (cp_tests (demo_pings demo_ping_events)) ''t1'' = Some t \<and>
    pt_results t = [(''1/1'', Some 5)] \<and> loss_percent t \<le> 100"
proof -
  let ?t = "the (map_of (cp_tests (demo_pings demo_ping_events)) ''t1'')"
  have "in_dict ''t1'' (cp_tests (demo_pings demo_ping_events))" by code_simp
  then have t: "map_of (cp_tests (demo_pings demo_ping_events)) ''t1'' = Some ?t" by (auto simp: in_dict_def)
  have "pt_results ?t = [(''1/1'', Some 5)]" by code_simp
  with t ping_test_accounts[OF demo_pings_reach t] show ?thesis by blast
qed

text \<open>A ping test is concluded once. Whatever the order in which acknowledgements, timeouts, the
  completion task and the deadline run, at most one summary or deadline notice is published for a
  test, and none while it is still running; and over all tests no more results are recorded than
  probes were echoed: an acknowledgement and a timeout never both count for one probe.
\<close>

theorem ping_test_concluded_once:
  assumes "ping_reach me blocked st"
  shows "length (filter (concludes tid) (cp_log st)) \<le> (if running tid st then 0 else 1) \<and>
    length (filter is_recorded (cp_log st)) \<le> length (filter is_tracked (cp_log st))"
  using ping_reach_once[OF assms] ping_reach_count[OF assms]
  by (auto simp: once_inv_def conclusions_def count_inv_def outcome_count_def tracked_count_def)

theorem ping_test_concluded_once_witness:
  "filter (concludes ''t1'') (cp_log (demo_pings (demo_ping_events @ [PRun 2 15]))) = [Summary ''t1'' 1 1 0] \<and>
   length (filter is_recorded (cp_log (demo_pings (demo_ping_events @ [PRun 2 15])))) \<le>
   length (filter is_tracked (cp_log (demo_pings (demo_ping_events @ [PRun 2 15]))))"
proof
  show "filter (concludes ''t1'') (cp_log (demo_pings (demo_ping_events @ [PRun 2 15]))) = [Summary ''t1'' 1 1 0]"
    by code_simp
qed (use ping_test_concluded_once[OF demo_pings_reach] in blast)

section \<open>Findings\<close>

text \<open>
  Two tests against one target share the attribution by target: the echo of the second test's probe
  is credited to the first test, which then completes, and the second can only end at its deadline.
\<close>

theorem concurrent_tests_misattributed:
  "let st = demo_pings [
       PCommand [(''call'', PStr ''OE1ABC-1'')] ''OE3AAA-1'' ''t1'',
       PCommand [(''call'', PStr ''OE1ABC-1'')] ''OE3BBB-1'' ''t2'',
       PEcho [(''src'', JStr ''DK5EN-1''), (''dst'', JStr ''OE1ABC-1''), (''msg'', JStr ''[CTC] Ping test 1/1 to me{087'')] 11,
       PEcho [(''src'', JStr ''DK5EN-1''), (''dst'', JStr ''OE1ABC-1''), (''msg'', JStr ''[CTC] Ping test 1/1 to me{088'')] 12]
   in map (\<lambda>(m, p). ap_test_id p) (cp_active st) = [Some ''t1'', Some ''t1'']"
  by code_simp

text \<open>
  The timeout task of an acknowledged ping is not cancelled. When the firmware reuses the three-digit
  id within thirty seconds, the old task declares the new ping lost at once.
\<close>

theorem stale_timeout_hits_reused_id:
  "let probe = (\<lambda>s. [(''src'', JStr ''DK5EN-1''), (''dst'', JStr ''OE1ABC-1''), (''msg'', JStr s)]);
       st = demo_pings [
       PCommand [(''call'', PStr ''OE1ABC-1''), (''repeat'', PInt 2)] ''OE3AAA-1'' ''t1'',
       PEcho (probe ''[CTC] Ping test 1/2 to me{087'') 11,
       PAck [(''src'', JStr ''OE1ABC-1''), (''dst'', JStr ''DK5EN-1''), (''msg'', JStr '':ack087'')] 15,
       PRun 2 15,
       PEcho (probe ''[CTC] Ping test 2/2 to me{087'') 35,
       PRun 1 41]
   in map (\<lambda>(i, t). pt_results t) (cp_tests st) = [[(''1/2'', Some 4), (''2/2'', None)]]"
  by code_simp

end
