(* ===== verification/Routing.thy ===== *)
theory Routing
  imports Blocklist Dedup LinkSessions CtcPing
begin

text \<open>
  \<open>commands/routing.py\<close>: the handler of incoming messages, from the blocklist check to the decision
  to execute a command and where its reply goes, and the command dispatch. One clock reading per
  message. What a command handler answers is not part of this theory: the outcome names the command,
  its arguments and the target of the reply, and \<open>command_done\<close> is what follows its execution.
\<close>

section \<open>Operations\<close>

datatype target_type = TDirect | TGroup

definition target_type_of :: "string \<Rightarrow> target_type res" where
  "target_type_of dst = bind_res (is_group dst) (\<lambda>g. Inr (if g then TGroup else TDirect))"

definition should_execute_command :: "cmd_identity \<Rightarrow> string \<Rightarrow> string \<Rightarrow> string \<Rightarrow> target_type option res" where
  "should_execute_command h src0 dst0 msg0 =
     (let src = upper src0; dst = upper dst0; msg = upper msg0;
          target = extract_target_callsign msg;
          is_own = (src = my_callsign h);
          remote = (target \<noteq> None \<and> target \<noteq> Some (my_callsign h))
      in if dst \<in> {''*'', ''ALL'', []} then Inr (if is_own then Some TGroup else None)
         else if is_own then
           (if remote then Inr None else bind_res (target_type_of dst) (\<lambda>t. Inr (Some t)))
         else if dst = my_callsign h then Inr (if remote then None else Some TDirect)
         else bind_res (is_group dst) (\<lambda>g.
           if g then
             (if target \<noteq> Some (my_callsign h) then Inr None
              else if group_responses_enabled h \<or> is_admin h (Some src) then Inr (Some TGroup)
              else Inr None)
           else Inr None))"

definition resolve_response_target :: "cmd_identity \<Rightarrow> string \<Rightarrow> string \<Rightarrow> target_type \<Rightarrow> string" where
  "resolve_response_target h src dst tt =
     (case tt of TDirect \<Rightarrow> if src = my_callsign h then dst else src | TGroup \<Rightarrow> dst)"

record routing_state =
  rt_identity :: cmd_identity
  rt_blocklist :: blocklist
  rt_links :: link_state
  rt_pings :: ping_state
  rt_msg_ids :: msg_id_cache
  rt_throttle :: throttle_cache

datatype routed =
    Blocked
  | NoText
  | LinkHandled "link_output list"
  | EchoHandled
  | AckHandled
  | NotCommand
  | DuplicateId
  | OwnEcho
  | Denied
  | ThrottledReply string
  | UnknownCommand
  | Execute string kwargs string string     \<comment> \<open>command, arguments, content hash, reply target\<close>
  | FailedReply py_error string

text \<open>Python's keys: \<open>True\<close>, \<open>1\<close> and \<open>1.0\<close> are one key; lists and dictionaries are none.\<close>

definition hash_key :: "json \<Rightarrow> json res" where
  "hash_key v =
     (case v of
        JBool b \<Rightarrow> Inr (JInt (if b then 1 else 0))
      | JFloat r \<Rightarrow> Inr (if of_int \<lfloor>r\<rfloor> = r then JInt \<lfloor>r\<rfloor> else v)
      | JList xs \<Rightarrow> Inl TypeError
      | JObj kvs \<Rightarrow> Inl TypeError
      | _ \<Rightarrow> Inr v)"

text \<open>\<open>_parse_and_execute\<close> up to the execution.\<close>

definition parse_for_execution :: "string \<Rightarrow> string \<Rightarrow> string \<Rightarrow> routed" where
  "parse_for_execution msg_text content_hash response_target =
     (case parse_command msg_text of
        Inl e \<Rightarrow> FailedReply e response_target
      | Inr None \<Rightarrow> UnknownCommand
      | Inr (Some (cmd, kw)) \<Rightarrow> Execute cmd kw content_hash response_target)"

text \<open>After the duplicate check.\<close>

definition route_command :: "(string \<Rightarrow> string) \<Rightarrow> string \<Rightarrow> msgd \<Rightarrow> time \<Rightarrow> routing_state \<Rightarrow>
    (routed \<times> routing_state) res" where
  "route_command md5 source message_data now st =
     bind_res (normalize_unified message_data CtxCommand) (\<lambda>n.
     bind_res (str_of (dict_get n ''src'' JNull)) (\<lambda>src.
     bind_res (str_of (dict_get n ''dst'' JNull)) (\<lambda>dst.
     bind_res (str_of (dict_get n ''msg'' JNull)) (\<lambda>msg_text.
       let h = rt_identity st in
       if src = my_callsign h \<and> source = ''udp'' then Inr (OwnEcho, st)
       else bind_res (should_execute_command h src dst msg_text) (\<lambda>decision.
         case decision of
           None \<Rightarrow> Inr (Denied, st)
         | Some tt \<Rightarrow>
             let response_target = resolve_response_target h src dst tt;
                 content_hash = get_content_hash md5 src msg_text (Some dst);
                 (throttled, cache) = is_throttled content_hash now (rt_throttle st);
                 st' = st\<lparr>rt_throttle := cache\<rparr>
             in Inr (if throttled then (ThrottledReply response_target, st')
                     else (parse_for_execution msg_text content_hash response_target, st')))))))"

definition message_handler :: "(string \<Rightarrow> string) \<Rightarrow> string \<Rightarrow> msgd \<Rightarrow> int \<Rightarrow> time \<Rightarrow> routing_state \<Rightarrow>
    (routed \<times> routing_state) res" where
  "message_handler md5 source message_data now_ms now st =
     bind_res (blocklist_decision (Some (blocked_callsigns (rt_blocklist st))) message_data) (\<lambda>d.
       if d \<noteq> Pass then Inr (Blocked, st)
       else if \<not> in_dict ''msg'' message_data then Inr (NoText, st)
       else
         let msg = dict_get message_data ''msg'' (JStr []) in
         if is_link_check_payload msg then
           (let (links, outs) = handle_link_check_frame message_data now_ms (rt_links st)
            in Inr (LinkHandled outs, st\<lparr>rt_links := links\<rparr>))
         else bind_res (is_echo_message msg) (\<lambda>echo.
           if echo then Inr (EchoHandled, st\<lparr>rt_pings :=
               handle_echo_message (my_callsign (rt_identity st)) message_data now (rt_pings st)\<rparr>)
           else bind_res (is_ack_message msg) (\<lambda>ack.
             if ack then Inr (AckHandled, st\<lparr>rt_pings :=
                 handle_ack_message (my_callsign (rt_identity st)) message_data now (rt_pings st)\<rparr>)
             else bind_res (is_command msg) (\<lambda>command.
               if \<not> command then Inr (NotCommand, st)
               else
                 let msg_id = dict_get message_data ''msg_id'' JNull in
                 if \<not> truthy msg_id then route_command md5 source message_data now st
                 else bind_res (hash_key msg_id) (\<lambda>key.
                   let (dup, ids) = is_duplicate_msg_id key now (rt_msg_ids st) in
                   if dup then Inr (DuplicateId, st\<lparr>rt_msg_ids := ids\<rparr>)
                   else route_command md5 source message_data now
                          (st\<lparr>rt_msg_ids := mark_msg_id_processed key now ids\<rparr>))))))"

text \<open>After the handler of the command has returned.\<close>

definition command_done :: "string \<Rightarrow> string \<Rightarrow> time \<Rightarrow> routing_state \<Rightarrow> routing_state" where
  "command_done content_hash cmd now st =
     st\<lparr>rt_throttle := mark_content_processed content_hash (Some cmd) now (rt_throttle st)\<rparr>"

text \<open>The dispatch: which handler a command of the registry names.\<close>

definition handler_of :: "(string, string) dict" where
  "handler_of =
     [(''search'', ''handle_search''), (''s'', ''handle_search''), (''stats'', ''handle_stats''),
      (''mheard'', ''handle_mheard''), (''mh'', ''handle_mheard''), (''pos'', ''handle_position''),
      (''dice'', ''handle_dice''), (''time'', ''handle_time''), (''wx'', ''handle_weather''),
      (''weather'', ''handle_weather''), (''group'', ''handle_group_control''),
      (''userinfo'', ''handle_userinfo''), (''kb'', ''handle_kickban''), (''topic'', ''handle_topic''),
      (''ctcping'', ''handle_ctcping''), (''help'', ''handle_help'')]"

datatype 'a executed = UnknownName | NotImplemented string | HandlerResult 'a | HandlerError py_error

definition execute_command :: "(string \<Rightarrow> (kwargs \<Rightarrow> string \<Rightarrow> 'a res) option) \<Rightarrow> string \<Rightarrow> kwargs \<Rightarrow> string \<Rightarrow> 'a executed" where
  "execute_command handlers cmd kw requester =
     (case map_of handler_of cmd of
        None \<Rightarrow> UnknownName
      | Some name \<Rightarrow>
          (case handlers name of
             None \<Rightarrow> NotImplemented name
           | Some f \<Rightarrow> (case f kw requester of Inl e \<Rightarrow> HandlerError e | Inr r \<Rightarrow> HandlerResult r)))"

section \<open>Lemmas\<close>

text \<open>Who may run a command here, as a specification over normalised fields.\<close>

definition may_execute :: "cmd_identity \<Rightarrow> string \<Rightarrow> string \<Rightarrow> string \<Rightarrow> bool" where
  "may_execute h src dst msg \<longleftrightarrow>
     (let me = my_callsign h; target = extract_target_callsign msg; here = (target = None \<or> target = Some me) in
      if dst \<in> {''*'', ''ALL'', []} then src = me
      else if src = me then here
      else if dst = me then here
      else group_spec dst \<and> target = Some me \<and> (group_responses_enabled h \<or> is_admin h (Some src)))"

lemma target_type_bounded:
  "length dst \<le> int_max_str_digits \<Longrightarrow> target_type_of dst = Inr (if group_spec dst then TGroup else TDirect)"
  by (simp add: target_type_of_def is_group_bounded)

lemma should_execute_iff:
  assumes "upper src = src" "upper dst = dst" "length dst \<le> int_max_str_digits"
  shows "\<exists>r. should_execute_command h src dst msg = Inr r \<and> (r \<noteq> None \<longleftrightarrow> may_execute h src dst msg)"
  using assms
  by (auto simp: should_execute_command_def may_execute_def target_type_bounded Let_def extract_target_upper
      is_group_bounded)

lemma should_execute_sound:
  assumes "should_execute_command h src dst msg = Inr (Some tt)" "upper src = src" "upper dst = dst"
  shows "may_execute h src dst msg \<and>
    (if src = my_callsign h then True
     else resolve_response_target h src dst tt = (if dst = my_callsign h then src else dst) \<and>
       dst \<notin> {''*'', ''ALL'', []})"
  using assms
  by (auto simp: should_execute_command_def may_execute_def target_type_of_def Let_def extract_target_upper
      resolve_response_target_def dest: is_group_Inr split: if_splits)

lemma normalized_fields:
  assumes "normalize_unified m ctx = Inr n"
  obtains src dst msg where "map_of n ''src'' = Some (JStr src)" "upper src = src"
    "map_of n ''dst'' = Some (JStr dst)" "upper dst = dst" "map_of n ''msg'' = Some (JStr msg)"
  using assms by (auto simp: normalize_unified_def Let_def strip_relay_path_eq)

lemma route_command_Execute:
  assumes "route_command md5 source m now st = Inr (Execute cmd kw hash tgt, st')"
  obtains n src dst msg tt where "normalize_unified m CtxCommand = Inr n"
    "map_of n ''src'' = Some (JStr src)" "map_of n ''dst'' = Some (JStr dst)" "map_of n ''msg'' = Some (JStr msg)"
    "upper src = src" "upper dst = dst"
    "should_execute_command (rt_identity st) src dst msg = Inr (Some tt)"
    "parse_command msg = Inr (Some (cmd, kw))"
    "tgt = resolve_response_target (rt_identity st) src dst tt"
proof -
  from assms obtain n where n: "normalize_unified m CtxCommand = Inr n"
    by (auto simp: route_command_def)
  obtain src dst msg where f: "map_of n ''src'' = Some (JStr src)" "upper src = src"
    "map_of n ''dst'' = Some (JStr dst)" "upper dst = dst" "map_of n ''msg'' = Some (JStr msg)"
    using normalized_fields[OF n] by metis
  then have g: "dict_get n ''src'' JNull = JStr src" "dict_get n ''dst'' JNull = JStr dst"
    "dict_get n ''msg'' JNull = JStr msg" by (simp_all add: dict_get_def)
  from assms obtain d where d: "should_execute_command (rt_identity st) src dst msg = Inr d" "d \<noteq> None"
    by (auto simp: route_command_def n g Let_def split: if_splits option.splits)
  then obtain tt where tt: "should_execute_command (rt_identity st) src dst msg = Inr (Some tt)" by auto
  with assms have "parse_for_execution msg (get_content_hash md5 src msg (Some dst))
      (resolve_response_target (rt_identity st) src dst tt) = Execute cmd kw hash tgt"
    by (auto simp: route_command_def n g Let_def case_prod_beta split: if_splits)
  then have "parse_command msg = Inr (Some (cmd, kw))" "tgt = resolve_response_target (rt_identity st) src dst tt"
    by (auto simp: parse_for_execution_def split: option.splits sum.splits)
  note this tt
  with n f that show ?thesis by blast
qed

lemma message_handler_Execute:
  assumes "message_handler md5 source m now_ms now st = Inr (Execute cmd kw hash tgt, st')"
  shows "blocklist_decision (Some (blocked_callsigns (rt_blocklist st))) m = Inr Pass \<and>
    (\<exists>st1. rt_identity st1 = rt_identity st \<and>
       route_command md5 source m now st1 = Inr (Execute cmd kw hash tgt, st'))"
  using assms
  by (auto simp: message_handler_def Let_def case_prod_beta split: if_splits)
    (metis routing_state.select_convs(1) routing_state.surjective routing_state.update_convs(5))

section \<open>Properties\<close>

text \<open>C2: no command runs here unless its sender may run it. A command is executed only when its sender is
  not blocked and it is an own command meant for this node, or a direct message to the node that names
  no other target, or a group message that names the node while group responses are on or the sender
  is an administrator. The reply goes to the sender or the group; only the answer to an own command
  can be addressed to everyone.
\<close>

theorem execution_authorised:
  assumes "message_handler md5 source m now_ms now st = Inr (Execute cmd kw hash tgt, st')"
    and "map_of m ''src'' = Some (JStr src0)"
  shows "\<exists>src dst msg. src = strip_relay_path src0 \<and> src \<notin> blocked_callsigns (rt_blocklist st) \<and>
    map_of (projr (normalize_unified m CtxCommand)) ''dst'' = Some (JStr dst) \<and>
    map_of (projr (normalize_unified m CtxCommand)) ''msg'' = Some (JStr msg) \<and>
    parse_command msg = Inr (Some (cmd, kw)) \<and> may_execute (rt_identity st) src dst msg \<and>
    (if src = my_callsign (rt_identity st) then True
     else tgt = (if dst = my_callsign (rt_identity st) then src else dst) \<and> dst \<notin> {''*'', ''ALL'', []})"
proof -
  from message_handler_Execute[OF assms(1)] obtain st1 where
    b: "blocklist_decision (Some (blocked_callsigns (rt_blocklist st))) m = Inr Pass"
    and id: "rt_identity st1 = rt_identity st"
    and r: "route_command md5 source m now st1 = Inr (Execute cmd kw hash tgt, st')" by blast
  obtain n src dst msg tt where n: "normalize_unified m CtxCommand = Inr n"
    and f: "map_of n ''src'' = Some (JStr src)" "map_of n ''dst'' = Some (JStr dst)"
      "map_of n ''msg'' = Some (JStr msg)" "upper src = src" "upper dst = dst"
    and e: "should_execute_command (rt_identity st) src dst msg = Inr (Some tt)"
      "parse_command msg = Inr (Some (cmd, kw))" "tgt = resolve_response_target (rt_identity st) src dst tt"
    using route_command_Execute[OF r] id by metis
  have src: "src = strip_relay_path src0"
    using n f(1) assms(2) by (auto simp: normalize_unified_def Let_def dict_get_def)
  have "src \<notin> blocked_callsigns (rt_blocklist st)"
    using b assms(2) by (auto simp: src blocklist_decision_def or_empty_def dict_get_def Let_def
        is_callsign_blocked_def split: if_splits)
  with should_execute_sound[OF e(1) f(4,5)] n f e src show ?thesis by auto
qed

definition demo_routing :: routing_state where
  "demo_routing = \<lparr>rt_identity = command_handler_init ''DK5EN-1'' None, rt_blocklist = blocklist_init None,
     rt_links = link_init, rt_pings = ctcping_init, rt_msg_ids = [], rt_throttle = []\<rparr>"

theorem execution_authorised_witness:
  "\<exists>hash st'. message_handler (\<lambda>s. s) ''udp''
      [(''src'', JStr ''oe1abc-7,DB0X''), (''dst'', JStr ''DK5EN-1''), (''msg'', JStr ''!time{042''), (''msg_id'', JStr ''A1'')]
      5 5 demo_routing = Inr (Execute ''time'' [] hash ''OE1ABC-7'', st') \<and>
    ''OE1ABC-7'' \<notin> blocked_callsigns (rt_blocklist demo_routing)"
proof -
  let ?m = "[(''src'', JStr ''oe1abc-7,DB0X''), (''dst'', JStr ''DK5EN-1''), (''msg'', JStr ''!time{042''), (''msg_id'', JStr ''A1'')]"
  let ?st = "demo_routing\<lparr>rt_msg_ids := [(JStr ''A1'', 5)]\<rparr>"
  have h: "message_handler (\<lambda>s. s) ''udp'' ?m 5 5 demo_routing =
      Inr (Execute ''time'' [] ''OE1ABC-7'' ''OE1ABC-7'', ?st)"
    unfolding demo_routing_def by code_simp
  have s: "strip_relay_path ''oe1abc-7,DB0X'' = ''OE1ABC-7''" by code_simp
  from execution_authorised[OF h, of "''oe1abc-7,DB0X''"] s h show ?thesis by (simp only:) auto
qed



end
