(* ===== verification/Utf8.thy ===== *)
theory Utf8
  imports McPrelude
begin

text \<open>
  Text beyond U+00FF: Python strings as lists of code points, their UTF-8 encoding, and
  \<open>bytes.decode("utf-8", errors="ignore")\<close>. Bytes are natural numbers below 256.
\<close>

type_synonym utext = "nat list"

definition utext :: "string \<Rightarrow> utext" where
  "utext s = map of_char s"

definition utf8_len :: "nat \<Rightarrow> nat" where
  "utf8_len c = (if c < 128 then 1 else if c < 2048 then 2 else if c < 65536 then 3 else 4)"

definition byte_len :: "utext \<Rightarrow> nat" where
  "byte_len t = sum_list (map utf8_len t)"

definition scalar :: "nat \<Rightarrow> bool" where
  "scalar c \<longleftrightarrow> c < 0xD800 \<or> 0xE000 \<le> c \<and> c < 0x110000"

definition utf8_char :: "nat \<Rightarrow> nat list" where
  "utf8_char c =
     (if c < 128 then [c]
      else if c < 2048 then [0xC0 + c div 64, 0x80 + c mod 64]
      else if c < 65536 then [0xE0 + c div 4096, 0x80 + c div 64 mod 64, 0x80 + c mod 64]
      else [0xF0 + c div 262144, 0x80 + c div 4096 mod 64, 0x80 + c div 64 mod 64, 0x80 + c mod 64])"

definition utf8_encode :: "utext \<Rightarrow> nat list" where
  "utf8_encode t = concat (map utf8_char t)"

definition cont :: "nat \<Rightarrow> bool" where
  "cont b \<longleftrightarrow> 0x80 \<le> b \<and> b < 0xC0"

text \<open>
  The well-formed sequence at the head of the input, with its length. The second byte is restricted so
  that overlong forms, surrogates and values above U+10FFFF are refused.
\<close>

definition utf8_head :: "nat list \<Rightarrow> (nat \<times> nat) option" where
  "utf8_head bs =
     (case bs of
        [] \<Rightarrow> None
      | b # r1 \<Rightarrow>
          if b < 0x80 then Some (b, 1)
          else (case r1 of
             [] \<Rightarrow> None
           | b1 # r2 \<Rightarrow>
               if 0xC2 \<le> b \<and> b < 0xE0 then
                 (if cont b1 then Some ((b - 0xC0) * 64 + (b1 - 0x80), 2) else None)
               else (case r2 of
                  [] \<Rightarrow> None
                | b2 # r3 \<Rightarrow>
                    if 0xE0 \<le> b \<and> b < 0xF0 then
                      (if cont b1 \<and> cont b2 \<and> (b = 0xE0 \<longrightarrow> 0xA0 \<le> b1) \<and> (b = 0xED \<longrightarrow> b1 < 0xA0)
                       then Some ((b - 0xE0) * 4096 + (b1 - 0x80) * 64 + (b2 - 0x80), 3) else None)
                    else (case r3 of
                       [] \<Rightarrow> None
                     | b3 # r4 \<Rightarrow>
                         if 0xF0 \<le> b \<and> b < 0xF5 \<and> cont b1 \<and> cont b2 \<and> cont b3 \<and>
                            (b = 0xF0 \<longrightarrow> 0x90 \<le> b1) \<and> (b = 0xF4 \<longrightarrow> b1 < 0x90)
                         then Some ((b - 0xF0) * 262144 + (b1 - 0x80) * 4096 + (b2 - 0x80) * 64 + (b3 - 0x80), 4)
                         else None))))"

text \<open>
  With \<open>errors="ignore"\<close> an ill-formed sequence is skipped; skipping its first byte only gives the same
  text, since a continuation byte cannot start a sequence.
\<close>

function utf8_ignore :: "nat list \<Rightarrow> utext" where
  "utf8_ignore [] = []"
| "utf8_ignore (b # bs) =
     (case utf8_head (b # bs) of
        None \<Rightarrow> utf8_ignore bs
      | Some (c, n) \<Rightarrow> c # utf8_ignore (drop (n - 1) bs))"
  by pat_completeness auto
termination by (relation "measure length") auto

definition uspace :: "nat \<Rightarrow> bool" where
  "uspace n \<longleftrightarrow> (9 \<le> n \<and> n \<le> 13) \<or> (28 \<le> n \<and> n \<le> 32) \<or> n = 133 \<or> n = 160 \<or> n = 0x1680 \<or>
     (0x2000 \<le> n \<and> n \<le> 0x200A) \<or> n = 0x2028 \<or> n = 0x2029 \<or> n = 0x202F \<or> n = 0x205F \<or> n = 0x3000"

definition ustrip :: "utext \<Rightarrow> utext" where
  "ustrip t = rev (dropWhile uspace (rev (dropWhile uspace t)))"

section \<open>Lemmas\<close>

lemma byte_len_append [simp]: "byte_len (s @ t) = byte_len s + byte_len t"
  by (simp add: byte_len_def)

lemma byte_len_Nil [simp]: "byte_len [] = 0"
  by (simp add: byte_len_def)

lemma byte_len_encode: "byte_len t = length (utf8_encode t)"
  by (induction t) (auto simp: byte_len_def utf8_encode_def utf8_len_def utf8_char_def)

lemma utf8_encode_append [simp]: "utf8_encode (s @ t) = utf8_encode s @ utf8_encode t"
  by (simp add: utf8_encode_def)

lemma utf8_char_bytes: "scalar c \<Longrightarrow> b \<in> set (utf8_char c) \<Longrightarrow> b < 256"
  by (auto simp: utf8_char_def scalar_def split: if_splits)

text \<open>A byte below 128 in an encoding is the character itself.\<close>

lemma utf8_char_ascii: "scalar c \<Longrightarrow> b < 128 \<Longrightarrow> b \<in> set (utf8_char c) \<longleftrightarrow> b = c"
  by (auto simp: utf8_char_def scalar_def split: if_splits)

lemma utf8_encode_ascii: "list_all scalar t \<Longrightarrow> b < 128 \<Longrightarrow> b \<in> set (utf8_encode t) \<longleftrightarrow> b \<in> set t"
  by (induction t) (auto simp: utf8_encode_def utf8_char_ascii)

text \<open>The groups of six bits of a code point.\<close>

lemma split_64: "c div 64 * 64 + c mod 64 = (c::nat)"
  by simp

lemma split_4096: "c div 4096 * 4096 + c div 64 mod 64 * 64 + c mod 64 = (c::nat)"
proof -
  have d: "c div 4096 = c div 64 div 64" by (simp flip: div_mult2_eq)
  have "a * 4096 + b * 64 + z = (a * 64 + b) * 64 + z" for a b z :: nat by simp
  then show ?thesis unfolding d by (simp only: split_64)
qed

lemma split_262144: "c div 262144 * 262144 + c div 4096 mod 64 * 4096 + c div 64 mod 64 * 64 + c mod 64 = (c::nat)"
proof -
  have d: "c div 262144 = c div 4096 div 64" by (simp flip: div_mult2_eq)
  have "a * 262144 + b * 4096 + y + z = (a * 64 + b) * 4096 + y + z" for a b y z :: nat by simp
  then show ?thesis unfolding d by (simp only: split_64 split_4096)
qed

lemma head2:
  assumes "2 \<le> y" "y < 32" "z < 64"
  shows "utf8_head ((0xC0 + y) # (0x80 + z) # rest) = Some (y * 64 + z, 2)"
proof -
  have c: "cont (0x80 + z)" using assms by (simp add: cont_def)
  have i: "\<not> 0xC0 + y < 0x80" "0xC2 \<le> 0xC0 + y \<and> 0xC0 + y < 0xE0" using assms by linarith+
  show ?thesis unfolding utf8_head_def list.case if_not_P[OF i(1)] if_P[OF i(2)] if_P[OF c] by simp
qed

lemma head3:
  assumes "x < 16" "y < 64" "z < 64"
  shows "(x = 0 \<longrightarrow> 32 \<le> y) \<Longrightarrow> (x = 13 \<longrightarrow> y < 32) \<Longrightarrow>
    utf8_head ((0xE0 + x) # (0x80 + y) # (0x80 + z) # rest) = Some (x * 4096 + y * 64 + z, 3)"
proof -
  assume "x = 0 \<longrightarrow> 32 \<le> y" "x = 13 \<longrightarrow> y < 32"
  then have r: "(0xE0 + x = 0xE0 \<longrightarrow> 0xA0 \<le> 0x80 + y) \<and> (0xE0 + x = 0xED \<longrightarrow> 0x80 + y < 0xA0)"
    by linarith
  have c: "cont (0x80 + y)" "cont (0x80 + z)" using assms by (simp_all add: cont_def)
  have i: "\<not> 0xE0 + x < 0x80" "\<not> (0xC2 \<le> 0xE0 + x \<and> 0xE0 + x < 0xE0)" "0xE0 \<le> 0xE0 + x \<and> 0xE0 + x < 0xF0"
    using assms(1) by linarith+
  show ?thesis unfolding utf8_head_def list.case if_not_P[OF i(1)] if_not_P[OF i(2)] if_P[OF i(3)]
    if_P[OF conjI[OF c(1) conjI[OF c(2) r]]] by simp
qed

lemma head4:
  assumes "w < 5" "x < 64" "y < 64" "z < 64"
  shows "(w = 0 \<longrightarrow> 16 \<le> x) \<Longrightarrow> (w = 4 \<longrightarrow> x < 16) \<Longrightarrow>
    utf8_head ((0xF0 + w) # (0x80 + x) # (0x80 + y) # (0x80 + z) # rest) = Some (w * 262144 + x * 4096 + y * 64 + z, 4)"
proof -
  assume "w = 0 \<longrightarrow> 16 \<le> x" "w = 4 \<longrightarrow> x < 16"
  then have r: "(0xF0 + w = 0xF0 \<longrightarrow> 0x90 \<le> 0x80 + x) \<and> (0xF0 + w = 0xF4 \<longrightarrow> 0x80 + x < 0x90)"
    by linarith
  have c: "cont (0x80 + x)" "cont (0x80 + y)" "cont (0x80 + z)" using assms by (simp_all add: cont_def)
  have i: "\<not> 0xF0 + w < 0x80" "\<not> (0xC2 \<le> 0xF0 + w \<and> 0xF0 + w < 0xE0)" "\<not> (0xE0 \<le> 0xF0 + w \<and> 0xF0 + w < 0xF0)"
    using assms(1) by linarith+
  have l: "0xF0 \<le> 0xF0 + w" "0xF0 + w < 0xF5" using assms(1) by linarith+
  show ?thesis unfolding utf8_head_def list.case if_not_P[OF i(1)] if_not_P[OF i(2)] if_not_P[OF i(3)]
    if_P[OF conjI[OF l(1) conjI[OF l(2) conjI[OF c(1) conjI[OF c(2) conjI[OF c(3) r]]]]]] by simp
qed

lemma utf8_head_char:
  assumes "scalar c"
  shows "utf8_head (utf8_char c @ rest) = Some (c, length (utf8_char c))"
proof -
  consider "c < 128" | "128 \<le> c" "c < 2048" | "2048 \<le> c" "c < 65536" | "65536 \<le> c" by linarith
  then show ?thesis
  proof cases
    case 2
    define y z where "y = c div 64" and "z = c mod 64"
    have v: "y * 64 + z = c" unfolding y_def z_def by (rule split_64)
    have z: "z < 64" unfolding z_def by simp
    have "2 \<le> y" "y < 32" using v z 2 by linarith+
    moreover have "utf8_char c = [0xC0 + y, 0x80 + z]" using 2 by (simp add: utf8_char_def y_def z_def)
    ultimately show ?thesis using head2[of y z rest] z v by simp
  next
    case 3
    define x y z where "x = c div 4096" and "y = c div 64 mod 64" and "z = c mod 64"
    have v: "x * 4096 + y * 64 + z = c" unfolding x_def y_def z_def by (rule split_4096)
    have bounds: "y < 64" "z < 64" unfolding y_def z_def by simp_all
    then have x: "x < 16" using 3 v by linarith
    have low: "x = 0 \<Longrightarrow> 32 \<le> y" and gap: "x = 13 \<Longrightarrow> y < 32"
      using v bounds 3 assms unfolding scalar_def by linarith+
    have "utf8_char c = [0xE0 + x, 0x80 + y, 0x80 + z]" using 3 by (simp add: utf8_char_def x_def y_def z_def)
    with head3[OF x bounds, of rest] low gap v show ?thesis by simp
  next
    case 4
    define w x y z where "w = c div 262144" and "x = c div 4096 mod 64" and "y = c div 64 mod 64" and "z = c mod 64"
    have v: "w * 262144 + x * 4096 + y * 64 + z = c" unfolding w_def x_def y_def z_def by (rule split_262144)
    have b: "c < 0x110000" using assms 4 by (auto simp: scalar_def)
    have bounds: "x < 64" "y < 64" "z < 64" unfolding x_def y_def z_def by simp_all
    then have w: "w < 5" using v b by linarith
    have low: "w = 0 \<Longrightarrow> 16 \<le> x" and high: "w = 4 \<Longrightarrow> x < 16"
      using v bounds 4 b by linarith+
    have "utf8_char c = [0xF0 + w, 0x80 + x, 0x80 + y, 0x80 + z]"
      using 4 by (simp add: utf8_char_def w_def x_def y_def z_def)
    with head4[OF w bounds, of rest] low high v show ?thesis by simp
  qed (simp add: utf8_char_def utf8_head_def)
qed

lemma utf8_ignore_char: "scalar c \<Longrightarrow> utf8_ignore (utf8_char c @ rest) = c # utf8_ignore rest"
proof -
  assume c: "scalar c"
  have "utf8_char c \<noteq> []" by (simp add: utf8_char_def)
  then obtain b bs where "utf8_char c = b # bs" by (cases "utf8_char c") auto
  with utf8_head_char[OF c, of rest] show ?thesis by simp
qed

lemma utf8_roundtrip: "list_all scalar t \<Longrightarrow> utf8_ignore (utf8_encode t @ rest) = t @ utf8_ignore rest"
  by (induction t) (simp_all add: utf8_encode_def utf8_ignore_char)

lemma utf8_roundtrip_all: "list_all scalar t \<Longrightarrow> utf8_ignore (utf8_encode t) = t"
  using utf8_roundtrip[of t "[]"] by simp

lemma ustrip_no_space: "t \<noteq> [] \<Longrightarrow> \<not> uspace (hd t) \<Longrightarrow> \<not> uspace (last t) \<Longrightarrow> ustrip t = t"
proof -
  assume t: "t \<noteq> []" "\<not> uspace (hd t)" "\<not> uspace (last t)"
  then have "dropWhile uspace t = t" by (cases t) auto
  moreover have "dropWhile uspace (rev t) = rev t" using t by (cases "rev t") (auto simp: hd_rev[symmetric])
  ultimately show ?thesis by (simp add: ustrip_def)
qed

end
