(* ===== verification/Response.thy ===== *)
theory Response
  imports NumText Identity Utf8
begin

text \<open>
  \<open>commands/response.py\<close>: cutting a reply into chunks, addressing them, and sending them. Replies hold
  symbols beyond U+00FF and are measured in UTF-8 bytes, so their text is a list of code points. The
  sending tasks are a state machine over the per-recipient locks; an \<open>asyncio.Lock\<close> hands itself to its
  waiters in order.
\<close>

section \<open>Chunking\<close>

definition MAX_RESPONSE_LENGTH :: nat where
  "MAX_RESPONSE_LENGTH = 140"

definition MAX_CHUNKS :: nat where
  "MAX_CHUNKS = 3"

text \<open>\<open>s.split(sep)\<close> and \<open>sep in s\<close> for a separator of several characters\<close>

fun split_text :: "'a list \<Rightarrow> 'a list \<Rightarrow> 'a list list" where
  "split_text sep [] = [[]]"
| "split_text sep (c # s) =
     (if take (length sep) (c # s) = sep then [] # split_text sep (drop (length sep - 1) s)
      else (case split_text sep s of [] \<Rightarrow> [[c]] | w # ws \<Rightarrow> (c # w) # ws))"

fun has_text :: "'a list \<Rightarrow> 'a list \<Rightarrow> bool" where
  "has_text sep [] = (sep = [])"
| "has_text sep (c # s) = (take (length sep) (c # s) = sep \<or> has_text sep s)"

fun join_text :: "'a list \<Rightarrow> 'a list list \<Rightarrow> 'a list" where
  "join_text sep [] = []"
| "join_text sep [w] = w"
| "join_text sep (w # v # ws) = w @ sep @ join_text sep (v # ws)"

definition comma_sep :: utext where
  "comma_sep = utext '', ''"

definition bar_sep :: utext where
  "bar_sep = utext '' | ''"

text \<open>The loop over the stations: \<open>current\<close> is the chunk being filled.\<close>

fun pack_parts :: "utext list \<Rightarrow> utext \<Rightarrow> utext list" where
  "pack_parts [] current = (if current \<noteq> [] then [current] else [])"
| "pack_parts (part # parts) current =
     (let test = current @ (if current \<noteq> [] then bar_sep else []) @ part in
      if byte_len test \<le> MAX_RESPONSE_LENGTH then pack_parts parts test
      else if current \<noteq> [] then current # pack_parts parts part
      else pack_parts parts part)"

fun slices :: "nat \<Rightarrow> 'a list \<Rightarrow> 'a list list" where
  "slices n [] = []"
| "slices n (c # s) = (if n = 0 then [c # s] else take n (c # s) # slices n (drop (n - 1) s))"

definition chunk_response :: "utext \<Rightarrow> utext list" where
  "chunk_response response =
     (if byte_len response \<le> MAX_RESPONSE_LENGTH then [response]
      else
        let chunks =
          (if has_text comma_sep response \<and> length (split_text comma_sep response) = 2
           then split_text comma_sep response
           else if has_text bar_sep response then pack_parts (split_text bar_sep response) []
           else slices MAX_RESPONSE_LENGTH response)
        in take MAX_CHUNKS chunks)"

section \<open>Addressing\<close>

datatype transport = LocalOnly | ViaBle | ViaUdp | Lost

definition transport_of :: "string \<Rightarrow> string \<Rightarrow> string \<Rightarrow> transport" where
  "transport_of me recipient src_type =
     (let up = upper recipient in
      if up = me \<or> up \<in> {''*'', ''ALL'', []} then LocalOnly
      else if src_type \<in> {''ble'', ''ble_remote''} then ViaBle
      else if src_type \<in> {''udp'', ''node'', ''lora''} then ViaUdp
      else Lost)"

text \<open>The texts of one reply, with the header \<open>(i/n)\<close> when there is more than one chunk.\<close>

definition chunk_header :: "nat \<Rightarrow> nat \<Rightarrow> utext" where
  "chunk_header i n = utext (''('' @ nat_str i @ ''/'' @ nat_str n @ '') '')"

definition chunk_texts :: "utext list \<Rightarrow> utext list" where
  "chunk_texts chunks =
     (let n = min (length chunks) MAX_CHUNKS in
      map (\<lambda>(i, raw). if 1 < length chunks then chunk_header (i + 1) n @ raw else raw)
        (zip [0..<n] (take MAX_CHUNKS chunks)))"

section \<open>Sending\<close>

text \<open>One task per reply. A task that runs has taken its reference on the lock of its recipient.\<close>

record send_task =
  sk_id :: nat
  sk_key :: string
  sk_texts :: "utext list"

record lock_state =
  lk_holder :: nat
  lk_waiters :: "nat list"

record response_state =
  rs_created :: "send_task list"               \<comment> \<open>created, not yet run\<close>
  rs_running :: "(nat, send_task) dict"        \<comment> \<open>waiting for the lock, or holding it\<close>
  rs_locks :: "(string, lock_state) dict"
  rs_refs :: "(string, nat) dict"
  rs_next :: nat
  rs_sent :: "(string \<times> nat \<times> utext) list"    \<comment> \<open>what was published: recipient, task, text\<close>

definition response_init :: response_state where
  "response_init = \<lparr>rs_created = [], rs_running = [], rs_locks = [], rs_refs = [], rs_next = 0, rs_sent = []\<rparr>"

definition send_response :: "utext \<Rightarrow> string \<Rightarrow> response_state \<Rightarrow> response_state" where
  "send_response response recipient st =
     (if response = [] then st
      else st\<lparr>rs_created := rs_created st @ [\<lparr>sk_id = rs_next st, sk_key = upper recipient,
                sk_texts = chunk_texts (chunk_response response)\<rparr>],
              rs_next := rs_next st + 1\<rparr>)"

text \<open>The task starts: it creates or finds the lock, counts itself, and takes the lock or waits.\<close>

definition start_send :: "response_state \<Rightarrow> response_state" where
  "start_send st =
     (case rs_created st of
        [] \<Rightarrow> st
      | k # rest \<Rightarrow>
          let key = sk_key k in
          st\<lparr>rs_created := rest,
             rs_running := AList.update (sk_id k) k (rs_running st),
             rs_refs := AList.update key (dict_get (rs_refs st) key 0 + 1) (rs_refs st),
             rs_locks := (case map_of (rs_locks st) key of
                 None \<Rightarrow> AList.update key \<lparr>lk_holder = sk_id k, lk_waiters = []\<rparr> (rs_locks st)
               | Some l \<Rightarrow> AList.update key (l\<lparr>lk_waiters := lk_waiters l @ [sk_id k]\<rparr>) (rs_locks st))\<rparr>)"

text \<open>The holder publishes its next chunk.\<close>

definition send_chunk :: "nat \<Rightarrow> response_state \<Rightarrow> response_state" where
  "send_chunk i st =
     (case map_of (rs_running st) i of
        None \<Rightarrow> st
      | Some k \<Rightarrow>
          (case (map_of (rs_locks st) (sk_key k), sk_texts k) of
             (Some l, t # ts) \<Rightarrow>
               if lk_holder l = i
               then st\<lparr>rs_running := AList.update i (k\<lparr>sk_texts := ts\<rparr>) (rs_running st),
                       rs_sent := rs_sent st @ [(sk_key k, i, t)]\<rparr>
               else st
           | _ \<Rightarrow> st))"

text \<open>
  A task ends, having sent everything or cancelled: it releases or leaves the lock and gives its
  reference back; the last one removes the lock.
\<close>

definition end_send :: "nat \<Rightarrow> response_state \<Rightarrow> response_state" where
  "end_send i st =
     (case map_of (rs_running st) i of
        None \<Rightarrow> st
      | Some k \<Rightarrow>
          let key = sk_key k; remaining = dict_get (rs_refs st) key 0 - 1;
              locks = (case map_of (rs_locks st) key of
                  None \<Rightarrow> rs_locks st
                | Some l \<Rightarrow>
                    if lk_holder l = i then
                      (case lk_waiters l of
                         [] \<Rightarrow> rs_locks st
                       | w # ws \<Rightarrow> AList.update key \<lparr>lk_holder = w, lk_waiters = ws\<rparr> (rs_locks st))
                    else AList.update key (l\<lparr>lk_waiters := filter (\<lambda>w. w \<noteq> i) (lk_waiters l)\<rparr>) (rs_locks st))
          in st\<lparr>rs_running := AList.delete i (rs_running st),
                rs_refs := (if remaining \<noteq> 0 then AList.update key remaining (rs_refs st) else AList.delete key (rs_refs st)),
                rs_locks := (if remaining \<noteq> 0 then locks else AList.delete key (rs_locks st))\<rparr>)"

datatype response_event = RSend utext string | RStart | RChunk nat | REnd nat

definition response_step :: "response_event \<Rightarrow> response_state \<Rightarrow> response_state" where
  "response_step ev st =
     (case ev of
        RSend response recipient \<Rightarrow> send_response response recipient st
      | RStart \<Rightarrow> start_send st
      | RChunk i \<Rightarrow> send_chunk i st
      | REnd i \<Rightarrow> end_send i st)"

inductive response_reach :: "response_state \<Rightarrow> bool" where
  init: "response_reach response_init"
| step: "response_reach st \<Longrightarrow> response_reach (response_step ev st)"

section \<open>Chunking lemmas\<close>

lemma utf8_len_bounds: "1 \<le> utf8_len c" "utf8_len c \<le> 4"
  by (simp_all add: utf8_len_def)

lemma byte_len_bounds: "length t \<le> byte_len t" "byte_len t \<le> 4 * length t"
proof -
  show "length t \<le> byte_len t"
    by (induction t) (auto simp: byte_len_def intro: add_mono[OF utf8_len_bounds(1), of _ _ , simplified])
  show "byte_len t \<le> 4 * length t"
    by (induction t) (auto simp: byte_len_def intro: add_mono[OF utf8_len_bounds(2), of _ _ , simplified])
qed

lemma bar_sep_nonempty [simp]: "bar_sep \<noteq> []"
  by (simp add: bar_sep_def utext_def)

lemma join_text_Cons: "ws \<noteq> [] \<Longrightarrow> join_text sep (w # ws) = w @ sep @ join_text sep ws"
  by (cases ws) auto

lemma split_text_nonempty [simp]: "split_text sep s \<noteq> []"
  by (induction sep s rule: split_text.induct) (auto split: list.splits)

lemma join_split_text: "sep \<noteq> [] \<Longrightarrow> join_text sep (split_text sep s) = s"
proof (induction sep s rule: split_text.induct)
  case (2 sep c s)
  show ?case
  proof (cases "take (length sep) (c # s) = sep")
    case True
    have "drop (length sep) (c # s) = drop (length sep - 1) s" using "2.prems" by (cases sep) auto
    with True have "sep @ drop (length sep - 1) s = c # s" by (metis append_take_drop_id)
    with True "2.IH"(1)[OF True "2.prems"] show ?thesis by (simp add: join_text_Cons)
  next
    case False
    obtain w ws where w: "split_text sep s = w # ws" by (meson split_text_nonempty neq_Nil_conv)
    with "2.IH"(2)[OF False "2.prems"] False show ?thesis by (cases ws) auto
  qed
qed simp

lemma slices_concat: "concat (slices n s) = s"
proof (induction n s rule: slices.induct)
  case (2 n c s)
  show ?case
  proof (cases "n = 0")
    case False
    with "2.IH"[OF False] show ?thesis by (cases n) auto
  qed simp
qed simp

lemma concat_take_slices: "0 < n \<Longrightarrow> concat (take k (slices n s)) = take (k * n) s"
proof (induction n s arbitrary: k rule: slices.induct)
  case (2 n c s)
  show ?case
  proof (cases k)
    case (Suc m)
    have "take (Suc m * n) (c # s) = take n (c # s) @ take (m * n) (drop n (c # s))"
      by (simp add: take_add)
    moreover have "drop n (c # s) = drop (n - 1) s" using "2.prems" by (cases n) auto
    ultimately show ?thesis using "2.IH" "2.prems" Suc by simp
  qed simp
qed simp

lemma slices_length: "0 < n \<Longrightarrow> w \<in> set (slices n s) \<Longrightarrow> length w \<le> n"
  by (induction n s rule: slices.induct) auto

text \<open>The packed chunks hold all parts in order, and only a single part can be too long.\<close>

lemma pack_parts_nonempty: "current \<noteq> [] \<Longrightarrow> pack_parts parts current \<noteq> []"
  by (induction parts arbitrary: current) (auto simp: Let_def)

lemma pack_parts_join:
  "current \<noteq> [] \<Longrightarrow> join_text bar_sep (pack_parts parts current) = join_text bar_sep (current # parts)"
  if "\<forall>p \<in> set parts. p \<noteq> []"
  using that
proof (induction parts arbitrary: current)
  case (Cons p ps)
  let ?test = "current @ bar_sep @ p"
  have ne: "pack_parts ps p \<noteq> []" using Cons.prems(2) by (intro pack_parts_nonempty) simp
  show ?case
  proof (cases "byte_len ?test \<le> MAX_RESPONSE_LENGTH")
    case True
    with Cons.IH[of ?test] Cons.prems show ?thesis by (cases ps) (auto simp: Let_def)
  next
    case False
    with Cons.IH[of p] Cons.prems show ?thesis by (simp add: Let_def join_text_Cons ne)
  qed
qed simp

lemma pack_parts_size:
  "w \<in> set (pack_parts parts current) \<Longrightarrow>
   byte_len current \<le> MAX_RESPONSE_LENGTH \<or> current \<in> set all \<Longrightarrow> set parts \<subseteq> set all \<Longrightarrow>
   byte_len w \<le> MAX_RESPONSE_LENGTH \<or> w \<in> set all"
  by (induction parts arbitrary: current) (auto simp: Let_def split: if_splits)

lemma chunk_count: "length (chunk_response r) \<le> 3"
  by (simp add: chunk_response_def MAX_CHUNKS_def Let_def)

lemma chunk_texts_length: "length (chunk_texts cs) = min (length cs) 3"
  by (simp add: chunk_texts_def MAX_CHUNKS_def Let_def)

section \<open>The locks\<close>

text \<open>
  Every running task is counted in the references of its recipient, and is the holder of the lock or
  one of its waiters.
\<close>

definition tasks_of :: "string \<Rightarrow> response_state \<Rightarrow> nat set" where
  "tasks_of key st = {i. \<exists>k. map_of (rs_running st) i = Some k \<and> sk_key k = key}"

definition lock_members :: "lock_state \<Rightarrow> nat list" where
  "lock_members l = lk_holder l # lk_waiters l"

definition key_ok :: "lock_state option \<Rightarrow> nat option \<Rightarrow> nat set \<Rightarrow> bool" where
  "key_ok lock refs tasks \<longleftrightarrow> (case lock of
      None \<Rightarrow> tasks = {} \<and> refs = None
    | Some l \<Rightarrow> distinct (lock_members l) \<and> set (lock_members l) = tasks \<and> refs = Some (length (lock_members l)))"

definition ids_ok :: "response_state \<Rightarrow> bool" where
  "ids_ok st \<longleftrightarrow>
     (\<forall>i k. map_of (rs_running st) i = Some k \<longrightarrow> sk_id k = i \<and> i < rs_next st) \<and>
     (\<forall>k \<in> set (rs_created st). sk_id k < rs_next st \<and> map_of (rs_running st) (sk_id k) = None) \<and>
     distinct (map sk_id (rs_created st))"

definition response_inv :: "response_state \<Rightarrow> bool" where
  "response_inv st \<longleftrightarrow> ids_ok st \<and>
     (\<forall>key. key_ok (map_of (rs_locks st) key) (map_of (rs_refs st) key) (tasks_of key st))"

lemma lock_of_running:
  assumes "response_inv st" "map_of (rs_running st) i = Some k"
  obtains l where "map_of (rs_locks st) (sk_key k) = Some l" "i \<in> set (lock_members l)"
    "set (lock_members l) = tasks_of (sk_key k) st" "distinct (lock_members l)"
    "map_of (rs_refs st) (sk_key k) = Some (length (lock_members l))"
proof -
  have i: "i \<in> tasks_of (sk_key k) st" using assms(2) by (auto simp: tasks_of_def)
  have "key_ok (map_of (rs_locks st) (sk_key k)) (map_of (rs_refs st) (sk_key k)) (tasks_of (sk_key k) st)"
    using assms(1) by (simp add: response_inv_def)
  with i that show ?thesis by (auto simp: key_ok_def split: option.splits)
qed

text \<open>The three parts of \<open>ids_ok\<close>, for states with given running, created and next fields.\<close>

definition run_ids :: "(nat, send_task) dict \<Rightarrow> nat \<Rightarrow> bool" where
  "run_ids r n \<longleftrightarrow> (\<forall>i k. map_of r i = Some k \<longrightarrow> sk_id k = i \<and> i < n)"

definition new_ids :: "(nat, send_task) dict \<Rightarrow> send_task list \<Rightarrow> nat \<Rightarrow> bool" where
  "new_ids r c n \<longleftrightarrow> distinct (map sk_id c) \<and> (\<forall>i \<in> set (map sk_id c). i < n \<and> map_of r i = None)"

lemma ids_ok_parts:
  "ids_ok st \<longleftrightarrow> run_ids (rs_running st) (rs_next st) \<and> new_ids (rs_running st) (rs_created st) (rs_next st)"
  by (auto simp: ids_ok_def run_ids_def new_ids_def)

lemma run_ids_step: "run_ids r n \<Longrightarrow> run_ids r (n + 1)"
  by (auto simp: run_ids_def less_Suc_eq)

lemma run_ids_fresh: "run_ids r n \<Longrightarrow> map_of r n = None"
  by (cases "map_of r n") (auto simp: run_ids_def)

lemma run_ids_update: "run_ids r n \<Longrightarrow> sk_id k = i \<Longrightarrow> i < n \<Longrightarrow> run_ids (AList.update i k r) n"
  by (simp add: run_ids_def update_conv')

lemma run_ids_delete: "run_ids r n \<Longrightarrow> run_ids (AList.delete i r) n"
  by (simp add: run_ids_def delete_conv')

lemma new_ids_snoc:
  assumes "new_ids r c n" "map_of r n = None" "sk_id k = n"
  shows "new_ids r (c @ [k]) (n + 1)"
proof -
  have "n \<notin> set (map sk_id c)" using assms(1) unfolding new_ids_def by blast
  with assms show ?thesis unfolding new_ids_def by fastforce
qed

lemma new_ids_start:
  assumes "new_ids r (k # c) n"
  shows "new_ids (AList.update (sk_id k) k r) c n"
proof -
  have "sk_id k \<notin> set (map sk_id c)" using assms by (simp add: new_ids_def)
  with assms show ?thesis unfolding new_ids_def by (simp add: update_conv') (metis imageI)
qed

lemma new_ids_running:
  assumes "new_ids r c n" "map_of r i = Some k"
  shows "new_ids (AList.update i k' r) c n"
proof -
  have "i \<notin> set (map sk_id c)" using assms unfolding new_ids_def by fastforce
  with assms(1) show ?thesis unfolding new_ids_def by (auto simp: update_conv')
qed

lemma new_ids_delete: "new_ids r c n \<Longrightarrow> new_ids (AList.delete i r) c n"
  unfolding new_ids_def by (auto simp: delete_conv')

lemma inv_send:
  assumes i: "response_inv st"
  shows "response_inv (send_response r rec st)"
proof (cases "r = []")
  case False
  have "tasks_of key (send_response r rec st) = tasks_of key st" for key
    by (simp add: send_response_def tasks_of_def)
  moreover have "ids_ok (send_response r rec st)"
    using i run_ids_fresh[of "rs_running st" "rs_next st"] run_ids_step[of "rs_running st" "rs_next st"]
      new_ids_snoc[of "rs_running st" "rs_created st" "rs_next st"]
    by (simp add: response_inv_def ids_ok_parts send_response_def False)
  moreover have "rs_locks (send_response r rec st) = rs_locks st" "rs_refs (send_response r rec st) = rs_refs st"
    by (simp_all add: send_response_def)
  ultimately show ?thesis using i by (simp add: response_inv_def)
qed (use i in \<open>simp add: send_response_def\<close>)

lemma inv_start:
  assumes i: "response_inv st"
  shows "response_inv (start_send st)"
proof (cases "rs_created st")
  case (Cons k rest)
  let ?st' = "start_send st"
  have fresh: "map_of (rs_running st) (sk_id k) = None" "sk_id k < rs_next st"
    using i Cons by (auto simp: response_inv_def ids_ok_def)
  have tasks: "tasks_of key ?st' = (if key = sk_key k then insert (sk_id k) (tasks_of key st) else tasks_of key st)" for key
    using fresh(1) by (auto simp: start_send_def Cons Let_def tasks_of_def)
  have ids: "ids_ok ?st'"
    using i Cons run_ids_update[of "rs_running st" "rs_next st" k] new_ids_start[of "rs_running st" k rest "rs_next st"]
      fresh(2)
    by (simp add: response_inv_def ids_ok_parts start_send_def Let_def)
  have old: "key_ok (map_of (rs_locks st) key) (map_of (rs_refs st) key) (tasks_of key st)" for key
    using i by (simp add: response_inv_def)
  have notin: "sk_id k \<notin> tasks_of key st" for key using fresh(1) by (auto simp: tasks_of_def)
  have "key_ok (map_of (rs_locks ?st') key) (map_of (rs_refs ?st') key) (tasks_of key ?st')" for key
  proof (cases "key = sk_key k")
    case True
    have locks: "map_of (rs_locks ?st') key = Some (case map_of (rs_locks st) key of
          None \<Rightarrow> \<lparr>lk_holder = sk_id k, lk_waiters = []\<rparr>
        | Some l \<Rightarrow> l\<lparr>lk_waiters := lk_waiters l @ [sk_id k]\<rparr>)"
      using True by (simp add: start_send_def Cons Let_def update_conv' split: option.split)
    have refs: "map_of (rs_refs ?st') key = Some (dict_get (rs_refs st) key 0 + 1)"
      using True by (simp add: start_send_def Cons Let_def update_conv')
    have new: "tasks_of key ?st' = insert (sk_id k) (tasks_of key st)" using True by (simp add: tasks)
    show ?thesis
    proof (cases "map_of (rs_locks st) key")
      case None
      with old[of key] have "tasks_of key st = {}" "map_of (rs_refs st) key = None" by (simp_all add: key_ok_def)
      with None show ?thesis unfolding locks refs new by (simp add: key_ok_def lock_members_def dict_get_def)
    next
      case (Some l)
      with old[of key] have l: "distinct (lock_members l)" "set (lock_members l) = tasks_of key st"
        "map_of (rs_refs st) key = Some (length (lock_members l))" by (simp_all add: key_ok_def)
      have "lock_members (l\<lparr>lk_waiters := lk_waiters l @ [sk_id k]\<rparr>) = lock_members l @ [sk_id k]"
        by (simp add: lock_members_def)
      with l notin[of key] Some show ?thesis unfolding locks refs new by (simp add: key_ok_def dict_get_def)
    qed
  next
    case False
    then have "tasks_of key ?st' = tasks_of key st" by (simp add: tasks)
    moreover have "map_of (rs_locks ?st') key = map_of (rs_locks st) key"
      using False by (simp add: start_send_def Cons Let_def update_conv' split: option.split)
    moreover have "map_of (rs_refs ?st') key = map_of (rs_refs st) key"
      using False by (simp add: start_send_def Cons Let_def update_conv')
    ultimately show ?thesis using old[of key] by simp
  qed
  with ids show ?thesis by (simp add: response_inv_def)
qed (use i in \<open>simp add: start_send_def\<close>)

lemma ids_chunk:
  assumes k: "map_of (rs_running st) i = Some k" and ok: "ids_ok st"
  shows "ids_ok (send_chunk i st)"
proof -
  have i: "sk_id k = i" "i < rs_next st"
    using k ok unfolding ids_ok_parts run_ids_def by blast+
  have r: "run_ids (AList.update i (k\<lparr>sk_texts := ts\<rparr>) (rs_running st)) (rs_next st)" for ts
    using ok i by (intro run_ids_update) (simp_all add: ids_ok_parts)
  have n: "new_ids (AList.update i (k\<lparr>sk_texts := ts\<rparr>) (rs_running st)) (rs_created st) (rs_next st)" for ts
    using ok k by (intro new_ids_running) (simp_all add: ids_ok_parts)
  show ?thesis
    using ok by (simp add: ids_ok_parts send_chunk_def k r n split: option.split list.split)
qed

lemma inv_chunk: "response_inv st \<Longrightarrow> response_inv (send_chunk i st)"
proof (cases "map_of (rs_running st) i")
  case (Some k)
  assume inv: "response_inv st"
  let ?st' = "send_chunk i st"
  have "tasks_of key ?st' = tasks_of key st" for key
    using Some by (auto simp: tasks_of_def send_chunk_def split: option.split list.split)
  moreover have "ids_ok ?st'"
    using inv ids_chunk[OF Some] by (simp add: response_inv_def)
  moreover have "rs_locks ?st' = rs_locks st" "rs_refs ?st' = rs_refs st"
    using Some by (auto simp: send_chunk_def split: option.split list.split)
  ultimately show ?thesis using inv by (simp add: response_inv_def)
qed (simp add: send_chunk_def)

text \<open>The lock when one of several members leaves it.\<close>

definition lock_without :: "nat \<Rightarrow> lock_state \<Rightarrow> lock_state" where
  "lock_without i l =
     (if lk_holder l = i
      then (case lk_waiters l of [] \<Rightarrow> l | w # ws \<Rightarrow> \<lparr>lk_holder = w, lk_waiters = ws\<rparr>)
      else l\<lparr>lk_waiters := filter (\<lambda>w. w \<noteq> i) (lk_waiters l)\<rparr>)"

lemma length_filter_neq:
  "distinct xs \<Longrightarrow> i \<in> set xs \<Longrightarrow> Suc (length (filter (\<lambda>w. w \<noteq> i) xs)) = length xs"
proof (induction xs)
  case (Cons x xs)
  then show ?case
  proof (cases "x = i")
    case True
    with Cons.prems(1) have "filter (\<lambda>w. w \<noteq> i) xs = xs" by (auto simp: filter_id_conv)
    with True show ?thesis by simp
  qed simp
qed simp

lemma lock_without:
  assumes "distinct (lock_members l)" "i \<in> set (lock_members l)"
    and "lk_holder l = i \<Longrightarrow> lk_waiters l \<noteq> []"
  shows "Suc (length (lock_members (lock_without i l))) = length (lock_members l)"
    "distinct (lock_members (lock_without i l))"
    "set (lock_members (lock_without i l)) = set (lock_members l) - {i}"
  using assms length_filter_neq[of "lk_waiters l" i]
  by (auto simp: lock_members_def lock_without_def split: list.splits)

lemma inv_end:
  assumes inv: "response_inv st"
  shows "response_inv (end_send i st)"
proof (cases "map_of (rs_running st) i")
  case (Some k)
  let ?st' = "end_send i st" and ?key = "sk_key k"
  obtain l where l: "map_of (rs_locks st) ?key = Some l" "i \<in> set (lock_members l)"
    "set (lock_members l) = tasks_of ?key st" "distinct (lock_members l)"
    "map_of (rs_refs st) ?key = Some (length (lock_members l))"
    using lock_of_running[OF inv Some] by blast
  have tasks: "tasks_of key ?st' = tasks_of key st - {i}" for key
    using Some by (auto simp: tasks_of_def end_send_def Let_def)
  have ids: "ids_ok ?st'"
    using inv Some
    by (simp add: response_inv_def ids_ok_parts end_send_def Let_def run_ids_delete new_ids_delete)
  have old: "key_ok (map_of (rs_locks st) key) (map_of (rs_refs st) key) (tasks_of key st)" for key
    using inv by (simp add: response_inv_def)
  have refs: "dict_get (rs_refs st) ?key 0 = length (lock_members l)" using l(5) by (simp add: dict_get_def)
  have "key_ok (map_of (rs_locks ?st') key) (map_of (rs_refs ?st') key) (tasks_of key ?st')" for key
  proof (cases "key = ?key")
    case True
    show ?thesis
    proof (cases "lk_holder l = i \<and> lk_waiters l = []")
      case last: True
      from last l(2-5) refs Some have "map_of (rs_locks ?st') ?key = None" "map_of (rs_refs ?st') ?key = None"
        "tasks_of ?key st = {i}"
        by (auto simp: end_send_def Let_def lock_members_def delete_conv')
      with \<open>key = ?key\<close> show ?thesis by (simp add: key_ok_def tasks)
    next
      case more: False
      then have hold: "lk_holder l = i \<Longrightarrow> lk_waiters l \<noteq> []" by blast
      have n: "Suc (length (lock_members (lock_without i l))) = length (lock_members l)"
        "distinct (lock_members (lock_without i l))" "set (lock_members (lock_without i l)) = tasks_of ?key st - {i}"
        using lock_without[OF l(4,2) hold] l(3) by simp_all
      have "map_of (rs_locks ?st') ?key = Some (lock_without i l)"
        "map_of (rs_refs ?st') ?key = Some (length (lock_members (lock_without i l)))"
        using n(1) Some l(1) refs hold
        by (auto simp: end_send_def Let_def lock_without_def lock_members_def update_conv' split: list.splits)
      with n \<open>key = ?key\<close> show ?thesis by (simp add: key_ok_def tasks)
    qed
  next
    case False
    then have "i \<notin> tasks_of key st" using Some by (auto simp: tasks_of_def)
    then have "tasks_of key ?st' = tasks_of key st" by (simp add: tasks)
    moreover have "map_of (rs_locks ?st') key = map_of (rs_locks st) key"
      using False Some by (simp add: end_send_def Let_def update_conv' delete_conv' split: option.split list.split)
    moreover have "map_of (rs_refs ?st') key = map_of (rs_refs st) key"
      using False Some by (simp add: end_send_def Let_def update_conv' delete_conv')
    ultimately show ?thesis using old[of key] by simp
  qed
  with ids show ?thesis by (simp add: response_inv_def)
qed (use inv in \<open>simp add: end_send_def\<close>)

lemma inv_step: "response_inv st \<Longrightarrow> response_inv (response_step ev st)"
  by (cases ev) (simp_all add: response_step_def inv_send inv_start inv_chunk inv_end)

lemma inv_init: "response_inv response_init"
  by (simp add: response_inv_def ids_ok_def key_ok_def response_init_def tasks_of_def)

section \<open>The order of what is sent\<close>

definition texts_in :: "(string \<times> nat \<times> utext) list \<Rightarrow> nat \<Rightarrow> utext list" where
  "texts_in sent i = map (snd \<circ> snd) (filter (\<lambda>e. fst (snd e) = i) sent)"

definition ids_in :: "(string \<times> nat \<times> utext) list \<Rightarrow> string \<Rightarrow> nat list" where
  "ids_in sent key = map (fst \<circ> snd) (filter (\<lambda>e. fst e = key) sent)"

lemma texts_in_snoc [simp]: "texts_in (sent @ [(key, i, t)]) j = texts_in sent j @ (if i = j then [t] else [])"
  by (simp add: texts_in_def)

lemma ids_in_snoc [simp]: "ids_in (sent @ [(key', i, t)]) key = ids_in sent key @ (if key' = key then [i] else [])"
  by (simp add: ids_in_def)

text \<open>The replies asked for by a run of events, in order: the n-th one is task n.\<close>

fun replies :: "response_event list \<Rightarrow> (utext \<times> string) list" where
  "replies [] = []"
| "replies (RSend r recipient # evs) = (if r = [] then replies evs else (r, recipient) # replies evs)"
| "replies (_ # evs) = replies evs"

lemma replies_append [simp]: "replies (evs @ evs') = replies evs @ replies evs'"
  by (induction evs rule: replies.induct) auto

definition response_run :: "response_event list \<Rightarrow> response_state" where
  "response_run evs = fold response_step evs response_init"

lemma response_run_snoc: "response_run (evs @ [ev]) = response_step ev (response_run evs)"
  by (simp add: response_run_def)

lemma response_run_inv: "response_inv (response_run evs)"
  by (induction evs rule: rev_induct) (simp_all add: response_run_snoc inv_step, simp add: response_run_def inv_init)

text \<open>Ids grow: what waits to start is younger than all that started, the waiters of a lock stand in
  the order of their ids, and what was sent to a recipient is not younger than the holder.\<close>

definition below :: "nat \<Rightarrow> response_state \<Rightarrow> bool" where
  "below i st \<longleftrightarrow> (\<forall>j k. map_of (rs_running st) j = Some k \<longrightarrow> j < i) \<and> (\<forall>key. \<forall>j \<in> set (ids_in (rs_sent st) key). j < i)"

definition lock_sorted :: "lock_state \<Rightarrow> nat list \<Rightarrow> bool" where
  "lock_sorted l sent \<longleftrightarrow> sorted_wrt (<) (lock_members l) \<and> (\<forall>j \<in> set sent. j \<le> lk_holder l)"

definition order_inv :: "response_state \<Rightarrow> bool" where
  "order_inv st \<longleftrightarrow>
     sorted_wrt (<) (map sk_id (rs_created st)) \<and>
     (\<forall>i \<in> set (map sk_id (rs_created st)). below i st \<and> i < rs_next st) \<and> below (rs_next st) st \<and>
     (\<forall>key l. map_of (rs_locks st) key = Some l \<longrightarrow> lock_sorted l (ids_in (rs_sent st) key)) \<and>
     (\<forall>key. sorted (ids_in (rs_sent st) key))"

lemma below_cong:
  "(\<And>j k. map_of (rs_running st') j = Some k \<Longrightarrow> \<exists>k'. map_of (rs_running st) j = Some k') \<Longrightarrow>
   rs_sent st' = rs_sent st \<Longrightarrow> below i st \<Longrightarrow> below i st'"
  unfolding below_def by metis

lemma order_send: "order_inv st \<Longrightarrow> order_inv (send_response r recipient st)"
proof (cases "r = []")
  case False
  assume o: "order_inv st"
  let ?st' = "send_response r recipient st"
  have b: "below i ?st' \<longleftrightarrow> below i st" for i by (simp add: below_def send_response_def)
  have up: "below (rs_next st + 1) st" using o by (auto simp: order_inv_def below_def less_Suc_eq)
  show ?thesis using o False up
    by (auto simp: order_inv_def b) (auto simp: send_response_def sorted_wrt_append order_inv_def less_Suc_eq)
qed (simp add: send_response_def)

lemma order_start:
  assumes o: "order_inv st" and i: "response_inv st"
  shows "order_inv (start_send st)"
proof (cases "rs_created st")
  case (Cons k rest)
  let ?st' = "start_send st"
  have k: "below (sk_id k) st" "sk_id k < rs_next st" "\<forall>j \<in> set (map sk_id rest). sk_id k < j"
    using o Cons by (simp_all add: order_inv_def)
  have f: "rs_sent ?st' = rs_sent st" "rs_created ?st' = rest" "rs_next ?st' = rs_next st"
    "rs_running ?st' = AList.update (sk_id k) k (rs_running st)"
    by (simp_all add: start_send_def Cons Let_def)
  have b: "below j ?st'" if "below j st" "sk_id k < j" for j
    using that by (auto simp: below_def f update_conv')
  have locks: "lock_sorted l (ids_in (rs_sent ?st') key)" if l: "map_of (rs_locks ?st') key = Some l" for key l
  proof (cases "key = sk_key k")
    case True
    show ?thesis
    proof (cases "map_of (rs_locks st) key")
      case None
      with l True have "l = \<lparr>lk_holder = sk_id k, lk_waiters = []\<rparr>"
        by (simp add: start_send_def Cons Let_def)
      with k(1) show ?thesis by (force simp: lock_sorted_def lock_members_def f below_def)
    next
      case (Some l0)
      with l True have l': "l = l0\<lparr>lk_waiters := lk_waiters l0 @ [sk_id k]\<rparr>"
        by (simp add: start_send_def Cons Let_def)
      have "key_ok (Some l0) (map_of (rs_refs st) key) (tasks_of key st)"
        using i Some unfolding response_inv_def by metis
      then have "set (lock_members l0) = tasks_of key st" by (simp add: key_ok_def)
      with k(1) have "\<forall>j \<in> set (lock_members l0). j < sk_id k" by (auto simp: below_def tasks_of_def)
      moreover have "lock_sorted l0 (ids_in (rs_sent st) key)" using o Some by (simp add: order_inv_def)
      ultimately show ?thesis by (auto simp: lock_sorted_def l' f lock_members_def sorted_wrt_append)
    qed
  next
    case False
    with l have "map_of (rs_locks st) key = Some l"
      by (simp add: start_send_def Cons Let_def update_conv' split: option.splits)
    with o show ?thesis by (simp add: order_inv_def f)
  qed
  have created: "sorted_wrt (<) (map sk_id rest)" "\<forall>j \<in> set (map sk_id rest). below j st \<and> j < rs_next st"
    "below (rs_next st) st" "\<forall>key. sorted (ids_in (rs_sent st) key)"
    using o Cons by (simp_all add: order_inv_def)
  with locks b k show ?thesis unfolding order_inv_def f by blast
qed (use o in \<open>simp add: start_send_def\<close>)

lemma order_chunk:
  assumes o: "order_inv st" and i: "response_inv st"
  shows "order_inv (send_chunk i st)"
proof (cases "send_chunk i st = st")
  case False
  then obtain k l t ts where s: "map_of (rs_running st) i = Some k" "map_of (rs_locks st) (sk_key k) = Some l"
    "sk_texts k = t # ts" "lk_holder l = i"
    by (auto simp: send_chunk_def split: option.splits list.splits if_splits)
  let ?st' = "send_chunk i st"
  have f: "rs_sent ?st' = rs_sent st @ [(sk_key k, i, t)]" "rs_created ?st' = rs_created st"
    "rs_next ?st' = rs_next st" "rs_locks ?st' = rs_locks st"
    "rs_running ?st' = AList.update i (k\<lparr>sk_texts := ts\<rparr>) (rs_running st)"
    by (simp_all add: send_chunk_def s)
  have b: "below j ?st'" if "below j st" for j
    using that s(1) by (auto simp: below_def f update_conv')
  have l: "lock_sorted l (ids_in (rs_sent st) (sk_key k))" using o s(2) by (simp add: order_inv_def)
  have locks: "lock_sorted l' (ids_in (rs_sent ?st') key)" if "map_of (rs_locks st) key = Some l'" for key l'
    using that o s(2,4) by (auto simp: order_inv_def f lock_sorted_def)
  have "sorted (ids_in (rs_sent ?st') key)" for key
    using o l s(4) by (simp add: order_inv_def f sorted_append lock_sorted_def)
  moreover have "sorted_wrt (<) (map sk_id (rs_created st))" "\<forall>j \<in> set (map sk_id (rs_created st)). below j st \<and> j < rs_next st"
    "below (rs_next st) st" using o by (simp_all add: order_inv_def)
  ultimately show ?thesis using b locks unfolding order_inv_def f(2-4) by blast
qed (use o in simp)

lemma lock_without_sorted:
  "lock_sorted l sent \<Longrightarrow> (lk_holder l = i \<Longrightarrow> lk_waiters l \<noteq> []) \<Longrightarrow> lock_sorted (lock_without i l) sent"
  by (auto simp: lock_sorted_def lock_without_def lock_members_def sorted_wrt_filter split: list.splits)

lemma end_locks:
  assumes k: "map_of (rs_running st) i = Some k"
    and l: "map_of (rs_locks (end_send i st)) key = Some l"
  shows "map_of (rs_locks st) key = Some l \<or>
    (\<exists>l0. map_of (rs_locks st) key = Some l0 \<and> l = lock_without i l0 \<and> (lk_holder l0 = i \<longrightarrow> lk_waiters l0 \<noteq> []))"
proof (cases "map_of (rs_locks st) key")
  case None
  with assms show ?thesis
    by (auto simp: end_send_def Let_def update_conv' delete_conv' split: if_splits option.splits list.splits)
next
  case (Some l0)
  with assms have "l = l0 \<or> l = lock_without i l0 \<and> (lk_holder l0 = i \<longrightarrow> lk_waiters l0 \<noteq> [])"
    by (auto simp: end_send_def Let_def lock_without_def update_conv' delete_conv' split: if_splits option.splits list.splits)
  with Some show ?thesis by blast
qed

lemma order_end:
  assumes o: "order_inv st"
  shows "order_inv (end_send i st)"
proof (cases "map_of (rs_running st) i")
  case (Some k)
  let ?st' = "end_send i st"
  have f: "rs_sent ?st' = rs_sent st" "rs_created ?st' = rs_created st" "rs_next ?st' = rs_next st"
    "rs_running ?st' = AList.delete i (rs_running st)"
    by (simp_all add: end_send_def Some Let_def)
  have b: "below j ?st'" if "below j st" for j
    using that by (auto simp: below_def f delete_conv' split: if_splits)
  have locks: "lock_sorted l (ids_in (rs_sent ?st') key)" if "map_of (rs_locks ?st') key = Some l" for key l
    using end_locks[OF Some that] o lock_without_sorted unfolding order_inv_def f(1) by metis
  have "sorted_wrt (<) (map sk_id (rs_created st))" "\<forall>j \<in> set (map sk_id (rs_created st)). below j st \<and> j < rs_next st"
    "below (rs_next st) st" "\<forall>key. sorted (ids_in (rs_sent st) key)"
    using o by (simp_all add: order_inv_def)
  with b locks show ?thesis unfolding order_inv_def f(1-3) by blast
qed (use o in \<open>simp add: end_send_def\<close>)

lemma order_run: "order_inv (response_run evs)"
proof (induction evs rule: rev_induct)
  case Nil
  show ?case by (simp add: response_run_def response_init_def order_inv_def below_def ids_in_def)
next
  case (snoc ev evs)
  then show ?case using response_run_inv[of evs]
    by (cases ev) (simp_all add: response_run_snoc response_step_def order_send order_start order_chunk order_end)
qed

section \<open>What is sent of each reply\<close>

definition reply_texts :: "utext \<times> string \<Rightarrow> utext list" where
  "reply_texts r = chunk_texts (chunk_response (fst r))"

definition task_ok :: "(utext \<times> string) list \<Rightarrow> (string \<times> nat \<times> utext) list \<Rightarrow> send_task \<Rightarrow> bool" where
  "task_ok rs sent k \<longleftrightarrow> sk_id k < length rs \<and> sk_key k = upper (snd (rs ! sk_id k)) \<and>
     texts_in sent (sk_id k) @ sk_texts k = reply_texts (rs ! sk_id k)"

definition sent_ok :: "(utext \<times> string) list \<Rightarrow> (string \<times> nat \<times> utext) list \<Rightarrow> bool" where
  "sent_ok rs sent \<longleftrightarrow> (\<forall>(key, i, t) \<in> set sent. i < length rs \<and> key = upper (snd (rs ! i))) \<and>
     (\<forall>i < length rs. prefix (texts_in sent i) (reply_texts (rs ! i)))"

definition origin_inv :: "(utext \<times> string) list \<Rightarrow> response_state \<Rightarrow> bool" where
  "origin_inv rs st \<longleftrightarrow> rs_next st = length rs \<and> sent_ok rs (rs_sent st) \<and>
     (\<forall>k \<in> set (rs_created st). task_ok rs (rs_sent st) k) \<and>
     (\<forall>i k. map_of (rs_running st) i = Some k \<longrightarrow> task_ok rs (rs_sent st) k)"

lemma texts_in_fresh: "sent_ok rs sent \<Longrightarrow> texts_in sent (length rs) = []"
  by (force simp: sent_ok_def texts_in_def filter_empty_conv)

lemma task_ok_more: "task_ok rs sent k \<Longrightarrow> task_ok (rs @ [r]) sent k"
  by (simp add: task_ok_def nth_append)

lemma sent_ok_more: "sent_ok rs sent \<Longrightarrow> sent_ok (rs @ [r]) sent"
  using texts_in_fresh[of rs sent] by (fastforce simp: sent_ok_def nth_append less_Suc_eq)

lemma origin_send:
  assumes "origin_inv rs st"
  shows "origin_inv (rs @ replies [RSend r recipient]) (send_response r recipient st)"
proof (cases "r = []")
  case False
  let ?r = "(r, recipient)"
  have "task_ok (rs @ [?r]) (rs_sent st) \<lparr>sk_id = rs_next st, sk_key = upper recipient, sk_texts = chunk_texts (chunk_response r)\<rparr>"
    using assms texts_in_fresh[of rs "rs_sent st"] by (simp add: origin_inv_def task_ok_def reply_texts_def)
  with False assms show ?thesis
    by (auto simp: origin_inv_def send_response_def task_ok_more sent_ok_more)
qed (use assms in \<open>simp add: send_response_def\<close>)

lemma origin_start: "origin_inv rs st \<Longrightarrow> origin_inv rs (start_send st)"
  by (cases "rs_created st") (auto simp: origin_inv_def start_send_def Let_def update_conv')

lemma origin_end: "origin_inv rs st \<Longrightarrow> origin_inv rs (end_send i st)"
  by (cases "map_of (rs_running st) i") (auto simp: origin_inv_def end_send_def Let_def delete_conv' split: if_splits)

lemma task_ok_other: "task_ok rs sent k \<Longrightarrow> sk_id k \<noteq> i \<Longrightarrow> task_ok rs (sent @ [(key, i, t)]) k"
  by (simp add: task_ok_def)

lemma origin_chunk:
  assumes o: "origin_inv rs st" and inv: "response_inv st"
  shows "origin_inv rs (send_chunk i st)"
proof (cases "send_chunk i st = st")
  case False
  then obtain k l t ts where s: "map_of (rs_running st) i = Some k" "map_of (rs_locks st) (sk_key k) = Some l"
    "sk_texts k = t # ts" "lk_holder l = i"
    by (auto simp: send_chunk_def split: option.splits list.splits if_splits)
  let ?st' = "send_chunk i st" and ?sent = "rs_sent st @ [(sk_key k, i, t)]"
  have f: "rs_sent ?st' = ?sent" "rs_created ?st' = rs_created st"
    "rs_next ?st' = rs_next st" "rs_running ?st' = AList.update i (k\<lparr>sk_texts := ts\<rparr>) (rs_running st)"
    by (simp_all add: send_chunk_def s)
  have ids: "run_ids (rs_running st) (rs_next st)" "new_ids (rs_running st) (rs_created st) (rs_next st)"
    using inv by (simp_all add: response_inv_def ids_ok_parts)
  have k: "task_ok rs (rs_sent st) k" "sk_id k = i" using o s(1) ids(1) by (auto simp: origin_inv_def run_ids_def)
  then have k': "task_ok rs ?sent (k\<lparr>sk_texts := ts\<rparr>)" using s(3) by (simp add: task_ok_def)
  have created: "task_ok rs ?sent k'" if "k' \<in> set (rs_created st)" for k'
  proof (rule task_ok_other)
    show "task_ok rs (rs_sent st) k'" using o that by (simp add: origin_inv_def)
    show "sk_id k' \<noteq> i" using ids(2) that s(1) by (auto simp: new_ids_def)
  qed
  have running: "task_ok rs ?sent k'" if "map_of (rs_running ?st') j = Some k'" for j k'
  proof (cases "j = i")
    case True
    with that k' show ?thesis by (simp add: f)
  next
    case False
    with that have j: "map_of (rs_running st) j = Some k'" by (simp add: f update_conv')
    with ids(1) False have "sk_id k' \<noteq> i" by (auto simp: run_ids_def)
    moreover have "task_ok rs (rs_sent st) k'" using o j by (simp add: origin_inv_def)
    ultimately show ?thesis by (rule task_ok_other[rotated])
  qed
  have i: "i < length rs" "sk_key k = upper (snd (rs ! i))"
    "texts_in (rs_sent st) i @ t # ts = reply_texts (rs ! i)"
    using k s(3) by (simp_all add: task_ok_def)
  have "prefix (texts_in (rs_sent st) i @ [t]) (reply_texts (rs ! i))"
    using i(3) by (metis append.assoc append_Cons append_Nil prefixI)
  with o i have "sent_ok rs ?sent" by (auto simp: origin_inv_def sent_ok_def)
  with o created running show ?thesis unfolding origin_inv_def f(1-3) by blast
qed (use o in simp)

lemma origin_run: "origin_inv (replies evs) (response_run evs)"
proof (induction evs rule: rev_induct)
  case Nil
  show ?case by (simp add: response_run_def response_init_def origin_inv_def sent_ok_def texts_in_def)
next
  case (snoc ev evs)
  then show ?case using response_run_inv[of evs] origin_send[of "replies evs" "response_run evs"]
    by (cases ev) (simp_all add: response_run_snoc response_step_def origin_start origin_chunk origin_end)
qed

section \<open>Properties\<close>

text \<open>C4: replies to one station never mix on the air. Whatever the order of requests, task starts,
  chunk sends, ends and cancellations, what was transmitted to a recipient consists of replies to that
  recipient in the order in which they were asked for, one completely after the other, and of each
  reply a prefix of its chunks in order was sent, none twice.
\<close>

theorem replies_never_interleave:
  "let st = response_run evs; rs = replies evs in
    (\<forall>key. sorted (ids_in (rs_sent st) key)) \<and>
    (\<forall>(key, i, t) \<in> set (rs_sent st). i < length rs \<and> key = upper (snd (rs ! i))) \<and>
    (\<forall>i < length rs. prefix (texts_in (rs_sent st) i) (chunk_texts (chunk_response (fst (rs ! i)))))"
  using order_run[of evs] origin_run[of evs]
  by (simp add: Let_def order_inv_def origin_inv_def sent_ok_def reply_texts_def)

definition demo_response_events :: "response_event list" where
  "demo_response_events =
     [RSend (replicate 150 65) ''oe1abc'', RStart, RSend (utext ''two'') ''OE1ABC'', RStart, RChunk 1, RChunk 0,
      RChunk 0, REnd 0, RChunk 1]"

theorem replies_never_interleave_witness:
  "ids_in (rs_sent (response_run demo_response_events)) ''OE1ABC'' = [0, 0, 1] \<and>
   sorted (ids_in (rs_sent (response_run demo_response_events)) ''OE1ABC'')"
proof -
  have "ids_in (rs_sent (response_run demo_response_events)) ''OE1ABC'' = [0, 0, 1]" by code_simp
  with replies_never_interleave[of demo_response_events] show ?thesis by (simp add: Let_def)
qed

definition two_part :: "utext \<Rightarrow> bool" where
  "two_part r \<longleftrightarrow> has_text comma_sep r \<and> length (split_text comma_sep r) = 2"

lemma pack_join_all:
  assumes "\<forall>p \<in> set (split_text bar_sep r). p \<noteq> []"
  shows "join_text bar_sep (pack_parts (split_text bar_sep r) []) = r"
proof -
  obtain p ps where s: "split_text bar_sep r = p # ps" by (meson split_text_nonempty neq_Nil_conv)
  then have "pack_parts (p # ps) [] = pack_parts ps p" by (simp add: Let_def)
  moreover have "join_text bar_sep (pack_parts ps p) = join_text bar_sep (p # ps)"
    using assms s by (intro pack_parts_join) auto
  ultimately show ?thesis by (metis s join_split_text bar_sep_nonempty)
qed

text \<open>Cutting a reply loses nothing but what lies beyond the third chunk. A reply of at most 140 bytes
  is sent whole; a two-part reply is cut at its comma; a reply with station separators is packed into
  chunks of at most 140 bytes, or single stations, that joined give the reply back when there are at
  most three; any other reply is cut every 140 characters. There are never more than three chunks.
\<close>

theorem chunking_keeps_the_reply:
  "length (chunk_response r) \<le> 3 \<and>
   (if byte_len r \<le> 140 then chunk_response r = [r]
    else if two_part r then join_text comma_sep (chunk_response r) = r
    else if has_text bar_sep r then
      list_all (\<lambda>c. byte_len c \<le> 140 \<or> c \<in> set (split_text bar_sep r)) (chunk_response r) \<and>
      (if list_all (\<lambda>p. p \<noteq> []) (split_text bar_sep r) \<and> length (pack_parts (split_text bar_sep r) []) \<le> 3
       then join_text bar_sep (chunk_response r) = r else True)
    else list_all (\<lambda>c. length c \<le> 140) (chunk_response r) \<and> concat (chunk_response r) = take 420 r)"
proof -
  have count: "length (chunk_response r) \<le> 3" by (rule chunk_count)
  have sizes: "c \<in> set (pack_parts (split_text bar_sep r) []) \<Longrightarrow> byte_len c \<le> 140 \<or> c \<in> set (split_text bar_sep r)" for c
    using pack_parts_size[of c "split_text bar_sep r" "[]" "split_text bar_sep r"] by (simp add: MAX_RESPONSE_LENGTH_def)
  have comma: "comma_sep \<noteq> []" by (simp add: comma_sep_def utext_def)
  consider (short) "byte_len r \<le> 140" | (two) "140 < byte_len r" "two_part r"
    | (bars) "140 < byte_len r" "\<not> two_part r" "has_text bar_sep r"
    | (plain) "140 < byte_len r" "\<not> two_part r" "\<not> has_text bar_sep r" by linarith
  then show ?thesis
  proof cases
    case short
    then show ?thesis by (simp add: chunk_response_def MAX_RESPONSE_LENGTH_def)
  next
    case two
    then have "chunk_response r = split_text comma_sep r"
      by (simp add: chunk_response_def two_part_def MAX_RESPONSE_LENGTH_def MAX_CHUNKS_def)
    with two count show ?thesis by (simp add: join_split_text[OF comma])
  next
    case bars
    then have "chunk_response r = take 3 (pack_parts (split_text bar_sep r) [])"
      by (auto simp: chunk_response_def two_part_def MAX_RESPONSE_LENGTH_def MAX_CHUNKS_def)
    with bars count sizes pack_join_all[of r] show ?thesis
      by (auto simp: list_all_iff dest!: in_set_takeD)
  next
    case plain
    then have c: "chunk_response r = take 3 (slices 140 r)"
      by (auto simp: chunk_response_def two_part_def MAX_RESPONSE_LENGTH_def MAX_CHUNKS_def)
    have "concat (take n (slices 140 r)) = take (n * 140) r" for n
      by (rule concat_take_slices) simp
    with plain count slices_length[of 140 _ r] show ?thesis
      by (auto simp: c list_all_iff dest!: in_set_takeD)
  qed
qed

text \<open>The header is added after the cut: a chunk of exactly 140 bytes goes out with 146.\<close>

theorem header_exceeds_limit:
  "map byte_len (chunk_texts (chunk_response (replicate 141 65))) = [146, 7]"
  by code_simp

end
