(* ===== verification/Push.thy ===== *)
theory Push
  imports Routing
begin

text \<open>
  \<open>push_delivery.py\<close>: which messages are pushed to the subscribed browsers. The gates and the matcher are
  pure; the dedup guard, the coalescing windows and the bounded queue are the state of the dispatcher.
  One clock reading per handler call stands for the several \<open>now()\<close> of that call. \<open>py_repr\<close> stands for
  Python's \<open>str()\<close> of floats, lists and dictionaries.
\<close>

section \<open>Constants\<close>

definition COALESCE_WINDOW_SECONDS :: time where "COALESCE_WINDOW_SECONDS = 5"
definition DEDUP_WINDOW_SECONDS :: time where "DEDUP_WINDOW_SECONDS = 3600"
definition MAX_TEXT_LEN :: nat where "MAX_TEXT_LEN = 120"
definition QUEUE_MAXSIZE :: nat where "QUEUE_MAXSIZE = 1000"

section \<open>Payload and gates\<close>

definition str_json :: "(json \<Rightarrow> string) \<Rightarrow> json \<Rightarrow> string" where
  "str_json py_repr v =
     (case v of
        JStr s \<Rightarrow> s
      | JInt i \<Rightarrow> int_str i
      | JBool b \<Rightarrow> if b then ''True'' else ''False''
      | JNull \<Rightarrow> ''None''
      | _ \<Rightarrow> py_repr v)"

text \<open>\<open>str(x or y or "")\<close>\<close>

definition str_or_empty :: "(json \<Rightarrow> string) \<Rightarrow> json \<Rightarrow> string" where
  "str_or_empty py_repr v = (if truthy v then str_json py_repr v else [])"

definition json_or :: "json \<Rightarrow> json \<Rightarrow> json" where
  "json_or v w = (if truthy v then v else w)"

definition resolve_target :: "string \<Rightarrow> string" where
  "resolve_target dst = strip (after_last (CHR '','') dst)"

definition resolve_source :: "string \<Rightarrow> string" where
  "resolve_source src = strip (before (CHR '','') src)"

text \<open>Dividing an integer by 1000 raises when the quotient exceeds the range of floats.\<close>

definition ts_seconds :: "json \<Rightarrow> json res" where
  "ts_seconds ts =
     (case ts of
        JInt i \<Rightarrow> if (2 ^ 1024 - 2 ^ 970) * 1000 \<le> \<bar>i\<bar> then Inl OverflowError else Inr (JFloat (of_int i / 1000))
      | JFloat r \<Rightarrow> Inr (JFloat (r / 1000))
      | _ \<Rightarrow> Inr ts)"

definition payload_fields :: "msgd \<Rightarrow> string \<Rightarrow> msgd res" where
  "payload_fields raw_message txt =
     bind_res (ts_seconds (dict_get raw_message ''timestamp'' JNull)) (\<lambda>ts. Inr
       [(''type'', dict_get raw_message ''type'' (JStr ''msg'')),
        (''src'', dict_get raw_message ''src'' (JStr [])),
        (''dst'', dict_get raw_message ''dst'' (JStr [])),
        (''text'', JStr (take MAX_TEXT_LEN txt)),
        (''msg_id'', dict_get raw_message ''msg_id'' JNull),
        (''ts'', ts)])"

definition raw_text :: "(json \<Rightarrow> string) \<Rightarrow> msgd \<Rightarrow> string" where
  "raw_text py_repr raw_message =
     str_or_empty py_repr (json_or (dict_get raw_message ''msg'' JNull) (dict_get raw_message ''text'' JNull))"

definition build_push_payload :: "(json \<Rightarrow> string) \<Rightarrow> msgd \<Rightarrow> msgd res" where
  "build_push_payload py_repr raw_message =
     payload_fields raw_message (strip_ack_suffix (raw_text py_repr raw_message))"

definition build_gate_view :: "(json \<Rightarrow> string) \<Rightarrow> msgd \<Rightarrow> msgd res" where
  "build_gate_view py_repr raw_message = payload_fields raw_message (raw_text py_repr raw_message)"

definition push_text :: "(json \<Rightarrow> string) \<Rightarrow> msgd \<Rightarrow> string" where
  "push_text py_repr payload =
     str_or_empty py_repr (json_or (dict_get payload ''text'' JNull) (dict_get payload ''msg'' JNull))"

definition is_node_local_noise :: "(json \<Rightarrow> string) \<Rightarrow> msgd \<Rightarrow> bool" where
  "is_node_local_noise py_repr payload =
     (let txt = push_text py_repr payload in contains txt '':ack'' \<or> startswith txt ''{CET}'')"

definition payload_source :: "(json \<Rightarrow> string) \<Rightarrow> msgd \<Rightarrow> string" where
  "payload_source py_repr payload = resolve_source (str_or_empty py_repr (dict_get payload ''src'' JNull))"

definition payload_target :: "(json \<Rightarrow> string) \<Rightarrow> msgd \<Rightarrow> string" where
  "payload_target py_repr payload = resolve_target (str_or_empty py_repr (dict_get payload ''dst'' JNull))"

definition is_eligible :: "(json \<Rightarrow> string) \<Rightarrow> msgd \<Rightarrow> string \<Rightarrow> bool" where
  "is_eligible py_repr payload own_callsign =
     (if dict_get payload ''type'' JNull \<noteq> JStr ''msg'' \<or> push_text py_repr payload = [] then False
      else if is_node_local_noise py_repr payload then False
      else if is_link_check_payload (JStr (push_text py_repr payload)) then False
      else payload_source py_repr payload \<noteq> own_callsign)"

definition is_sender_blocked :: "(json \<Rightarrow> string) \<Rightarrow> msgd \<Rightarrow> string set \<Rightarrow> bool" where
  "is_sender_blocked py_repr payload blocked =
     (upper (payload_source py_repr payload) \<in> upper ` blocked)"

text \<open>Iterating over the stored groups: a string yields its characters, a dictionary its keys.\<close>

definition iterate_json :: "json \<Rightarrow> json list res" where
  "iterate_json v =
     (case v of
        JList xs \<Rightarrow> Inr xs
      | JStr s \<Rightarrow> Inr (map (\<lambda>c. JStr [c]) s)
      | JObj kvs \<Rightarrow> Inr (map (\<lambda>(k, _). JStr k) kvs)
      | _ \<Rightarrow> Inl TypeError)"

definition matches :: "(json \<Rightarrow> string) \<Rightarrow> msgd \<Rightarrow> string \<Rightarrow> msgd \<Rightarrow> bool res" where
  "matches py_repr payload own_callsign filt =
     (let target = payload_target py_repr payload in
      if target = own_callsign \<and> truthy (dict_get filt ''dm'' (JBool True)) then Inr True
      else if target = ''*'' \<and> truthy (dict_get filt ''broadcast'' (JBool False)) then Inr True
      else bind_res (iterate_json (json_or (dict_get filt ''groups'' JNull) (JList []))) (\<lambda>groups.
        Inr (target \<in> set (map (\<lambda>g. strip (str_json py_repr g)) groups))))"

section \<open>The dedup guard\<close>

datatype push_key = ByMsgId json | ByContent string string json

type_synonym seen = "(push_key, time) dict"

text \<open>\<open>_prune\<close> stops at the first entry that is still live.\<close>

definition prune_seen :: "time \<Rightarrow> seen \<Rightarrow> seen" where
  "prune_seen now s = dropWhile (\<lambda>(key, seen_at). \<not> now - DEDUP_WINDOW_SECONDS \<le> seen_at) s"

definition record_seen :: "push_key \<Rightarrow> time \<Rightarrow> seen \<Rightarrow> seen" where
  "record_seen key now s = AList.update key now s"

definition push_key_of :: "(json \<Rightarrow> string) \<Rightarrow> msgd \<Rightarrow> push_key res" where
  "push_key_of py_repr payload =
     (let msg_id = dict_get payload ''msg_id'' JNull in
      if truthy msg_id then bind_res (hash_key msg_id) (\<lambda>k. Inr (ByMsgId k))
      else bind_res (hash_key (dict_get payload ''text'' JNull)) (\<lambda>t.
        Inr (ByContent (payload_source py_repr payload) (payload_target py_repr payload) t)))"

definition push_is_duplicate :: "push_key \<Rightarrow> time \<Rightarrow> seen \<Rightarrow> bool \<times> seen" where
  "push_is_duplicate key now s =
     (let s' = prune_seen now s in if in_dict key s' then (True, s') else (False, record_seen key now s'))"

section \<open>The dispatcher\<close>

record push_sub =
  ps_endpoint :: string
  ps_filter :: msgd
  ps_info :: json

datatype push_item = Immediate msgd | Summary nat msgd

record push_window =
  pw_closes_at :: time
  pw_buffer :: "msgd list"
  pw_sub :: push_sub

text \<open>
  The last two fields are history variables: every call of \<open>submit\<close> with its endpoint, and every call
  of \<open>_enqueue\<close> with its time.
\<close>

record push_state =
  pd_windows :: "(string, push_window) dict"
  pd_seen :: seen
  pd_queue :: "(push_sub \<times> push_item) list"
  pd_submitted :: "(string \<times> msgd) list"
  pd_emitted :: "(time \<times> push_sub \<times> push_item) list"

definition push_init :: push_state where
  "push_init = \<lparr>pd_windows = [], pd_seen = [], pd_queue = [], pd_submitted = [], pd_emitted = []\<rparr>"

definition submit :: "string \<Rightarrow> push_sub \<Rightarrow> msgd \<Rightarrow> time \<Rightarrow> push_state \<Rightarrow> msgd option \<times> push_state" where
  "submit endpoint sub payload now st =
     (let st' = st\<lparr>pd_submitted := pd_submitted st @ [(endpoint, payload)]\<rparr> in
      case map_of (pd_windows st) endpoint of
        None \<Rightarrow> (Some payload, st'\<lparr>pd_windows := AList.update endpoint
          \<lparr>pw_closes_at = now + COALESCE_WINDOW_SECONDS, pw_buffer = [], pw_sub = sub\<rparr> (pd_windows st)\<rparr>)
      | Some window \<Rightarrow> (None, st'\<lparr>pd_windows := AList.update endpoint
          (window\<lparr>pw_buffer := pw_buffer window @ [payload], pw_sub := sub\<rparr>) (pd_windows st)\<rparr>))"

definition push_enqueue :: "time \<Rightarrow> push_sub \<Rightarrow> push_item \<Rightarrow> push_state \<Rightarrow> push_state" where
  "push_enqueue now sub item st =
     st\<lparr>pd_queue := (if length (pd_queue st) < QUEUE_MAXSIZE then pd_queue st @ [(sub, item)] else pd_queue st),
        pd_emitted := pd_emitted st @ [(now, sub, item)]\<rparr>"

text \<open>Closing one due window, and \<open>pop_expired\<close> with the enqueueing of \<open>_sweep_loop\<close>.\<close>

definition close_window :: "time \<Rightarrow> string \<Rightarrow> push_state \<Rightarrow> push_state" where
  "close_window now endpoint st =
     (case map_of (pd_windows st) endpoint of
        None \<Rightarrow> st
      | Some window \<Rightarrow>
          let st' = st\<lparr>pd_windows := AList.delete endpoint (pd_windows st)\<rparr> in
          if pw_buffer window = [] then st'
          else push_enqueue now (pw_sub window) (Summary (length (pw_buffer window)) (last (pw_buffer window))) st')"

definition due_endpoints :: "time \<Rightarrow> push_state \<Rightarrow> string list" where
  "due_endpoints now st = map fst (filter (\<lambda>(ep, win). pw_closes_at win \<le> now) (pd_windows st))"

definition sweep :: "time \<Rightarrow> push_state \<Rightarrow> push_state" where
  "sweep now st = fold (close_window now) (due_endpoints now st) st"

text \<open>One round of the loop over the subscriptions: \<open>submit\<close>, and \<open>_enqueue\<close> of what it returns.\<close>

definition offer :: "push_sub \<Rightarrow> msgd \<Rightarrow> time \<Rightarrow> push_state \<Rightarrow> push_state" where
  "offer sub payload now st =
     (case submit (ps_endpoint sub) sub payload now st of
        (None, st') \<Rightarrow> st'
      | (Some immediate, st') \<Rightarrow> push_enqueue now sub (Immediate immediate) st')"

fun deliver_to :: "(json \<Rightarrow> string) \<Rightarrow> string \<Rightarrow> msgd \<Rightarrow> time \<Rightarrow> push_sub list \<Rightarrow> push_state \<Rightarrow>
    push_state \<times> py_error option" where
  "deliver_to py_repr own payload now [] st = (st, None)"
| "deliver_to py_repr own payload now (sub # subs) st =
     (case matches py_repr payload own (ps_filter sub) of
        Inl e \<Rightarrow> (st, Some e)
      | Inr False \<Rightarrow> deliver_to py_repr own payload now subs st
      | Inr True \<Rightarrow> deliver_to py_repr own payload now subs (offer sub payload now st))"

definition handle_mesh_message ::
  "(json \<Rightarrow> string) \<Rightarrow> msgd \<Rightarrow> string \<Rightarrow> string set option \<Rightarrow> push_sub list \<Rightarrow> time \<Rightarrow> push_state \<Rightarrow>
   push_state \<times> py_error option" where
  "handle_mesh_message py_repr raw_message own blocked subs now st =
     (if own = [] then (st, None)
      else case build_gate_view py_repr raw_message of
        Inl e \<Rightarrow> (st, Some e)
      | Inr gate_view \<Rightarrow>
          if \<not> is_eligible py_repr gate_view own then (st, None)
          else if is_sender_blocked py_repr gate_view (case blocked of None \<Rightarrow> {} | Some b \<Rightarrow> b) then (st, None)
          else (case push_key_of py_repr gate_view of
             Inl e \<Rightarrow> (st\<lparr>pd_seen := prune_seen now (pd_seen st)\<rparr>, Some e)
           | Inr key \<Rightarrow>
               (case push_is_duplicate key now (pd_seen st) of
                  (True, s') \<Rightarrow> (st\<lparr>pd_seen := s'\<rparr>, None)
                | (False, s') \<Rightarrow>
                    (case build_push_payload py_repr raw_message of
                       Inl e \<Rightarrow> (st\<lparr>pd_seen := s'\<rparr>, Some e)
                     | Inr payload \<Rightarrow> deliver_to py_repr own payload now subs (st\<lparr>pd_seen := s'\<rparr>)))))"

text \<open>The drain task takes the oldest item.\<close>

definition drain :: "push_state \<Rightarrow> (push_sub \<times> push_item) option \<times> push_state" where
  "drain st = (case pd_queue st of [] \<Rightarrow> (None, st) | it # rest \<Rightarrow> (Some it, st\<lparr>pd_queue := rest\<rparr>))"

definition PRUNE_STATUS_CODES :: "int list" where
  "PRUNE_STATUS_CODES = [401, 403, 404, 410]"

text \<open>What a failed delivery does to the stored subscriptions.\<close>

definition after_delivery_error :: "int option \<Rightarrow> push_sub \<Rightarrow> push_sub list \<Rightarrow> push_sub list" where
  "after_delivery_error status sub subs =
     (case status of
        Some s \<Rightarrow> if s \<in> set PRUNE_STATUS_CODES then filter (\<lambda>x. ps_endpoint x \<noteq> ps_endpoint sub) subs else subs
      | None \<Rightarrow> subs)"

datatype push_event =
    PushMsg msgd string "string set option" "push_sub list"
  | PushSweep
  | PushDrain

definition push_step :: "(json \<Rightarrow> string) \<Rightarrow> time \<times> push_event \<Rightarrow> push_state \<Rightarrow> push_state" where
  "push_step py_repr ev st =
     (case ev of (now, e) \<Rightarrow>
       (case e of
          PushMsg raw own blocked subs \<Rightarrow> fst (handle_mesh_message py_repr raw own blocked subs now st)
        | PushSweep \<Rightarrow> sweep now st
        | PushDrain \<Rightarrow> snd (drain st)))"

definition push_run :: "(json \<Rightarrow> string) \<Rightarrow> (time \<times> push_event) list \<Rightarrow> push_state" where
  "push_run py_repr evs = fold (push_step py_repr) evs push_init"

section \<open>The dedup guard implements the cache contract\<close>

lemma sorted_prune:
  assumes "sorted (map snd s)" "distinct (map fst s)"
  shows "map_of (prune_seen now s) k = (case map_of s k of None \<Rightarrow> None
    | Some ts \<Rightarrow> if now - DEDUP_WINDOW_SECONDS \<le> ts then Some ts else None)"
  using assms
proof (induction s)
  case (Cons e s)
  obtain k0 t0 where e: "e = (k0, t0)" by (cases e)
  show ?case
  proof (cases "now - DEDUP_WINDOW_SECONDS \<le> t0")
    case True
    then have "prune_seen now (e # s) = e # s" by (simp add: prune_seen_def e)
    moreover have "now - DEDUP_WINDOW_SECONDS \<le> ts" if "map_of (e # s) k = Some ts" for ts
    proof -
      have "ts = t0 \<or> ts \<in> snd ` set s" using that e by (auto dest: map_of_SomeD split: if_splits) (force dest: map_of_SomeD)
      with Cons.prems(1) True e show ?thesis by (auto intro: order_trans)
    qed
    ultimately show ?thesis by (auto split: option.split)
  next
    case False
    then have "prune_seen now (e # s) = prune_seen now s" by (simp add: prune_seen_def e)
    moreover have "map_of s k0 = None" using Cons.prems(2) e by (simp add: map_of_eq_None_iff)
    ultimately show ?thesis using Cons False e by auto
  qed
qed (simp add: prune_seen_def)

definition seen_inv :: "time \<Rightarrow> seen \<Rightarrow> bool" where
  "seen_inv t s \<longleftrightarrow> sorted (map snd s) \<and> distinct (map fst s) \<and> (\<forall>x \<in> set (map snd s). x \<le> t)"

lemma update_absent: "\<not> in_dict k s \<Longrightarrow> AList.update k v s = s @ [(k, v)]"
  by (induction s) (auto simp: in_dict_def)

lemma seen_inv_prune: "seen_inv t s \<Longrightarrow> t \<le> t' \<Longrightarrow> seen_inv t' (prune_seen t' s)"
proof -
  assume a: "seen_inv t s" "t \<le> t'"
  obtain pre where "s = pre @ prune_seen t' s"
    unfolding prune_seen_def by (metis takeWhile_dropWhile_id)
  then have "map snd s = map snd pre @ map snd (prune_seen t' s)" "map fst s = map fst pre @ map fst (prune_seen t' s)"
    by (metis map_append)+
  with a show ?thesis unfolding seen_inv_def by (auto simp: sorted_append intro: order_trans)
qed

lemma seen_inv_record: "seen_inv t s \<Longrightarrow> t \<le> t' \<Longrightarrow> \<not> in_dict k s \<Longrightarrow> seen_inv t' (record_seen k t' s)"
  unfolding record_seen_def
  by (auto simp: seen_inv_def update_absent sorted_append in_dict_iff intro: order_trans)

interpretation push_seen: timed_cache
  "\<lambda>s k. map_option (\<lambda>ts. ts + DEDUP_WINDOW_SECONDS) (map_of s k)" "\<lambda>s k. in_dict k s"
  prune_seen "\<lambda>k (v :: unit). record_seen k" "\<lambda>_. DEDUP_WINDOW_SECONDS" seen_inv "[]"
proof unfold_locales
  fix s :: seen and t t' :: time and k
  assume "seen_inv t s"
  then show "map_option (\<lambda>ts. ts + DEDUP_WINDOW_SECONDS) (map_of (prune_seen t' s) k) =
    (if live_at (map_option (\<lambda>ts. ts + DEDUP_WINDOW_SECONDS) (map_of s k)) t'
     then map_option (\<lambda>ts. ts + DEDUP_WINDOW_SECONDS) (map_of s k) else None)"
    by (auto simp: seen_inv_def sorted_prune algebra_simps split: option.splits)
qed (auto simp: record_seen_def in_dict_def seen_inv_prune seen_inv_record[unfolded record_seen_def in_dict_def] seen_inv_def[of _ "[]"])

section \<open>Coalescing\<close>

definition emitted_for :: "string \<Rightarrow> push_state \<Rightarrow> push_item list" where
  "emitted_for e st = map (\<lambda>(t, sub, item). item) (filter (\<lambda>(t, sub, item). ps_endpoint sub = e) (pd_emitted st))"

definition submitted_for :: "string \<Rightarrow> push_state \<Rightarrow> msgd list" where
  "submitted_for e st = map snd (filter (\<lambda>(ep, p). ep = e) (pd_submitted st))"

definition buffer_of :: "string \<Rightarrow> push_state \<Rightarrow> msgd list" where
  "buffer_of e st = (case map_of (pd_windows st) e of None \<Rightarrow> [] | Some w \<Rightarrow> pw_buffer w)"

fun covers :: "push_item \<Rightarrow> msgd list \<Rightarrow> bool" where
  "covers (Immediate p) g = (g = [p])"
| "covers (Summary n p) g = (g \<noteq> [] \<and> length g = n \<and> last g = p)"

definition summarised :: "push_item list \<Rightarrow> msgd list \<Rightarrow> msgd list \<Rightarrow> bool" where
  "summarised items msgs rest \<longleftrightarrow> (\<exists>gs. list_all2 covers items gs \<and> msgs = concat gs @ rest)"

lemma summarised_immediate: "summarised items msgs [] \<Longrightarrow> summarised (items @ [Immediate p]) (msgs @ [p]) []"
  unfolding summarised_def by (elim exE, rule_tac x = "gs @ [[p]]" in exI) (simp add: list_all2_appendI)

lemma summarised_buffered: "summarised items msgs rest \<Longrightarrow> summarised items (msgs @ [p]) (rest @ [p])"
  unfolding summarised_def by auto

lemma summarised_closed:
  "summarised items msgs rest \<Longrightarrow> rest \<noteq> [] \<Longrightarrow> summarised (items @ [Summary (length rest) (last rest)]) msgs []"
  unfolding summarised_def by (elim exE, rule_tac x = "gs @ [rest]" in exI) (simp add: list_all2_appendI)

definition windows_ok :: "push_state \<Rightarrow> bool" where
  "windows_ok st \<longleftrightarrow> list_all (\<lambda>(e, w). ps_endpoint (pw_sub w) = e) (pd_windows st)"

definition coal_inv :: "push_state \<Rightarrow> bool" where
  "coal_inv st \<longleftrightarrow> windows_ok st \<and> (\<forall>e. summarised (emitted_for e st) (submitted_for e st) (buffer_of e st))"

lemma push_enqueue_views [simp]:
  "pd_windows (push_enqueue now sub item st) = pd_windows st" "pd_submitted (push_enqueue now sub item st) = pd_submitted st"
  "pd_seen (push_enqueue now sub item st) = pd_seen st"
  "pd_emitted (push_enqueue now sub item st) = pd_emitted st @ [(now, sub, item)]"
  by (simp_all add: push_enqueue_def)

text \<open>What a round of the loop does to the windows and to the histories.\<close>

lemma offer_opens:
  assumes "map_of (pd_windows st) (ps_endpoint sub) = None"
  shows "pd_windows (offer sub p now st) = AList.update (ps_endpoint sub)
      \<lparr>pw_closes_at = now + COALESCE_WINDOW_SECONDS, pw_buffer = [], pw_sub = sub\<rparr> (pd_windows st)"
    "pd_emitted (offer sub p now st) = pd_emitted st @ [(now, sub, Immediate p)]"
    "pd_submitted (offer sub p now st) = pd_submitted st @ [(ps_endpoint sub, p)]"
    "pd_seen (offer sub p now st) = pd_seen st"
  using assms by (simp_all add: offer_def submit_def Let_def)

lemma offer_buffers:
  assumes "map_of (pd_windows st) (ps_endpoint sub) = Some w"
  shows "pd_windows (offer sub p now st) = AList.update (ps_endpoint sub)
      (w\<lparr>pw_buffer := pw_buffer w @ [p], pw_sub := sub\<rparr>) (pd_windows st)"
    "pd_emitted (offer sub p now st) = pd_emitted st"
    "pd_submitted (offer sub p now st) = pd_submitted st @ [(ps_endpoint sub, p)]"
    "pd_seen (offer sub p now st) = pd_seen st"
  using assms by (simp_all add: offer_def submit_def Let_def)

lemma coal_offer:
  assumes "coal_inv st"
  shows "coal_inv (offer sub p now st)"
proof (cases "map_of (pd_windows st) (ps_endpoint sub)")
  case None
  note o = offer_opens[OF None, of p now]
  have "summarised (emitted_for e st) (submitted_for e st) (buffer_of e st)" for e
    using assms by (simp add: coal_inv_def)
  from this[of "ps_endpoint sub"] this show ?thesis
    using assms None summarised_immediate[of "emitted_for (ps_endpoint sub) st" "submitted_for (ps_endpoint sub) st" p]
    by (auto simp: coal_inv_def windows_ok_def o list_all_update emitted_for_def submitted_for_def buffer_of_def)
next
  case (Some w)
  note o = offer_buffers[OF Some, of p now]
  have "summarised (emitted_for e st) (submitted_for e st) (buffer_of e st)" for e
    using assms by (simp add: coal_inv_def)
  from this[of "ps_endpoint sub"] this show ?thesis
    using assms Some summarised_buffered[of "emitted_for (ps_endpoint sub) st" "submitted_for (ps_endpoint sub) st" "pw_buffer w" p]
    by (auto simp: coal_inv_def windows_ok_def o list_all_update emitted_for_def submitted_for_def buffer_of_def)
qed

lemma close_window_views:
  assumes "map_of (pd_windows st) e = Some w"
  shows "pd_windows (close_window now e st) = AList.delete e (pd_windows st)"
    "pd_submitted (close_window now e st) = pd_submitted st"
    "pd_seen (close_window now e st) = pd_seen st"
    "pd_emitted (close_window now e st) = pd_emitted st @
       (if pw_buffer w = [] then [] else [(now, pw_sub w, Summary (length (pw_buffer w)) (last (pw_buffer w)))])"
  using assms by (simp_all add: close_window_def Let_def)

lemma coal_close:
  assumes "coal_inv st"
  shows "coal_inv (close_window now e st)"
proof (cases "map_of (pd_windows st) e")
  case (Some w)
  note c = close_window_views[OF Some, of now]
  have ep: "ps_endpoint (pw_sub w) = e"
    using list_all_lookup[of "\<lambda>(e, w). ps_endpoint (pw_sub w) = e", OF _ Some] assms
    by (simp add: coal_inv_def windows_ok_def)
  have i: "summarised (emitted_for f st) (submitted_for f st) (buffer_of f st)" for f
    using assms by (simp add: coal_inv_def)
  have "summarised (emitted_for f (close_window now e st)) (submitted_for f (close_window now e st)) (buffer_of f (close_window now e st))" for f
  proof (cases "f = e \<and> pw_buffer w \<noteq> []")
    case True
    with i[of e] Some summarised_closed[of "emitted_for e st" "submitted_for e st" "pw_buffer w"] ep show ?thesis
      by (simp add: c emitted_for_def submitted_for_def buffer_of_def)
  next
    case False
    with i[of f] Some ep show ?thesis
      by (auto simp: c emitted_for_def submitted_for_def buffer_of_def)
  qed
  with assms show ?thesis by (simp add: coal_inv_def windows_ok_def c list_all_delete)
qed (use assms in \<open>simp add: close_window_def\<close>)

lemma coal_close_all: "coal_inv st \<Longrightarrow> coal_inv (fold (close_window now) es st)"
  by (induction es arbitrary: st) (simp_all add: coal_close)

lemma coal_deliver: "coal_inv st \<Longrightarrow> coal_inv (fst (deliver_to py_repr own p now subs st))"
  by (induction py_repr own p now subs st rule: deliver_to.induct) (auto simp: coal_offer split: sum.split bool.split)

lemma coal_other [simp]: "coal_inv (st\<lparr>pd_seen := s\<rparr>) = coal_inv st" "coal_inv (st\<lparr>pd_queue := q\<rparr>) = coal_inv st"
  by (simp_all add: coal_inv_def windows_ok_def emitted_for_def submitted_for_def buffer_of_def)

lemma coal_step: "coal_inv st \<Longrightarrow> coal_inv (push_step py_repr ev st)"
  by (cases ev; cases "snd ev")
    (auto simp: push_step_def handle_mesh_message_def sweep_def drain_def coal_close_all coal_deliver
      split: sum.split option.split list.split bool.split prod.split)

lemma coal_run: "coal_inv (push_run py_repr evs)"
proof -
  have "coal_inv st \<Longrightarrow> coal_inv (fold (push_step py_repr) evs st)" for st
    by (induction evs arbitrary: st) (simp_all add: coal_step)
  moreover have "coal_inv push_init"
    by (simp add: coal_inv_def windows_ok_def push_init_def emitted_for_def submitted_for_def buffer_of_def summarised_def)
  ultimately show ?thesis unfolding push_run_def by blast
qed

section \<open>The distance of immediate pushes\<close>

definition immediate_times :: "string \<Rightarrow> push_state \<Rightarrow> time list" where
  "immediate_times e st = map fst
     (filter (\<lambda>(t, sub, item). ps_endpoint sub = e \<and> (case item of Immediate p \<Rightarrow> True | _ \<Rightarrow> False)) (pd_emitted st))"

definition spaced :: "time list \<Rightarrow> bool" where
  "spaced ts \<longleftrightarrow> sorted_wrt (\<lambda>a b. a + COALESCE_WINDOW_SECONDS \<le> b) ts"

text \<open>The next immediate push can be due at the earliest when the open window closes, or now.\<close>

definition free_at :: "time \<Rightarrow> string \<Rightarrow> push_state \<Rightarrow> time" where
  "free_at now e st = (case map_of (pd_windows st) e of None \<Rightarrow> now | Some w \<Rightarrow> pw_closes_at w)"

definition rate_ok :: "time \<Rightarrow> string \<Rightarrow> push_state \<Rightarrow> bool" where
  "rate_ok now e st \<longleftrightarrow> spaced (immediate_times e st) \<and>
     (\<forall>t \<in> set (immediate_times e st). t + COALESCE_WINDOW_SECONDS \<le> free_at now e st)"

lemma rate_later: "rate_ok now e st \<Longrightarrow> now \<le> now' \<Longrightarrow> rate_ok now' e st"
  unfolding rate_ok_def free_at_def by (auto split: option.splits intro: order_trans)

lemma rate_offer: "rate_ok now e st \<Longrightarrow> rate_ok now e (offer sub p now st)"
proof (cases "map_of (pd_windows st) (ps_endpoint sub)")
  case None
  assume r: "rate_ok now e st"
  note o = offer_opens[OF None, of p now]
  show ?thesis
  proof (cases "e = ps_endpoint sub")
    case True
    with r None have "immediate_times e (offer sub p now st) = immediate_times e st @ [now]"
      "\<forall>t \<in> set (immediate_times e st). t + COALESCE_WINDOW_SECONDS \<le> now"
      "spaced (immediate_times e st)"
      by (simp_all add: rate_ok_def immediate_times_def o free_at_def)
    moreover have "free_at now e (offer sub p now st) = now + COALESCE_WINDOW_SECONDS"
      using True by (simp add: free_at_def o)
    moreover have "0 \<le> COALESCE_WINDOW_SECONDS" by (simp add: COALESCE_WINDOW_SECONDS_def)
    ultimately show ?thesis unfolding rate_ok_def by (force simp: spaced_def sorted_wrt_append)
  next
    case False
    with r show ?thesis by (simp add: rate_ok_def immediate_times_def o free_at_def)
  qed
next
  case (Some w)
  note o = offer_buffers[OF Some, of p now]
  have "immediate_times e (offer sub p now st) = immediate_times e st"
    "free_at now e (offer sub p now st) = free_at now e st"
    using Some by (simp_all add: immediate_times_def o free_at_def)
  moreover assume "rate_ok now e st"
  ultimately show ?thesis by (simp add: rate_ok_def)
qed

lemma rate_close:
  assumes "rate_ok now e st" "f \<in> set (due_endpoints now st)" "distinct (map fst (pd_windows st))"
  shows "rate_ok now e (close_window now f st)"
proof -
  obtain w where w: "map_of (pd_windows st) f = Some w" "pw_closes_at w \<le> now"
    using assms(2,3) by (auto simp: due_endpoints_def)
  have "immediate_times e (close_window now f st) = immediate_times e st"
    by (simp add: immediate_times_def close_window_views[OF w(1)])
  moreover have "free_at now e st \<le> free_at now e (close_window now f st)"
    using w by (simp add: free_at_def close_window_views[OF w(1)] split: option.split)
  ultimately show ?thesis using assms(1) unfolding rate_ok_def by (auto intro: order_trans)
qed

definition win_distinct :: "push_state \<Rightarrow> bool" where
  "win_distinct st \<longleftrightarrow> distinct (map fst (pd_windows st))"

lemma distinct_offer: "win_distinct st \<Longrightarrow> win_distinct (offer sub p now st)"
  by (cases "map_of (pd_windows st) (ps_endpoint sub)")
    (simp_all add: win_distinct_def offer_opens offer_buffers distinct_update)

lemma distinct_close: "win_distinct st \<Longrightarrow> win_distinct (close_window now e st)"
  by (cases "map_of (pd_windows st) e")
    (simp_all add: win_distinct_def close_window_views distinct_delete, simp add: close_window_def)

lemma due_after_close:
  "g \<noteq> f \<Longrightarrow> g \<in> set (due_endpoints now st) \<Longrightarrow> g \<in> set (due_endpoints now (close_window now f st))"
proof (cases "map_of (pd_windows st) f")
  case (Some w)
  assume "g \<noteq> f" "g \<in> set (due_endpoints now st)"
  then show ?thesis
    by (force simp: due_endpoints_def close_window_views(1)[OF Some] AList.delete_eq)
qed (simp add: close_window_def)

lemma rate_close_all:
  "rate_ok now e st \<Longrightarrow> win_distinct st \<Longrightarrow> distinct fs \<Longrightarrow> set fs \<subseteq> set (due_endpoints now st) \<Longrightarrow>
   rate_ok now e (fold (close_window now) fs st) \<and> win_distinct (fold (close_window now) fs st)"
proof (induction fs arbitrary: st)
  case (Cons f fs)
  have "set fs \<subseteq> set (due_endpoints now (close_window now f st))"
  proof
    fix g assume "g \<in> set fs"
    with Cons.prems(3,4) have "g \<noteq> f" "g \<in> set (due_endpoints now st)" by auto
    then show "g \<in> set (due_endpoints now (close_window now f st))" by (rule due_after_close)
  qed
  with Cons.IH[of "close_window now f st"] Cons.prems rate_close[of now e st f] distinct_close[of st now f]
  show ?case by (simp add: win_distinct_def)
qed simp

lemma rate_sweep: "rate_ok now e st \<Longrightarrow> win_distinct st \<Longrightarrow> rate_ok now e (sweep now st) \<and> win_distinct (sweep now st)"
  unfolding sweep_def
  by (rule rate_close_all) (auto simp: due_endpoints_def win_distinct_def distinct_map_filter)

lemma rate_deliver:
  "rate_ok now e st \<Longrightarrow> win_distinct st \<Longrightarrow>
   rate_ok now e (fst (deliver_to py_repr own p now subs st)) \<and> win_distinct (fst (deliver_to py_repr own p now subs st))"
  by (induction py_repr own p now subs st rule: deliver_to.induct)
    (auto simp: rate_offer distinct_offer split: sum.split bool.split)

lemma rate_other [simp]:
  "rate_ok now e (st\<lparr>pd_seen := s\<rparr>) = rate_ok now e st" "rate_ok now e (st\<lparr>pd_queue := q\<rparr>) = rate_ok now e st"
  "win_distinct (st\<lparr>pd_seen := s\<rparr>) = win_distinct st" "win_distinct (st\<lparr>pd_queue := q\<rparr>) = win_distinct st"
  by (simp_all add: rate_ok_def immediate_times_def free_at_def win_distinct_def)

lemma rate_step:
  "rate_ok now e st \<Longrightarrow> win_distinct st \<Longrightarrow>
   rate_ok now e (push_step py_repr (now, ev) st) \<and> win_distinct (push_step py_repr (now, ev) st)"
  by (cases ev)
    (auto simp: push_step_def handle_mesh_message_def drain_def rate_sweep rate_deliver
      split: sum.split option.split list.split bool.split prod.split)

lemma rate_run:
  "rate_ok t e st \<Longrightarrow> win_distinct st \<Longrightarrow> times_from t evs \<Longrightarrow>
   rate_ok (end_time t evs) e (fold (push_step py_repr) evs st)"
proof (induction evs arbitrary: t st)
  case (Cons ev evs)
  obtain t' x where ev: "ev = (t', x)" by (cases ev)
  with Cons.prems have le: "t \<le> t'" "times_from t' evs" by auto
  note s = rate_step[OF rate_later[OF Cons.prems(1) le(1)] Cons.prems(2), of py_repr x]
  from Cons.IH[of t' "push_step py_repr ev st"] s le(2) show ?case by (simp add: ev)
qed simp

section \<open>Where submissions come from\<close>

definition wanted :: "(json \<Rightarrow> string) \<Rightarrow> (time \<times> push_event) list \<Rightarrow> string \<Rightarrow> msgd \<Rightarrow> bool" where
  "wanted py_repr evs e p \<longleftrightarrow> (\<exists>now raw own blocked subs sub gate.
     (now, PushMsg raw own blocked subs) \<in> set evs \<and> sub \<in> set subs \<and> ps_endpoint sub = e \<and>
     build_gate_view py_repr raw = Inr gate \<and> is_eligible py_repr gate own \<and>
     \<not> is_sender_blocked py_repr gate (case blocked of None \<Rightarrow> {} | Some b \<Rightarrow> b) \<and>
     build_push_payload py_repr raw = Inr p \<and> matches py_repr p own (ps_filter sub) = Inr True)"

lemma submitted_offer: "pd_submitted (offer sub p now st) = pd_submitted st @ [(ps_endpoint sub, p)]"
  by (cases "map_of (pd_windows st) (ps_endpoint sub)") (simp_all add: offer_opens offer_buffers)

lemma submitted_deliver:
  "(e, q) \<in> set (pd_submitted (fst (deliver_to py_repr own p now subs st))) \<Longrightarrow>
   (e, q) \<in> set (pd_submitted st) \<or>
   q = p \<and> (\<exists>sub \<in> set subs. ps_endpoint sub = e \<and> matches py_repr p own (ps_filter sub) = Inr True)"
  by (induction py_repr own p now subs st rule: deliver_to.induct)
    (auto simp: submitted_offer split: sum.splits bool.splits)

lemma submitted_sweep: "pd_submitted (sweep now st) = pd_submitted st"
proof -
  have "pd_submitted (close_window now e s) = pd_submitted s" for e s
    by (cases "map_of (pd_windows s) e") (simp_all add: close_window_views, simp add: close_window_def)
  then have "pd_submitted (fold (close_window now) fs s) = pd_submitted s" for fs s
    by (induction fs arbitrary: s) simp_all
  then show ?thesis by (simp add: sweep_def)
qed

lemma submitted_handle:
  assumes "(e, q) \<in> set (pd_submitted (fst (handle_mesh_message py_repr raw own blocked subs now st)))"
  shows "(e, q) \<in> set (pd_submitted st) \<or> wanted py_repr [(now, PushMsg raw own blocked subs)] e q"
proof (cases "(e, q) \<in> set (pd_submitted st)")
  case False
  from assms False obtain gate p s' where g: "build_gate_view py_repr raw = Inr gate" "is_eligible py_repr gate own"
      "\<not> is_sender_blocked py_repr gate (case blocked of None \<Rightarrow> {} | Some b \<Rightarrow> b)"
      "build_push_payload py_repr raw = Inr p"
      "(e, q) \<in> set (pd_submitted (fst (deliver_to py_repr own p now subs (st\<lparr>pd_seen := s'\<rparr>))))"
    unfolding handle_mesh_message_def
    by (auto split: if_splits sum.splits prod.splits bool.splits option.splits)
  from submitted_deliver[OF g(5)] False obtain sub where "q = p" "sub \<in> set subs" "ps_endpoint sub = e"
      "matches py_repr p own (ps_filter sub) = Inr True" by auto
  with g(1-4) show ?thesis unfolding wanted_def by auto
qed simp

lemma wanted_more: "wanted py_repr evs e q \<Longrightarrow> set evs \<subseteq> set evs' \<Longrightarrow> wanted py_repr evs' e q"
  unfolding wanted_def by blast

lemma submitted_run: "(e, q) \<in> set (pd_submitted (push_run py_repr evs)) \<Longrightarrow> wanted py_repr evs e q"
proof (induction evs rule: rev_induct)
  case Nil
  then show ?case by (simp add: push_run_def push_init_def)
next
  case (snoc ev evs)
  let ?st = "push_run py_repr evs"
  have step: "push_run py_repr (evs @ [ev]) = push_step py_repr ev ?st" by (simp add: push_run_def)
  note prems = snoc.prems[unfolded step]
  obtain now x where ev: "ev = (now, x)" by (cases ev)
  have "(e, q) \<in> set (pd_submitted ?st) \<or> wanted py_repr [ev] e q"
  proof (cases x)
    case (PushMsg raw own blocked subs)
    have "(e, q) \<in> set (pd_submitted (fst (handle_mesh_message py_repr raw own blocked subs now ?st)))"
      using prems unfolding ev PushMsg push_step_def by simp
    then show ?thesis unfolding ev PushMsg by (rule submitted_handle)
  next
    case PushDrain
    with prems show ?thesis by (simp add: ev push_step_def drain_def split: list.splits)
  qed (use prems in \<open>simp add: ev push_step_def submitted_sweep\<close>)
  with snoc.IH show ?case by (auto intro: wanted_more)
qed

section \<open>Properties\<close>

fun push_verdicts :: "(time \<times> push_key) list \<Rightarrow> seen \<Rightarrow> bool list" where
  "push_verdicts [] s = []"
| "push_verdicts ((t, k) # rs) s =
     (case push_is_duplicate k t s of (dup, s') \<Rightarrow> (\<not> dup) # push_verdicts rs s')"

lemma push_verdicts_requests:
  "push_verdicts rs s = requests prune_seen (\<lambda>s k. in_dict k s) (\<lambda>k (v :: unit). record_seen k)
     (map (\<lambda>(t, k). (t, k, ())) rs) s"
  by (induction rs arbitrary: s) (auto simp: push_is_duplicate_def Let_def)

text \<open>A message is pushed at most once per hour. For any sequence of messages with their keys in
  the order of time, the guard accepts exactly those whose key was not accepted within the preceding
  3600 seconds, although it looks only at the front of its table when it expires entries.
\<close>

theorem push_dedup_exact:
  assumes "times_from t0 rs"
  shows "push_verdicts rs [] = spec_requests (\<lambda>_. DEDUP_WINDOW_SECONDS) (map (\<lambda>(t, k). (t, k, ())) rs) []"
proof -
  have "times_from t (map (\<lambda>(t, k). (t, k, ())) rs)" if "times_from t rs" for t
    using that by (induction t rs rule: times_from.induct) auto
  with assms show ?thesis unfolding push_verdicts_requests by (intro push_seen.requests_spec)
qed

theorem push_dedup_exact_witness:
  "push_verdicts [(0, ByMsgId (JInt 7)), (10, ByMsgId (JInt 8)), (3600, ByMsgId (JInt 7)), (3601, ByMsgId (JInt 7))] [] =
    [True, True, False, True]"
proof -
  have "times_from 0 [(0 :: time, ByMsgId (JInt 7)), (10, ByMsgId (JInt 8)), (3600, ByMsgId (JInt 7)), (3601, ByMsgId (JInt 7))]"
    by simp
  from push_dedup_exact[OF this] show ?thesis by (simp add: live_in_def DEDUP_WINDOW_SECONDS_def)
qed


text \<open>A busy channel does not flood a browser. As long as the clock does not run backwards, two
  immediate pushes to one endpoint are at least five seconds apart, whatever arrives in between.
\<close>

theorem immediate_pushes_spaced:
  assumes "times_from t0 evs"
  shows "sorted_wrt (\<lambda>a b. a + 5 \<le> b) (immediate_times e (push_run py_repr evs))"
proof -
  have "rate_ok t0 e push_init" "win_distinct push_init"
    by (simp_all add: rate_ok_def win_distinct_def push_init_def immediate_times_def spaced_def)
  from rate_run[OF this assms] show ?thesis
    by (simp add: rate_ok_def spaced_def COALESCE_WINDOW_SECONDS_def push_run_def)
qed

definition demo_sub :: push_sub where
  "demo_sub = \<lparr>ps_endpoint = ''ep'', ps_filter = [(''groups'', JList [JStr '' 232 ''])], ps_info = JNull\<rparr>"

definition demo_push :: "nat \<Rightarrow> push_event" where
  "demo_push i = PushMsg [(''src'', JStr ''OE1ABC-1''), (''dst'', JStr ''OE1KBC-12,232''), (''msg'', JStr ''hi{087''),
     (''msg_id'', JInt (int i))] ''DK5EN-99'' (Some {''OE9BLK-1''}) [demo_sub]"

definition demo_pushes :: "(time \<times> push_event) list" where
  "demo_pushes = [(0, demo_push 1), (1, demo_push 2), (2, demo_push 2), (3, demo_push 3), (5, PushSweep), (6, demo_push 4)]"

lemma demo_emitted:
  "map (\<lambda>(t, sub, item). (t, case item of Immediate p \<Rightarrow> 1 | Summary n p \<Rightarrow> n, map_of (case item of Immediate p \<Rightarrow> p | Summary n p \<Rightarrow> p) ''text''))
     (pd_emitted (push_run (\<lambda>_. []) demo_pushes)) =
   [(0, 1, Some (JStr ''hi'')), (5, 2, Some (JStr ''hi'')), (6, 1, Some (JStr ''hi''))]"
  by code_simp

theorem immediate_pushes_spaced_witness:
  "immediate_times ''ep'' (push_run (\<lambda>_. []) demo_pushes) = [0, 6] \<and>
   sorted_wrt (\<lambda>a b. a + 5 \<le> b) (immediate_times ''ep'' (push_run (\<lambda>_. []) demo_pushes))"
proof -
  have "times_from 0 demo_pushes" by (simp add: demo_pushes_def)
  moreover have "immediate_times ''ep'' (push_run (\<lambda>_. []) demo_pushes) = [0, 6]" by code_simp
  ultimately show ?thesis using immediate_pushes_spaced by blast
qed

text \<open>Only what was asked for is pushed. Everything that was ever enqueued for an endpoint carries the
  payload of a message that arrived, passed all gates on its unstripped text (a chat text, not ours,
  no acknowledgement, no link check, its sender not blocked), and matched a subscription with that
  endpoint.
\<close>

theorem only_wanted_pushed:
  assumes "(t, sub, item) \<in> set (pd_emitted (push_run py_repr evs))"
  shows "wanted py_repr evs (ps_endpoint sub) (case item of Immediate p \<Rightarrow> p | Summary n p \<Rightarrow> p)"
proof -
  let ?st = "push_run py_repr evs" and ?e = "ps_endpoint sub"
  let ?p = "case item of Immediate p \<Rightarrow> p | Summary n p \<Rightarrow> p"
  obtain gs where gs: "list_all2 covers (emitted_for ?e ?st) gs" "submitted_for ?e ?st = concat gs @ buffer_of ?e ?st"
    using coal_run[of py_repr evs] by (auto simp: coal_inv_def summarised_def)
  have "item \<in> set (emitted_for ?e ?st)" using assms by (force simp: emitted_for_def)
  with gs(1) obtain g where g: "g \<in> set gs" "covers item g"
    by (metis in_set_conv_nth list_all2_conv_all_nth)
  then have "?p \<in> set g" by (cases item) auto
  with g(1) gs(2) have "?p \<in> set (submitted_for ?e ?st)" by auto
  then have "(?e, ?p) \<in> set (pd_submitted ?st)" by (auto simp: submitted_for_def)
  then show ?thesis by (rule submitted_run)
qed

theorem only_wanted_pushed_witness:
  "\<exists>t sub item. (t, sub, item) \<in> set (pd_emitted (push_run (\<lambda>_. []) demo_pushes)) \<and>
     wanted (\<lambda>_. []) demo_pushes (ps_endpoint sub) (case item of Immediate p \<Rightarrow> p | Summary n p \<Rightarrow> p)"
proof -
  have "pd_emitted (push_run (\<lambda>_. []) demo_pushes) \<noteq> []" using demo_emitted by auto
  then obtain x where "x \<in> set (pd_emitted (push_run (\<lambda>_. []) demo_pushes))" using list.set_sel(1) by blast
  moreover obtain t sub item where "x = (t, sub, item)" by (cases x)
  ultimately show ?thesis using only_wanted_pushed[of t sub item "\<lambda>_. []" demo_pushes] by blast
qed

end
