(* ===== verification/HeyPath.thy ===== *)
theory HeyPath
  imports LinkFrames
begin

text \<open>
  \<open>hey_path.py\<close>: the parser of the signal-report chain of a HEY beacon. \<open>int()\<close> is the one of the
  prelude, with its limit of 4300 digits; the payload limit keeps every field below it.
\<close>

definition MAX_PAYLOAD_LEN :: nat where
  "MAX_PAYLOAD_LEN = 4096"

definition LEGACY_LEADING_COMMAS :: nat where
  "LEGACY_LEADING_COMMAS = 2"

definition HOP_GROUP_FIELDS :: nat where
  "HOP_GROUP_FIELDS = 3"

record hey_hop =
  hh_ncnt :: int
  hh_rssi :: int
  hh_snr :: int

record hey_chain =
  hc_origin_ncnt :: int
  hc_hops :: "hey_hop list"
  hc_legacy :: bool

definition chain_as_dict :: "hey_chain \<Rightarrow> msgd" where
  "chain_as_dict c =
     [(''origin_ncnt'', JInt (hc_origin_ncnt c)), (''legacy'', JBool (hc_legacy c)),
      (''hops'', JList (map (\<lambda>h. JObj [(''ncnt'', JInt (hh_ncnt h)), (''rssi'', JInt (hh_rssi h)), (''snr'', JInt (hh_snr h))])
        (hc_hops c)))]"

text \<open>\<open>_INT_RE.fullmatch\<close>: an optional minus sign and ASCII digits.\<close>

definition int_token :: "string \<Rightarrow> bool" where
  "int_token s = (let ds = (case s of [] \<Rightarrow> [] | c # r \<Rightarrow> if c = CHR ''-'' then r else s)
                  in ds \<noteq> [] \<and> list_all ascii_digit ds)"

definition parse_int_token :: "string \<Rightarrow> int option res" where
  "parse_int_token token = (if int_token token then bind_res (py_int token) (\<lambda>i. Inr (Some i)) else Inr None)"

definition comma_count :: "string \<Rightarrow> nat" where
  "comma_count s = length (filter (\<lambda>c. c = CHR '','') s)"

definition parse_leading_token :: "string \<Rightarrow> (int \<times> bool) option res" where
  "parse_leading_token token =
     (if \<not> startswith token ''R'' then Inr None
      else
        let remainder = tl token; commas = comma_count remainder in
        if commas = 0 then
          bind_res (parse_int_token remainder) (\<lambda>r. Inr (map_option (\<lambda>i. (i, False)) r))
        else if commas = LEGACY_LEADING_COMMAS then
          bind_res (parse_int_token (before (CHR '','') remainder)) (\<lambda>r. Inr (map_option (\<lambda>i. (i, True)) r))
        else Inr None)"

definition parse_hop_group :: "string \<Rightarrow> hey_hop option res" where
  "parse_hop_group grp =
     (let fields = split_on (CHR '','') grp in
      if length fields \<noteq> HOP_GROUP_FIELDS then Inr None
      else
        bind_res (parse_int_token (fields ! 0)) (\<lambda>ncnt.
        bind_res (parse_int_token (fields ! 1)) (\<lambda>wire_rssi.
        bind_res (parse_int_token (fields ! 2)) (\<lambda>snr.
          case (ncnt, wire_rssi, snr) of
            (Some n, Some r, Some s) \<Rightarrow> Inr (Some \<lparr>hh_ncnt = n, hh_rssi = - r, hh_snr = s\<rparr>)
          | _ \<Rightarrow> Inr None))))"

fun parse_hops :: "string list \<Rightarrow> hey_hop list \<Rightarrow> hey_hop list option res" where
  "parse_hops [] hops = Inr (Some hops)"
| "parse_hops (g # gs) hops =
     (case parse_hop_group g of
        Inl e \<Rightarrow> Inl e
      | Inr None \<Rightarrow> Inr None
      | Inr (Some hop) \<Rightarrow> parse_hops gs (hops @ [hop]))"

definition parse_hey_chain :: "json \<Rightarrow> hey_chain option res" where
  "parse_hey_chain payload0 =
     (case payload0 of
        JStr s \<Rightarrow>
          (let payload1 = strip s in
           if payload1 = [] \<or> MAX_PAYLOAD_LEN < length payload1 then Inr None
           else
             let payload = (if endswith payload1 '';'' then payload1 else payload1 @ '';'') in
             if \<not> endswith payload1 '';'' \<and> MAX_PAYLOAD_LEN < length payload then Inr None
             else
               let parts = split_on (CHR '';'') (butlast payload) in
               bind_res (parse_leading_token (hd parts)) (\<lambda>leading.
                 case leading of
                   None \<Rightarrow> Inr None
                 | Some (origin_ncnt, legacy) \<Rightarrow>
                     bind_res (parse_hops (tl parts) []) (\<lambda>hops.
                       Inr (map_option (\<lambda>hs. \<lparr>hc_origin_ncnt = origin_ncnt, hc_hops = hs, hc_legacy = legacy\<rparr>) hops))))
      | _ \<Rightarrow> Inr None)"

section \<open>Integers of the chain\<close>

lemma int_token_str: "int_token (int_str i)"
proof (cases "i < 0")
  case True
  then show ?thesis using nat_str_digits by (simp add: int_token_def int_str_def)
next
  case False
  obtain c r where c: "nat_str (nat i) = c # r" using nat_str_digits by (meson neq_Nil_conv)
  moreover have "list_all ascii_digit (c # r)" using nat_str_digits[of "nat i"] c by simp
  moreover have "c \<noteq> CHR ''-''" using calculation(2) by (auto simp: ascii_digit_def)
  ultimately show ?thesis using False by (simp add: int_token_def int_str_def)
qed

lemma py_int_text:
  assumes "length (int_str i) \<le> int_max_str_digits"
  shows "py_int (int_str i) = Inr i"
  using assms py_int_neg_digits[of "nat_str (nat (- i))"] py_int_digits[of "nat_str (nat i)"] nat_str_digits
  by (cases "i < 0") (simp_all add: int_str_def)

lemma parse_int_text: "length (int_str i) \<le> 4300 \<Longrightarrow> parse_int_token (int_str i) = Inr (Some i)"
  by (simp add: parse_int_token_def int_token_str py_int_text int_max_str_digits_def)

lemma parse_int_total:
  assumes "length s \<le> 4300"
  shows "\<exists>r. parse_int_token s = Inr r"
proof (cases "int_token s")
  case True
  then obtain c r where s: "s = c # r" by (cases s) (auto simp: int_token_def)
  show ?thesis
  proof (cases "c = CHR ''-''")
    case True
    with \<open>int_token s\<close> s assms py_int_neg_digits[of r] show ?thesis
      by (simp add: parse_int_token_def int_token_def int_max_str_digits_def)
  next
    case False
    with \<open>int_token s\<close> s assms py_int_digits[of s] show ?thesis
      by (simp add: parse_int_token_def int_token_def int_max_str_digits_def)
  qed
qed (simp add: parse_int_token_def)

lemma int_str_chars: "c \<in> set (int_str i) \<Longrightarrow> ascii_digit c \<or> c = CHR ''-''"
  using nat_str_digits by (auto simp: int_str_def list_all_iff split: if_splits)

lemma int_str_sep: "CHR '';'' \<notin> set (int_str i)" "CHR '','' \<notin> set (int_str i)"
  using int_str_chars[of "CHR '';''" i] int_str_chars[of "CHR '',''" i] by (auto simp: ascii_digit_def)

lemma split_on_append: "c \<notin> set w \<Longrightarrow> split_on c (w @ c # s) = w # split_on c s"
  unfolding split_on_def by (rule split_by_append) auto

lemma split_on_none: "c \<notin> set w \<Longrightarrow> split_on c w = [w]"
  unfolding split_on_def by (rule split_by_none) auto

lemma length_concat_member: "h \<in> set hs \<Longrightarrow> length (f h) \<le> length (concat (map (\<lambda>h. c # f h) hs))"
  by (induction hs) auto

lemma int_str_no_space: "d \<in> set (int_str i) \<Longrightarrow> \<not> is_space d"
  using int_str_chars[of d i] by (auto simp: digit_not_space) (simp add: is_space_def)

lemma sep_no_space: "\<not> is_space (CHR '','')" "\<not> is_space (CHR '';'')" "\<not> is_space (CHR ''R'')"
  by (simp_all add: is_space_def)

lemma int_str_nonempty: "int_str i \<noteq> []"
  using nat_str_digits by (simp add: int_str_def)

section \<open>The parser never raises\<close>

lemma parse_hop_group_total:
  assumes "length g \<le> 4300"
  shows "\<exists>r. parse_hop_group g = Inr r"
proof (cases "length (split_on (CHR '','') g) = 3")
  case True
  then obtain a b c where f: "split_on (CHR '','') g = [a, b, c]"
    by (auto simp: numeral_3_eq_3 length_Suc_conv)
  have "length w \<le> 4300" if "w \<in> {a, b, c}" for w
    using split_by_length[of w "\<lambda>x. x = CHR '',''" g] that f assms by (auto simp: split_on_def)
  then obtain x y z where "parse_int_token a = Inr x" "parse_int_token b = Inr y" "parse_int_token c = Inr z"
    using parse_int_total by (metis insertCI)
  then show ?thesis by (simp add: parse_hop_group_def f HOP_GROUP_FIELDS_def split: option.split)
qed (simp add: parse_hop_group_def HOP_GROUP_FIELDS_def)

lemma parse_hops_total: "\<forall>g \<in> set gs. length g \<le> 4300 \<Longrightarrow> \<exists>r. parse_hops gs hs = Inr r"
proof (induction gs arbitrary: hs)
  case (Cons g gs)
  then obtain r where "parse_hop_group g = Inr r" using parse_hop_group_total by (meson list.set_intros(1))
  with Cons show ?case by (cases r) auto
qed simp

lemma before_length: "length (before c s) \<le> length s"
  by (simp add: before_def length_takeWhile_le)

lemma parse_leading_total:
  assumes "length t \<le> 4300"
  shows "\<exists>r. parse_leading_token t = Inr r"
proof -
  have "length (tl t) \<le> 4300" "length (before (CHR '','') (tl t)) \<le> 4300"
    using assms before_length[of "CHR '',''" "tl t"] by simp_all
  then obtain x y where "parse_int_token (tl t) = Inr x" "parse_int_token (before (CHR '','') (tl t)) = Inr y"
    using parse_int_total by metis
  then show ?thesis by (simp add: parse_leading_token_def Let_def)
qed

text \<open>Data straight off the air never makes the parser raise. For any value in the field, of any type
  and any length, parsing returns a chain or None: the payload limit keeps every number far below the
  4300 digits at which \<open>int()\<close> refuses.
\<close>

theorem hey_never_raises: "\<exists>r. parse_hey_chain v = Inr r"
proof (cases v)
  case (JStr s)
  let ?p1 = "strip s"
  let ?p = "if endswith ?p1 '';'' then ?p1 else ?p1 @ '';''"
  show ?thesis
  proof (cases "?p1 = [] \<or> MAX_PAYLOAD_LEN < length ?p1 \<or> \<not> endswith ?p1 '';'' \<and> MAX_PAYLOAD_LEN < length ?p")
    case True
    then show ?thesis by (auto simp: parse_hey_chain_def JStr Let_def)
  next
    case False
    define parts where "parts = split_on (CHR '';'') (butlast ?p)"
    have "length (butlast ?p) \<le> 4300" using False by (auto simp: MAX_PAYLOAD_LEN_def)
    then have len: "\<forall>w \<in> set parts. length w \<le> 4300"
      using split_by_length by (fastforce simp: parts_def split_on_def)
    moreover have "parts \<noteq> []" by (simp add: parts_def split_on_def)
    ultimately obtain x y where "parse_leading_token (hd parts) = Inr x" "parse_hops (tl parts) [] = Inr y"
      using parse_leading_total[of "hd parts"] parse_hops_total[of "tl parts" "[]"]
      by (metis hd_in_set list.set_sel(2))
    with False show ?thesis
      by (auto simp: parse_hey_chain_def JStr Let_def parts_def[symmetric] split: option.split)
  qed
qed (simp_all add: parse_hey_chain_def)

section \<open>The wire format\<close>

definition hop_text :: "hey_hop \<Rightarrow> string" where
  "hop_text h = int_str (hh_ncnt h) @ '','' @ int_str (- hh_rssi h) @ '','' @ int_str (hh_snr h)"

text \<open>A chain as the firmware writes it; \<open>a\<close> and \<open>b\<close> are the two values of the legacy form.\<close>

definition chain_text :: "hey_chain \<Rightarrow> int \<Rightarrow> int \<Rightarrow> string" where
  "chain_text c a b =
     ''R'' @ int_str (hc_origin_ncnt c) @ (if hc_legacy c then '','' @ int_str a @ '','' @ int_str b else []) @ '';'' @
     concat (map (\<lambda>h. hop_text h @ '';'') (hc_hops c))"

lemma parse_hop_text:
  assumes "length (hop_text h) \<le> 4300"
  shows "parse_hop_group (hop_text h) = Inr (Some h)"
proof -
  have "split_on (CHR '','') (hop_text h) = [int_str (hh_ncnt h), int_str (- hh_rssi h), int_str (hh_snr h)]"
    using int_str_sep(2) by (simp add: hop_text_def split_on_append split_on_none)
  moreover have "length (int_str (hh_ncnt h)) \<le> 4300" "length (int_str (- hh_rssi h)) \<le> 4300" "length (int_str (hh_snr h)) \<le> 4300"
    using assms by (simp_all add: hop_text_def)
  ultimately show ?thesis by (simp add: parse_hop_group_def HOP_GROUP_FIELDS_def parse_int_text)
qed

lemma parse_hops_text:
  "\<forall>h \<in> set hs. length (hop_text h) \<le> 4300 \<Longrightarrow> parse_hops (map hop_text hs) acc = Inr (Some (acc @ hs))"
  by (induction hs arbitrary: acc) (simp_all add: parse_hop_text)

lemma hop_text_sep: "CHR '';'' \<notin> set (hop_text h)"
  using int_str_sep(1) by (auto simp: hop_text_def)

lemma split_hops:
  "split_on (CHR '';'') (w @ concat (map (\<lambda>h. '';'' @ hop_text h) hs)) = w # map hop_text hs"
  if "CHR '';'' \<notin> set w"
  using that
proof (induction hs arbitrary: w)
  case Nil
  then show ?case by (simp add: split_on_none)
next
  case (Cons h hs)
  with Cons.IH[of "hop_text h"] hop_text_sep show ?case
    by (simp add: split_on_append)
qed

lemma semicolons_shift: "'';'' @ concat (map (\<lambda>h. f h @ '';'') hs) = concat (map (\<lambda>h. '';'' @ f h) hs) @ '';''"
  by (induction hs) auto

text \<open>A HEY chain survives the air. For every chain, in the current or in the legacy form, the text the
  firmware builds parses to that chain, with the sign of the signal strength restored and the two
  legacy values discarded, whether or not the final semicolon was lost.
\<close>

theorem hey_roundtrip:
  assumes "length (chain_text c a b) \<le> 4096"
  shows "parse_hey_chain (JStr (chain_text c a b)) = Inr (Some c) \<and>
    parse_hey_chain (JStr (butlast (chain_text c a b))) = Inr (Some c)"
proof -
  let ?lead = "''R'' @ int_str (hc_origin_ncnt c) @ (if hc_legacy c then '','' @ int_str a @ '','' @ int_str b else [])"
  define body where "body = ?lead @ concat (map (\<lambda>h. '';'' @ hop_text h) (hc_hops c))"
  have t: "chain_text c a b = body @ '';''"
    unfolding chain_text_def body_def append_assoc semicolons_shift by simp
  have sep: "CHR '';'' \<notin> set ?lead" using int_str_sep(1) by auto
  have parts: "split_on (CHR '';'') body = ?lead # map hop_text (hc_hops c)"
    unfolding body_def by (rule split_hops[OF sep])
  have len: "length body \<le> 4095" using assms by (simp add: t)
  have l: "length (int_str (hc_origin_ncnt c)) \<le> 4300" using len by (simp add: body_def)
  have lead: "parse_leading_token ?lead = Inr (Some (hc_origin_ncnt c, hc_legacy c))"
  proof -
    have z: "filter (\<lambda>d. d = CHR '','') (int_str i) = []" for i
      using int_str_sep(2)[of i] by (auto simp: filter_empty_conv)
    show ?thesis using parse_int_text[OF l] int_str_sep(2)
      by (simp add: parse_leading_token_def comma_count_def z LEGACY_LEADING_COMMAS_def Let_def)
  qed
  have "length (hop_text h) \<le> 4300" if "h \<in> set (hc_hops c)" for h
  proof -
    have "length (hop_text h) \<le> length (concat (map (\<lambda>h. '';'' @ hop_text h) (hc_hops c)))"
      using length_concat_member[OF that, of hop_text] by simp
    with len show ?thesis by (simp add: body_def)
  qed
  then have hops: "parse_hops (map hop_text (hc_hops c)) [] = Inr (Some (hc_hops c))"
    by (simp add: parse_hops_text)
  have "body = CHR ''R'' # tl body" "tl body \<noteq> []"
    using int_str_nonempty by (simp_all add: body_def)
  have chars: "\<not> is_space d" if "d \<in> set body" for d
    using that int_str_no_space[of d] sep_no_space by (auto simp: body_def hop_text_def split: if_splits)
  have ends: "\<not> endswith body '';''"
  proof -
    have "last body \<noteq> CHR '';''"
    proof (cases "hc_hops c = []")
      case True
      have "last body \<in> set ?lead" using int_str_nonempty by (simp add: True body_def)
      with sep show ?thesis by auto
    next
      case False
      then obtain hs h where h: "hc_hops c = hs @ [h]" by (metis rev_exhaust)
      then have "last body \<in> set (hop_text h)" using int_str_nonempty by (simp add: body_def hop_text_def)
      with hop_text_sep show ?thesis by auto
    qed
    then show ?thesis by (cases body rule: rev_cases) (auto simp: endswith_def)
  qed
  have s1: "strip (body @ '';'') = body @ '';''" "strip body = body"
    using chars sep_no_space by (auto intro!: strip_no_space simp: list_all_iff)
  have ne: "body \<noteq> []" by (simp add: body_def)
  show ?thesis
    using len ne ends lead hops
    by (simp add: t parse_hey_chain_def s1 MAX_PAYLOAD_LEN_def Let_def endswith_def parts)
qed

theorem hey_roundtrip_witness:
  "parse_hey_chain (JStr ''R12;8,101,-7;15,95,5;'') =
    Inr (Some \<lparr>hc_origin_ncnt = 12, hc_hops = [\<lparr>hh_ncnt = 8, hh_rssi = - 101, hh_snr = - 7\<rparr>,
      \<lparr>hh_ncnt = 15, hh_rssi = - 95, hh_snr = 5\<rparr>], hc_legacy = False\<rparr>)"
proof -
  let ?c = "\<lparr>hc_origin_ncnt = 12, hc_hops = [\<lparr>hh_ncnt = 8, hh_rssi = - 101, hh_snr = - 7\<rparr>,
      \<lparr>hh_ncnt = 15, hh_rssi = - 95, hh_snr = 5\<rparr>], hc_legacy = False\<rparr>"
  have t: "chain_text ?c 0 0 = ''R12;8,101,-7;15,95,5;''"
    by (simp add: chain_text_def hop_text_def int_str_def num_text_eval)
  have "length (chain_text ?c 0 0) \<le> 4096" unfolding t by simp
  from hey_roundtrip[OF this] show ?thesis unfolding t by blast
qed

end
