(* ===== verification/BleRegisters.thy ===== *)
theory BleRegisters
  imports Interfaces
begin

text \<open>
  The BLE link state as the proxy sees it (\<open>BLEClientRemote\<close> in ble_client_remote.py) and the
  register cache that follows it (\<open>MessageRouter\<close> and \<open>_wire_ble_caches\<close> in main.py): the detached
  hydration sweep, the level-triggered reconciler with its log throttling, and the handlers that
  wipe, fill and schedule. Every handler is one step up to its HTTP call; an answer of
  ble_service is an argument, \<open>None\<close> where the request raises. The two background tasks are part of
  the state: a sleeping task with the delay it sleeps, or a sweep with the commands already asked.
  Publishing \<open>ble_status\<close> runs the subscriber \<open>_clear_ble_cache_on_disconnect\<close> in place.
\<close>

section \<open>Constants and state\<close>

definition BLE_REGISTER_TYPES :: "string list" where
  "BLE_REGISTER_TYPES = [''I'', ''SN'', ''G'', ''SA'', ''SE'', ''S1'', ''SW'', ''S2'', ''W'', ''AN'', ''IO'', ''TM'']"

definition REQUIRED_BLE_REGISTER_TYPES :: "string set" where
  "REQUIRED_BLE_REGISTER_TYPES = {''I'', ''SN'', ''G'', ''SA''}"

definition BLE_QUERY_DELAY_STANDARD :: time where "BLE_QUERY_DELAY_STANDARD = 8 / 10"
definition BLE_QUERY_DELAY_MULTIPART :: time where "BLE_QUERY_DELAY_MULTIPART = 12 / 10"
definition BLE_RETRY_BASE_DELAY :: time where "BLE_RETRY_BASE_DELAY = 1 / 2"
definition BLE_CMD_MAX_RETRIES :: nat where "BLE_CMD_MAX_RETRIES = 3"
definition BLE_HYDRATE_BURST_CLEAR_DELAY_S :: time where "BLE_HYDRATE_BURST_CLEAR_DELAY_S = 12"
definition BLE_HYDRATE_QUIET_DELAY_S :: time where "BLE_HYDRATE_QUIET_DELAY_S = 1"
definition BLE_HYDRATE_REPLAY_GRACE_DELAY_S :: time where "BLE_HYDRATE_REPLAY_GRACE_DELAY_S = 3"
definition BLE_REQUERY_TIMEOUT_S :: time where "BLE_REQUERY_TIMEOUT_S = 25"
definition BLE_RECONCILE_FIRST_CHECK_DELAY_S :: time where "BLE_RECONCILE_FIRST_CHECK_DELAY_S = 15"
definition BLE_RECONCILE_BACKOFF_DELAY_S :: time where "BLE_RECONCILE_BACKOFF_DELAY_S = 60"
definition BLE_RECONCILE_STEADY_INTERVAL_S :: time where "BLE_RECONCILE_STEADY_INTERVAL_S = 600"
definition BLE_RECONCILE_ESCALATION_THRESHOLD :: nat where "BLE_RECONCILE_ESCALATION_THRESHOLD = 6"
definition CONNECT_COOLDOWN_S :: time where "CONNECT_COOLDOWN_S = 15"

datatype conn_state = Disconnected | Connecting | Connected | Disconnecting | Errored

definition from_wire :: "json \<Rightarrow> conn_state" where
  "from_wire state_str =
     (if state_str = JStr ''connecting'' then Connecting
      else if state_str = JStr ''connected'' then Connected
      else if state_str = JStr ''disconnecting'' then Disconnecting
      else if state_str = JStr ''error'' then Errored
      else Disconnected)"

datatype hydration = HSleeping time bool | HSweeping nat

record despam =
  ds_last :: "string set option"
  ds_repeat :: nat
  ds_escalated :: bool

datatype log_level = LogWarning | LogDebug | LogEscalation

text \<open>\<open>rc_log\<close> is a history variable: what the run has logged about missing registers.\<close>

record reconciler =
  rc_delay :: time
  rc_despam :: despam
  rc_log :: "(string set \<times> log_level) list"

record ble_sync =
  bs_state :: conn_state
  bs_address :: json
  bs_last_attempt :: time
  bs_lost :: bool
  bs_regs :: "(string, msgd) dict"
  bs_hydration :: "hydration option"
  bs_reconciler :: "reconciler option"

definition ble_init :: ble_sync where
  "ble_init = \<lparr>bs_state = Disconnected, bs_address = JNull, bs_last_attempt = 0, bs_lost = False,
     bs_regs = [], bs_hydration = None, bs_reconciler = None\<rparr>"

section \<open>Logging of missing registers\<close>

definition despam_init :: despam where
  "despam_init = \<lparr>ds_last = None, ds_repeat = 0, ds_escalated = False\<rparr>"

definition log_missing_registers_despammed :: "string set \<Rightarrow> despam \<Rightarrow> log_level \<times> despam" where
  "log_missing_registers_despammed missing state =
     (if Some missing \<noteq> ds_last state
      then (LogWarning, \<lparr>ds_last = Some missing, ds_repeat = 1, ds_escalated = False\<rparr>)
      else
        let state' = state\<lparr>ds_repeat := ds_repeat state + 1\<rparr> in
        if ds_escalated state' then (LogDebug, state')
        else if ds_repeat state' < BLE_RECONCILE_ESCALATION_THRESHOLD then (LogDebug, state')
        else (LogEscalation, state'\<lparr>ds_escalated := True\<rparr>))"

section \<open>Scheduling: one sweep and one reconciler at a time\<close>

definition missing_required :: "ble_sync \<Rightarrow> string set" where
  "missing_required st = REQUIRED_BLE_REGISTER_TYPES - set (map fst (bs_regs st))"

definition schedule_ble_register_hydration :: "bool \<Rightarrow> bool \<Rightarrow> bool \<Rightarrow> ble_sync \<Rightarrow> bool \<times> ble_sync" where
  "schedule_ble_register_hydration after_hello replay_grace skip_if_complete st =
     (if bs_hydration st \<noteq> None then (False, st)
      else
        let delay = (if after_hello then BLE_HYDRATE_BURST_CLEAR_DELAY_S
                     else if replay_grace then BLE_HYDRATE_REPLAY_GRACE_DELAY_S
                     else BLE_HYDRATE_QUIET_DELAY_S)
        in (True, st\<lparr>bs_hydration := Some (HSleeping delay skip_if_complete)\<rparr>))"

definition cancel_ble_register_hydration :: "ble_sync \<Rightarrow> ble_sync" where
  "cancel_ble_register_hydration st = st\<lparr>bs_hydration := None\<rparr>"

definition reconciler_start :: reconciler where
  "reconciler_start = \<lparr>rc_delay = BLE_RECONCILE_FIRST_CHECK_DELAY_S, rc_despam = despam_init, rc_log = []\<rparr>"

definition arm_ble_register_reconciler :: "ble_sync \<Rightarrow> bool \<times> ble_sync" where
  "arm_ble_register_reconciler st =
     (if bs_reconciler st \<noteq> None then (False, st)
      else (True, st\<lparr>bs_reconciler := Some reconciler_start\<rparr>))"

definition cancel_ble_register_reconciler :: "ble_sync \<Rightarrow> ble_sync" where
  "cancel_ble_register_reconciler st = st\<lparr>bs_reconciler := None\<rparr>"

section \<open>Subscribers of the router\<close>

definition cache_ble_register :: "msgd \<Rightarrow> ble_sync \<Rightarrow> ble_sync" where
  "cache_ble_register data st =
     (case dict_get data ''TYP'' JNull of
        JStr typ \<Rightarrow> if typ \<in> set BLE_REGISTER_TYPES
                    then st\<lparr>bs_regs := AList.update typ data (bs_regs st)\<rparr> else st
      | _ \<Rightarrow> st)"

definition clear_ble_cache_on_disconnect :: "string \<Rightarrow> string \<Rightarrow> ble_sync \<Rightarrow> ble_sync" where
  "clear_ble_cache_on_disconnect cmd result st =
     (if contains cmd ''disconnect'' \<and> result \<in> {''ok'', ''lost''}
      then let st' = st\<lparr>bs_regs := []\<rparr> in
           if bs_state st' = Connected then snd (arm_ble_register_reconciler st') else st'
      else st)"

section \<open>The client\<close>

definition refresh_status :: "msgd option \<Rightarrow> ble_sync \<Rightarrow> ble_sync" where
  "refresh_status answer st =
     (case answer of
        None \<Rightarrow> st
      | Some response \<Rightarrow>
          if truthy (dict_get response ''connected'' JNull)
          then st\<lparr>bs_state := Connected, bs_address := dict_get response ''device_address'' JNull\<rparr>
          else if truthy (dict_get response ''reconnecting'' JNull)
          then st\<lparr>bs_state := Connecting, bs_address := dict_get response ''device_address'' JNull\<rparr>
          else st\<lparr>bs_state := from_wire (dict_get response ''state'' (JStr ''disconnected'')), bs_address := JNull\<rparr>)"

definition client_start :: "msgd option \<Rightarrow> ble_sync \<Rightarrow> ble_sync" where
  "client_start answer st =
     (case answer of
        None \<Rightarrow> st
      | Some status \<Rightarrow>
          if truthy (dict_get status ''connected'' JNull)
          then st\<lparr>bs_state := Connected, bs_address := dict_get status ''device_address'' JNull\<rparr>
          else st\<lparr>bs_state := Disconnected\<rparr>)"

definition connect_begin :: "time \<Rightarrow> ble_sync \<Rightarrow> bool \<times> ble_sync" where
  "connect_begin now st =
     (if bs_state st = Connecting then (False, st)
      else if bs_last_attempt st \<noteq> 0 \<and> now - bs_last_attempt st < CONNECT_COOLDOWN_S then (False, st)
      else (True, clear_ble_cache_on_disconnect ''connect BLE'' ''info''
             (st\<lparr>bs_state := Connecting, bs_last_attempt := now\<rparr>)))"

definition connect_finish :: "json \<Rightarrow> msgd option \<Rightarrow> ble_sync \<Rightarrow> bool \<times> ble_sync" where
  "connect_finish mac answer st =
     (case answer of
        None \<Rightarrow> (False, clear_ble_cache_on_disconnect ''connect BLE result'' ''error'' (st\<lparr>bs_state := Errored\<rparr>))
      | Some response \<Rightarrow>
          if truthy (dict_get response ''success'' (JBool False))
          then (True, snd (arm_ble_register_reconciler
                 (clear_ble_cache_on_disconnect ''connect BLE result'' ''ok''
                   (st\<lparr>bs_state := Connected, bs_address := mac, bs_last_attempt := 0\<rparr>))))
          else (False, clear_ble_cache_on_disconnect ''connect BLE result'' ''error'' (st\<lparr>bs_state := Errored\<rparr>)))"

text \<open>\<open>ensure_connected\<close> has no guard; its answer tells busy from other service errors.\<close>

datatype ensure_answer = ServiceError nat | OtherError | EnsureAnswer msgd

definition ensure_begin :: "ble_sync \<Rightarrow> ble_sync" where
  "ensure_begin st = clear_ble_cache_on_disconnect ''connect BLE'' ''info'' (st\<lparr>bs_state := Connecting\<rparr>)"

definition ensure_finish :: "json \<Rightarrow> ensure_answer \<Rightarrow> ble_sync \<Rightarrow> (json \<times> json) \<times> ble_sync" where
  "ensure_finish mac answer st =
     (case answer of
        ServiceError code \<Rightarrow>
          ((JBool False, if code = 409 then JStr ''busy'' else JNull),
           clear_ble_cache_on_disconnect ''connect BLE result'' ''error'' (st\<lparr>bs_state := Errored\<rparr>))
      | OtherError \<Rightarrow>
          ((JBool False, JNull),
           clear_ble_cache_on_disconnect ''connect BLE result'' ''error'' (st\<lparr>bs_state := Errored\<rparr>))
      | EnsureAnswer response \<Rightarrow>
          let success = dict_get response ''success'' (JBool False) in
          ((success, dict_get response ''error_code'' JNull),
           if truthy success
           then snd (arm_ble_register_reconciler
                 (clear_ble_cache_on_disconnect ''connect BLE result'' ''ok''
                   (st\<lparr>bs_state := Connected, bs_address := mac, bs_last_attempt := 0\<rparr>)))
           else clear_ble_cache_on_disconnect ''connect BLE result'' ''error'' (st\<lparr>bs_state := Errored\<rparr>)))"

definition disconnect_begin :: "ble_sync \<Rightarrow> ble_sync" where
  "disconnect_begin st = clear_ble_cache_on_disconnect ''disconnect BLE'' ''info'' (st\<lparr>bs_state := Disconnecting\<rparr>)"

definition disconnect_finish :: "msgd option \<Rightarrow> ble_sync \<Rightarrow> ble_sync" where
  "disconnect_finish answer st =
     (case answer of
        None \<Rightarrow> clear_ble_cache_on_disconnect ''disconnect BLE result'' ''error'' st
      | Some response \<Rightarrow> clear_ble_cache_on_disconnect ''disconnect BLE result'' ''ok''
          (st\<lparr>bs_state := Disconnected, bs_address := JNull\<rparr>))"

definition cancel_reconnect :: "msgd option \<Rightarrow> ble_sync \<Rightarrow> ble_sync" where
  "cancel_reconnect answer st =
     (case answer of
        None \<Rightarrow> st
      | Some response \<Rightarrow> clear_ble_cache_on_disconnect ''disconnect BLE'' ''ok''
          (st\<lparr>bs_state := Disconnected, bs_address := JNull\<rparr>))"

definition handle_connected_transition :: "conn_state \<Rightarrow> msgd \<Rightarrow> ble_sync \<Rightarrow> ble_sync" where
  "handle_connected_transition old_state status st =
     (let st1 = st\<lparr>bs_address := dict_get status ''device_address'' JNull\<rparr>;
          st2 = (if old_state = Disconnected then clear_ble_cache_on_disconnect ''connect BLE result'' ''ok'' st1 else st1)
      in snd (arm_ble_register_reconciler st2))"

definition handle_status :: "msgd \<Rightarrow> ble_sync \<Rightarrow> ble_sync" where
  "handle_status status st =
     (let old_state = bs_state st; state_str = dict_get status ''state'' (JStr ''disconnected'') in
      if state_str = JStr ''reconnecting''
      then clear_ble_cache_on_disconnect ''reconnecting BLE'' ''info'' (st\<lparr>bs_state := Connecting\<rparr>)
      else if state_str = JStr ''reconnect_exhausted''
      then clear_ble_cache_on_disconnect ''reconnect_exhausted BLE'' ''error'' (st\<lparr>bs_state := Errored\<rparr>)
      else
        let new_state = from_wire state_str; st' = st\<lparr>bs_state := new_state\<rparr> in
        if old_state = new_state then st'
        else if new_state = Disconnected then
          (if dict_get status ''reason'' (JStr ''unknown'') = JStr ''reconnect_cancelled''
           then clear_ble_cache_on_disconnect ''disconnect BLE'' ''ok'' st'
           else clear_ble_cache_on_disconnect ''disconnect BLE'' ''lost'' st')
        else if new_state = Connected then handle_connected_transition old_state status st'
        else st')"

text \<open>The stream dropped: the first half notes the device, the second runs after the grace period.\<close>

definition link_lost_candidate :: "ble_sync \<Rightarrow> json option" where
  "link_lost_candidate st = (if bs_state st \<noteq> Connected then None else Some (bs_address st))"

definition announce_link_lost :: "json \<Rightarrow> ble_sync \<Rightarrow> ble_sync" where
  "announce_link_lost was_connected_device st =
     (if bs_state st = Connected \<and> bs_address st = was_connected_device
      then clear_ble_cache_on_disconnect ''disconnect BLE'' ''lost''
             (st\<lparr>bs_state := Disconnected, bs_address := JNull, bs_lost := True\<rparr>)
      else st)"

definition rehydrate_after_sse_recovery :: "ble_sync \<Rightarrow> ble_sync" where
  "rehydrate_after_sse_recovery st =
     (if \<not> bs_lost st then st
      else snd (schedule_ble_register_hydration False True True (st\<lparr>bs_lost := False\<rparr>)))"

definition handle_conffin :: "ble_sync \<Rightarrow> ble_sync" where
  "handle_conffin st =
     snd (arm_ble_register_reconciler (clear_ble_cache_on_disconnect ''conffin'' ''ok'' st))"

section \<open>The router's sweep\<close>

text \<open>
  One command with its retries: \<open>sends attempt\<close> says whether that attempt reaches the client without
  an exception. The result carries the time slept between attempts.
\<close>

function retry_from :: "nat \<Rightarrow> nat \<Rightarrow> time \<Rightarrow> (nat \<Rightarrow> bool) \<Rightarrow> bool \<times> time" where
  "retry_from attempt max_retries base_delay sends =
     (if attempt < max_retries
      then if sends attempt then (True, 0)
           else if attempt < max_retries - 1
           then let (ok, slept) = retry_from (Suc attempt) max_retries base_delay sends
                in (ok, base_delay * 2 ^ attempt + slept)
           else (False, 0)
      else (False, 0))"
  by pat_completeness auto
termination by (relation "measure (\<lambda>(attempt, max_retries, _). max_retries - attempt)") auto

declare retry_from.simps [simp del]

definition send_ble_command_with_retry :: "(nat \<Rightarrow> bool) \<Rightarrow> bool \<times> time" where
  "send_ble_command_with_retry sends = retry_from 0 BLE_CMD_MAX_RETRIES BLE_RETRY_BASE_DELAY sends"

definition register_queries :: "(string \<times> time) list" where
  "register_queries =
    [(''--info'', BLE_QUERY_DELAY_STANDARD), (''--pos'', BLE_QUERY_DELAY_STANDARD),
     (''--nodeset'', BLE_QUERY_DELAY_STANDARD), (''--aprsset'', BLE_QUERY_DELAY_STANDARD),
     (''--seset'', BLE_QUERY_DELAY_MULTIPART), (''--wifiset'', BLE_QUERY_DELAY_MULTIPART),
     (''--wx'', BLE_QUERY_DELAY_STANDARD), (''--analogset'', BLE_QUERY_DELAY_STANDARD),
     (''--io'', BLE_QUERY_DELAY_STANDARD), (''--tel'', BLE_QUERY_DELAY_STANDARD)]"

text \<open>The whole sweep: per command whether it was sent, and the time slept in total.\<close>

fun query_all :: "(string \<times> time) list \<Rightarrow> (string \<Rightarrow> nat \<Rightarrow> bool) \<Rightarrow> (string \<times> bool) list \<times> time" where
  "query_all [] sends = ([], 0)"
| "query_all ((cmd, delay) # qs) sends =
     (let (success, slept) = send_ble_command_with_retry (sends cmd);
          (rest, more) = query_all qs sends
      in ((cmd, success) # rest, slept + delay + more))"

definition query_ble_registers :: "(string \<Rightarrow> nat \<Rightarrow> bool) \<Rightarrow> (string \<times> bool) list \<times> time" where
  "query_ble_registers sends = query_all register_queries sends"

section \<open>The router's handlers\<close>

text \<open>
  The status frame goes to the asking websocket, or as a broadcast through \<open>ble_status\<close>; only the
  broadcast reaches the subscriber that clears the cache.
\<close>

definition handle_ble_info_command :: "bool \<Rightarrow> bool \<Rightarrow> msgd option \<Rightarrow> ble_sync \<Rightarrow> ble_sync" where
  "handle_ble_info_command websocket query_registers answer st =
     (let st1 = refresh_status answer st;
          is_connected = (bs_state st1 = Connected);
          st2 = (if websocket then st1
                 else if is_connected then clear_ble_cache_on_disconnect ''connect BLE result'' ''ok'' st1
                 else clear_ble_cache_on_disconnect ''disconnect'' ''ok'' st1)
      in if is_connected \<and> query_registers
         then snd (arm_ble_register_reconciler (snd (schedule_ble_register_hydration False False False st2)))
         else st2)"

text \<open>The arguments of the answers: before the connect, of the connect, after it, of the info frame.\<close>

definition handle_ble_connect_command ::
  "json \<Rightarrow> bool \<Rightarrow> time \<Rightarrow> msgd option \<Rightarrow> msgd option \<Rightarrow> msgd option \<Rightarrow> msgd option \<Rightarrow> ble_sync \<Rightarrow> ble_sync" where
  "handle_ble_connect_command mac websocket now answer0 reply answer1 info st =
     (let st1 = refresh_status answer0 st;
          already_connected = (bs_state st1 = Connected);
          st2 = (if already_connected then st1
                 else let (started, s) = connect_begin now st1;
                          s' = (if started then snd (connect_finish mac reply s) else s)
                      in refresh_status answer1 s')
      in if bs_state st2 = Connected
         then snd (arm_ble_register_reconciler (snd (schedule_ble_register_hydration (\<not> already_connected) False False
                (handle_ble_info_command websocket False info st2))))
         else st2)"

definition requery_reused_ble_connection :: "ble_sync \<Rightarrow> ble_sync" where
  "requery_reused_ble_connection st =
     (if bs_state st = Connected then snd (schedule_ble_register_hydration False True True st)
      else snd (arm_ble_register_reconciler st))"

text \<open>The hydration task: its wake-up, its commands one by one, its closing info frame, its timeout.\<close>

definition hydration_wakes :: "msgd option \<Rightarrow> ble_sync \<Rightarrow> ble_sync" where
  "hydration_wakes answer st =
     (case bs_hydration st of
        Some (HSleeping delay skip_if_complete) \<Rightarrow>
          let st1 = refresh_status answer st in
          if bs_state st1 \<noteq> Connected then st1\<lparr>bs_hydration := None\<rparr>
          else if skip_if_complete \<and> missing_required st1 = {} then st1\<lparr>bs_hydration := None\<rparr>
          else st1\<lparr>bs_hydration := Some (HSweeping 0)\<rparr>
      | _ \<Rightarrow> st)"

definition hydration_command :: "ble_sync \<Rightarrow> ble_sync" where
  "hydration_command st =
     (case bs_hydration st of
        Some (HSweeping n) \<Rightarrow> if n < length register_queries then st\<lparr>bs_hydration := Some (HSweeping (n + 1))\<rparr> else st
      | _ \<Rightarrow> st)"

definition hydration_info :: "msgd option \<Rightarrow> ble_sync \<Rightarrow> ble_sync" where
  "hydration_info answer st =
     (case bs_hydration st of
        Some (HSweeping n) \<Rightarrow>
          if n < length register_queries then st
          else (handle_ble_info_command False False answer st)\<lparr>bs_hydration := None\<rparr>
      | _ \<Rightarrow> st)"

definition hydration_timeout :: "ble_sync \<Rightarrow> ble_sync" where
  "hydration_timeout st =
     (case bs_hydration st of Some (HSweeping n) \<Rightarrow> st\<lparr>bs_hydration := None\<rparr> | _ \<Rightarrow> st)"

section \<open>The reconciler\<close>

definition reconcile_check_once :: "time \<Rightarrow> msgd option \<Rightarrow> ble_sync \<Rightarrow> (bool \<times> string set option) \<times> ble_sync" where
  "reconcile_check_once delay answer st =
     (let st1 = refresh_status answer st;
          at_steady_cadence = (BLE_RECONCILE_STEADY_INTERVAL_S \<le> delay) in
      if bs_state st1 = Connecting then ((True, None), st1)
      else if bs_state st1 \<noteq> Connected then ((False, None), st1)
      else
        let missing = missing_required st1 in
        if missing = {} then ((False, None), st1)
        else ((True, if at_steady_cadence then Some missing else None),
              snd (schedule_ble_register_hydration False False True st1)))"

definition next_delay :: "time \<Rightarrow> time" where
  "next_delay delay =
     (if BLE_RECONCILE_BACKOFF_DELAY_S \<le> delay then BLE_RECONCILE_STEADY_INTERVAL_S
      else BLE_RECONCILE_BACKOFF_DELAY_S)"

definition log_observation :: "string set option \<Rightarrow> reconciler \<Rightarrow> reconciler" where
  "log_observation missing r =
     (case missing of
        None \<Rightarrow> r
      | Some m \<Rightarrow>
          let (level, d) = log_missing_registers_despammed m (rc_despam r)
          in r\<lparr>rc_despam := d, rc_log := rc_log r @ [(m, level)]\<rparr>)"

text \<open>One round of \<open>_run_ble_register_reconciler\<close>: the sleep is over, check, log, go on or disarm.\<close>

definition reconciler_round :: "msgd option \<Rightarrow> ble_sync \<Rightarrow> ble_sync" where
  "reconciler_round answer st =
     (case bs_reconciler st of
        None \<Rightarrow> st
      | Some r \<Rightarrow>
          let ((keep_looping, missing), st1) = reconcile_check_once (rc_delay r) answer st;
              r' = log_observation missing r
          in if keep_looping then st1\<lparr>bs_reconciler := Some (r'\<lparr>rc_delay := next_delay (rc_delay r)\<rparr>)\<rparr>
             else st1\<lparr>bs_reconciler := None\<rparr>)"

section \<open>Events\<close>

datatype ble_event =
    EvStart "msgd option"
  | EvRequery
  | EvConnect time
  | EvConnectReply json "msgd option"
  | EvEnsure
  | EvEnsureReply json ensure_answer
  | EvDisconnect
  | EvDisconnectReply "msgd option"
  | EvCancelReconnect "msgd option"
  | EvStatus msgd
  | EvConffin
  | EvNotification msgd
  | EvLinkLost json
  | EvSseRecovered
  | EvConnectCommand json bool time "msgd option" "msgd option" "msgd option" "msgd option"
  | EvInfoCommand bool "msgd option"
  | EvHydrationWakes "msgd option"
  | EvHydrationCommand
  | EvHydrationInfo "msgd option"
  | EvHydrationTimeout
  | EvReconcile "msgd option"

fun ble_step :: "ble_event \<Rightarrow> ble_sync \<Rightarrow> ble_sync" where
  "ble_step (EvStart a) st = client_start a st"
| "ble_step EvRequery st = requery_reused_ble_connection st"
| "ble_step (EvConnect now) st = snd (connect_begin now st)"
| "ble_step (EvConnectReply mac a) st = snd (connect_finish mac a st)"
| "ble_step EvEnsure st = ensure_begin st"
| "ble_step (EvEnsureReply mac a) st = snd (ensure_finish mac a st)"
| "ble_step EvDisconnect st = disconnect_begin st"
| "ble_step (EvDisconnectReply a) st = disconnect_finish a st"
| "ble_step (EvCancelReconnect a) st = cancel_reconnect a st"
| "ble_step (EvStatus status) st = handle_status status st"
| "ble_step EvConffin st = handle_conffin st"
| "ble_step (EvNotification data) st = cache_ble_register data st"
| "ble_step (EvLinkLost device) st = announce_link_lost device st"
| "ble_step EvSseRecovered st = rehydrate_after_sse_recovery st"
| "ble_step (EvConnectCommand mac ws now a0 r a1 a2) st = handle_ble_connect_command mac ws now a0 r a1 a2 st"
| "ble_step (EvInfoCommand ws a) st = handle_ble_info_command ws True a st"
| "ble_step (EvHydrationWakes a) st = hydration_wakes a st"
| "ble_step EvHydrationCommand st = hydration_command st"
| "ble_step (EvHydrationInfo a) st = hydration_info a st"
| "ble_step EvHydrationTimeout st = hydration_timeout st"
| "ble_step (EvReconcile a) st = reconciler_round a st"

definition ble_run :: "ble_event list \<Rightarrow> ble_sync \<Rightarrow> ble_sync" where
  "ble_run evs st = fold ble_step evs st"

lemma ble_run_simps [simp]:
  "ble_run [] st = st" "ble_run (e # evs) st = ble_run evs (ble_step e st)"
  "ble_run (evs @ evs') st = ble_run evs' (ble_run evs st)"
  by (simp_all add: ble_run_def)

section \<open>Single flight\<close>

text \<open>
  The contract both schedulers share: a request is accepted when nothing is in flight, and is then
  in flight; a request that finds one in flight changes nothing.
\<close>

locale single_flight =
  fixes request :: "'r \<Rightarrow> 's \<Rightarrow> bool \<times> 's"
    and in_flight :: "'s \<Rightarrow> bool"
  assumes request_busy: "in_flight s \<Longrightarrow> request r s = (False, s)"
    and request_idle: "\<not> in_flight s \<Longrightarrow> fst (request r s) \<and> in_flight (snd (request r s))"
begin

lemma in_flight_after [simp]: "in_flight (snd (request r s))"
  by (cases "in_flight s") (simp_all add: request_busy request_idle)

lemma accepted_iff: "fst (request r s) \<longleftrightarrow> \<not> in_flight s"
  by (cases "in_flight s") (simp_all add: request_busy request_idle)

fun request_all :: "'r list \<Rightarrow> 's \<Rightarrow> bool list \<times> 's" where
  "request_all [] s = ([], s)"
| "request_all (r # rs) s =
     (let (b, s') = request r s; (bs, s'') = request_all rs s' in (b # bs, s''))"

lemma request_all_busy: "in_flight s \<Longrightarrow> request_all rs s = (replicate (length rs) False, s)"
  by (induction rs) (simp_all add: request_busy)

lemma first_request_wins:
  "\<not> in_flight s \<Longrightarrow> request_all (r # rs) s = (True # replicate (length rs) False, snd (request r s))"
  using request_idle[of s r] by (cases "request r s") (simp add: request_all_busy)

end

definition schedule_request :: "bool \<times> bool \<times> bool \<Rightarrow> ble_sync \<Rightarrow> bool \<times> ble_sync" where
  "schedule_request r st = (case r of (a, g, k) \<Rightarrow> schedule_ble_register_hydration a g k st)"

interpretation sweep: single_flight schedule_request "\<lambda>st. bs_hydration st \<noteq> None"
  by unfold_locales
    (auto simp: schedule_request_def schedule_ble_register_hydration_def Let_def split: prod.splits)

interpretation watch: single_flight "\<lambda>_::unit. arm_ble_register_reconciler" "\<lambda>st. bs_reconciler st \<noteq> None"
  by unfold_locales (auto simp: arm_ble_register_reconciler_def)

lemma arm_fields [simp]:
  "bs_state (snd (arm_ble_register_reconciler st)) = bs_state st"
  "bs_address (snd (arm_ble_register_reconciler st)) = bs_address st"
  "bs_regs (snd (arm_ble_register_reconciler st)) = bs_regs st"
  "bs_hydration (snd (arm_ble_register_reconciler st)) = bs_hydration st"
  "bs_lost (snd (arm_ble_register_reconciler st)) = bs_lost st"
  "\<exists>r. bs_reconciler (snd (arm_ble_register_reconciler st)) = Some r"
  by (auto simp: arm_ble_register_reconciler_def)

lemma schedule_fields [simp]:
  "bs_state (snd (schedule_ble_register_hydration a g k st)) = bs_state st"
  "bs_address (snd (schedule_ble_register_hydration a g k st)) = bs_address st"
  "bs_regs (snd (schedule_ble_register_hydration a g k st)) = bs_regs st"
  "bs_reconciler (snd (schedule_ble_register_hydration a g k st)) = bs_reconciler st"
  "\<exists>h. bs_hydration (snd (schedule_ble_register_hydration a g k st)) = Some h"
  by (auto simp: schedule_ble_register_hydration_def Let_def)

lemma refresh_fields [simp]:
  "bs_regs (refresh_status a st) = bs_regs st"
  "bs_hydration (refresh_status a st) = bs_hydration st"
  "bs_reconciler (refresh_status a st) = bs_reconciler st"
  "bs_lost (refresh_status a st) = bs_lost st"
  by (auto simp: refresh_status_def split: option.splits)

text \<open>Which frames clear the cache, among those the code publishes.\<close>

lemma clear_ble_cache_commands [simp]:
  "clear_ble_cache_on_disconnect ''connect BLE'' r st = st"
  "clear_ble_cache_on_disconnect ''connect BLE result'' r st = st"
  "clear_ble_cache_on_disconnect ''reconnecting BLE'' r st = st"
  "clear_ble_cache_on_disconnect ''reconnect_exhausted BLE'' r st = st"
  "clear_ble_cache_on_disconnect ''conffin'' r st = st"
  "clear_ble_cache_on_disconnect c ''info'' st = st"
  "clear_ble_cache_on_disconnect c ''error'' st = st"
  by (simp_all add: clear_ble_cache_on_disconnect_def startswith_def)

lemma clear_fields [simp]:
  "bs_state (clear_ble_cache_on_disconnect c r st) = bs_state st"
  "bs_address (clear_ble_cache_on_disconnect c r st) = bs_address st"
  "bs_hydration (clear_ble_cache_on_disconnect c r st) = bs_hydration st"
  "bs_lost (clear_ble_cache_on_disconnect c r st) = bs_lost st"
  by (simp_all add: clear_ble_cache_on_disconnect_def Let_def)

lemma clear_not_connected:
  "bs_state st \<noteq> Connected \<Longrightarrow> bs_reconciler (clear_ble_cache_on_disconnect c r st) = bs_reconciler st"
  by (simp add: clear_ble_cache_on_disconnect_def Let_def)

section \<open>The incomplete link is watched\<close>

definition watched :: "ble_sync \<Rightarrow> bool" where
  "watched st \<longleftrightarrow> \<not> (bs_state st = Connected \<and> missing_required st \<noteq> {} \<and> bs_reconciler st = None)"

text \<open>
  The steps that find a connection by asking the service, outside the handlers that arm: the start
  of the client and the probes of the hydration task.
\<close>

fun discovers :: "ble_event \<Rightarrow> ble_sync \<Rightarrow> bool" where
  "discovers (EvStart a) st = (bs_state st \<noteq> Connected \<and> bs_state (client_start a st) = Connected)"
| "discovers (EvHydrationWakes a) st = (bs_state st \<noteq> Connected \<and> bs_state (refresh_status a st) = Connected)"
| "discovers (EvHydrationInfo a) st = (bs_state st \<noteq> Connected \<and> bs_state (refresh_status a st) = Connected)"
| "discovers _ st = False"

fun undiscovered :: "ble_event list \<Rightarrow> ble_sync \<Rightarrow> bool" where
  "undiscovered [] st = True"
| "undiscovered (e # evs) st = (\<not> discovers e st \<and> undiscovered evs (ble_step e st))"

lemma missing_required_cong: "bs_regs s = bs_regs t \<Longrightarrow> missing_required s = missing_required t"
  by (simp add: missing_required_def)

lemma watchedI_state: "bs_state st \<noteq> Connected \<Longrightarrow> watched st"
  by (simp add: watched_def)

lemma watchedI_armed: "bs_reconciler st \<noteq> None \<Longrightarrow> watched st"
  by (simp add: watched_def)

lemma watched_arm [simp]: "watched (snd (arm_ble_register_reconciler st))"
  by (rule watchedI_armed) (rule watch.in_flight_after)

lemma watched_clear: "watched st \<Longrightarrow> watched (clear_ble_cache_on_disconnect c r st)"
  by (auto simp: clear_ble_cache_on_disconnect_def Let_def intro: watchedI_state)

lemma watched_schedule: "watched st \<Longrightarrow> watched (snd (schedule_ble_register_hydration a g k st))"
  by (auto simp: watched_def missing_required_def)

lemma watched_refresh:
  "watched st \<Longrightarrow> bs_state st = Connected \<or> bs_state (refresh_status a st) \<noteq> Connected \<Longrightarrow>
   watched (refresh_status a st)"
  by (auto simp: watched_def missing_required_def)

lemma watched_cache: "watched st \<Longrightarrow> watched (cache_ble_register data st)"
  by (auto simp: watched_def missing_required_def cache_ble_register_def dom_update split: json.splits)

lemma watched_hydration_field [simp]: "watched (st\<lparr>bs_hydration := h\<rparr>) = watched st"
  by (simp add: watched_def missing_required_def)

lemma watched_hydration_wakes:
  assumes "watched st" "bs_state st = Connected \<or> bs_state (refresh_status a st) \<noteq> Connected"
  shows "watched (hydration_wakes a st)"
  using assms watched_refresh[OF assms] by (auto simp: hydration_wakes_def Let_def split: option.splits hydration.splits)

lemma watched_info:
  assumes "watched st" "q \<or> bs_state st = Connected \<or> bs_state (refresh_status a st) \<noteq> Connected"
  shows "watched (handle_ble_info_command ws q a st)"
proof (cases "bs_state (refresh_status a st) = Connected \<and> q")
  case True
  then show ?thesis by (simp add: handle_ble_info_command_def Let_def)
next
  case False
  then have "watched (refresh_status a st)" using assms by (auto intro: watched_refresh watchedI_state)
  then show ?thesis using False by (auto simp: handle_ble_info_command_def Let_def intro: watched_clear)
qed

lemma watched_connect_command: "watched (handle_ble_connect_command mac ws now a0 r a1 a2 st)"
  by (auto simp: handle_ble_connect_command_def Let_def intro: watchedI_state split: prod.splits)

lemma watched_round: "watched st \<Longrightarrow> watched (reconciler_round a st)"
  by (auto simp: watched_def missing_required_def reconciler_round_def reconcile_check_once_def Let_def
      split: option.splits prod.splits if_splits)

lemma watched_status: "watched st \<Longrightarrow> watched (handle_status status st)"
  by (auto simp: handle_status_def handle_connected_transition_def Let_def watched_clear watchedI_state
      intro: watchedI_state) (auto simp: watched_def missing_required_def)

lemma watched_step:
  assumes "watched st" "\<not> discovers ev st"
  shows "watched (ble_step ev st)"
  using assms
proof (cases ev)
  case (EvStart a)
  then show ?thesis using assms
    by (auto simp: client_start_def watched_def missing_required_def split: option.splits if_splits)
next
  case (EvConnect now)
  then show ?thesis using assms by (auto simp: connect_begin_def intro: watchedI_state)
next
  case (EvEnsureReply mac a)
  then show ?thesis by (auto simp: ensure_finish_def Let_def intro: watchedI_state split: ensure_answer.splits)
next
  case EvRequery
  then show ?thesis using assms by (auto simp: requery_reused_ble_connection_def intro: watched_schedule)
next
  case EvSseRecovered
  then show ?thesis using assms
    by (auto simp: rehydrate_after_sse_recovery_def watched_def missing_required_def)
next
  case (EvDisconnectReply a)
  then show ?thesis using assms by (auto simp: disconnect_finish_def intro: watched_clear watchedI_state split: option.splits)
next
  case (EvCancelReconnect a)
  then show ?thesis using assms by (auto simp: cancel_reconnect_def intro: watched_clear watchedI_state split: option.splits)
qed (auto simp: connect_finish_def ensure_begin_def disconnect_begin_def handle_conffin_def
      announce_link_lost_def hydration_command_def hydration_timeout_def hydration_info_def
      intro!: watched_clear watched_info watched_connect_command watched_round watched_status watched_cache
        watched_hydration_wakes
      intro: watchedI_state
      split: option.splits hydration.splits)

lemma watched_run: "watched st \<Longrightarrow> undiscovered evs st \<Longrightarrow> watched (ble_run evs st)"
  by (induction evs arbitrary: st) (auto intro: watched_step)


text \<open>
  The restriction is needed. A connection found at start-up is only swept once; when that sweep times
  out (or delivers too little) the link stays connected and incomplete with nothing scheduled.
\<close>

definition up_answer :: msgd where
  "up_answer = [(''connected'', JBool True), (''device_address'', JStr ''AA'')]"

lemma reused_connection_unwatched:
  "let st = ble_run [EvStart (Some up_answer), EvRequery, EvHydrationWakes (Some up_answer), EvHydrationTimeout] ble_init
   in bs_state st = Connected \<and> missing_required st = REQUIRED_BLE_REGISTER_TYPES \<and>
      bs_hydration st = None \<and> bs_reconciler st = None"
  by (simp add: up_answer_def ble_init_def client_start_def dict_get_def requery_reused_ble_connection_def
      schedule_ble_register_hydration_def hydration_wakes_def refresh_status_def missing_required_def
      hydration_timeout_def REQUIRED_BLE_REGISTER_TYPES_def Let_def)


section \<open>The reconciler's cadence and its log\<close>

text \<open>The reference: how often the last observation has been repeated, and the level that calls for.\<close>

definition streak :: "'a list \<Rightarrow> nat" where
  "streak xs = length (takeWhile (\<lambda>y. y = last xs) (rev xs))"

definition level_of_streak :: "nat \<Rightarrow> log_level" where
  "level_of_streak n = (if n = 1 then LogWarning
     else if n = BLE_RECONCILE_ESCALATION_THRESHOLD then LogEscalation else LogDebug)"

definition despam_spec :: "string set list \<Rightarrow> log_level list" where
  "despam_spec obs = map (\<lambda>i. level_of_streak (streak (take (Suc i) obs))) [0..<length obs]"

lemma streak_snoc: "streak (xs @ [x]) = (if xs \<noteq> [] \<and> last xs = x then Suc (streak xs) else 1)"
  by (cases xs rule: rev_cases) (auto simp: streak_def)

lemma streak_pos: "xs \<noteq> [] \<Longrightarrow> 0 < streak xs"
  by (cases xs rule: rev_cases) (simp_all add: streak_def)

lemma despam_spec_snoc:
  "despam_spec (obs @ [m]) = despam_spec obs @ [level_of_streak (streak (obs @ [m]))]"
  by (simp add: despam_spec_def)

definition despam_ok :: "string set list \<Rightarrow> despam \<Rightarrow> bool" where
  "despam_ok obs d \<longleftrightarrow>
     (if obs = [] then d = despam_init
      else d = \<lparr>ds_last = Some (last obs), ds_repeat = streak obs,
                ds_escalated = (BLE_RECONCILE_ESCALATION_THRESHOLD \<le> streak obs)\<rparr>)"

lemma despam_changed:
  assumes "despam_ok obs d" "obs = [] \<or> last obs \<noteq> m"
  shows "fst (log_missing_registers_despammed m d) = level_of_streak (streak (obs @ [m]))"
    and "despam_ok (obs @ [m]) (snd (log_missing_registers_despammed m d))"
proof -
  have n: "Some m \<noteq> ds_last d" using assms by (cases "obs = []") (simp_all add: despam_ok_def despam_init_def)
  have s: "streak (obs @ [m]) = 1" using assms(2) by (auto simp: streak_snoc)
  show "fst (log_missing_registers_despammed m d) = level_of_streak (streak (obs @ [m]))"
    unfolding s using n by (simp add: log_missing_registers_despammed_def level_of_streak_def)
  show "despam_ok (obs @ [m]) (snd (log_missing_registers_despammed m d))"
    unfolding despam_ok_def s using n
    by (simp add: log_missing_registers_despammed_def BLE_RECONCILE_ESCALATION_THRESHOLD_def)
qed

lemma despam_repeated:
  assumes "despam_ok obs d" "obs \<noteq> []" "last obs = m"
  shows "fst (log_missing_registers_despammed m d) = level_of_streak (streak (obs @ [m]))"
    and "despam_ok (obs @ [m]) (snd (log_missing_registers_despammed m d))"
proof -
  have d: "d = \<lparr>ds_last = Some m, ds_repeat = streak obs,
      ds_escalated = (BLE_RECONCILE_ESCALATION_THRESHOLD \<le> streak obs)\<rparr>"
    using assms by (simp add: despam_ok_def)
  have s: "streak (obs @ [m]) = Suc (streak obs)" using assms(2,3) by (simp add: streak_snoc)
  note p = streak_pos[OF assms(2)]
  show "fst (log_missing_registers_despammed m d) = level_of_streak (streak (obs @ [m]))"
    unfolding s d using p
    by (simp add: log_missing_registers_despammed_def level_of_streak_def Let_def BLE_RECONCILE_ESCALATION_THRESHOLD_def)
  show "despam_ok (obs @ [m]) (snd (log_missing_registers_despammed m d))"
    unfolding despam_ok_def s d
    by (simp add: log_missing_registers_despammed_def Let_def BLE_RECONCILE_ESCALATION_THRESHOLD_def)
qed

lemma despam_step:
  assumes "despam_ok obs d"
  shows "fst (log_missing_registers_despammed m d) = level_of_streak (streak (obs @ [m]))"
    and "despam_ok (obs @ [m]) (snd (log_missing_registers_despammed m d))"
  using despam_changed[OF assms, of m] despam_repeated[OF assms, of m] by auto

definition reconciler_ok :: "reconciler \<Rightarrow> bool" where
  "reconciler_ok r \<longleftrightarrow>
     rc_delay r \<in> {BLE_RECONCILE_FIRST_CHECK_DELAY_S, BLE_RECONCILE_BACKOFF_DELAY_S, BLE_RECONCILE_STEADY_INTERVAL_S} \<and>
     (rc_log r = [] \<or> rc_delay r = BLE_RECONCILE_STEADY_INTERVAL_S) \<and>
     despam_ok (map fst (rc_log r)) (rc_despam r) \<and>
     map snd (rc_log r) = despam_spec (map fst (rc_log r))"

lemmas reconcile_delays = BLE_RECONCILE_FIRST_CHECK_DELAY_S_def BLE_RECONCILE_BACKOFF_DELAY_S_def
  BLE_RECONCILE_STEADY_INTERVAL_S_def

lemma reconciler_ok_start [simp]: "reconciler_ok reconciler_start"
  by (simp add: reconciler_ok_def reconciler_start_def despam_ok_def despam_spec_def)

lemma reconciler_ok_round:
  assumes "reconciler_ok r" "m = None \<or> BLE_RECONCILE_STEADY_INTERVAL_S \<le> rc_delay r"
  shows "reconciler_ok ((log_observation m r)\<lparr>rc_delay := next_delay (rc_delay r)\<rparr>)"
proof (cases m)
  case None
  then show ?thesis using assms(1)
    by (auto simp: reconciler_ok_def log_observation_def next_delay_def reconcile_delays)
next
  case (Some x)
  have d: "despam_ok (map fst (rc_log r)) (rc_despam r)" using assms(1) by (simp add: reconciler_ok_def)
  show ?thesis using assms Some despam_step[OF d, of x]
    by (auto simp: reconciler_ok_def log_observation_def next_delay_def reconcile_delays despam_spec_snoc
        split: prod.splits)
qed


definition schedule_ok :: "ble_sync \<Rightarrow> bool" where
  "schedule_ok st \<longleftrightarrow>
     (case bs_reconciler st of None \<Rightarrow> True | Some r \<Rightarrow> reconciler_ok r) \<and>
     (case bs_hydration st of
        None \<Rightarrow> True
      | Some (HSleeping delay k) \<Rightarrow> delay \<in> {BLE_HYDRATE_BURST_CLEAR_DELAY_S, BLE_HYDRATE_REPLAY_GRACE_DELAY_S, BLE_HYDRATE_QUIET_DELAY_S}
      | Some (HSweeping n) \<Rightarrow> n \<le> length register_queries)"

lemma schedule_ok_fields [simp]:
  "schedule_ok (st\<lparr>bs_state := x\<rparr>) = schedule_ok st"
  "schedule_ok (st\<lparr>bs_address := a\<rparr>) = schedule_ok st"
  "schedule_ok (st\<lparr>bs_last_attempt := t\<rparr>) = schedule_ok st"
  "schedule_ok (st\<lparr>bs_lost := l\<rparr>) = schedule_ok st"
  "schedule_ok (st\<lparr>bs_regs := rs\<rparr>) = schedule_ok st"
  by (simp_all add: schedule_ok_def)

lemma schedule_ok_idle [simp]: "schedule_ok st \<Longrightarrow> schedule_ok (st\<lparr>bs_hydration := None\<rparr>)"
  "schedule_ok st \<Longrightarrow> schedule_ok (st\<lparr>bs_reconciler := None\<rparr>)"
  by (simp_all add: schedule_ok_def)

lemma schedule_ok_arm [simp]: "schedule_ok st \<Longrightarrow> schedule_ok (snd (arm_ble_register_reconciler st))"
  by (auto simp: schedule_ok_def arm_ble_register_reconciler_def)

lemma schedule_ok_schedule [simp]:
  "schedule_ok st \<Longrightarrow> schedule_ok (snd (schedule_ble_register_hydration a g k st))"
  by (auto simp: schedule_ok_def schedule_ble_register_hydration_def Let_def)

lemma schedule_ok_clear [simp]: "schedule_ok st \<Longrightarrow> schedule_ok (clear_ble_cache_on_disconnect c r st)"
  by (simp add: clear_ble_cache_on_disconnect_def Let_def)

lemma schedule_ok_refresh [simp]: "schedule_ok st \<Longrightarrow> schedule_ok (refresh_status a st)"
  by (auto simp: refresh_status_def split: option.splits)

lemma schedule_ok_info [simp]: "schedule_ok st \<Longrightarrow> schedule_ok (handle_ble_info_command ws q a st)"
  by (simp add: handle_ble_info_command_def Let_def)

lemma schedule_ok_connect [simp]:
  "schedule_ok st \<Longrightarrow> schedule_ok (snd (connect_begin now st))"
  "schedule_ok st \<Longrightarrow> schedule_ok (snd (connect_finish mac a st))"
  by (auto simp: connect_begin_def connect_finish_def split: option.splits)

lemma schedule_ok_connect_command [simp]:
  "schedule_ok st \<Longrightarrow> schedule_ok (handle_ble_connect_command mac ws now a0 r a1 a2 st)"
  by (simp add: handle_ble_connect_command_def Let_def case_prod_beta)

lemma schedule_ok_hydration:
  assumes "schedule_ok st"
  shows "schedule_ok (hydration_wakes a st)" "schedule_ok (hydration_command st)"
    "schedule_ok (hydration_info a st)" "schedule_ok (hydration_timeout st)"
proof -
  have r: "case bs_reconciler st of None \<Rightarrow> True | Some r \<Rightarrow> reconciler_ok r"
    using assms by (simp add: schedule_ok_def)
  show "schedule_ok (hydration_wakes a st)" using assms r
    by (auto simp: hydration_wakes_def Let_def schedule_ok_def split: option.splits hydration.splits)
  show "schedule_ok (hydration_command st)" using assms r
    by (auto simp: hydration_command_def schedule_ok_def split: option.splits hydration.splits)
  show "schedule_ok (hydration_info a st)" using assms
    by (auto simp: hydration_info_def split: option.splits hydration.splits)
  show "schedule_ok (hydration_timeout st)" using assms
    by (auto simp: hydration_timeout_def split: option.splits hydration.splits)
qed

lemma schedule_ok_round:
  assumes "schedule_ok st"
  shows "schedule_ok (reconciler_round a st)"
proof (cases "bs_reconciler st")
  case (Some r)
  obtain k m st1 where c: "reconcile_check_once (rc_delay r) a st = ((k, m), st1)"
    by (metis prod.exhaust)
  have m: "m = None \<or> BLE_RECONCILE_STEADY_INTERVAL_S \<le> rc_delay r"
    and ok: "schedule_ok st1" and h: "bs_reconciler st1 = Some r"
    using c assms Some by (auto simp: reconcile_check_once_def Let_def split: if_splits)
  have "reconciler_ok ((log_observation m r)\<lparr>rc_delay := next_delay (rc_delay r)\<rparr>)"
    by (rule reconciler_ok_round) (use assms Some m in \<open>auto simp: schedule_ok_def\<close>)
  then show ?thesis using ok c Some by (auto simp: reconciler_round_def schedule_ok_def)
qed (use assms in \<open>simp add: reconciler_round_def\<close>)

lemma schedule_ok_step: "schedule_ok st \<Longrightarrow> schedule_ok (ble_step ev st)"
  by (cases ev)
    (auto simp: client_start_def requery_reused_ble_connection_def ensure_begin_def ensure_finish_def
      disconnect_begin_def disconnect_finish_def cancel_reconnect_def handle_status_def handle_conffin_def
      handle_connected_transition_def cache_ble_register_def announce_link_lost_def
      rehydrate_after_sse_recovery_def schedule_ok_hydration schedule_ok_round Let_def
      split: option.splits json.splits ensure_answer.splits)

lemma schedule_ok_run: "schedule_ok st \<Longrightarrow> schedule_ok (ble_run evs st)"
  by (induction evs arbitrary: st) (auto intro: schedule_ok_step)

text \<open>In every run, an armed reconciler checks after 15, 60 or 600 seconds, says nothing about missing
  registers before its cadence is 600 seconds, and from then on logs exactly as the reference says:
  a warning for a set it did not see in the previous check, one escalation at the sixth check in a
  row with the same set, and nothing above debug level otherwise.\<close>

theorem missing_registers_logged:
  assumes "bs_reconciler (ble_run evs ble_init) = Some r"
  shows "rc_delay r \<in> {15, 60, 600} \<and> (rc_delay r < 600 \<longrightarrow> rc_log r = []) \<and>
    map snd (rc_log r) = despam_spec (map fst (rc_log r))"
  using schedule_ok_run[of ble_init evs] assms
  by (auto simp: schedule_ok_def ble_init_def reconciler_ok_def reconcile_delays)


lemma missing_registers_logged_witness:
  "(60::rat) \<in> {15, 60, 600} \<and> ((60::rat) < 600 \<longrightarrow> ([]::(string set \<times> log_level) list) = []) \<and>
    map snd ([]::(string set \<times> log_level) list) = despam_spec (map fst ([]::(string set \<times> log_level) list))"
  using missing_registers_logged[of "[EvRequery, EvReconcile (Some up_answer)]"
      "\<lparr>rc_delay = 60, rc_despam = despam_init, rc_log = []\<rparr>"]
  by (simp add: ble_init_def requery_reused_ble_connection_def arm_ble_register_reconciler_def
      reconciler_round_def reconcile_check_once_def refresh_status_def up_answer_def dict_get_def
      reconciler_start_def next_delay_def reconcile_delays log_observation_def missing_required_def
      REQUIRED_BLE_REGISTER_TYPES_def schedule_ble_register_hydration_def Let_def)

text \<open>A run of equal observations: one warning, one escalation, and silence in between and after.\<close>

lemma despam_spec_replicate:
  "despam_spec (replicate n m) = map (\<lambda>i. level_of_streak (Suc i)) [0..<n]"
proof -
  have s: "streak (replicate (Suc i) m) = Suc i" for i
    by (simp add: streak_def del: replicate_Suc)
  have "streak (take (Suc i) (replicate n m)) = Suc i" if "i < n" for i
    using s[of i] that by (simp add: min_def)
  then show ?thesis by (auto simp: despam_spec_def)
qed

section \<open>The sweep\<close>

lemma retry_three:
  "send_ble_command_with_retry sends =
     (if sends 0 then (True, 0) else if sends 1 then (True, 1 / 2)
      else if sends 2 then (True, 3 / 2) else (False, 3 / 2))"
  by (simp add: send_ble_command_with_retry_def BLE_CMD_MAX_RETRIES_def BLE_RETRY_BASE_DELAY_def
      retry_from.simps numeral_2_eq_2)

lemma query_all_facts:
  "map fst (fst (query_all qs sends)) = map fst qs"
  "fst (query_all qs sends) = map (\<lambda>(c, d). (c, sends c 0 \<or> sends c 1 \<or> sends c 2)) qs"
  "sum_list (map snd qs) \<le> snd (query_all qs sends)"
  "snd (query_all qs sends) \<le> sum_list (map snd qs) + 3 / 2 * of_nat (length qs)"
  by (induction qs) (auto simp: retry_three field_simps split: prod.splits)

text \<open>Whatever the client refuses, a sweep asks all ten commands in order, each at most three times, and
  its own pauses (the spacing of the commands and the back-off between attempts) stay between 8.8
  and 23.8 seconds, so they alone never run into the ceiling of 25 seconds.\<close>

theorem sweep_fits_its_ceiling:
  "fst (query_ble_registers sends) = map (\<lambda>(c, d). (c, sends c 0 \<or> sends c 1 \<or> sends c 2)) register_queries \<and>
   88 / 10 \<le> snd (query_ble_registers sends) \<and>
   snd (query_ble_registers sends) \<le> 238 / 10 \<and> 238 / 10 < BLE_REQUERY_TIMEOUT_S"
  using query_all_facts[of register_queries sends]
  by (simp add: query_ble_registers_def register_queries_def BLE_REQUERY_TIMEOUT_S_def
      BLE_QUERY_DELAY_STANDARD_def BLE_QUERY_DELAY_MULTIPART_def del: query_all.simps)

section \<open>Recovery\<close>

definition typ_of :: "ble_event \<Rightarrow> string option" where
  "typ_of ev = (case ev of
      EvNotification data \<Rightarrow> (case dict_get data ''TYP'' JNull of JStr t \<Rightarrow> Some t | _ \<Rightarrow> None)
    | _ \<Rightarrow> None)"

definition sweep_traffic :: "ble_event list \<Rightarrow> bool" where
  "sweep_traffic evs \<longleftrightarrow> list_all (\<lambda>ev. case ev of EvHydrationCommand \<Rightarrow> True | EvNotification data \<Rightarrow> True | _ \<Rightarrow> False) evs"

definition commands_in :: "ble_event list \<Rightarrow> nat" where
  "commands_in evs = length (filter (\<lambda>ev. ev = EvHydrationCommand) evs)"

lemma cache_fields [simp]:
  "bs_state (cache_ble_register data st) = bs_state st"
  "bs_hydration (cache_ble_register data st) = bs_hydration st"
  "bs_reconciler (cache_ble_register data st) = bs_reconciler st"
  by (simp_all add: cache_ble_register_def split: json.splits)

lemma required_known: "t \<in> REQUIRED_BLE_REGISTER_TYPES \<Longrightarrow> t \<in> set BLE_REGISTER_TYPES"
  by (auto simp: REQUIRED_BLE_REGISTER_TYPES_def BLE_REGISTER_TYPES_def)

lemma missing_after_notification:
  "missing_required (cache_ble_register data st) =
   missing_required st - (case typ_of (EvNotification data) of None \<Rightarrow> {} | Some t \<Rightarrow> {t})"
  using required_known
  by (auto simp: missing_required_def cache_ble_register_def typ_of_def dom_update split: json.splits)

lemma hydration_command_fields [simp]:
  "bs_state (hydration_command st) = bs_state st"
  "bs_regs (hydration_command st) = bs_regs st"
  "bs_reconciler (hydration_command st) = bs_reconciler st"
  by (simp_all add: hydration_command_def split: option.splits hydration.splits)

lemma missing_required_hydration_command: "missing_required (hydration_command st) = missing_required st"
  by (simp add: missing_required_def)

lemma sweep_traffic_simps [simp]:
  "sweep_traffic []"
  "sweep_traffic (e # evs) \<longleftrightarrow> (e = EvHydrationCommand \<or> (\<exists>data. e = EvNotification data)) \<and> sweep_traffic evs"
  by (auto simp: sweep_traffic_def split: ble_event.splits)

lemma commands_in_simps [simp]:
  "commands_in [] = 0"
  "commands_in (e # evs) = (if e = EvHydrationCommand then Suc (commands_in evs) else commands_in evs)"
  by (simp_all add: commands_in_def)

text \<open>The traffic of a sweep: answers fill the cache in any interleaving with the commands.\<close>

lemma sweep_traffic_missing:
  "sweep_traffic evs \<Longrightarrow>
   missing_required (ble_run evs st) = missing_required st - {t. Some t \<in> typ_of ` set evs}"
proof (induction evs arbitrary: st)
  case (Cons e evs)
  have "missing_required (ble_step e st) = missing_required st - (case typ_of e of None \<Rightarrow> {} | Some t \<Rightarrow> {t})"
    using Cons.prems by (auto simp: missing_after_notification missing_required_hydration_command typ_of_def)
  then show ?case using Cons by (auto split: option.splits)
qed simp

lemma sweep_traffic_fields:
  "sweep_traffic evs \<Longrightarrow> bs_state (ble_run evs st) = bs_state st \<and> bs_reconciler (ble_run evs st) = bs_reconciler st"
  by (induction evs arbitrary: st) auto

lemma sweep_traffic_idle:
  "sweep_traffic evs \<Longrightarrow> bs_hydration st = None \<Longrightarrow> bs_hydration (ble_run evs st) = None"
proof (induction evs arbitrary: st)
  case (Cons e evs)
  then have "bs_hydration (ble_step e st) = None" by (auto simp: hydration_command_def)
  then show ?case using Cons by auto
qed simp

lemma sweep_traffic_commands:
  "sweep_traffic evs \<Longrightarrow> bs_hydration st = Some (HSweeping n) \<Longrightarrow> n \<le> length register_queries \<Longrightarrow>
   bs_hydration (ble_run evs st) = Some (HSweeping (min (length register_queries) (n + commands_in evs)))"
proof (induction evs arbitrary: st n)
  case (Cons e evs)
  show ?case
  proof (cases "e = EvHydrationCommand \<and> n < length register_queries")
    case True
    then have "bs_hydration (ble_step e st) = Some (HSweeping (Suc n))"
      using Cons.prems by (simp add: hydration_command_def)
    then show ?thesis using Cons.IH[of "ble_step e st" "Suc n"] Cons.prems True by simp
  next
    case False
    then have "bs_hydration (ble_step e st) = Some (HSweeping n)"
      using Cons.prems by (auto simp: hydration_command_def)
    then show ?thesis using Cons.IH[of "ble_step e st" n] Cons.prems False by auto
  qed
qed simp

lemma refresh_up: "truthy (dict_get up ''connected'' JNull) \<Longrightarrow> bs_state (refresh_status (Some up) st) = Connected"
  by (simp add: refresh_status_def)

lemma missing_required_refresh [simp]: "missing_required (refresh_status a st) = missing_required st"
  by (simp add: missing_required_def)

lemma missing_required_schedule [simp]:
  "missing_required (snd (schedule_ble_register_hydration a g k st)) = missing_required st"
  by (simp add: missing_required_def)

lemma missing_required_update [simp]:
  "missing_required (st\<lparr>bs_hydration := h\<rparr>) = missing_required st"
  "missing_required (st\<lparr>bs_reconciler := r\<rparr>) = missing_required st"
  by (simp_all add: missing_required_def)

text \<open>What a check of the reconciler leaves, when the service says the link is up.\<close>

lemma round_up:
  assumes "truthy (dict_get up ''connected'' JNull)" "bs_reconciler st \<noteq> None"
  defines "st' \<equiv> reconciler_round (Some up) st"
  shows "bs_state st' = Connected" "missing_required st' = missing_required st"
    "bs_reconciler st' = None \<longleftrightarrow> missing_required st = {}"
    "missing_required st = {} \<Longrightarrow> bs_hydration st' = bs_hydration st"
    "missing_required st \<noteq> {} \<Longrightarrow> bs_hydration st' \<noteq> None"
    "missing_required st \<noteq> {} \<Longrightarrow> bs_hydration st = None \<Longrightarrow>
       bs_hydration st' = Some (HSleeping BLE_HYDRATE_QUIET_DELAY_S True)"
  using assms refresh_up[OF assms(1), of st]
  by (auto simp: reconciler_round_def reconcile_check_once_def Let_def schedule_ble_register_hydration_def
      split: if_splits)



end
