(* ===== verification/RegisterSalvage.thy ===== *)
theory RegisterSalvage
  imports Utf8
begin

text \<open>
  ble_service/src/main.py: the decoding of a register frame \<open>D{...}\<close>, the repair of one that the
  firmware's buffer has cut off, the register cache and its target, and the callback that queues
  notifications. Text is a list of code points; \<open>loads\<close> stands for \<open>json.loads\<close> (None where it raises
  \<open>JSONDecodeError\<close>). The repair's local variables are the record \<open>scan_state\<close>.
\<close>

section \<open>The scan\<close>

record scan_state =
  sc_depth :: int
  sc_in_string :: bool
  sc_escape :: bool
  sc_awaiting :: bool
  sc_safe :: "nat option"

datatype scan_event = EvNone | EvUnbalanced | EvClosedObject | EvClosedMember | EvComma

definition scan_string_char :: "nat \<Rightarrow> bool \<Rightarrow> int \<Rightarrow> bool \<Rightarrow> bool \<times> bool \<times> bool \<times> bool" where
  "scan_string_char ch escape depth awaiting_value =
     (if escape then (True, awaiting_value, False, False)
      else if ch = 92 then (True, awaiting_value, True, False)
      else if ch = 34 then
        (if depth = 1 \<and> awaiting_value then (False, False, False, True)
         else (False, awaiting_value, False, False))
      else (True, awaiting_value, False, False))"

definition scan_structural_char :: "nat \<Rightarrow> int \<Rightarrow> bool \<Rightarrow> bool \<times> int \<times> bool \<times> scan_event" where
  "scan_structural_char ch depth awaiting_value =
     (if ch = 34 then (True, depth, awaiting_value, EvNone)
      else if ch \<in> {cp (CHR ''{''), cp (CHR ''['')} then (False, depth + 1, awaiting_value, EvNone)
      else if ch \<in> {cp (CHR ''}''), cp (CHR '']'')} then
        (if depth - 1 < 0 then (False, depth - 1, awaiting_value, EvUnbalanced)
         else if depth - 1 = 0 then (False, depth - 1, awaiting_value, EvClosedObject)
         else if depth - 1 = 1 then (False, depth - 1, False, EvClosedMember)
         else (False, depth - 1, awaiting_value, EvNone))
      else if depth = 1 \<and> ch = cp (CHR '':'') then (False, depth, True, EvNone)
      else if depth = 1 \<and> ch = cp (CHR '','') then (False, depth, False, EvComma)
      else (False, depth, awaiting_value, EvNone))"

text \<open>The outcome of the loop: stopped at the end of the outer object, or at the end or a stray bracket.\<close>

datatype scan_out = ScClosed nat | ScBroken "nat option" | ScGoing scan_state

fun scan_loop :: "nat \<Rightarrow> utext \<Rightarrow> scan_state \<Rightarrow> scan_out" where
  "scan_loop i [] st = ScGoing st"
| "scan_loop i (ch # rest) st =
     (if sc_in_string st then
        (case scan_string_char ch (sc_escape st) (sc_depth st) (sc_awaiting st) of
           (in_string, awaiting, escape, closed_value) \<Rightarrow>
             scan_loop (i + 1) rest
               (st\<lparr>sc_in_string := in_string, sc_awaiting := awaiting, sc_escape := escape,
                   sc_safe := (if closed_value then Some (i + 1) else sc_safe st)\<rparr>))
      else
        (case scan_structural_char ch (sc_depth st) (sc_awaiting st) of
           (in_string, depth, awaiting, event) \<Rightarrow>
             let st' = st\<lparr>sc_in_string := in_string, sc_depth := depth, sc_awaiting := awaiting\<rparr> in
             (case event of
                EvUnbalanced \<Rightarrow> ScBroken (sc_safe st)
              | EvClosedObject \<Rightarrow> ScClosed i
              | EvClosedMember \<Rightarrow> scan_loop (i + 1) rest (st'\<lparr>sc_safe := Some (i + 1)\<rparr>)
              | EvComma \<Rightarrow> scan_loop (i + 1) rest (st'\<lparr>sc_safe := Some i\<rparr>)
              | EvNone \<Rightarrow> scan_loop (i + 1) rest st')))"

definition scan_start :: scan_state where
  "scan_start = \<lparr>sc_depth = 0, sc_in_string = False, sc_escape = False, sc_awaiting = False, sc_safe = None\<rparr>"

definition repair_truncated_json_object :: "utext \<Rightarrow> (utext \<times> nat) option" where
  "repair_truncated_json_object json_str =
     (if json_str = [] \<or> hd json_str \<noteq> cp (CHR ''{'') then None
      else
        let trim = (\<lambda>safe. case safe of
              None \<Rightarrow> None
            | Some e \<Rightarrow> Some (take e json_str @ [cp (CHR ''}'')], length json_str - e))
        in (case scan_loop 0 json_str scan_start of
              ScClosed i \<Rightarrow> Some (take (i + 1) json_str, length json_str - (i + 1))
            | ScBroken safe \<Rightarrow> trim safe
            | ScGoing st \<Rightarrow> trim (sc_safe st)))"

definition count_char :: "char \<Rightarrow> utext \<Rightarrow> nat" where
  "count_char c t = length (filter (\<lambda>x. x = cp c) t)"

definition json_frame_looks_truncated :: "utext \<Rightarrow> bool" where
  "json_frame_looks_truncated json_str =
     (let stripped = rev (dropWhile uspace (rev json_str)) in
      if stripped = [] \<or> last stripped \<noteq> cp (CHR ''}'') then True
      else count_char (CHR ''{'') stripped \<noteq> count_char (CHR ''}'') stripped)"

section \<open>Decoding and caching\<close>

datatype notification_format = FmtJson | FmtBinary | FmtUnknown | FmtRaw

record notification =
  nt_format :: notification_format
  nt_parsed :: "json option"
  nt_partial :: bool

fun utf8_strict :: "nat \<Rightarrow> nat list \<Rightarrow> utext option" where
  "utf8_strict 0 bs = (if bs = [] then Some [] else None)"
| "utf8_strict (Suc k) bs =
     (if bs = [] then Some []
      else case utf8_head bs of
          None \<Rightarrow> None
        | Some (c, n) \<Rightarrow> map_option (\<lambda>t. c # t) (utf8_strict k (drop n bs)))"

definition frame_text :: "nat list \<Rightarrow> utext option" where
  "frame_text data =
     (let bs = rev (dropWhile (\<lambda>b. b = 0) (rev data)) in map_option (drop 1) (utf8_strict (length bs) bs))"

definition decode_register_frame :: "(utext \<Rightarrow> json option) \<Rightarrow> nat list \<Rightarrow> notification \<Rightarrow> bool \<times> notification" where
  "decode_register_frame loads data n =
     (case frame_text data of
        None \<Rightarrow> (False, n\<lparr>nt_format := FmtRaw\<rparr>)
      | Some json_str \<Rightarrow>
          (case loads json_str of
             Some parsed \<Rightarrow> (True, n\<lparr>nt_parsed := Some parsed, nt_format := FmtJson\<rparr>)
           | None \<Rightarrow>
               if json_frame_looks_truncated json_str then
                 (case (case repair_truncated_json_object json_str of
                     None \<Rightarrow> None | Some (repaired, discarded) \<Rightarrow> loads repaired) of
                    Some (JObj kvs) \<Rightarrow> (True, n\<lparr>nt_parsed := Some (JObj kvs), nt_format := FmtJson, nt_partial := True\<rparr>)
                  | _ \<Rightarrow> (False, n\<lparr>nt_format := FmtRaw\<rparr>))
               else (False, n\<lparr>nt_format := FmtRaw\<rparr>)))"

definition CACHEABLE_REGISTER_TYPS :: "string list" where
  "CACHEABLE_REGISTER_TYPS = [''I'', ''SN'', ''G'', ''SA'', ''SE'', ''S1'', ''SW'', ''S2'', ''W'', ''IO'', ''TM'', ''AN'']"

definition NOTIFICATION_QUEUE_SIZE :: nat where "NOTIFICATION_QUEUE_SIZE = 1000"

text \<open>The part of \<open>ServiceState\<close> these functions use; the deque drops its oldest entry when full.\<close>

record register_service =
  rg_queue :: "notification list"
  rg_cache :: "(string, msgd) dict"
  rg_cache_mac :: "string option"

definition cache_register_if_applicable :: "json option \<Rightarrow> register_service \<Rightarrow> register_service" where
  "cache_register_if_applicable parsed st =
     (case parsed of
        Some (JObj kvs) \<Rightarrow>
          (case dict_get kvs ''TYP'' JNull of
             JStr typ \<Rightarrow> if typ \<in> set CACHEABLE_REGISTER_TYPS
                         then st\<lparr>rg_cache := AList.update typ kvs (rg_cache st)\<rparr> else st
           | _ \<Rightarrow> st)
      | _ \<Rightarrow> st)"

definition note_register_cache_target :: "string \<Rightarrow> register_service \<Rightarrow> register_service" where
  "note_register_cache_target mac st =
     (let st' = (if rg_cache_mac st \<noteq> None \<and> rg_cache_mac st \<noteq> Some mac then st\<lparr>rg_cache := []\<rparr> else st)
      in st'\<lparr>rg_cache_mac := Some mac\<rparr>)"

definition queue_append :: "notification \<Rightarrow> notification list \<Rightarrow> notification list" where
  "queue_append n q = (let q' = q @ [n] in drop (length q' - NOTIFICATION_QUEUE_SIZE) q')"

definition notification_callback :: "(utext \<Rightarrow> json option) \<Rightarrow> nat list \<Rightarrow> register_service \<Rightarrow> register_service" where
  "notification_callback loads data st =
     (let n = \<lparr>nt_format = FmtUnknown, nt_parsed = None, nt_partial = False\<rparr>;
          put = (\<lambda>n st. st\<lparr>rg_queue := queue_append n (rg_queue st)\<rparr>) in
      if take 2 data = [cp (CHR ''D''), cp (CHR ''{'')] then
        (let (ok, n') = decode_register_frame loads data n in
         if ok then put n' (cache_register_if_applicable (nt_parsed n') st) else st)
      else if take 1 data = [cp (CHR ''@'')] then put (n\<lparr>nt_format := FmtBinary\<rparr>) st
      else put n st)"

section \<open>What the firmware sends\<close>

text \<open>
  A reference for the frames: JSON texts whose strings escape quotation marks and backslashes. A
  scalar token (a number, \<open>true\<close>, \<open>null\<close>) is any text free of structural characters.
\<close>

definition structural :: "nat set" where
  "structural = {34, cp (CHR ''{''), cp (CHR ''}''), cp (CHR ''[''), cp (CHR '']''), cp (CHR '':''), cp (CHR '','')}"

datatype jtext = TScalar utext | TString utext | TArray "jtext list" | TObject "(utext \<times> jtext) list"

fun escaped :: "utext \<Rightarrow> utext" where
  "escaped [] = []"
| "escaped (c # s) = (if c = 34 \<or> c = 92 then 92 # c # escaped s else c # escaped s)"

definition quoted :: "utext \<Rightarrow> utext" where
  "quoted s = 34 # escaped s @ [34]"

fun commas :: "utext list \<Rightarrow> utext" where
  "commas [] = []"
| "commas [t] = t"
| "commas (t # u # ts) = t @ cp (CHR '','') # commas (u # ts)"

fun render :: "jtext \<Rightarrow> utext" where
  "render (TScalar s) = s"
| "render (TString s) = quoted s"
| "render (TArray vs) = cp (CHR ''['') # commas (map render vs) @ [cp (CHR '']'')]"
| "render (TObject ms) =
     cp (CHR ''{'') # commas (map (\<lambda>(k, v). quoted k @ cp (CHR '':'') # render v) ms) @ [cp (CHR ''}'')]"

definition render_member :: "utext \<times> jtext \<Rightarrow> utext" where
  "render_member m = quoted (fst m) @ cp (CHR '':'') # render (snd m)"

fun wf_text :: "jtext \<Rightarrow> bool" where
  "wf_text (TScalar s) = list_all (\<lambda>c. c \<notin> structural) s"
| "wf_text (TString s) = True"
| "wf_text (TArray vs) = list_all wf_text vs"
| "wf_text (TObject ms) = list_all (\<lambda>(k, v). wf_text v) ms"

section \<open>Scanning well-formed pieces\<close>

lemma scan_loop_append:
  "scan_loop i (a @ b) st =
     (case scan_loop i a st of ScGoing st' \<Rightarrow> scan_loop (i + length a) b st' | out \<Rightarrow> out)"
proof (induction a arbitrary: i st)
  case (Cons c a)
  show ?case
    by (auto simp: Cons.IH Let_def split: scan_event.splits prod.splits scan_out.splits)
qed simp

lemma scan_state_eq:
  "(s = (t::scan_state)) \<longleftrightarrow> sc_depth s = sc_depth t \<and> sc_in_string s = sc_in_string t \<and>
     sc_escape s = sc_escape t \<and> sc_awaiting s = sc_awaiting t \<and> sc_safe s = sc_safe t"
  by (cases s, cases t) simp

text \<open>Inside a string: the escaped body moves nothing, wherever it is cut.\<close>

lemma scan_escaped:
  assumes "sc_in_string st" "\<not> sc_escape st"
  shows "scan_loop i (escaped s) st = ScGoing st"
  using assms
proof (induction s arbitrary: i st)
  case (Cons c s)
  have same: "st\<lparr>sc_in_string := True, sc_escape := False\<rparr> = st"
    using Cons.prems by (simp add: scan_state_eq)
  show ?case using Cons same by (simp add: scan_string_char_def)
qed simp

lemma scan_escaped_cut:
  assumes "sc_in_string st" "\<not> sc_escape st"
  shows "\<exists>st'. scan_loop i (take n (escaped s)) st = ScGoing st' \<and> sc_safe st' = sc_safe st"
  using assms
proof (induction s arbitrary: i st n)
  case (Cons c s)
  let ?st = "st\<lparr>sc_in_string := True, sc_escape := False\<rparr>"
  have tail: "\<exists>st'. scan_loop k (take m (escaped s)) ?st = ScGoing st' \<and> sc_safe st' = sc_safe st" for k m
    using Cons.IH[of ?st k m] by simp
  show ?case using tail Cons.prems
    by (cases n; cases "n - 1") (auto simp: scan_string_char_def)
qed simp

text \<open>A piece is silent at a depth when it ends where it began and never sets the safe point.\<close>

definition silent :: "int \<Rightarrow> bool \<Rightarrow> utext \<Rightarrow> bool" where
  "silent d aw t \<longleftrightarrow> (\<forall>i st. sc_depth st = d \<longrightarrow> \<not> sc_in_string st \<longrightarrow> \<not> sc_escape st \<longrightarrow> sc_awaiting st = aw \<longrightarrow>
     scan_loop i t st = ScGoing st \<and>
     (\<forall>n. \<exists>st'. scan_loop i (take n t) st = ScGoing st' \<and> sc_safe st' = sc_safe st))"

lemma silentD:
  assumes "silent d aw t" "sc_depth st = d" "\<not> sc_in_string st" "\<not> sc_escape st" "sc_awaiting st = aw"
  shows "scan_loop i t st = ScGoing st"
    and "\<exists>st'. scan_loop i (take n t) st = ScGoing st' \<and> sc_safe st' = sc_safe st"
  using assms by (auto simp: silent_def)

lemma silent_Nil [simp]: "silent d aw []"
  by (simp add: silent_def)

lemma silent_append:
  assumes "silent d aw a" "silent d aw b"
  shows "silent d aw (a @ b)"
  unfolding silent_def
proof (intro allI impI conjI)
  fix i :: nat and st :: scan_state and n :: nat
  assume s: "sc_depth st = d" "\<not> sc_in_string st" "\<not> sc_escape st" "sc_awaiting st = aw"
  note a = silentD[OF assms(1) s] and b = silentD[OF assms(2) s]
  show "scan_loop i (a @ b) st = ScGoing st" by (simp add: scan_loop_append a(1) b(1))
  show "\<exists>st'. scan_loop i (take n (a @ b)) st = ScGoing st' \<and> sc_safe st' = sc_safe st"
  proof (cases "n \<le> length a")
    case True
    then show ?thesis using a(2)[of i n] by simp
  next
    case False
    then show ?thesis using b(2)[of "i + length a" "n - length a"] by (simp add: scan_loop_append a(1))
  qed
qed

lemma silent_char:
  assumes "scan_structural_char c d aw = (False, d, aw, EvNone)"
  shows "silent d aw [c]"
  unfolding silent_def
proof (intro allI impI conjI)
  fix i :: nat and st :: scan_state and n :: nat
  assume s: "sc_depth st = d" "\<not> sc_in_string st" "\<not> sc_escape st" "sc_awaiting st = aw"
  then have same: "st\<lparr>sc_in_string := False, sc_depth := d, sc_awaiting := aw\<rparr> = st" by (simp add: scan_state_eq)
  show "scan_loop i [c] st = ScGoing st" using assms s same by simp
  show "\<exists>st'. scan_loop i (take n [c]) st = ScGoing st' \<and> sc_safe st' = sc_safe st"
    using assms s same by (cases n) simp_all
qed

lemma silent_plain: "list_all (\<lambda>c. c \<notin> structural) s \<Longrightarrow> silent d aw s"
proof (induction s)
  case (Cons c s)
  then have "silent d aw [c]" by (intro silent_char) (auto simp: scan_structural_char_def structural_def)
  then show ?case using silent_append[of d aw "[c]" s] Cons by simp
qed simp

lemma silent_quoted:
  assumes "\<not> (d = 1 \<and> aw)"
  shows "silent d aw (quoted s)"
  unfolding silent_def
proof (intro allI impI conjI)
  fix i :: nat and st :: scan_state and n :: nat
  assume s: "sc_depth st = d" "\<not> sc_in_string st" "\<not> sc_escape st" "sc_awaiting st = aw"
  define q where "q = st\<lparr>sc_in_string := True, sc_depth := d, sc_awaiting := aw\<rparr>"
  have q: "sc_in_string q" "\<not> sc_escape q" "sc_safe q = sc_safe st" "sc_depth q = d" "sc_awaiting q = aw"
    using s by (simp_all add: q_def)
  have first: "scan_loop i (34 # t) st = scan_loop (Suc i) t q" for i t
    using s by (simp add: scan_structural_char_def q_def)
  have last: "scan_loop j [34] q = ScGoing st" for j
    using q assms s by (auto simp: scan_string_char_def scan_state_eq q_def)
  show "scan_loop i (quoted s) st = ScGoing st"
    by (simp add: quoted_def first scan_loop_append scan_escaped q last del: scan_loop.simps)
  show "\<exists>st'. scan_loop i (take n (quoted s)) st = ScGoing st' \<and> sc_safe st' = sc_safe st"
  proof (cases n)
    case 0
    then show ?thesis by simp
  next
    case (Suc m)
    show ?thesis
    proof (cases "m \<le> length (escaped s)")
      case True
      then show ?thesis using scan_escaped_cut[OF q(1,2), of "Suc i" m s] q(3)
        by (simp add: Suc quoted_def first del: scan_loop.simps)
    next
      case False
      then have "take n (quoted s) = quoted s" by (simp add: quoted_def Suc)
      then show ?thesis
        by (simp add: quoted_def first scan_loop_append scan_escaped q last del: scan_loop.simps)
    qed
  qed
qed

lemma silent_bracket:
  assumes "silent (d + 1) aw t" "2 \<le> d"
    "c \<in> {cp (CHR ''{''), cp (CHR ''['')}" "e \<in> {cp (CHR ''}''), cp (CHR '']'')}"
  shows "silent d aw (c # t @ [e])"
  unfolding silent_def
proof (intro allI impI conjI)
  fix i :: nat and st :: scan_state and n :: nat
  assume s: "sc_depth st = d" "\<not> sc_in_string st" "\<not> sc_escape st" "sc_awaiting st = aw"
  define q where "q = st\<lparr>sc_in_string := False, sc_depth := d + 1, sc_awaiting := aw\<rparr>"
  have q: "sc_depth q = d + 1" "\<not> sc_in_string q" "\<not> sc_escape q" "sc_awaiting q = aw"
    using s by (simp_all add: q_def)
  have qs: "sc_safe q = sc_safe st" by (simp add: q_def)
  have first: "scan_loop i (c # u) st = scan_loop (Suc i) u q" for i u
    using s assms(3) by (auto simp: scan_structural_char_def q_def)
  have last: "scan_loop j [e] q = ScGoing st" for j
    using q assms(2,4) s by (auto simp: scan_structural_char_def scan_state_eq q_def)
  note t = silentD[OF assms(1) q]
  show "scan_loop i (c # t @ [e]) st = ScGoing st"
    by (simp add: first scan_loop_append t(1) last del: scan_loop.simps)
  show "\<exists>st'. scan_loop i (take n (c # t @ [e])) st = ScGoing st' \<and> sc_safe st' = sc_safe st"
  proof (cases n)
    case 0
    then show ?thesis by simp
  next
    case (Suc m)
    show ?thesis
    proof (cases "m \<le> length t")
      case True
      then show ?thesis using t(2)[of "Suc i" m] qs by (simp add: Suc first del: scan_loop.simps)
    next
      case False
      then have "take n (c # t @ [e]) = c # t @ [e]" by (simp add: Suc)
      then show ?thesis by (simp add: first scan_loop_append t(1) last del: scan_loop.simps)
    qed
  qed
qed

lemma silent_comma: "d \<noteq> 1 \<Longrightarrow> silent d aw [cp (CHR '','')]"
  by (rule silent_char) (simp add: scan_structural_char_def)

lemma silent_colon: "d \<noteq> 1 \<Longrightarrow> silent d aw [cp (CHR '':'')]"
  by (rule silent_char) (simp add: scan_structural_char_def)

lemma silent_commas:
  assumes "\<And>t. t \<in> set ts \<Longrightarrow> silent d aw t" "d \<noteq> 1"
  shows "silent d aw (commas ts)"
  using assms
proof (induction ts rule: commas.induct)
  case (3 t u ts)
  have "silent d aw (t @ [cp (CHR '','')] @ commas (u # ts))"
    using 3 silent_comma[OF 3(3)] by (intro silent_append) auto
  then show ?case by simp
qed simp_all

text \<open>A value below the top level is silent.\<close>

lemma silent_value: "wf_text v \<Longrightarrow> 2 \<le> d \<Longrightarrow> silent d aw (render v)"
proof (induction v arbitrary: d)
  case (TScalar s)
  then show ?case by (simp add: silent_plain)
next
  case (TString s)
  then show ?case by (simp add: silent_quoted)
next
  case (TArray vs)
  have "silent (d + 1) aw (commas (map render vs))"
    by (rule silent_commas) (use TArray in \<open>auto simp: list_all_iff\<close>)
  then show ?case using TArray.prems by (simp add: silent_bracket)
next
  case (TObject ms)
  have m: "silent (d + 1) aw (quoted k @ [cp (CHR '':'')] @ render v)" if "(k, v) \<in> set ms" for k v
    using TObject.IH[OF that, of v "d + 1"] TObject.prems that
    by (intro silent_append silent_quoted silent_colon) (auto simp: list_all_iff)
  have "silent (d + 1) aw (commas (map (\<lambda>(k, v). quoted k @ cp (CHR '':'') # render v) ms))"
    by (rule silent_commas) (use m TObject.prems in auto)
  then show ?case using TObject.prems by (simp add: silent_bracket)
qed

text \<open>
  A value of a top-level member, at depth one and awaited: cut short it leaves the safe point alone;
  complete it leaves it, or puts it at its own end.
\<close>

definition top_value :: "utext \<Rightarrow> bool" where
  "top_value t \<longleftrightarrow> (\<forall>i st. sc_depth st = 1 \<longrightarrow> \<not> sc_in_string st \<longrightarrow> \<not> sc_escape st \<longrightarrow> sc_awaiting st \<longrightarrow>
     (\<exists>st'. scan_loop i t st = ScGoing st' \<and> sc_depth st' = 1 \<and> \<not> sc_in_string st' \<and> \<not> sc_escape st' \<and>
        (sc_safe st' = sc_safe st \<or> sc_safe st' = Some (i + length t))) \<and>
     (\<forall>n < length t. \<exists>st'. scan_loop i (take n t) st = ScGoing st' \<and> sc_safe st' = sc_safe st))"

lemma top_value_silent: "silent 1 True t \<Longrightarrow> top_value t"
  unfolding top_value_def silent_def by (metis (full_types))

lemma top_value_quoted: "top_value (quoted s)"
  unfolding top_value_def
proof (intro allI impI conjI)
  fix i :: nat and st :: scan_state and n :: nat
  assume s: "sc_depth st = 1" "\<not> sc_in_string st" "\<not> sc_escape st" "sc_awaiting st"
  define q where "q = st\<lparr>sc_in_string := True, sc_depth := 1, sc_awaiting := True\<rparr>"
  have q: "sc_in_string q" "\<not> sc_escape q" "sc_safe q = sc_safe st" "sc_depth q = 1" "sc_awaiting q"
    using s by (simp_all add: q_def)
  have first: "scan_loop i (34 # t) st = scan_loop (Suc i) t q" for i t
    using s by (simp add: scan_structural_char_def q_def)
  have last: "\<exists>st'. scan_loop j [34] q = ScGoing st' \<and> sc_depth st' = 1 \<and> \<not> sc_in_string st' \<and> \<not> sc_escape st' \<and>
      sc_safe st' = Some (Suc j)" for j
    using q by (simp add: scan_string_char_def)
  show "\<exists>st'. scan_loop i (quoted s) st = ScGoing st' \<and> sc_depth st' = 1 \<and> \<not> sc_in_string st' \<and> \<not> sc_escape st' \<and>
      (sc_safe st' = sc_safe st \<or> sc_safe st' = Some (i + length (quoted s)))"
    using last[of "Suc i + length (escaped s)"]
    by (auto simp: quoted_def first scan_loop_append scan_escaped q simp del: scan_loop.simps)
  assume n: "n < length (quoted s)"
  show "\<exists>st'. scan_loop i (take n (quoted s)) st = ScGoing st' \<and> sc_safe st' = sc_safe st"
  proof (cases n)
    case (Suc m)
    then have "m \<le> length (escaped s)" using n by (simp add: quoted_def)
    then show ?thesis using scan_escaped_cut[OF q(1,2), of "Suc i" m s] q(3)
      by (simp add: Suc quoted_def first del: scan_loop.simps)
  qed simp
qed

lemma top_value_bracket:
  assumes "silent 2 True t" "c \<in> {cp (CHR ''{''), cp (CHR ''['')}" "e \<in> {cp (CHR ''}''), cp (CHR '']'')}"
  shows "top_value (c # t @ [e])"
  unfolding top_value_def
proof (intro allI impI conjI)
  fix i :: nat and st :: scan_state and n :: nat
  assume s: "sc_depth st = 1" "\<not> sc_in_string st" "\<not> sc_escape st" "sc_awaiting st"
  define q where "q = st\<lparr>sc_in_string := False, sc_depth := 2, sc_awaiting := True\<rparr>"
  have q: "sc_depth q = 2" "\<not> sc_in_string q" "\<not> sc_escape q" "sc_awaiting q = True"
    using s by (simp_all add: q_def)
  have qs: "sc_safe q = sc_safe st" by (simp add: q_def)
  have first: "scan_loop i (c # u) st = scan_loop (Suc i) u q" for i u
    using s assms(2) by (auto simp: scan_structural_char_def q_def)
  have last: "\<exists>st'. scan_loop j [e] q = ScGoing st' \<and> sc_depth st' = 1 \<and> \<not> sc_in_string st' \<and> \<not> sc_escape st' \<and>
      sc_safe st' = Some (Suc j)" for j
    using q assms(3) by (auto simp: scan_structural_char_def)
  note t = silentD[OF assms(1) q]
  show "\<exists>st'. scan_loop i (c # t @ [e]) st = ScGoing st' \<and> sc_depth st' = 1 \<and> \<not> sc_in_string st' \<and> \<not> sc_escape st' \<and>
      (sc_safe st' = sc_safe st \<or> sc_safe st' = Some (i + length (c # t @ [e])))"
    using last[of "Suc i + length t"]
    by (auto simp: first scan_loop_append t(1) simp del: scan_loop.simps)
  assume n: "n < length (c # t @ [e])"
  show "\<exists>st'. scan_loop i (take n (c # t @ [e])) st = ScGoing st' \<and> sc_safe st' = sc_safe st"
  proof (cases n)
    case (Suc m)
    then have "m \<le> length t" using n by simp
    then show ?thesis using t(2)[of "Suc i" m] qs by (simp add: Suc first del: scan_loop.simps)
  qed simp
qed

lemma top_value_render: "wf_text v \<Longrightarrow> top_value (render v)"
proof (cases v)
  case (TArray vs)
  assume "wf_text v"
  then have "silent 2 True (commas (map render vs))"
    by (intro silent_commas) (auto simp: TArray list_all_iff silent_value)
  then show ?thesis by (simp add: TArray top_value_bracket)
next
  case (TObject ms)
  assume w: "wf_text v"
  have "silent 2 True (quoted k @ [cp (CHR '':'')] @ render x)" if "(k, x) \<in> set ms" for k x
    using w that by (intro silent_append silent_quoted silent_colon silent_value) (auto simp: TObject list_all_iff)
  then have "silent 2 True (commas (map (\<lambda>(k, v). quoted k @ cp (CHR '':'') # render v) ms))"
    by (intro silent_commas) auto
  then show ?thesis by (simp add: TObject top_value_bracket)
qed (simp_all add: top_value_quoted top_value_silent silent_plain)

section \<open>The top level\<close>

definition top_member :: "utext \<Rightarrow> bool" where
  "top_member t \<longleftrightarrow> (\<forall>i st. sc_depth st = 1 \<longrightarrow> \<not> sc_in_string st \<longrightarrow> \<not> sc_escape st \<longrightarrow> \<not> sc_awaiting st \<longrightarrow>
     (\<exists>st'. scan_loop i t st = ScGoing st' \<and> sc_depth st' = 1 \<and> \<not> sc_in_string st' \<and> \<not> sc_escape st' \<and>
        (sc_safe st' = sc_safe st \<or> sc_safe st' = Some (i + length t))) \<and>
     (\<forall>n < length t. \<exists>st'. scan_loop i (take n t) st = ScGoing st' \<and> sc_safe st' = sc_safe st))"

lemma top_memberD:
  assumes "top_member t" "sc_depth st = 1" "\<not> sc_in_string st" "\<not> sc_escape st" "\<not> sc_awaiting st"
  shows "\<exists>st'. scan_loop i t st = ScGoing st' \<and> sc_depth st' = 1 \<and> \<not> sc_in_string st' \<and> \<not> sc_escape st' \<and>
      (sc_safe st' = sc_safe st \<or> sc_safe st' = Some (i + length t))"
    and "n < length t \<Longrightarrow> \<exists>st'. scan_loop i (take n t) st = ScGoing st' \<and> sc_safe st' = sc_safe st"
  using assms by (auto simp: top_member_def)

lemma top_valueD:
  assumes "top_value t" "sc_depth st = 1" "\<not> sc_in_string st" "\<not> sc_escape st" "sc_awaiting st"
  shows "\<exists>st'. scan_loop i t st = ScGoing st' \<and> sc_depth st' = 1 \<and> \<not> sc_in_string st' \<and> \<not> sc_escape st' \<and>
      (sc_safe st' = sc_safe st \<or> sc_safe st' = Some (i + length t))"
    and "n < length t \<Longrightarrow> \<exists>st'. scan_loop i (take n t) st = ScGoing st' \<and> sc_safe st' = sc_safe st"
  using assms by (auto simp: top_value_def)

lemma top_member_render:
  assumes "wf_text (snd m)"
  shows "top_member (render_member m)"
  unfolding top_member_def
proof (intro allI impI conjI)
  fix i :: nat and st :: scan_state and n :: nat
  assume s: "sc_depth st = 1" "\<not> sc_in_string st" "\<not> sc_escape st" "\<not> sc_awaiting st"
  let ?k = "quoted (fst m)" and ?v = "render (snd m)" and ?c = "cp (CHR '':'')"
  define q where "q = st\<lparr>sc_in_string := False, sc_depth := 1, sc_awaiting := True\<rparr>"
  have q: "sc_depth q = 1" "\<not> sc_in_string q" "\<not> sc_escape q" "sc_awaiting q" "sc_safe q = sc_safe st"
    using s by (simp_all add: q_def)
  have "silent 1 False ?k" by (simp add: silent_quoted)
  note k = silentD[OF this, of st] s
  have colon: "scan_loop j (58 # t) st = scan_loop (Suc j) t q" for j t
    using s by (simp add: scan_structural_char_def q_def)
  have v: "\<exists>st'. scan_loop j ?v q = ScGoing st' \<and> sc_depth st' = 1 \<and> \<not> sc_in_string st' \<and> \<not> sc_escape st' \<and>
        (sc_safe st' = sc_safe st \<or> sc_safe st' = Some (j + length ?v))"
    "n < length ?v \<Longrightarrow> \<exists>st'. scan_loop j (take n ?v) q = ScGoing st' \<and> sc_safe st' = sc_safe st" for j n
    using top_valueD[OF top_value_render[OF assms] q(1-4)] q(5) by auto
  have whole: "scan_loop i (render_member m) st = scan_loop (Suc (i + length ?k)) ?v q"
    using k by (simp add: render_member_def scan_loop_append colon del: scan_loop.simps)
  show "\<exists>st'. scan_loop i (render_member m) st = ScGoing st' \<and> sc_depth st' = 1 \<and> \<not> sc_in_string st' \<and> \<not> sc_escape st' \<and>
      (sc_safe st' = sc_safe st \<or> sc_safe st' = Some (i + length (render_member m)))"
    unfolding whole using v(1)[of "Suc (i + length ?k)"] by (simp add: render_member_def add.assoc)
  assume n: "n < length (render_member m)"
  show "\<exists>st'. scan_loop i (take n (render_member m)) st = ScGoing st' \<and> sc_safe st' = sc_safe st"
  proof (cases "n \<le> length ?k")
    case True
    then show ?thesis using k(2)[of i n] s by (simp add: render_member_def)
  next
    case False
    then obtain j where j: "n = Suc (length ?k + j)" by (metis add_Suc_right less_imp_Suc_add not_le_imp_less)
    then have "j < length ?v" using n by (simp add: render_member_def)
    then show ?thesis using v(2)[of j "Suc (i + length ?k)"] k
      by (simp add: j render_member_def scan_loop_append colon del: scan_loop.simps)
  qed
qed

lemma commas_Cons: "ts \<noteq> [] \<Longrightarrow> commas (t # ts) = t @ cp (CHR '','') # commas ts"
  by (cases ts) simp_all

lemma commas_take_Suc:
  "0 < k \<Longrightarrow> ts \<noteq> [] \<Longrightarrow> commas (take (Suc k) (t # ts)) = t @ cp (CHR '','') # commas (take k ts)"
  by (cases k; cases ts) (simp_all add: commas_Cons)

text \<open>
  The safe point after any cut of a list of members: none beyond the one before, or the end of some
  member; at least the end of every member whose comma was seen.
\<close>

definition end_of :: "utext list \<Rightarrow> nat \<Rightarrow> nat" where
  "end_of ts k = length (commas (take k ts))"

definition safe_at :: "nat \<Rightarrow> nat option \<Rightarrow> utext list \<Rightarrow> nat \<Rightarrow> nat option \<Rightarrow> bool" where
  "safe_at i before_safe ts n safe \<longleftrightarrow>
     (\<exists>k \<le> length ts. safe = (if k = 0 then before_safe else Some (i + end_of ts k)) \<and>
        (k = 0 \<or> end_of ts k \<le> n) \<and> (\<forall>j < length ts. end_of ts j < n \<longrightarrow> j \<le> k))"

lemma end_of_simps:
  "end_of ts 0 = 0"
  "ts \<noteq> [] \<Longrightarrow> 0 < k \<Longrightarrow> end_of (t # ts) (Suc k) = Suc (length t + end_of ts k)"
  "end_of (t # ts) (Suc 0) = length t"
  by (simp_all add: end_of_def commas_Cons)

lemma scan_members:
  assumes "list_all top_member ts" "ts \<noteq> []"
    "sc_depth st = 1" "\<not> sc_in_string st" "\<not> sc_escape st" "\<not> sc_awaiting st" "n \<le> length (commas ts)"
  shows "\<exists>st'. scan_loop i (take n (commas ts)) st = ScGoing st' \<and> safe_at i (sc_safe st) ts n (sc_safe st')"
  using assms
proof (induction ts arbitrary: i st n)
  case (Cons t ts)
  have t: "top_member t" using Cons.prems(1) by simp
  note mem = top_memberD[OF t Cons.prems(3-6)]
  show ?case
  proof (cases "n < length t")
    case True
    have none: "\<not> end_of (t # ts) j < n" if "0 < j" for j
      using True that by (cases j; cases ts; cases "j - 1") (auto simp: end_of_def commas_Cons)
    have tk: "take n (commas (t # ts)) = take n t" using True by (cases ts) simp_all
    obtain st' where st': "scan_loop i (take n t) st = ScGoing st'" "sc_safe st' = sc_safe st"
      using mem(2)[OF True] by blast
    have "safe_at i (sc_safe st) (t # ts) n (sc_safe st')"
      unfolding safe_at_def using none st'(2) by (intro exI[of _ 0]) (auto simp: not_less[symmetric])
    then show ?thesis using st'(1) tk by auto
  next
    case False
    obtain st' where st': "scan_loop i t st = ScGoing st'" "sc_depth st' = 1" "\<not> sc_in_string st'" "\<not> sc_escape st'"
      "sc_safe st' = sc_safe st \<or> sc_safe st' = Some (i + length t)"
      using mem(1) by blast
    show ?thesis
    proof (cases "n = length t")
      case True
      have none: "\<not> end_of (t # ts) j < n" if "0 < j" for j
        using True that by (cases j; cases ts; cases "j - 1") (auto simp: end_of_def commas_Cons)
      have tk: "take n (commas (t # ts)) = t" using True by (cases ts) simp_all
      have "safe_at i (sc_safe st) (t # ts) n (sc_safe st')"
        using st'(5)
      proof
        assume "sc_safe st' = sc_safe st"
        then show ?thesis unfolding safe_at_def using none by (intro exI[of _ 0]) (auto simp: not_less[symmetric])
      next
        assume "sc_safe st' = Some (i + length t)"
        then show ?thesis unfolding safe_at_def using none True
          by (intro exI[of _ 1]) (auto simp: end_of_simps not_less[symmetric])
      qed
      then show ?thesis using st'(1) tk by auto
    next
      case neq: False
      then have ts: "ts \<noteq> []" using False Cons.prems(7) by auto
      obtain m where m: "n = Suc (length t + m)" using False neq by (metis add_Suc_right less_imp_Suc_add linorder_neqE_nat)
      define q where "q = st'\<lparr>sc_in_string := False, sc_depth := 1, sc_awaiting := False, sc_safe := Some (i + length t)\<rparr>"
      have q: "sc_depth q = 1" "\<not> sc_in_string q" "\<not> sc_escape q" "\<not> sc_awaiting q" using st' by (simp_all add: q_def)
      have comma: "scan_loop (i + length t) (44 # u) st' = scan_loop (Suc (i + length t)) u q" for u
        using st' by (simp add: scan_structural_char_def q_def)
      have m_le: "m \<le> length (commas ts)" using Cons.prems(7) ts m by (simp add: commas_Cons)
      obtain st2 where st2: "scan_loop (Suc (i + length t)) (take m (commas ts)) q = ScGoing st2"
        and sa: "safe_at (Suc (i + length t)) (sc_safe q) ts m (sc_safe st2)"
        using Cons.IH[OF _ ts q m_le] Cons.prems(1) by auto
      obtain k where k: "k \<le> length ts"
          "sc_safe st2 = (if k = 0 then Some (i + length t) else Some (Suc (i + length t) + end_of ts k))"
          "k = 0 \<or> end_of ts k \<le> m" "\<And>j. j < length ts \<Longrightarrow> end_of ts j < m \<Longrightarrow> j \<le> k"
        using sa by (auto simp: safe_at_def q_def)
      have "j \<le> Suc k" if "j < length (t # ts)" "end_of (t # ts) j < n" for j
      proof (cases j)
        case (Suc j')
        then show ?thesis using that k(4)[of j'] ts m by (cases "j' = 0") (auto simp: end_of_simps)
      qed simp
      then have "safe_at i (sc_safe st) (t # ts) n (sc_safe st2)"
        unfolding safe_at_def using k(1-3) ts m
        by (intro exI[of _ "Suc k"]) (auto simp: end_of_simps)
      moreover have "take n (commas (t # ts)) = t @ cp (CHR '','') # take m (commas ts)"
        using ts m by (simp add: commas_Cons)
      ultimately show ?thesis using st'(1) st2 comma by (auto simp: scan_loop_append simp del: scan_loop.simps)
    qed
  qed
qed simp

lemma render_object: "render (TObject ms) = 123 # commas (map render_member ms) @ [125]"
  by (simp add: render_member_def[abs_def] case_prod_unfold)

lemma length_render_object: "length (render (TObject (take k ms))) = Suc (Suc (end_of (map render_member ms) k))"
  by (simp add: render_object end_of_def take_map del: render.simps)

lemma commas_take_prefix:
  assumes "end_of ts k \<le> n" "n \<le> length (commas ts)"
  shows "take (end_of ts k) (take n (commas ts)) = commas (take k ts)"
proof -
  have "take (end_of ts k) (commas ts) = commas (take k ts)"
  proof (induction ts arbitrary: k)
    case (Cons t ts)
    show ?case
    proof (cases k)
      case (Suc j)
      show ?thesis
      proof (cases "ts = [] \<or> j = 0")
        case True
        then show ?thesis using Suc by (cases "ts = []") (auto simp: end_of_def commas_Cons)
      next
        case False
        then show ?thesis using Cons[of j] Suc by (simp add: end_of_simps commas_Cons)
      qed
    qed (simp add: end_of_def)
  qed (simp add: end_of_def)
  then show ?thesis using assms by (simp add: min_def)
qed

text \<open>C20: A register frame cut off anywhere is repaired to the object of its first members, each of them
  whole, or to nothing; every member whose separating comma arrived is among them, and the count of
  discarded characters is what the cut frame had beyond them. No value is ever kept in part.\<close>

theorem salvage_keeps_whole_members:
  assumes wf: "list_all (\<lambda>m. wf_text (snd m)) ms" and n: "0 < n" "n < length (render (TObject ms))"
  shows "\<exists>k \<le> length ms.
     repair_truncated_json_object (take n (render (TObject ms))) =
       (if k = 0 then None
        else Some (render (TObject (take k ms)), n - (length (render (TObject (take k ms))) - 1))) \<and>
     (\<forall>j < length ms. length (render (TObject (take j ms))) \<le> n \<longrightarrow> j \<le> k)"
proof -
  let ?ts = "map render_member ms"
  obtain m where m: "n = Suc m" using n(1) by (cases n) auto
  have m_le: "m \<le> length (commas ?ts)" using n(2) by (simp add: m render_object del: render.simps)
  have cut: "take n (render (TObject ms)) = 123 # take m (commas ?ts)"
    using m_le by (simp add: m render_object del: render.simps)
  define q where "q = scan_start\<lparr>sc_depth := 1\<rparr>"
  have q: "sc_depth q = 1" "\<not> sc_in_string q" "\<not> sc_escape q" "\<not> sc_awaiting q" "sc_safe q = None"
    by (simp_all add: q_def scan_start_def)
  have first: "scan_loop 0 (123 # u) scan_start = scan_loop (Suc 0) u q" for u
    by (simp add: scan_structural_char_def scan_start_def q_def)
  have "\<exists>st'. scan_loop (Suc 0) (take m (commas ?ts)) q = ScGoing st' \<and> safe_at (Suc 0) None ?ts m (sc_safe st')"
  proof (cases "ms = []")
    case True
    then show ?thesis using q m_le by (auto simp: safe_at_def)
  next
    case False
    have "list_all top_member ?ts" using wf by (auto simp: list_all_iff intro: top_member_render)
    then show ?thesis using scan_members[of ?ts q m "Suc 0"] q m_le False by auto
  qed
  then obtain st' k where st': "scan_loop (Suc 0) (take m (commas ?ts)) q = ScGoing st'"
    and k: "k \<le> length ms" "sc_safe st' = (if k = 0 then None else Some (Suc 0 + end_of ?ts k))"
      "k = 0 \<or> end_of ?ts k \<le> m" "\<And>j. j < length ms \<Longrightarrow> end_of ?ts j < m \<Longrightarrow> j \<le> k"
    by (auto simp: safe_at_def)
  have r: "repair_truncated_json_object (take n (render (TObject ms))) =
      (case sc_safe st' of None \<Rightarrow> None | Some e \<Rightarrow> Some (take e (123 # take m (commas ?ts)) @ [125], Suc m - e))"
    unfolding cut using st' m_le
    by (simp add: repair_truncated_json_object_def first Let_def min_absorb2 del: scan_loop.simps)
  have "repair_truncated_json_object (take n (render (TObject ms))) =
      (if k = 0 then None else Some (render (TObject (take k ms)), n - (length (render (TObject (take k ms))) - 1)))"
  proof (cases "k = 0")
    case True
    then show ?thesis unfolding r using k(2) by simp
  next
    case False
    then have e: "end_of ?ts k \<le> m" using k(3) by simp
    have "take (end_of ?ts k) (take m (commas ?ts)) = commas (take k ?ts)"
      by (rule commas_take_prefix[OF e m_le])
    then have "take (Suc (end_of ?ts k)) (123 # take m (commas ?ts)) @ [125] = render (TObject (take k ms))"
      by (simp add: render_object take_map del: render.simps)
    then show ?thesis unfolding r using k(2) False
      by (simp add: length_render_object m del: render.simps take_Suc_Cons)
  qed
  moreover have "\<forall>j < length ms. length (render (TObject (take j ms))) \<le> n \<longrightarrow> j \<le> k"
    using k(4) by (auto simp: length_render_object m simp del: render.simps)
  ultimately show ?thesis using k(1) by blast
qed

definition sample_register :: "(utext \<times> jtext) list" where
  "sample_register = [([84], TString [73, 34]), ([78], TScalar [49, 50])]"

lemma salvage_keeps_whole_members_witness:
  "\<exists>k \<le> length sample_register.
     repair_truncated_json_object (take 14 (render (TObject sample_register))) =
       (if k = 0 then None
        else Some (render (TObject (take k sample_register)), 14 - (length (render (TObject (take k sample_register))) - 1))) \<and>
     (\<forall>j < length sample_register. length (render (TObject (take j sample_register))) \<le> 14 \<longrightarrow> j \<le> k)"
  by (rule salvage_keeps_whole_members) (simp_all add: sample_register_def structural_def quoted_def)

text \<open>The cut inside the second member leaves the first one, the cut at its colon as well.\<close>

lemma sample_register_repaired:
  "repair_truncated_json_object (take 14 (render (TObject sample_register))) =
     Some (render (TObject (take 1 sample_register)), 4)"
  by code_simp

section \<open>The cache and the queue\<close>

text \<open>The cache never mixes two devices: it only holds registers decoded since the current target was set.\<close>

lemma note_target_switch:
  "rg_cache (note_register_cache_target mac st) =
     (if rg_cache_mac st = None \<or> rg_cache_mac st = Some mac then rg_cache st else [])"
  by (auto simp: note_register_cache_target_def Let_def)

lemma queue_append_length: "length (queue_append n q) \<le> NOTIFICATION_QUEUE_SIZE"
  by (simp add: queue_append_def Let_def)

end
