(* ===== verification/BleService.thy ===== *)
theory BleService
  imports RegisterSalvage Interfaces
begin

text \<open>
  ble_service/src/main.py: the connection manager. The retry ladders (\<open>_retry_connect\<close> under its two
  profiles), the disconnect callback with the PIN probe, the connect, ensure_connected, disconnect
  and cancel routes, the status answer, the pushed status events and the state file. Background
  tasks and requests in flight are part of the state (a ladder with its phase, an ensure_connected
  call with its phase); a step is what runs between two awaits. The adapter (D-Bus) is seen through
  its answers: whether it is busy, what a connect attempt returned, that the link dropped.
  \<open>sv_events\<close>, \<open>sv_attempts\<close> and \<open>sv_resets\<close> are history variables.
\<close>

section \<open>Constants and state\<close>

definition RECONNECT_DELAYS_S :: "nat list" where "RECONNECT_DELAYS_S = [5, 10, 20, 60]"
definition ACTIVITY_LOG_SIZE :: nat where "ACTIVITY_LOG_SIZE = 50"
definition PIN_REQUIRED_WINDOW_S :: time where "PIN_REQUIRED_WINDOW_S = 5"
definition BLE_PIN_MIN :: int where "BLE_PIN_MIN = 100000"
definition BLE_PIN_MAX :: int where "BLE_PIN_MAX = 999999"

record retry_profile =
  rp_sleep_before :: bool
  rp_connect_timeout :: "time option"
  rp_attempt_action :: string
  rp_failed_action :: string
  rp_success_action :: string
  rp_log_cancel_activity :: bool

definition AUTO_RECONNECT_PROFILE :: retry_profile where
  "AUTO_RECONNECT_PROFILE =
     \<lparr>rp_sleep_before = True, rp_connect_timeout = None, rp_attempt_action = ''reconnect_attempt'',
      rp_failed_action = ''reconnect_failed'', rp_success_action = ''reconnect_success'',
      rp_log_cancel_activity = True\<rparr>"

definition STARTUP_CONNECT_PROFILE :: retry_profile where
  "STARTUP_CONNECT_PROFILE =
     \<lparr>rp_sleep_before = False, rp_connect_timeout = Some 30, rp_attempt_action = ''startup_connect_attempt'',
      rp_failed_action = ''connect_failed'', rp_success_action = ''connect_success'',
      rp_log_cancel_activity = False\<rparr>"

text \<open>The two task handles of \<open>ServiceState\<close>; a finished task counts as none.\<close>

datatype slot = ReconnectTask | AutoConnectTask

definition profile_of :: "slot \<Rightarrow> retry_profile" where
  "profile_of s = (case s of ReconnectTask \<Rightarrow> AUTO_RECONNECT_PROFILE | AutoConnectTask \<Rightarrow> STARTUP_CONNECT_PROFILE)"

datatype ladder_phase = LpQueued | LpHardware | LpSleeping nat | LpConnecting nat | LpBackoff nat

record ladder =
  ld_mac :: string
  ld_name :: string
  ld_phase :: ladder_phase

datatype status_event =
    SeReconnecting nat nat nat string string
  | SeConnected string string
  | SeDisconnected "string option"
  | SeExhausted nat string string

text \<open>An ensure_connected request: inside the adapter, or in its post-connect init with its deadline.\<close>

datatype ensure_call = EcConnecting string "int option" | EcInit string "int option" time

record ble_service =
  sv_connected :: bool
  sv_device :: "(string \<times> string option) option"
  sv_pin :: int
  sv_file :: "msgd option"
  sv_user_disconnected :: bool
  sv_last_mac :: "string option"
  sv_last_name :: "string option"
  sv_reconnecting :: bool
  sv_attempt :: nat
  sv_max_attempts :: nat
  sv_pin_probe :: "time option"
  sv_post_init :: nat
  sv_registers :: register_service
  sv_reconnect :: "ladder option"
  sv_auto :: "ladder option"
  sv_calls :: "(nat \<times> ensure_call) list"
  sv_activity :: "string list"
  sv_events :: "status_event list"
  sv_attempts :: "(slot \<times> string) list"
  sv_resets :: "nat list"

definition service_init :: "msgd option \<Rightarrow> ble_service" where
  "service_init file =
     \<lparr>sv_connected = False, sv_device = None, sv_pin = 0, sv_file = file, sv_user_disconnected = False,
      sv_last_mac = None, sv_last_name = None, sv_reconnecting = False, sv_attempt = 0, sv_max_attempts = 0,
      sv_pin_probe = None, sv_post_init = 0,
      sv_registers = \<lparr>rg_queue = [], rg_cache = [], rg_cache_mac = None\<rparr>,
      sv_reconnect = None, sv_auto = None, sv_calls = [], sv_activity = [], sv_events = [],
      sv_attempts = [], sv_resets = []\<rparr>"

section \<open>The state file\<close>

text \<open>\<open>int()\<close> of a JSON value, 0 where it raises; a missing or unreadable file reads as empty.\<close>

definition read_ble_state_file :: "ble_service \<Rightarrow> msgd" where
  "read_ble_state_file st = (case sv_file st of None \<Rightarrow> [] | Some f \<Rightarrow> f)"

definition json_int :: "json \<Rightarrow> int" where
  "json_int v =
     (case v of
        JInt i \<Rightarrow> i
      | JBool b \<Rightarrow> of_bool b
      | JFloat r \<Rightarrow> (if r < 0 then - \<lfloor>- r\<rfloor> else \<lfloor>r\<rfloor>)
      | JStr s \<Rightarrow> (case py_int s of Inl e \<Rightarrow> 0 | Inr i \<Rightarrow> i)
      | _ \<Rightarrow> 0)"

definition load_ble_pin :: "ble_service \<Rightarrow> int" where
  "load_ble_pin st = json_int (dict_get (read_ble_state_file st) ''ble_pin'' (JInt 0))"

definition load_ble_state :: "ble_service \<Rightarrow> string option" where
  "load_ble_state st =
     (case dict_get (read_ble_state_file st) ''device_mac'' JNull of
        JStr mac \<Rightarrow> if mac = [] then None else Some mac
      | _ \<Rightarrow> None)"

definition json_opt :: "string option \<Rightarrow> json" where
  "json_opt s = (case s of None \<Rightarrow> JNull | Some x \<Rightarrow> JStr x)"

text \<open>\<open>writable\<close>: whether the file can be written; a failure is logged and swallowed.\<close>

definition save_ble_state :: "bool \<Rightarrow> string \<Rightarrow> string \<Rightarrow> string option \<Rightarrow> ble_service \<Rightarrow> ble_service" where
  "save_ble_state writable connected_at mac name st =
     (if writable then
        st\<lparr>sv_file := Some [(''device_mac'', JStr mac), (''device_name'', json_opt name),
             (''connected_at'', JStr connected_at), (''ble_pin'', JInt (load_ble_pin st))]\<rparr>
      else st)"

definition save_ble_pin :: "bool \<Rightarrow> int \<Rightarrow> ble_service \<Rightarrow> ble_service" where
  "save_ble_pin writable pin st =
     (if writable then st\<lparr>sv_file := Some (AList.update ''ble_pin'' (JInt pin) (read_ble_state_file st))\<rparr> else st)"

definition clear_ble_state :: "bool \<Rightarrow> ble_service \<Rightarrow> ble_service" where
  "clear_ble_state removable st = (if removable then st\<lparr>sv_file := None\<rparr> else st)"

section \<open>Activity and events\<close>

definition log_activity :: "string \<Rightarrow> ble_service \<Rightarrow> ble_service" where
  "log_activity action st =
     (let l = sv_activity st @ [action] in st\<lparr>sv_activity := drop (length l - ACTIVITY_LOG_SIZE) l\<rparr>)"

definition push_status_event :: "status_event \<Rightarrow> ble_service \<Rightarrow> ble_service" where
  "push_status_event e st = st\<lparr>sv_events := sv_events st @ [e]\<rparr>"

section \<open>The retry ladder\<close>

definition set_ladder :: "slot \<Rightarrow> ladder option \<Rightarrow> ble_service \<Rightarrow> ble_service" where
  "set_ladder s l st =
     (case s of ReconnectTask \<Rightarrow> st\<lparr>sv_reconnect := l\<rparr> | AutoConnectTask \<Rightarrow> st\<lparr>sv_auto := l\<rparr>)"

definition get_ladder :: "slot \<Rightarrow> ble_service \<Rightarrow> ladder option" where
  "get_ladder s st = (case s of ReconnectTask \<Rightarrow> sv_reconnect st | AutoConnectTask \<Rightarrow> sv_auto st)"

definition end_ladder :: "slot \<Rightarrow> ble_service \<Rightarrow> ble_service" where
  "end_ladder s st = set_ladder s None (st\<lparr>sv_reconnecting := False, sv_attempt := 0\<rparr>)"

text \<open>The head of \<open>_connect_and_initialize\<close>; \<open>busy\<close> is the adapter's lock. A bus reset is recorded
  with the number of requests that are in their post-connect init at that moment.\<close>

fun in_init :: "nat \<times> ensure_call \<Rightarrow> bool" where
  "in_init (i, EcInit mac pin deadline) = True"
| "in_init (i, EcConnecting mac pin) = False"

definition connect_and_initialize_begin :: "bool \<Rightarrow> string \<Rightarrow> ble_service \<Rightarrow> ble_service" where
  "connect_and_initialize_begin busy mac st =
     (let st1 = st\<lparr>sv_registers := note_register_cache_target mac (sv_registers st)\<rparr> in
      if \<not> busy \<and> sv_post_init st1 = 0 then st1\<lparr>sv_resets := sv_resets st1 @ [length (filter in_init (sv_calls st1))]\<rparr> else st1)"

definition start_attempt :: "slot \<Rightarrow> ladder \<Rightarrow> nat \<Rightarrow> bool \<Rightarrow> ble_service \<Rightarrow> ble_service" where
  "start_attempt s l attempt busy st =
     set_ladder s (Some (l\<lparr>ld_phase := LpConnecting attempt\<rparr>))
       (connect_and_initialize_begin busy (ld_mac l) (st\<lparr>sv_attempts := sv_attempts st @ [(s, ld_mac l)]\<rparr>))"

definition ladder_cancelled :: "slot \<Rightarrow> ble_service \<Rightarrow> ble_service" where
  "ladder_cancelled s st =
     (let st1 = end_ladder s st in
      if rp_log_cancel_activity (profile_of s) then log_activity ''reconnect_cancelled'' st1 else st1)"

text \<open>The top of the loop for one attempt, or the code after the loop.\<close>

definition ladder_top :: "slot \<Rightarrow> ladder \<Rightarrow> nat \<Rightarrow> bool \<Rightarrow> ble_service \<Rightarrow> ble_service" where
  "ladder_top s l attempt busy st =
     (let n = length RECONNECT_DELAYS_S; p = profile_of s in
      if n < attempt then
        log_activity ''reconnect_exhausted'' (push_status_event (SeExhausted n (ld_name l) (ld_mac l)) (end_ladder s st))
      else if sv_user_disconnected st then ladder_cancelled s st
      else if \<not> rp_sleep_before p \<and> sv_connected st then end_ladder s st
      else
        let st1 = log_activity (rp_attempt_action p)
              (push_status_event (SeReconnecting attempt n (RECONNECT_DELAYS_S ! (attempt - 1)) (ld_name l) (ld_mac l))
                (st\<lparr>sv_attempt := attempt\<rparr>))
        in if rp_sleep_before p then set_ladder s (Some (l\<lparr>ld_phase := LpSleeping attempt\<rparr>)) st1
           else start_attempt s l attempt busy st1)"

definition retry_connect :: "slot \<Rightarrow> ladder \<Rightarrow> bool \<Rightarrow> ble_service \<Rightarrow> ble_service" where
  "retry_connect s l busy st =
     ladder_top s l 1 busy (st\<lparr>sv_reconnecting := True, sv_max_attempts := length RECONNECT_DELAYS_S\<rparr>)"

text \<open>A ladder's sleep is over (before an attempt, or after a failed one), or its task runs first.\<close>

definition nonempty :: "string option \<Rightarrow> string option" where
  "nonempty s = (case s of Some x \<Rightarrow> (if x = [] then None else Some x) | None \<Rightarrow> None)"

definition auto_reconnect :: "bool \<Rightarrow> ble_service \<Rightarrow> ble_service" where
  "auto_reconnect busy st =
     (case nonempty (sv_last_mac st) of
        None \<Rightarrow> st\<lparr>sv_reconnect := None\<rparr>
      | Some mac \<Rightarrow>
          let name = (case nonempty (sv_last_name st) of Some n \<Rightarrow> n | None \<Rightarrow> mac)
          in retry_connect ReconnectTask \<lparr>ld_mac = mac, ld_name = name, ld_phase = LpQueued\<rparr> busy st)"

definition startup_auto_connect :: "ble_service \<Rightarrow> ble_service" where
  "startup_auto_connect st =
     (case load_ble_state st of
        None \<Rightarrow> st\<lparr>sv_auto := None\<rparr>
      | Some mac \<Rightarrow>
          let saved = (case dict_get (read_ble_state_file st) ''device_name'' JNull of
                  JStr n \<Rightarrow> nonempty (Some n) | _ \<Rightarrow> None);
              name = (case saved of Some n \<Rightarrow> n | None \<Rightarrow> mac)
          in log_activity ''startup_auto_connect''
               (st\<lparr>sv_last_name := saved, sv_last_mac := Some mac, sv_user_disconnected := False,
                   sv_auto := Some \<lparr>ld_mac = mac, ld_name = name, ld_phase = LpHardware\<rparr>\<rparr>))"

definition ladder_wakes :: "slot \<Rightarrow> bool \<Rightarrow> ble_service \<Rightarrow> ble_service" where
  "ladder_wakes s busy st =
     (case get_ladder s st of
        None \<Rightarrow> st
      | Some l \<Rightarrow>
          (case ld_phase l of
             LpQueued \<Rightarrow> (case s of ReconnectTask \<Rightarrow> auto_reconnect busy st | AutoConnectTask \<Rightarrow> startup_auto_connect st)
           | LpHardware \<Rightarrow> retry_connect s l busy st
           | LpSleeping attempt \<Rightarrow>
               if sv_user_disconnected st then ladder_cancelled s st
               else if sv_connected st then end_ladder s st
               else start_attempt s l attempt busy st
           | LpConnecting attempt \<Rightarrow> st
           | LpBackoff attempt \<Rightarrow> ladder_top s l (attempt + 1) busy st))"

definition resolved_device_name :: "ble_service \<Rightarrow> string option" where
  "resolved_device_name st = nonempty (case sv_device st of Some (mac, name) \<Rightarrow> name | None \<Rightarrow> None)"

text \<open>The adapter reports the link up while an attempt or a request is waiting for it.\<close>

definition adapter_up :: "string \<Rightarrow> string option \<Rightarrow> ble_service \<Rightarrow> ble_service" where
  "adapter_up mac name st = st\<lparr>sv_connected := True, sv_device := Some (mac, name)\<rparr>"

datatype attempt_outcome = AttemptSucceeds | AttemptFails | AttemptRaises

definition attempt_done :: "slot \<Rightarrow> attempt_outcome \<Rightarrow> bool \<Rightarrow> bool \<Rightarrow> string \<Rightarrow> ble_service \<Rightarrow> ble_service" where
  "attempt_done s outcome busy writable connected_at st =
     (case get_ladder s st of
        None \<Rightarrow> st
      | Some l \<Rightarrow>
          (case ld_phase l of
             LpConnecting attempt \<Rightarrow>
               (case outcome of
                  AttemptSucceeds \<Rightarrow>
                    let st1 = end_ladder s st;
                        resolved = (case resolved_device_name st1 of Some n \<Rightarrow> Some n | None \<Rightarrow> nonempty (sv_last_name st1));
                        st2 = (case resolved of None \<Rightarrow> st1
                               | Some n \<Rightarrow> save_ble_state writable connected_at (ld_mac l) (Some n) (st1\<lparr>sv_last_name := Some n\<rparr>));
                        shown = (case nonempty (sv_last_name st2) of Some n \<Rightarrow> n | None \<Rightarrow> ld_name l)
                    in log_activity (rp_success_action (profile_of s)) (push_status_event (SeConnected (ld_mac l) shown) st2)
                | _ \<Rightarrow>
                    let st1 = log_activity (rp_failed_action (profile_of s)) st in
                    if \<not> rp_sleep_before (profile_of s) \<and> attempt < length RECONNECT_DELAYS_S
                    then set_ladder s (Some (l\<lparr>ld_phase := LpBackoff attempt\<rparr>)) st1
                    else ladder_top s l (attempt + 1) busy st1)
           | _ \<Rightarrow> st))"

section \<open>The disconnect callback\<close>

definition schedule_reconnect :: "ble_service \<Rightarrow> ble_service" where
  "schedule_reconnect st =
     (if sv_reconnect st = None
      then st\<lparr>sv_reconnect := Some \<lparr>ld_mac = [], ld_name = [], ld_phase = LpQueued\<rparr>\<rparr> else st)"

definition on_adapter_disconnect :: "time \<Rightarrow> ble_service \<Rightarrow> ble_service" where
  "on_adapter_disconnect now st =
     (let st1 = log_activity ''disconnect'' (push_status_event (SeDisconnected None) st) in
      if sv_user_disconnected st1 then st1
      else case sv_pin_probe st1 of
          Some deadline \<Rightarrow>
            let st2 = st1\<lparr>sv_pin_probe := None\<rparr> in
            if now \<le> deadline then st2 else schedule_reconnect st2
        | None \<Rightarrow> schedule_reconnect st1)"

text \<open>The adapter closes the link itself, without a callback (before it connects to another node).\<close>

definition adapter_closes :: "ble_service \<Rightarrow> ble_service" where
  "adapter_closes st = st\<lparr>sv_connected := False, sv_device := None\<rparr>"

text \<open>The adapter notices the loss of the link, clears its device and calls back, unless it already is in the state
  DISCONNECTED (\<open>idle\<close>; it never is while connected). An attempt that is being made can be cut off, too.\<close>

definition adapter_drop :: "bool \<Rightarrow> time \<Rightarrow> ble_service \<Rightarrow> ble_service" where
  "adapter_drop idle now st =
     (if idle \<and> \<not> sv_connected st then st
      else on_adapter_disconnect now (st\<lparr>sv_connected := False, sv_device := None\<rparr>))"

section \<open>Routes\<close>

datatype route_reply = RouteOk string | RouteFailed string | RouteError nat

definition cancel_tasks :: "ble_service \<Rightarrow> ble_service" where
  "cancel_tasks st = st\<lparr>sv_reconnect := None, sv_auto := None, sv_reconnecting := False, sv_attempt := 0\<rparr>"

definition connect_route_begin :: "bool \<Rightarrow> string \<Rightarrow> ble_service \<Rightarrow> ble_service" where
  "connect_route_begin busy mac st =
     connect_and_initialize_begin busy mac (log_activity ''connect_start'' (st\<lparr>sv_user_disconnected := False\<rparr>))"

definition connect_route_done ::
  "string \<Rightarrow> string option \<Rightarrow> attempt_outcome \<Rightarrow> bool \<Rightarrow> string \<Rightarrow> ble_service \<Rightarrow> route_reply \<times> ble_service" where
  "connect_route_done mac device_name outcome writable connected_at st =
     (case outcome of
        AttemptSucceeds \<Rightarrow>
          let resolved_name = (case nonempty device_name of Some n \<Rightarrow> Some n | None \<Rightarrow> resolved_device_name st);
              st1 = st\<lparr>sv_last_mac := Some mac, sv_last_name := resolved_name\<rparr>
          in (RouteOk (''Connected to '' @ mac), log_activity ''connect_success'' (save_ble_state writable connected_at mac resolved_name st1))
      | AttemptFails \<Rightarrow> (RouteFailed ''Connection failed'', log_activity ''connect_failed'' st)
      | AttemptRaises \<Rightarrow> (RouteError 500, log_activity ''connect_error'' st))"

definition ensure_route_begin :: "nat \<Rightarrow> string \<Rightarrow> int option \<Rightarrow> bool \<Rightarrow> ble_service \<Rightarrow> route_reply option \<times> ble_service" where
  "ensure_route_begin i mac pin busy st =
     (let st1 = cancel_tasks (st\<lparr>sv_registers := note_register_cache_target mac (sv_registers st)\<rparr>) in
      if busy then (Some (RouteError 409), st1)
      else (None, log_activity ''ensure_connect_start''
             (st1\<lparr>sv_user_disconnected := False, sv_calls := AList.update i (EcConnecting mac pin) (sv_calls st1)\<rparr>)))"

text \<open>The adapter's result: the stage and error text of a failure, or the timeout of the request.\<close>

datatype ensure_result = EnsureTimeout | EnsureFailed string string | EnsureSucceeded

definition DEVICE_NOT_FOUND_MSG :: string where "DEVICE_NOT_FOUND_MSG = ''Device not found or not paired''"

definition error_code_for_result :: "string \<Rightarrow> string \<Rightarrow> string \<Rightarrow> string" where
  "error_code_for_result not_found_msg stage err_text =
     (if stage = ''connect'' then (if contains err_text not_found_msg then ''device_not_found'' else ''connect_failed'')
      else if stage = ''pair'' then ''pair_failed''
      else if stage \<in> {''gatt'', ''gatt_post_pair''} then ''gatt_failed''
      else ''connect_failed'')"

definition drop_call :: "nat \<Rightarrow> ble_service \<Rightarrow> ble_service" where
  "drop_call i st = st\<lparr>sv_calls := AList.delete i (sv_calls st)\<rparr>"

definition ensure_route_result :: "nat \<Rightarrow> ensure_result \<Rightarrow> time \<Rightarrow> ble_service \<Rightarrow> route_reply option \<times> ble_service" where
  "ensure_route_result i result now st =
     (case map_of (sv_calls st) i of
        Some (EcConnecting mac pin) \<Rightarrow>
          (case result of
             EnsureTimeout \<Rightarrow> (Some (RouteFailed ''timeout''), log_activity ''ensure_connect_failed'' (drop_call i st))
           | EnsureFailed stage err_text \<Rightarrow>
               (Some (RouteFailed (error_code_for_result DEVICE_NOT_FOUND_MSG stage err_text)),
                log_activity ''ensure_connect_failed'' (drop_call i st))
           | EnsureSucceeded \<Rightarrow>
               let deadline = now + PIN_REQUIRED_WINDOW_S in
               (None, st\<lparr>sv_pin_probe := Some deadline, sv_post_init := sv_post_init st + 1,
                        sv_calls := AList.update i (EcInit mac pin deadline) (sv_calls st)\<rparr>))
      | _ \<Rightarrow> (None, st))"

text \<open>The \<open>finally\<close> of the init block, on every way out.\<close>

definition ensure_init_exit :: "nat \<Rightarrow> time \<Rightarrow> ble_service \<Rightarrow> ble_service" where
  "ensure_init_exit i deadline st =
     drop_call i (st\<lparr>sv_post_init := sv_post_init st - 1,
       sv_pin_probe := (if sv_pin_probe st = Some deadline then None else sv_pin_probe st)\<rparr>)"

definition ensure_route_finish :: "nat \<Rightarrow> bool \<Rightarrow> string \<Rightarrow> ble_service \<Rightarrow> route_reply option \<times> ble_service" where
  "ensure_route_finish i writable connected_at st =
     (case map_of (sv_calls st) i of
        Some (EcInit mac pin deadline) \<Rightarrow>
          let st1 = ensure_init_exit i deadline st in
          if \<not> sv_connected st1 then (Some (RouteFailed ''pin_required''), log_activity ''ensure_connect_failed'' st1)
          else
            let st2 = (case pin of
                    Some p \<Rightarrow> if p \<noteq> sv_pin st1 then save_ble_pin writable p (st1\<lparr>sv_pin := p\<rparr>) else st1
                  | None \<Rightarrow> st1);
                resolved_name = resolved_device_name st2;
                st3 = save_ble_state writable connected_at mac resolved_name
                        (st2\<lparr>sv_last_mac := Some mac, sv_last_name := resolved_name\<rparr>)
            in (Some (RouteOk (''Connected to '' @ mac)), log_activity ''ensure_connect_success'' st3)
      | _ \<Rightarrow> (None, st))"

text \<open>The request is cancelled (or its handler raises) in either phase.\<close>

definition ensure_route_abort :: "nat \<Rightarrow> ble_service \<Rightarrow> ble_service" where
  "ensure_route_abort i st =
     (case map_of (sv_calls st) i of
        Some (EcInit mac pin deadline) \<Rightarrow> ensure_init_exit i deadline st
      | Some (EcConnecting mac pin) \<Rightarrow> drop_call i st
      | None \<Rightarrow> st)"

text \<open>\<open>idle\<close>: the adapter's state is DISCONNECTED, so there is nothing to disconnect.\<close>

definition disconnect_route :: "bool \<Rightarrow> bool \<Rightarrow> ble_service \<Rightarrow> route_reply option \<times> ble_service" where
  "disconnect_route removable idle st =
     (let st1 = cancel_tasks (clear_ble_state removable (st\<lparr>sv_user_disconnected := True\<rparr>)) in
      if idle then (Some (RouteOk ''Already disconnected''), log_activity ''disconnect'' st1) else (None, st1))"

definition disconnect_route_done :: "bool \<Rightarrow> ble_service \<Rightarrow> route_reply \<times> ble_service" where
  "disconnect_route_done ok st =
     (if ok then (RouteOk ''Disconnected'', log_activity ''disconnect'' (st\<lparr>sv_connected := False, sv_device := None\<rparr>))
      else (RouteError 500, log_activity ''disconnect_error'' st))"

definition cancel_reconnect_route :: "bool \<Rightarrow> ble_service \<Rightarrow> route_reply \<times> ble_service" where
  "cancel_reconnect_route removable st =
     (let st0 = clear_ble_state removable (st\<lparr>sv_user_disconnected := True\<rparr>);
          cancelled = (sv_reconnect st0 \<noteq> None \<or> sv_auto st0 \<noteq> None);
          st1 = push_status_event (SeDisconnected (Some ''reconnect_cancelled'')) (cancel_tasks st0)
      in (RouteOk (if cancelled then ''Reconnect cancelled'' else ''No reconnect in progress''),
          log_activity ''reconnect_cancelled'' st1))"

definition set_ble_pin :: "int \<Rightarrow> bool \<Rightarrow> ble_service \<Rightarrow> route_reply \<times> ble_service" where
  "set_ble_pin pin writable st =
     (if pin \<noteq> 0 \<and> \<not> (BLE_PIN_MIN \<le> pin \<and> pin \<le> BLE_PIN_MAX) then (RouteError 400, st)
      else (RouteOk ''ok'', save_ble_pin writable pin (st\<lparr>sv_pin := pin\<rparr>)))"

text \<open>Start of the process: the stored PIN wins over the environment's.\<close>

definition service_start :: "int \<Rightarrow> bool \<Rightarrow> ble_service \<Rightarrow> ble_service" where
  "service_start env_pin auto_connect st =
     (let stored = load_ble_pin st;
          st1 = st\<lparr>sv_pin := (if stored \<noteq> 0 then stored else env_pin)\<rparr>
      in if auto_connect
         then st1\<lparr>sv_auto := Some \<lparr>ld_mac = [], ld_name = [], ld_phase = LpQueued\<rparr>\<rparr> else st1)"

definition get_status :: "string \<Rightarrow> ble_service \<Rightarrow> msgd" where
  "get_status adapter_state st =
     [(''connected'', JBool (sv_connected st)),
      (''state'', JStr (if sv_reconnecting st then ''reconnecting'' else adapter_state)),
      (''device_address'', json_opt (case sv_device st of Some (mac, name) \<Rightarrow> Some mac | None \<Rightarrow> sv_last_mac st)),
      (''device_name'', json_opt (case sv_device st of Some (mac, name) \<Rightarrow> name | None \<Rightarrow> sv_last_name st)),
      (''reconnecting'', JBool (sv_reconnecting st)),
      (''reconnect_attempt'', if sv_reconnecting st then JInt (int (sv_attempt st)) else JNull),
      (''reconnect_max_attempts'', if sv_reconnecting st then JInt (int (sv_max_attempts st)) else JNull)]"

section \<open>Interleavings\<close>

text \<open>Everything that can run between two awaits. A request id names one request.\<close>

datatype service_event =
    SvWake slot bool
  | SvDone slot attempt_outcome bool bool string
  | SvUp string "string option"
  | SvDown
  | SvDrop bool time
  | SvConnect bool string
  | SvConnectDone string "string option" attempt_outcome bool string
  | SvEnsure nat string "int option" bool
  | SvEnsureResult nat ensure_result time
  | SvEnsureFinish nat bool string
  | SvEnsureAbort nat
  | SvDisconnect bool bool
  | SvDisconnectDone bool
  | SvCancel bool
  | SvSetPin int bool

fun service_step :: "service_event \<Rightarrow> ble_service \<Rightarrow> ble_service" where
  "service_step (SvWake s busy) st = ladder_wakes s busy st"
| "service_step (SvDone s outcome busy writable connected_at) st = attempt_done s outcome busy writable connected_at st"
| "service_step (SvUp mac name) st = adapter_up mac name st"
| "service_step SvDown st = adapter_closes st"
| "service_step (SvDrop idle now) st = adapter_drop idle now st"
| "service_step (SvConnect busy mac) st = connect_route_begin busy mac st"
| "service_step (SvConnectDone mac name outcome writable connected_at) st =
     snd (connect_route_done mac name outcome writable connected_at st)"
| "service_step (SvEnsure i mac pin busy) st =
     (if i \<in> fst ` set (sv_calls st) then st else snd (ensure_route_begin i mac pin busy st))"
| "service_step (SvEnsureResult i result now) st = snd (ensure_route_result i result now st)"
| "service_step (SvEnsureFinish i writable connected_at) st = snd (ensure_route_finish i writable connected_at st)"
| "service_step (SvEnsureAbort i) st = ensure_route_abort i st"
| "service_step (SvDisconnect removable idle) st = snd (disconnect_route removable idle st)"
| "service_step (SvDisconnectDone ok) st = snd (disconnect_route_done ok st)"
| "service_step (SvCancel removable) st = snd (cancel_reconnect_route removable st)"
| "service_step (SvSetPin pin writable) st = snd (set_ble_pin pin writable st)"

fun service_run :: "service_event list \<Rightarrow> ble_service \<Rightarrow> ble_service" where
  "service_run [] st = st"
| "service_run (e # es) st = service_run es (service_step e st)"

inductive service_reachable :: "ble_service \<Rightarrow> bool" where
  start: "service_reachable (service_start env_pin auto_connect (service_init file))"
| step: "service_reachable st \<Longrightarrow> service_reachable (service_step e st)"

lemma service_reachable_run: "service_reachable st \<Longrightarrow> service_reachable (service_run es st)"
  by (induction es arbitrary: st) (auto intro: service_reachable.step)

text \<open>The frames: what each helper leaves alone.\<close>

lemmas service_ops =
  log_activity_def push_status_event_def set_ladder_def get_ladder_def end_ladder_def
  save_ble_state_def save_ble_pin_def clear_ble_state_def cancel_tasks_def drop_call_def schedule_reconnect_def

lemmas service_splits = if_splits option.splits slot.splits

lemma log_activity_frame [simp]:
  "sv_connected (log_activity a st) = sv_connected st" "sv_device (log_activity a st) = sv_device st"
  "sv_pin (log_activity a st) = sv_pin st" "sv_file (log_activity a st) = sv_file st"
  "sv_user_disconnected (log_activity a st) = sv_user_disconnected st"
  "sv_last_mac (log_activity a st) = sv_last_mac st" "sv_last_name (log_activity a st) = sv_last_name st"
  "sv_reconnecting (log_activity a st) = sv_reconnecting st" "sv_attempt (log_activity a st) = sv_attempt st"
  "sv_pin_probe (log_activity a st) = sv_pin_probe st" "sv_post_init (log_activity a st) = sv_post_init st"
  "sv_reconnect (log_activity a st) = sv_reconnect st" "sv_auto (log_activity a st) = sv_auto st"
  "sv_calls (log_activity a st) = sv_calls st" "sv_attempts (log_activity a st) = sv_attempts st"
  "sv_resets (log_activity a st) = sv_resets st" "sv_events (log_activity a st) = sv_events st"
  "get_ladder s (log_activity a st) = get_ladder s st"
  by (auto simp: log_activity_def Let_def get_ladder_def split: slot.splits)

lemma push_status_event_frame [simp]:
  "sv_connected (push_status_event v st) = sv_connected st" "sv_device (push_status_event v st) = sv_device st"
  "sv_pin (push_status_event v st) = sv_pin st" "sv_file (push_status_event v st) = sv_file st"
  "sv_user_disconnected (push_status_event v st) = sv_user_disconnected st"
  "sv_last_mac (push_status_event v st) = sv_last_mac st" "sv_last_name (push_status_event v st) = sv_last_name st"
  "sv_reconnecting (push_status_event v st) = sv_reconnecting st" "sv_attempt (push_status_event v st) = sv_attempt st"
  "sv_pin_probe (push_status_event v st) = sv_pin_probe st" "sv_post_init (push_status_event v st) = sv_post_init st"
  "sv_reconnect (push_status_event v st) = sv_reconnect st" "sv_auto (push_status_event v st) = sv_auto st"
  "sv_calls (push_status_event v st) = sv_calls st" "sv_attempts (push_status_event v st) = sv_attempts st"
  "sv_resets (push_status_event v st) = sv_resets st" "get_ladder s (push_status_event v st) = get_ladder s st"
  by (auto simp: push_status_event_def get_ladder_def split: slot.splits)

lemma set_ladder_frame [simp]:
  "sv_connected (set_ladder s l st) = sv_connected st" "sv_pin (set_ladder s l st) = sv_pin st"
  "sv_device (set_ladder s l st) = sv_device st"
  "sv_file (set_ladder s l st) = sv_file st" "sv_user_disconnected (set_ladder s l st) = sv_user_disconnected st"
  "sv_last_name (set_ladder s l st) = sv_last_name st" "sv_reconnecting (set_ladder s l st) = sv_reconnecting st"
  "sv_pin_probe (set_ladder s l st) = sv_pin_probe st" "sv_post_init (set_ladder s l st) = sv_post_init st"
  "sv_calls (set_ladder s l st) = sv_calls st" "sv_attempts (set_ladder s l st) = sv_attempts st"
  "sv_resets (set_ladder s l st) = sv_resets st"
  "get_ladder s' (set_ladder s l st) = (if s' = s then l else get_ladder s' st)"
  by (auto simp: set_ladder_def get_ladder_def split: slot.splits)

lemma end_ladder_frame [simp]:
  "sv_connected (end_ladder s st) = sv_connected st" "sv_pin (end_ladder s st) = sv_pin st"
  "sv_device (end_ladder s st) = sv_device st"
  "sv_file (end_ladder s st) = sv_file st" "sv_user_disconnected (end_ladder s st) = sv_user_disconnected st"
  "sv_last_name (end_ladder s st) = sv_last_name st" "sv_reconnecting (end_ladder s st) = False"
  "sv_pin_probe (end_ladder s st) = sv_pin_probe st" "sv_post_init (end_ladder s st) = sv_post_init st"
  "sv_calls (end_ladder s st) = sv_calls st" "sv_attempts (end_ladder s st) = sv_attempts st"
  "sv_resets (end_ladder s st) = sv_resets st"
  "get_ladder s' (end_ladder s st) = (if s' = s then None else get_ladder s' st)"
  by (auto simp: end_ladder_def set_ladder_def get_ladder_def split: slot.splits)

lemma save_ble_state_frame [simp]:
  "sv_connected (save_ble_state w c m n st) = sv_connected st" "sv_pin (save_ble_state w c m n st) = sv_pin st"
  "sv_device (save_ble_state w c m n st) = sv_device st"
  "sv_user_disconnected (save_ble_state w c m n st) = sv_user_disconnected st"
  "sv_last_name (save_ble_state w c m n st) = sv_last_name st" "sv_reconnecting (save_ble_state w c m n st) = sv_reconnecting st"
  "sv_pin_probe (save_ble_state w c m n st) = sv_pin_probe st" "sv_post_init (save_ble_state w c m n st) = sv_post_init st"
  "sv_calls (save_ble_state w c m n st) = sv_calls st" "sv_attempts (save_ble_state w c m n st) = sv_attempts st"
  "sv_resets (save_ble_state w c m n st) = sv_resets st" "get_ladder s (save_ble_state w c m n st) = get_ladder s st"
  "sv_reconnect (save_ble_state w c m n st) = sv_reconnect st" "sv_auto (save_ble_state w c m n st) = sv_auto st"
  by (auto simp: save_ble_state_def get_ladder_def split: slot.splits)

lemma connect_begin_frame [simp]:
  "sv_connected (connect_and_initialize_begin b m st) = sv_connected st" "sv_pin (connect_and_initialize_begin b m st) = sv_pin st"
  "sv_file (connect_and_initialize_begin b m st) = sv_file st"
  "sv_user_disconnected (connect_and_initialize_begin b m st) = sv_user_disconnected st"
  "sv_reconnecting (connect_and_initialize_begin b m st) = sv_reconnecting st"
  "sv_pin_probe (connect_and_initialize_begin b m st) = sv_pin_probe st"
  "sv_post_init (connect_and_initialize_begin b m st) = sv_post_init st"
  "sv_calls (connect_and_initialize_begin b m st) = sv_calls st" "sv_attempts (connect_and_initialize_begin b m st) = sv_attempts st"
  "get_ladder s (connect_and_initialize_begin b m st) = get_ladder s st"
  "sv_reconnect (connect_and_initialize_begin b m st) = sv_reconnect st" "sv_auto (connect_and_initialize_begin b m st) = sv_auto st"
  by (auto simp: connect_and_initialize_begin_def get_ladder_def Let_def split: slot.splits)

lemma start_attempt_frame [simp]:
  "sv_connected (start_attempt s l a b st) = sv_connected st" "sv_file (start_attempt s l a b st) = sv_file st"
  "sv_pin (start_attempt s l a b st) = sv_pin st"
  "sv_user_disconnected (start_attempt s l a b st) = sv_user_disconnected st"
  "sv_reconnecting (start_attempt s l a b st) = sv_reconnecting st" "sv_pin_probe (start_attempt s l a b st) = sv_pin_probe st"
  "sv_post_init (start_attempt s l a b st) = sv_post_init st" "sv_calls (start_attempt s l a b st) = sv_calls st"
  "sv_attempts (start_attempt s l a b st) = sv_attempts st @ [(s, ld_mac l)]"
  "get_ladder s' (start_attempt s l a b st) = (if s' = s then Some (l\<lparr>ld_phase := LpConnecting a\<rparr>) else get_ladder s' st)"
  by (auto simp: start_attempt_def) (auto simp: get_ladder_def split: slot.splits)

lemma ladder_cancelled_frame [simp]:
  "sv_connected (ladder_cancelled s st) = sv_connected st" "sv_file (ladder_cancelled s st) = sv_file st"
  "sv_pin (ladder_cancelled s st) = sv_pin st"
  "sv_user_disconnected (ladder_cancelled s st) = sv_user_disconnected st" "sv_reconnecting (ladder_cancelled s st) = False"
  "sv_pin_probe (ladder_cancelled s st) = sv_pin_probe st" "sv_post_init (ladder_cancelled s st) = sv_post_init st"
  "sv_calls (ladder_cancelled s st) = sv_calls st" "sv_attempts (ladder_cancelled s st) = sv_attempts st"
  "sv_resets (ladder_cancelled s st) = sv_resets st"
  "get_ladder s' (ladder_cancelled s st) = (if s' = s then None else get_ladder s' st)"
  by (auto simp: ladder_cancelled_def Let_def)

section \<open>No bus reset under a request's initialisation\<close>

definition calls_ok :: "ble_service \<Rightarrow> bool" where
  "calls_ok st \<longleftrightarrow> distinct (map fst (sv_calls st)) \<and> sv_post_init st = length (filter in_init (sv_calls st)) \<and>
     (\<forall>d. sv_pin_probe st = Some d \<longrightarrow> (\<exists>i mac pin. (i, EcInit mac pin d) \<in> set (sv_calls st))) \<and>
     set (sv_resets st) \<subseteq> {0}"

lemma calls_ok_cong:
  assumes "sv_calls st' = sv_calls st" "sv_post_init st' = sv_post_init st"
    and "sv_pin_probe st' = sv_pin_probe st \<or> sv_pin_probe st' = None"
    and "sv_resets st' = sv_resets st \<or> (\<exists>n. sv_resets st' = sv_resets st @ [n] \<and> (sv_post_init st = length (filter in_init (sv_calls st)) \<longrightarrow> n = 0))"
    and "calls_ok st"
  shows "calls_ok st'"
  using assms by (auto simp: calls_ok_def)

lemma delete_fst: "map fst (AList.delete i xs) = filter (\<lambda>j. j \<noteq> i) (map fst xs)"
  by (induction xs) auto

lemma distinct_delete: "distinct (map fst xs) \<Longrightarrow> distinct (map fst (AList.delete i xs))"
  by (simp add: delete_fst)

lemma length_delete_init:
  assumes "distinct (map fst xs)" and "map_of xs i = Some c"
  shows "length (filter in_init xs) = length (filter in_init (AList.delete i xs)) + of_bool (in_init (i, c))"
  using assms
proof (induction xs)
  case (Cons x xs)
  show ?case
  proof (cases "fst x = i")
    case True
    then have "AList.delete i xs = xs" using Cons.prems(1) by (auto intro!: delete_idem)
    then show ?thesis using Cons.prems True by (cases x) auto
  qed (use Cons in \<open>cases x, auto\<close>)
qed simp

lemma length_update_init:
  assumes "distinct (map fst xs)" and "map_of xs i = Some c" and "\<not> in_init (i, c)"
  shows "length (filter in_init (AList.update i (EcInit mac pin d) xs)) = Suc (length (filter in_init xs))"
  using assms
proof (induction xs)
  case (Cons x xs)
  then show ?case by (cases x) (auto split: if_splits)
qed simp

lemma update_fresh: "i \<notin> fst ` set xs \<Longrightarrow> AList.update i c xs = xs @ [(i, c)]"
  by (induction xs) auto

lemma calls_ok_begin: "calls_ok st \<Longrightarrow> calls_ok (connect_and_initialize_begin busy mac st)"
  by (rule calls_ok_cong [where st = st]) (auto simp: connect_and_initialize_begin_def Let_def)

lemma calls_ok_frames [simp]:
  "calls_ok (log_activity a st) = calls_ok st" "calls_ok (push_status_event v st) = calls_ok st"
  "calls_ok (set_ladder s l st) = calls_ok st" "calls_ok (end_ladder s st) = calls_ok st"
  "calls_ok (save_ble_state w c m n st) = calls_ok st" "calls_ok (ladder_cancelled s st) = calls_ok st"
  "calls_ok (save_ble_pin w p st) = calls_ok st" "calls_ok (clear_ble_state r st) = calls_ok st"
  "calls_ok (cancel_tasks st) = calls_ok st" "calls_ok (schedule_reconnect st) = calls_ok st"
  "calls_ok (st\<lparr>sv_reconnecting := b1\<rparr>) = calls_ok st" "calls_ok (st\<lparr>sv_attempt := n1\<rparr>) = calls_ok st"
  "calls_ok (st\<lparr>sv_max_attempts := n1\<rparr>) = calls_ok st" "calls_ok (st\<lparr>sv_last_name := x1\<rparr>) = calls_ok st"
  "calls_ok (st\<lparr>sv_last_mac := x1\<rparr>) = calls_ok st" "calls_ok (st\<lparr>sv_user_disconnected := b1\<rparr>) = calls_ok st"
  "calls_ok (st\<lparr>sv_connected := b1\<rparr>) = calls_ok st" "calls_ok (st\<lparr>sv_device := v1\<rparr>) = calls_ok st"
  "calls_ok (st\<lparr>sv_reconnect := l1\<rparr>) = calls_ok st" "calls_ok (st\<lparr>sv_auto := l1\<rparr>) = calls_ok st"
  "calls_ok (st\<lparr>sv_attempts := t1\<rparr>) = calls_ok st" "calls_ok (st\<lparr>sv_pin := p1\<rparr>) = calls_ok st"
  "calls_ok (st\<lparr>sv_registers := g1\<rparr>) = calls_ok st"
  by (simp_all add: calls_ok_def) (simp_all add: service_ops)

lemma calls_ok_start_attempt: "calls_ok st \<Longrightarrow> calls_ok (start_attempt s l a busy st)"
  by (simp add: start_attempt_def calls_ok_begin)

lemma calls_ok_ladder_top: "calls_ok st \<Longrightarrow> calls_ok (ladder_top s l a busy st)"
  by (simp add: ladder_top_def Let_def calls_ok_start_attempt)

lemma calls_ok_wakes: "calls_ok st \<Longrightarrow> calls_ok (ladder_wakes s busy st)"
  by (auto simp: ladder_wakes_def auto_reconnect_def startup_auto_connect_def retry_connect_def Let_def
    calls_ok_ladder_top calls_ok_start_attempt split: option.splits ladder_phase.splits slot.splits)

lemma calls_ok_done: "calls_ok st \<Longrightarrow> calls_ok (attempt_done s outcome busy w c st)"
  by (auto simp: attempt_done_def Let_def calls_ok_ladder_top
    split: option.splits ladder_phase.splits attempt_outcome.splits)

lemma calls_ok_exit:
  assumes "calls_ok st" and "map_of (sv_calls st) i = Some (EcInit mac pin d)"
  shows "calls_ok (ensure_init_exit i d st)"
proof -
  have probe: "\<exists>j m p. (j, EcInit m p e) \<in> set (AList.delete i (sv_calls st))"
    if e: "sv_pin_probe st = Some e" "e \<noteq> d" for e
  proof -
    obtain j m p where j: "(j, EcInit m p e) \<in> set (sv_calls st)" using assms(1) e by (auto simp: calls_ok_def)
    then have "map_of (sv_calls st) j = Some (EcInit m p e)" using assms(1) by (simp add: calls_ok_def)
    then have "j \<noteq> i" using assms(2) e by auto
    then show ?thesis using j by (auto simp: AList.delete_eq)
  qed
  show ?thesis
    using assms probe length_delete_init [OF _ assms(2)]
    by (auto simp: calls_ok_def ensure_init_exit_def drop_call_def distinct_delete)
qed

lemma calls_ok_result: "calls_ok st \<Longrightarrow> calls_ok (snd (ensure_route_result i result now st))"
proof -
  assume inv: "calls_ok st"
  have drop: "calls_ok (drop_call i st)" if c: "map_of (sv_calls st) i = Some (EcConnecting mac pin)" for mac pin
  proof -
    have keep: "(j, EcInit m p d) \<in> set (AList.delete i (sv_calls st))" if "(j, EcInit m p d) \<in> set (sv_calls st)" for j m p d
    proof -
      have "map_of (sv_calls st) j = Some (EcInit m p d)" using inv that by (simp add: calls_ok_def)
      then show ?thesis using that c by (auto simp: AList.delete_eq)
    qed
    show ?thesis
      using inv length_delete_init [OF _ c] by (auto simp: calls_ok_def drop_call_def distinct_delete intro: keep) (metis keep)
  qed
  have enter: "calls_ok (st\<lparr>sv_pin_probe := Some d, sv_post_init := sv_post_init st + 1,
      sv_calls := AList.update i (EcInit mac pin d) (sv_calls st)\<rparr>)"
    if c: "map_of (sv_calls st) i = Some (EcConnecting mac pin)" for mac pin d
  proof -
    have "map_of (AList.update i (EcInit mac pin d) (sv_calls st)) i = Some (EcInit mac pin d)" by (simp add: update_conv')
    then have "(i, EcInit mac pin d) \<in> set (AList.update i (EcInit mac pin d) (sv_calls st))" by (rule map_of_SomeD)
    then show ?thesis
      using inv length_update_init [OF _ c] by (auto simp: calls_ok_def distinct_update)
  qed
  show ?thesis
    using inv drop enter
    by (auto simp: ensure_route_result_def Let_def split: option.splits ensure_call.splits ensure_result.splits)
qed

lemma calls_ok_ensure_begin:
  assumes "calls_ok st" and "i \<notin> fst ` set (sv_calls st)"
  shows "calls_ok (snd (ensure_route_begin i mac pin busy st))"
  using assms by (auto simp: ensure_route_begin_def Let_def calls_ok_def cancel_tasks_def update_fresh)

lemma calls_ok_drop: "calls_ok st \<Longrightarrow> calls_ok (adapter_drop idle now st)"
  by (auto simp: adapter_drop_def on_adapter_disconnect_def Let_def split: option.splits) (simp_all add: calls_ok_def)

lemma calls_ok_abort: "calls_ok st \<Longrightarrow> calls_ok (ensure_route_abort i st)"
  using calls_ok_result [of st i EnsureTimeout 0] calls_ok_exit [of st i]
  by (auto simp: ensure_route_abort_def ensure_route_result_def split: option.splits ensure_call.splits)

lemma calls_ok_finish: "calls_ok st \<Longrightarrow> calls_ok (snd (ensure_route_finish i w c st))"
  using calls_ok_exit [of st i]
  by (auto simp: ensure_route_finish_def Let_def split: option.splits ensure_call.splits)

lemma calls_ok_step: "calls_ok st \<Longrightarrow> calls_ok (service_step e st)"
  by (cases e) (auto simp: calls_ok_wakes calls_ok_done calls_ok_drop calls_ok_begin calls_ok_ensure_begin calls_ok_result
    calls_ok_abort calls_ok_finish adapter_up_def adapter_closes_def connect_route_begin_def connect_route_done_def disconnect_route_def
    disconnect_route_done_def cancel_reconnect_route_def set_ble_pin_def Let_def split: attempt_outcome.splits)

lemma calls_ok_reachable: "service_reachable st \<Longrightarrow> calls_ok st"
proof (induction rule: service_reachable.induct)
  case (start env_pin auto_connect state_file)
  then show ?case by (simp add: service_start_def service_init_def calls_ok_def Let_def)
qed (rule calls_ok_step)

text \<open>C22: BLE service, the shared bus: however retry ladders, connect requests and ensure_connected requests
  interleave (requests cancelled at any point included), the bus is never reset while an ensure_connected
  request is still talking to the device after its connect: every reset happens with no request in its
  post-connect initialisation, and the counter that guards it is exactly the number of those requests.\<close>
theorem no_bus_reset_during_init:
  assumes "service_reachable st"
  shows "set (sv_resets st) \<subseteq> {0} \<and> sv_post_init st = length (filter in_init (sv_calls st))"
  using calls_ok_reachable [OF assms] by (simp_all add: calls_ok_def)

definition demo_service :: ble_service where
  "demo_service = service_run
     [SvEnsure 1 ''AA'' (Some 123456) False, SvEnsureResult 1 EnsureSucceeded 10, SvConnect False ''BB'',
      SvUp ''AA'' None, SvEnsureFinish 1 True ''t'', SvConnect False ''AA'']
     (service_start 0 False (service_init None))"

lemma demo_service_reachable: "service_reachable demo_service"
  unfolding demo_service_def by (intro service_reachable_run service_reachable.start)

lemma no_bus_reset_during_init_witness:
  "set (sv_resets demo_service) \<subseteq> {0} \<and> sv_post_init demo_service = length (filter in_init (sv_calls demo_service))
   \<and> sv_resets demo_service = [0]"
proof -
  have "sv_resets demo_service = [0]" by code_simp
  then show ?thesis using no_bus_reset_during_init [OF demo_service_reachable] by simp
qed

section \<open>The retry ladder ends\<close>

fun phase_left :: "ladder_phase \<Rightarrow> nat" where
  "phase_left LpQueued = 10"
| "phase_left LpHardware = 9"
| "phase_left (LpSleeping a) = 2 * (4 - a) + 3"
| "phase_left (LpConnecting a) = 2 * (4 - a) + 2"
| "phase_left (LpBackoff a) = 2 * (4 - a) + 1"

fun attempts_left :: "ladder_phase \<Rightarrow> nat" where
  "attempts_left LpQueued = 4"
| "attempts_left LpHardware = 4"
| "attempts_left (LpSleeping a) = 5 - a"
| "attempts_left (LpConnecting a) = 4 - a"
| "attempts_left (LpBackoff a) = 4 - a"

fun phase_ok :: "slot \<Rightarrow> ladder_phase \<Rightarrow> bool" where
  "phase_ok s LpQueued = True"
| "phase_ok s LpHardware = (s = AutoConnectTask)"
| "phase_ok s (LpSleeping a) = (1 \<le> a \<and> a \<le> 4)"
| "phase_ok s (LpConnecting a) = (1 \<le> a \<and> a \<le> 4)"
| "phase_ok s (LpBackoff a) = (s = AutoConnectTask \<and> 1 \<le> a \<and> a < 4)"

definition ladder_left :: "slot \<Rightarrow> ble_service \<Rightarrow> nat" where
  "ladder_left s st = (case get_ladder s st of None \<Rightarrow> 0 | Some l \<Rightarrow> phase_left (ld_phase l))"

definition ladder_attempts_left :: "slot \<Rightarrow> ble_service \<Rightarrow> nat" where
  "ladder_attempts_left s st = (case get_ladder s st of None \<Rightarrow> 0 | Some l \<Rightarrow> attempts_left (ld_phase l))"

definition ladder_ok :: "slot \<Rightarrow> ble_service \<Rightarrow> bool" where
  "ladder_ok s st = (case get_ladder s st of None \<Rightarrow> True | Some l \<Rightarrow> phase_ok s (ld_phase l))"

definition attempts_of :: "slot \<Rightarrow> ble_service \<Rightarrow> nat" where
  "attempts_of s st = length (filter (\<lambda>(s', mac). s' = s) (sv_attempts st))"

text \<open>A move of the ladder: its task runs (a wake-up outside an attempt, the end of an attempt).\<close>

definition connecting :: "slot \<Rightarrow> ble_service \<Rightarrow> bool" where
  "connecting s st = (case get_ladder s st of Some l \<Rightarrow> (case ld_phase l of LpConnecting a \<Rightarrow> True | _ \<Rightarrow> False) | None \<Rightarrow> False)"

fun ladder_move :: "slot \<Rightarrow> service_event \<Rightarrow> ble_service \<Rightarrow> bool" where
  "ladder_move s (SvWake s' busy) st = (s' = s \<and> get_ladder s st \<noteq> None \<and> \<not> connecting s st)"
| "ladder_move s (SvDone s' outcome busy w c) st = (s' = s \<and> connecting s st)"
| "ladder_move s e st = False"

text \<open>The ladder in the slot stays alive through a run; its moves are counted.\<close>

fun ladder_alive :: "slot \<Rightarrow> service_event list \<Rightarrow> ble_service \<Rightarrow> bool" where
  "ladder_alive s [] st = (get_ladder s st \<noteq> None)"
| "ladder_alive s (e # es) st = (get_ladder s st \<noteq> None \<and> ladder_alive s es (service_step e st))"

fun ladder_moves :: "slot \<Rightarrow> service_event list \<Rightarrow> ble_service \<Rightarrow> nat" where
  "ladder_moves s [] st = 0"
| "ladder_moves s (e # es) st = of_bool (ladder_move s e st) + ladder_moves s es (service_step e st)"

lemma delays_length [simp]: "length RECONNECT_DELAYS_S = 4"
  by (simp add: RECONNECT_DELAYS_S_def)

text \<open>Budgets: left moves and left attempts, attempts made so far included.\<close>

definition ladder_descends :: "slot \<Rightarrow> ble_service \<Rightarrow> ble_service \<Rightarrow> bool" where
  "ladder_descends s st st' \<longleftrightarrow> ladder_left s st' < ladder_left s st \<and> ladder_ok s st' \<and>
     attempts_of s st' + ladder_attempts_left s st' \<le> attempts_of s st + ladder_attempts_left s st"

definition ladder_untouched :: "slot \<Rightarrow> ble_service \<Rightarrow> ble_service \<Rightarrow> bool" where
  "ladder_untouched s st st' \<longleftrightarrow> (get_ladder s st' = get_ladder s st \<or> get_ladder s st' = None) \<and> attempts_of s st' = attempts_of s st"

lemma attempts_of_simps [simp]:
  "attempts_of s (log_activity a st) = attempts_of s st" "attempts_of s (push_status_event v st) = attempts_of s st"
  "attempts_of s (set_ladder s' l st) = attempts_of s st" "attempts_of s (end_ladder s' st) = attempts_of s st"
  "attempts_of s (ladder_cancelled s' st) = attempts_of s st"
  "attempts_of s (start_attempt s' k j b st) = attempts_of s st + of_bool (s' = s)"
  "attempts_of s (save_ble_state w c m n st) = attempts_of s st"
  "attempts_of s (connect_and_initialize_begin b m st) = attempts_of s st"
  by (simp_all add: attempts_of_def)

lemma attempts_of_record [simp]:
  "attempts_of s (st\<lparr>sv_attempt := n1\<rparr>) = attempts_of s st" "attempts_of s (st\<lparr>sv_reconnecting := b1\<rparr>) = attempts_of s st"
  "attempts_of s (st\<lparr>sv_max_attempts := n1\<rparr>) = attempts_of s st" "attempts_of s (st\<lparr>sv_last_name := x1\<rparr>) = attempts_of s st"
  "attempts_of s (st\<lparr>sv_last_mac := x1\<rparr>) = attempts_of s st" "attempts_of s (st\<lparr>sv_user_disconnected := b1\<rparr>) = attempts_of s st"
  "attempts_of s (st\<lparr>sv_auto := l1\<rparr>) = attempts_of s st" "attempts_of s (st\<lparr>sv_reconnect := l1\<rparr>) = attempts_of s st"
  by (simp_all add: attempts_of_def)

lemma get_ladder_record [simp]:
  "get_ladder s (st\<lparr>sv_attempt := n1\<rparr>) = get_ladder s st" "get_ladder s (st\<lparr>sv_reconnecting := b1\<rparr>) = get_ladder s st"
  "get_ladder s (st\<lparr>sv_max_attempts := n1\<rparr>) = get_ladder s st" "get_ladder s (st\<lparr>sv_last_name := x1\<rparr>) = get_ladder s st"
  "get_ladder s (st\<lparr>sv_last_mac := x1\<rparr>) = get_ladder s st" "get_ladder s (st\<lparr>sv_user_disconnected := b1\<rparr>) = get_ladder s st"
  "get_ladder s (st\<lparr>sv_connected := b1\<rparr>) = get_ladder s st" "get_ladder s (st\<lparr>sv_device := v1\<rparr>) = get_ladder s st"
  "get_ladder s (st\<lparr>sv_pin_probe := d1\<rparr>) = get_ladder s st"
  "get_ladder ReconnectTask (st\<lparr>sv_auto := l1\<rparr>) = get_ladder ReconnectTask st"
  "get_ladder AutoConnectTask (st\<lparr>sv_auto := l1\<rparr>) = l1"
  "get_ladder AutoConnectTask (st\<lparr>sv_reconnect := l1\<rparr>) = get_ladder AutoConnectTask st"
  "get_ladder ReconnectTask (st\<lparr>sv_reconnect := l1\<rparr>) = l1"
  by (simp_all add: get_ladder_def split: slot.splits)

lemma phase_left_pos: "0 < phase_left p"
  by (cases p) auto

lemma ladder_top_descends:
  assumes l0: "get_ladder s st = Some l0" and a: "1 \<le> a"
    and moves: "a \<le> 4 \<Longrightarrow> 2 * (4 - a) + 2 + of_bool (rp_sleep_before (profile_of s)) < phase_left (ld_phase l0)"
    and budget: "5 - a \<le> attempts_left (ld_phase l0)"
  shows "ladder_descends s st (ladder_top s l a busy st)"
  using assms phase_left_pos [of "ld_phase l0"]
  by (auto simp: ladder_descends_def ladder_top_def Let_def ladder_left_def ladder_attempts_left_def ladder_ok_def)

lemma ladder_descends_from:
  assumes "ladder_descends s st1 st'" and "get_ladder s st1 = get_ladder s st" and "attempts_of s st1 = attempts_of s st"
  shows "ladder_descends s st st'"
  using assms by (simp add: ladder_descends_def ladder_left_def ladder_attempts_left_def)

lemma profile_sleeps [simp]: "rp_sleep_before (profile_of s) = (s = ReconnectTask)"
  by (cases s) (auto simp: profile_of_def AUTO_RECONNECT_PROFILE_def STARTUP_CONNECT_PROFILE_def)

lemma retry_connect_descends:
  assumes "get_ladder s st = Some l0" and "9 + of_bool (s = ReconnectTask) \<le> phase_left (ld_phase l0)" and "4 \<le> attempts_left (ld_phase l0)"
  shows "ladder_descends s st (retry_connect s l busy st)"
  unfolding retry_connect_def
  by (rule ladder_descends_from [OF ladder_top_descends]) (use assms in auto)

lemma ladder_ended_descends:
  assumes "get_ladder s st = Some l0" and "get_ladder s st' = None" and "attempts_of s st' \<le> attempts_of s st + attempts_left (ld_phase l0)"
  shows "ladder_descends s st st'"
  using assms phase_left_pos by (auto simp: ladder_descends_def ladder_left_def ladder_attempts_left_def ladder_ok_def)

lemma startup_auto_connect_descends:
  assumes "get_ladder AutoConnectTask st = Some l0" and "ld_phase l0 = LpQueued"
  shows "ladder_descends AutoConnectTask st (startup_auto_connect st)"
  using assms
  by (auto simp: startup_auto_connect_def Let_def ladder_descends_def ladder_left_def ladder_attempts_left_def ladder_ok_def
      split: option.splits json.splits)

lemma auto_reconnect_descends:
  assumes "get_ladder ReconnectTask st = Some l0" and "ld_phase l0 = LpQueued"
  shows "ladder_descends ReconnectTask st (auto_reconnect busy st)"
  using assms
  by (auto simp: auto_reconnect_def Let_def split: option.splits intro: retry_connect_descends ladder_ended_descends)

lemma ladder_wakes_descends:
  assumes "get_ladder s st = Some l0" and "\<not> connecting s st" and "ladder_ok s st"
  shows "ladder_descends s st (ladder_wakes s busy st)"
proof (cases "ld_phase l0")
  case LpQueued
  then show ?thesis
    using assms auto_reconnect_descends startup_auto_connect_descends by (auto simp: ladder_wakes_def split: slot.splits)
next
  case LpHardware
  then show ?thesis using assms by (auto simp: ladder_wakes_def intro!: retry_connect_descends simp: ladder_ok_def)
next
  case (LpSleeping a)
  then show ?thesis
    using assms by (auto simp: ladder_wakes_def ladder_descends_def ladder_left_def ladder_attempts_left_def ladder_ok_def)
next
  case (LpConnecting a)
  then show ?thesis using assms by (simp add: connecting_def)
next
  case (LpBackoff a)
  then show ?thesis using assms by (auto simp: ladder_wakes_def ladder_ok_def intro!: ladder_top_descends split: nat_diff_split)
qed


lemma attempt_done_descends:
  assumes "get_ladder s st = Some l0" and "connecting s st" and "ladder_ok s st"
  shows "ladder_descends s st (attempt_done s outcome busy w c st)"
proof -
  obtain a where a: "ld_phase l0 = LpConnecting a" "1 \<le> a" "a \<le> 4"
    using assms by (auto simp: connecting_def ladder_ok_def split: ladder_phase.splits)
  have failed: "ladder_descends s st
      (if s \<noteq> ReconnectTask \<and> a < 4 then set_ladder s (Some (l0\<lparr>ld_phase := LpBackoff a\<rparr>)) (log_activity act st)
       else ladder_top s l0 (a + 1) busy (log_activity act st))" for act
  proof (cases "s \<noteq> ReconnectTask \<and> a < 4")
    case True
    then show ?thesis
      using assms a by (cases s) (auto simp: ladder_descends_def ladder_left_def ladder_attempts_left_def ladder_ok_def)
  next
    case False
    then have "ladder_descends s (log_activity act st) (ladder_top s l0 (a + 1) busy (log_activity act st))"
      using assms a by (intro ladder_top_descends) auto
    then show ?thesis using False by (auto elim: ladder_descends_from)
  qed
  show ?thesis
  proof (cases outcome)
    case AttemptSucceeds
    then show ?thesis
      using assms a by (auto simp: attempt_done_def Let_def split: option.splits intro!: ladder_ended_descends)
  qed (use failed assms a in \<open>auto simp: attempt_done_def Let_def\<close>)
qed

lemma ladder_move_descends:
  assumes "ladder_move s e st" and "ladder_ok s st"
  shows "ladder_descends s st (service_step e st)"
  using assms ladder_wakes_descends attempt_done_descends
  by (cases e) (auto simp: connecting_def split: option.splits)

text \<open>Every other event leaves the ladder alone or ends it.\<close>

lemma untouched_top: "s' \<noteq> s \<Longrightarrow> ladder_untouched s st (ladder_top s' l a busy st)"
  by (auto simp: ladder_untouched_def ladder_top_def Let_def)

lemma untouched_from:
  assumes "ladder_untouched s st1 st'" and "get_ladder s st1 = get_ladder s st" and "attempts_of s st1 = attempts_of s st"
  shows "ladder_untouched s st st'"
  using assms by (simp add: ladder_untouched_def)

lemma untouched_retry: "s' \<noteq> s \<Longrightarrow> ladder_untouched s st (retry_connect s' l busy st)"
  unfolding retry_connect_def by (rule untouched_from [OF untouched_top]) auto

lemma untouched_startup: "s \<noteq> AutoConnectTask \<Longrightarrow> ladder_untouched s st (startup_auto_connect st)"
  by (cases s) (auto simp: startup_auto_connect_def Let_def ladder_untouched_def split: option.splits)

lemma untouched_auto_reconnect: "s \<noteq> ReconnectTask \<Longrightarrow> ladder_untouched s st (auto_reconnect busy st)"
  using untouched_retry [of ReconnectTask s]
  by (cases s) (auto simp: auto_reconnect_def Let_def ladder_untouched_def split: option.splits)

lemma untouched_wakes:
  assumes "s' \<noteq> s"
  shows "ladder_untouched s st (ladder_wakes s' busy st)"
  using assms untouched_retry [OF assms] untouched_top [OF assms] untouched_startup untouched_auto_reconnect
  by (auto simp: ladder_wakes_def split: option.splits ladder_phase.splits slot.splits) (auto simp: ladder_untouched_def)

lemma untouched_done:
  assumes "s' \<noteq> s"
  shows "ladder_untouched s st (attempt_done s' outcome busy w c st)"
  using assms untouched_from [OF untouched_top [OF assms]]
  by (auto simp: attempt_done_def Let_def split: option.splits ladder_phase.splits attempt_outcome.splits)
    (auto simp: ladder_untouched_def)

lemma untouched_same:
  assumes "sv_reconnect st' = sv_reconnect st \<or> sv_reconnect st' = None" and "sv_auto st' = sv_auto st \<or> sv_auto st' = None"
    and "sv_attempts st' = sv_attempts st"
  shows "ladder_untouched s st st'"
  using assms by (cases s) (auto simp: ladder_untouched_def get_ladder_def attempts_of_def)

lemma save_ble_pin_frame [simp]:
  "sv_reconnect (save_ble_pin w p st) = sv_reconnect st" "sv_auto (save_ble_pin w p st) = sv_auto st"
  "sv_attempts (save_ble_pin w p st) = sv_attempts st" "sv_user_disconnected (save_ble_pin w p st) = sv_user_disconnected st"
  "sv_reconnecting (save_ble_pin w p st) = sv_reconnecting st" "sv_pin (save_ble_pin w p st) = sv_pin st"
  "sv_calls (save_ble_pin w p st) = sv_calls st" "sv_connected (save_ble_pin w p st) = sv_connected st"
  by (simp_all add: save_ble_pin_def)

lemma clear_ble_state_frame [simp]:
  "sv_reconnect (clear_ble_state r st) = sv_reconnect st" "sv_auto (clear_ble_state r st) = sv_auto st"
  "sv_attempts (clear_ble_state r st) = sv_attempts st" "sv_user_disconnected (clear_ble_state r st) = sv_user_disconnected st"
  by (simp_all add: clear_ble_state_def)

lemma routes_leave_ladders:
  "sv_reconnect (snd (connect_route_done m n oc w c st)) = sv_reconnect st"
  "sv_auto (snd (connect_route_done m n oc w c st)) = sv_auto st"
  "sv_attempts (snd (connect_route_done m n oc w c st)) = sv_attempts st"
  "sv_reconnect (snd (ensure_route_result i r now st)) = sv_reconnect st"
  "sv_auto (snd (ensure_route_result i r now st)) = sv_auto st"
  "sv_attempts (snd (ensure_route_result i r now st)) = sv_attempts st"
  "sv_reconnect (snd (ensure_route_finish i w c st)) = sv_reconnect st"
  "sv_auto (snd (ensure_route_finish i w c st)) = sv_auto st"
  "sv_attempts (snd (ensure_route_finish i w c st)) = sv_attempts st"
  "sv_reconnect (ensure_route_abort i st) = sv_reconnect st"
  "sv_auto (ensure_route_abort i st) = sv_auto st"
  "sv_attempts (ensure_route_abort i st) = sv_attempts st"
  by (auto simp: connect_route_done_def ensure_route_result_def ensure_route_finish_def ensure_route_abort_def
      ensure_init_exit_def drop_call_def Let_def split: attempt_outcome.splits option.splits ensure_call.splits ensure_result.splits)

lemma drop_leaves_ladders:
  "sv_reconnect st \<noteq> None \<Longrightarrow> sv_reconnect (adapter_drop idle now st) = sv_reconnect st"
  "sv_auto (adapter_drop idle now st) = sv_auto st" "sv_attempts (adapter_drop idle now st) = sv_attempts st"
  by (auto simp: adapter_drop_def on_adapter_disconnect_def schedule_reconnect_def Let_def split: option.splits)

lemma other_event_untouched:
  assumes "\<not> ladder_move s e st" and "get_ladder s st \<noteq> None"
  shows "ladder_untouched s st (service_step e st)"
proof (cases e)
  case (SvWake s' busy)
  show ?thesis
  proof (cases "s' = s")
    case True
    then have "connecting s st" using assms SvWake by simp
    then show ?thesis using SvWake True
      by (auto simp: connecting_def ladder_wakes_def ladder_untouched_def split: option.splits ladder_phase.splits)
  qed (simp add: SvWake untouched_wakes)
next
  case (SvDone s' outcome busy w c)
  show ?thesis
  proof (cases "s' = s")
    case True
    then have "\<not> connecting s st" using assms SvDone by simp
    then show ?thesis using SvDone True
      by (auto simp: connecting_def attempt_done_def ladder_untouched_def split: option.splits ladder_phase.splits)
  qed (simp add: SvDone untouched_done)
next
  case (SvDrop idle now)
  then show ?thesis
    using assms drop_leaves_ladders [where st = st and now = now and idle = idle]
    by (cases s) (auto simp: ladder_untouched_def get_ladder_def attempts_of_def)
qed (auto intro!: untouched_same simp: routes_leave_ladders adapter_up_def adapter_closes_def connect_route_begin_def ensure_route_begin_def
    disconnect_route_def disconnect_route_done_def cancel_reconnect_route_def set_ble_pin_def cancel_tasks_def Let_def)

lemma alive_start: "ladder_alive s es st \<Longrightarrow> get_ladder s st \<noteq> None"
  by (cases es) auto

lemma alive_left:
  assumes "get_ladder s st \<noteq> None" and "ladder_ok s st"
  shows "2 \<le> ladder_left s st"
  using assms by (auto simp: ladder_left_def ladder_ok_def) (case_tac "ld_phase y"; auto)

lemma ladder_budget:
  assumes "ladder_alive s es st" and "ladder_ok s st"
  shows "ladder_moves s es st + 2 \<le> ladder_left s st \<and>
    attempts_of s (service_run es st) \<le> attempts_of s st + ladder_attempts_left s st"
  using assms
proof (induction es arbitrary: st)
  case Nil
  then show ?case using alive_left [of s st] by auto
next
  case (Cons e es)
  let ?st = "service_step e st"
  have alive: "get_ladder s st \<noteq> None" "ladder_alive s es ?st" "get_ladder s ?st \<noteq> None"
    using Cons.prems alive_start by auto
  show ?case
  proof (cases "ladder_move s e st")
    case True
    then have "ladder_descends s st ?st" using ladder_move_descends Cons.prems by simp
    then show ?thesis using Cons.IH [OF alive(2)] True by (auto simp: ladder_descends_def)
  next
    case False
    have "ladder_untouched s st ?st" using other_event_untouched [OF False alive(1)] .
    then have same: "get_ladder s ?st = get_ladder s st" "attempts_of s ?st = attempts_of s st"
      using alive(3) by (auto simp: ladder_untouched_def)
    then have "ladder_ok s ?st" using Cons.prems by (simp add: ladder_ok_def)
    then show ?thesis
      using Cons.IH [OF alive(2)] False same by (simp add: ladder_left_def ladder_attempts_left_def)
  qed
qed

text \<open>C23: BLE service, the retry ladders: whatever else the service does meanwhile, a ladder that is still alive
  has been run at most eight times since it was created and has made at most four connect attempts, so a lost or
  absent node is given up after the four delays instead of being hammered.\<close>
theorem ladder_gives_up:
  assumes "get_ladder s st = Some l" and "ld_phase l = LpQueued" and "ladder_alive s es st"
  shows "ladder_moves s es st \<le> 8 \<and> attempts_of s (service_run es st) \<le> attempts_of s st + 4"
  using ladder_budget [OF assms(3)] assms(1,2) by (simp add: ladder_ok_def ladder_left_def ladder_attempts_left_def)

definition demo_lost :: ble_service where
  "demo_lost = adapter_drop True 7 (snd (connect_route_done ''AA'' None AttemptSucceeds True ''t''
     (adapter_up ''AA'' (Some ''node'') (connect_route_begin False ''AA'' (service_start 0 False (service_init None))))))"

definition demo_failures :: "service_event list" where
  "demo_failures = [SvWake ReconnectTask False, SvWake ReconnectTask False, SvDone ReconnectTask AttemptFails False True ''t'',
     SvWake ReconnectTask False, SvDone ReconnectTask AttemptRaises False True ''t'', SvDrop True 9,
     SvWake ReconnectTask False, SvDone ReconnectTask AttemptFails False True ''t'', SvWake ReconnectTask False]"

lemma ladder_gives_up_witness:
  "get_ladder ReconnectTask demo_lost = Some \<lparr>ld_mac = [], ld_name = [], ld_phase = LpQueued\<rparr>
   \<and> ladder_alive ReconnectTask demo_failures demo_lost
   \<and> attempts_of ReconnectTask (service_run demo_failures demo_lost) = 4
   \<and> ladder_moves ReconnectTask demo_failures demo_lost \<le> 8
   \<and> get_ladder ReconnectTask (service_run (demo_failures @ [SvDone ReconnectTask AttemptFails False True ''t'']) demo_lost) = None"
proof -
  have a: "get_ladder ReconnectTask demo_lost = Some \<lparr>ld_mac = [], ld_name = [], ld_phase = LpQueued\<rparr>" by code_simp
  have b: "ladder_alive ReconnectTask demo_failures demo_lost" by code_simp
  have c: "attempts_of ReconnectTask (service_run demo_failures demo_lost) = 4" by code_simp
  have d: "get_ladder ReconnectTask (service_run (demo_failures @ [SvDone ReconnectTask AttemptFails False True ''t'']) demo_lost) = None"
    by code_simp
  show ?thesis using a b c d ladder_gives_up [OF a _ b] by simp
qed

section \<open>A user's disconnect\<close>

definition quiet :: "ble_service \<Rightarrow> bool" where
  "quiet st \<longleftrightarrow> sv_user_disconnected st \<and> sv_reconnect st = None \<and> sv_auto st = None \<and> \<not> sv_reconnecting st"

fun user_connects :: "service_event \<Rightarrow> bool" where
  "user_connects (SvConnect busy mac) = True"
| "user_connects (SvEnsure i mac pin busy) = True"
| "user_connects e = False"

lemma routes_leave_flags:
  "sv_user_disconnected (snd (connect_route_done m n oc w c st)) = sv_user_disconnected st"
  "sv_reconnecting (snd (connect_route_done m n oc w c st)) = sv_reconnecting st"
  "sv_user_disconnected (snd (ensure_route_result i r now st)) = sv_user_disconnected st"
  "sv_reconnecting (snd (ensure_route_result i r now st)) = sv_reconnecting st"
  "sv_user_disconnected (snd (ensure_route_finish i w c st)) = sv_user_disconnected st"
  "sv_reconnecting (snd (ensure_route_finish i w c st)) = sv_reconnecting st"
  "sv_user_disconnected (ensure_route_abort i st) = sv_user_disconnected st"
  "sv_reconnecting (ensure_route_abort i st) = sv_reconnecting st"
  by (auto simp: connect_route_done_def ensure_route_result_def ensure_route_finish_def ensure_route_abort_def
      ensure_init_exit_def drop_call_def Let_def split: attempt_outcome.splits option.splits ensure_call.splits ensure_result.splits)

lemma quiet_step:
  assumes "quiet st" and "\<not> user_connects e"
  shows "quiet (service_step e st) \<and> sv_attempts (service_step e st) = sv_attempts st"
proof (cases e)
  case (SvWake s busy)
  then show ?thesis using assms by (cases s) (auto simp: quiet_def ladder_wakes_def get_ladder_def)
next
  case (SvDone s outcome busy w c)
  then show ?thesis using assms by (cases s) (auto simp: quiet_def attempt_done_def get_ladder_def)
next
  case (SvDrop idle now)
  then show ?thesis using assms by (auto simp: quiet_def adapter_drop_def on_adapter_disconnect_def Let_def)
qed (use assms in \<open>auto simp: quiet_def routes_leave_ladders routes_leave_flags adapter_up_def adapter_closes_def disconnect_route_def
    disconnect_route_done_def cancel_reconnect_route_def set_ble_pin_def cancel_tasks_def Let_def\<close>)

lemma quiet_run:
  assumes "quiet st" and "\<not> list_ex user_connects es"
  shows "quiet (service_run es st) \<and> sv_attempts (service_run es st) = sv_attempts st"
  using assms
proof (induction es arbitrary: st)
  case (Cons e es)
  then show ?case using quiet_step [of st e] by simp
qed simp

text \<open>C21: BLE service, a user's disconnect: once the disconnect or the cancel route has run, no retry ladder exists and
  no background connect attempt is started, whatever happens after it (late link losses, requests still in flight,
  timers of the cancelled ladders), until the user asks for a connection again; the status never says "reconnecting"
  in that time. This holds when the state file cannot be removed, too.\<close>
theorem user_disconnect_is_final:
  assumes "st' = snd (disconnect_route removable idle st) \<or> st' = snd (cancel_reconnect_route removable st)"
    and "\<not> list_ex user_connects es"
  shows "sv_attempts (service_run es st') = sv_attempts st \<and> get_ladder s (service_run es st') = None
    \<and> \<not> sv_reconnecting (service_run es st')"
proof -
  have "quiet st' \<and> sv_attempts st' = sv_attempts st"
    using assms(1) by (auto simp: quiet_def disconnect_route_def cancel_reconnect_route_def cancel_tasks_def Let_def split: if_splits)
  then show ?thesis
    using quiet_run [OF _ assms(2), of st'] by (cases s) (auto simp: quiet_def get_ladder_def)
qed

lemma user_disconnect_is_final_witness:
  "let st = service_run [SvWake ReconnectTask False, SvWake ReconnectTask False] demo_lost;
       es = [SvDone ReconnectTask AttemptFails False True ''t'', SvUp ''AA'' None, SvDrop True 30, SvWake ReconnectTask False] in
   sv_attempts st = [(ReconnectTask, ''AA'')] \<and>
   sv_attempts (service_run es (snd (disconnect_route False False st))) = sv_attempts st"
proof -
  let ?st = "service_run [SvWake ReconnectTask False, SvWake ReconnectTask False] demo_lost"
  let ?es = "[SvDone ReconnectTask AttemptFails False True ''t'', SvUp ''AA'' None, SvDrop True 30, SvWake ReconnectTask False]"
  have "sv_attempts ?st = [(ReconnectTask, ''AA'')]" by code_simp
  moreover have "sv_attempts (service_run ?es (snd (disconnect_route False False ?st))) = sv_attempts ?st"
    using user_disconnect_is_final [of _ False False ?st ?es ReconnectTask] by simp
  ultimately show ?thesis unfolding Let_def by blast
qed

section \<open>A lost link is chased\<close>



text \<open>The ladder that is given is only a fresh one when the slot was free: a loss during an attempt's own
  post-connect initialisation (hello, register query) finds its ladder still in the slot; the attempt then ends as a
  success, reports the link as connected, and nothing is left to chase it.\<close>

lemma loss_during_attempt_forgotten:
  "let st = service_run [SvWake ReconnectTask False, SvWake ReconnectTask False, SvUp ''AA'' None, SvDrop True 30,
              SvDone ReconnectTask AttemptSucceeds False True ''t''] demo_lost in
   \<not> sv_connected st \<and> get_ladder ReconnectTask st = None \<and> get_ladder AutoConnectTask st = None
   \<and> last (sv_events st) = SeConnected ''AA'' ''node''"
  unfolding Let_def
  by (intro conjI) code_simp+

section \<open>The status answer\<close>

fun attempting :: "ladder_phase \<Rightarrow> bool" where
  "attempting LpQueued = False"
| "attempting LpHardware = False"
| "attempting p = True"

definition ladder_attempting :: "slot \<Rightarrow> ble_service \<Rightarrow> bool" where
  "ladder_attempting s st = (case get_ladder s st of None \<Rightarrow> False | Some l \<Rightarrow> attempting (ld_phase l))"

definition status_honest :: "ble_service \<Rightarrow> bool" where
  "status_honest st \<longleftrightarrow> (sv_reconnecting st \<longrightarrow> (\<exists>s. ladder_attempting s st))"

lemma honest_cong:
  assumes "sv_reconnecting st' \<longrightarrow> sv_reconnecting st" and "\<And>s. get_ladder s st' = get_ladder s st" and "status_honest st"
  shows "status_honest st'"
  using assms by (simp add: status_honest_def ladder_attempting_def)

lemma honest_not: "\<not> sv_reconnecting st \<Longrightarrow> status_honest st"
  by (simp add: status_honest_def)

lemma honest_own: "ladder_attempting s st \<Longrightarrow> status_honest st"
  by (auto simp: status_honest_def)

lemma honest_cases: "\<not> sv_reconnecting st \<or> ladder_attempting s st \<Longrightarrow> status_honest st"
  using honest_not honest_own by blast

lemma honest_top: "1 \<le> a \<Longrightarrow> status_honest (ladder_top s l a busy st)"
  by (rule honest_cases [of _ s]) (auto simp: ladder_top_def Let_def ladder_attempting_def)

lemma honest_retry: "status_honest (retry_connect s l busy st)"
  by (simp add: retry_connect_def honest_top)

lemma honest_other:
  assumes "status_honest st" and "\<not> ladder_attempting s st" and "sv_reconnecting st' = sv_reconnecting st"
    and "\<And>s'. s' \<noteq> s \<Longrightarrow> get_ladder s' st' = get_ladder s' st"
  shows "status_honest st'"
proof (cases "sv_reconnecting st")
  case True
  then obtain s' where "ladder_attempting s' st" using assms(1) by (auto simp: status_honest_def)
  moreover from this have "s' \<noteq> s" using assms(2) by auto
  ultimately show ?thesis using assms(4) by (intro honest_own [of s']) (simp add: ladder_attempting_def)
qed (use assms in \<open>simp add: honest_not\<close>)

lemma slot_not [simp]: "s \<noteq> ReconnectTask \<longleftrightarrow> s = AutoConnectTask" "s \<noteq> AutoConnectTask \<longleftrightarrow> s = ReconnectTask"
  by (cases s; simp)+

lemma honest_wakes:
  assumes "status_honest st"
  shows "status_honest (ladder_wakes s busy st)"
proof (cases "get_ladder s st")
  case (Some l)
  show ?thesis
  proof (cases "ld_phase l")
    case LpQueued
    then have idle: "\<not> ladder_attempting s st" using Some by (simp add: ladder_attempting_def)
    show ?thesis
    proof (cases s)
      case ReconnectTask
      then show ?thesis
        using LpQueued Some idle assms honest_retry
        by (auto simp: ladder_wakes_def auto_reconnect_def Let_def split: option.splits intro: honest_other)
    next
      case AutoConnectTask
      then show ?thesis
        using LpQueued Some idle assms
        by (auto simp: ladder_wakes_def startup_auto_connect_def Let_def split: option.splits json.splits intro!: honest_other [of st s])
    qed
  next
    case LpHardware
    then show ?thesis using Some honest_retry by (simp add: ladder_wakes_def)
  next
    case (LpSleeping a)
    then show ?thesis
      using Some by (intro honest_cases [of _ s]) (auto simp: ladder_wakes_def ladder_attempting_def)
  next
    case (LpConnecting a)
    then show ?thesis using Some assms by (simp add: ladder_wakes_def)
  next
    case (LpBackoff a)
    then show ?thesis using Some by (simp add: ladder_wakes_def honest_top)
  qed
qed (use assms in \<open>simp add: ladder_wakes_def\<close>)

lemma honest_done:
  assumes "status_honest st"
  shows "status_honest (attempt_done s outcome busy w c st)"
proof (cases "connecting s st")
  case True
  then obtain l a where l: "get_ladder s st = Some l" "ld_phase l = LpConnecting a"
    by (auto simp: connecting_def split: option.splits ladder_phase.splits)
  show ?thesis
  proof (cases "outcome = AttemptSucceeds \<or> (s = AutoConnectTask \<and> a < 4)")
    case True
    then show ?thesis
      using l by (intro honest_cases [of _ s]) (auto simp: attempt_done_def Let_def ladder_attempting_def split: attempt_outcome.splits option.splits)
  next
    case False
    then show ?thesis using l honest_top [of "a + 1"] by (cases outcome) (auto simp: attempt_done_def Let_def)
  qed
next
  case False
  then have "attempt_done s outcome busy w c st = st"
    by (auto simp: attempt_done_def connecting_def split: option.splits ladder_phase.splits)
  then show ?thesis using assms by simp
qed

lemma honest_schedule: "status_honest st \<Longrightarrow> status_honest (schedule_reconnect st)"
  by (cases "sv_reconnect st")
    (auto simp: schedule_reconnect_def ladder_attempting_def get_ladder_def intro: honest_other [where s = ReconnectTask])

lemma honest_drop:
  assumes "status_honest st"
  shows "status_honest (adapter_drop idle now st)"
proof -
  have st1: "status_honest (log_activity a (push_status_event v (st\<lparr>sv_connected := False, sv_device := None\<rparr>)))" for a v
    by (rule honest_cong [OF _ _ assms]) auto
  have "status_honest ((log_activity a (push_status_event v (st\<lparr>sv_connected := False, sv_device := None\<rparr>)))\<lparr>sv_pin_probe := None\<rparr>)" for a v
    by (rule honest_cong [OF _ _ assms]) auto
  then show ?thesis
    using st1 honest_schedule assms
    by (auto simp: adapter_drop_def on_adapter_disconnect_def Let_def split: option.splits)
qed

lemma honest_step: "status_honest st \<Longrightarrow> status_honest (service_step e st)"
proof (cases e)
  case (SvConnect busy mac)
  assume "status_honest st"
  then show ?thesis using SvConnect by (auto simp: connect_route_begin_def intro: honest_cong)
next
  case (SvConnectDone m n oc w c)
  assume "status_honest st"
  then show ?thesis using SvConnectDone
    by (auto simp: routes_leave_flags routes_leave_ladders get_ladder_def split: slot.splits intro!: honest_cong [of _ st])
next
  case (SvEnsureResult i r now)
  assume "status_honest st"
  then show ?thesis using SvEnsureResult
    by (auto simp: routes_leave_flags routes_leave_ladders get_ladder_def split: slot.splits intro!: honest_cong [of _ st])
next
  case (SvEnsureFinish i w c)
  assume "status_honest st"
  then show ?thesis using SvEnsureFinish
    by (auto simp: routes_leave_flags routes_leave_ladders get_ladder_def split: slot.splits intro!: honest_cong [of _ st])
next
  case (SvEnsureAbort i)
  assume "status_honest st"
  then show ?thesis using SvEnsureAbort
    by (auto simp: routes_leave_flags routes_leave_ladders get_ladder_def split: slot.splits intro!: honest_cong [of _ st])
next
  case (SvSetPin p w)
  assume "status_honest st"
  then show ?thesis using SvSetPin
    by (auto simp: set_ble_pin_def get_ladder_def split: slot.splits intro!: honest_cong [of _ st])
next
  case (SvDisconnectDone ok)
  assume "status_honest st"
  then show ?thesis using SvDisconnectDone
    by (auto simp: disconnect_route_done_def intro!: honest_cong [of _ st])
qed (auto simp: honest_wakes honest_done honest_drop adapter_up_def adapter_closes_def ensure_route_begin_def disconnect_route_def
    cancel_reconnect_route_def cancel_tasks_def Let_def intro: honest_cong honest_not)

lemma status_honest_reachable: "service_reachable st \<Longrightarrow> status_honest st"
  by (induction rule: service_reachable.induct) (auto simp: service_start_def service_init_def Let_def intro: honest_not honest_step)

section \<open>The PIN across restarts\<close>

fun call_pin :: "ensure_call \<Rightarrow> int option" where
  "call_pin (EcConnecting mac pin) = pin"
| "call_pin (EcInit mac pin d) = pin"

text \<open>Everything but the two routes that unlink the state file and the setting of another PIN.\<close>

fun keeps_pin :: "int \<Rightarrow> service_event \<Rightarrow> bool" where
  "keeps_pin p (SvDisconnect removable idle) = False"
| "keeps_pin p (SvCancel removable) = False"
| "keeps_pin p (SvSetPin q writable) = (q = p)"
| "keeps_pin p (SvEnsure i mac pin busy) = (pin = None \<or> pin = Some p)"
| "keeps_pin p e = True"

definition pin_saved :: "int \<Rightarrow> ble_service \<Rightarrow> bool" where
  "pin_saved p st \<longleftrightarrow> sv_pin st = p \<and> load_ble_pin st = p \<and>
     (\<forall>(i, c) \<in> set (sv_calls st). call_pin c = None \<or> call_pin c = Some p)"

lemma load_ble_pin_cong: "sv_file st' = sv_file st \<Longrightarrow> load_ble_pin st' = load_ble_pin st"
  by (simp add: load_ble_pin_def read_ble_state_file_def)

lemma load_save_ble_state [simp]: "load_ble_pin (save_ble_state w c m n st) = load_ble_pin st"
  by (simp add: save_ble_state_def load_ble_pin_def read_ble_state_file_def dict_get_def json_int_def)

lemma load_save_ble_pin [simp]: "load_ble_pin (save_ble_pin w p st) = (if w then p else load_ble_pin st)"
  by (simp add: save_ble_pin_def load_ble_pin_def read_ble_state_file_def json_int_def)

lemma pin_saved_cong:
  assumes "sv_pin st' = sv_pin st" and "load_ble_pin st' = load_ble_pin st" and "set (sv_calls st') \<subseteq> set (sv_calls st)" and "pin_saved p st"
  shows "pin_saved p st'"
  using assms by (auto simp: pin_saved_def)

lemma load_pin_frames [simp]:
  "load_ble_pin (log_activity a st) = load_ble_pin st" "load_ble_pin (push_status_event v st) = load_ble_pin st"
  "load_ble_pin (set_ladder s l st) = load_ble_pin st" "load_ble_pin (end_ladder s st) = load_ble_pin st"
  "load_ble_pin (ladder_cancelled s st) = load_ble_pin st" "load_ble_pin (start_attempt s k j b st) = load_ble_pin st"
  "load_ble_pin (connect_and_initialize_begin b m st) = load_ble_pin st"
  by (auto intro!: load_ble_pin_cong)

lemma load_pin_record [simp]:
  "load_ble_pin (st\<lparr>sv_attempt := n1\<rparr>) = load_ble_pin st" "load_ble_pin (st\<lparr>sv_reconnecting := b1\<rparr>) = load_ble_pin st"
  "load_ble_pin (st\<lparr>sv_max_attempts := n1\<rparr>) = load_ble_pin st" "load_ble_pin (st\<lparr>sv_last_name := x1\<rparr>) = load_ble_pin st"
  "load_ble_pin (st\<lparr>sv_last_mac := x1\<rparr>) = load_ble_pin st" "load_ble_pin (st\<lparr>sv_user_disconnected := b1\<rparr>) = load_ble_pin st"
  "load_ble_pin (st\<lparr>sv_connected := b1\<rparr>) = load_ble_pin st" "load_ble_pin (st\<lparr>sv_device := v1\<rparr>) = load_ble_pin st"
  "load_ble_pin (st\<lparr>sv_auto := l1\<rparr>) = load_ble_pin st" "load_ble_pin (st\<lparr>sv_reconnect := l1\<rparr>) = load_ble_pin st"
  "load_ble_pin (st\<lparr>sv_pin_probe := d1\<rparr>) = load_ble_pin st" "load_ble_pin (st\<lparr>sv_post_init := n1\<rparr>) = load_ble_pin st"
  "load_ble_pin (st\<lparr>sv_calls := cs\<rparr>) = load_ble_pin st" "load_ble_pin (st\<lparr>sv_registers := g1\<rparr>) = load_ble_pin st"
  "load_ble_pin (st\<lparr>sv_pin := p1\<rparr>) = load_ble_pin st"
  by (auto intro!: load_ble_pin_cong)

lemma pin_saved_top: "pin_saved p st \<Longrightarrow> pin_saved p (ladder_top s l a busy st)"
  by (rule pin_saved_cong [where st = st]) (auto simp: ladder_top_def Let_def)

lemma pin_saved_wakes: "pin_saved p st \<Longrightarrow> pin_saved p (ladder_wakes s busy st)"
proof -
  assume a: "pin_saved p st"
  have same: "sv_pin (ladder_wakes s busy st) = sv_pin st \<and> load_ble_pin (ladder_wakes s busy st) = load_ble_pin st
    \<and> sv_calls (ladder_wakes s busy st) = sv_calls st"
    by (simp add: ladder_wakes_def auto_reconnect_def startup_auto_connect_def retry_connect_def ladder_top_def Let_def
        split: option.splits ladder_phase.splits slot.splits json.splits)
  show ?thesis by (rule pin_saved_cong [OF _ _ _ a]) (use same in auto)
qed

lemma pin_saved_done: "pin_saved p st \<Longrightarrow> pin_saved p (attempt_done s oc busy w c st)"
proof -
  assume a: "pin_saved p st"
  have same: "sv_pin (attempt_done s oc busy w c st) = sv_pin st \<and> load_ble_pin (attempt_done s oc busy w c st) = load_ble_pin st
    \<and> sv_calls (attempt_done s oc busy w c st) = sv_calls st"
    by (simp add: attempt_done_def ladder_top_def Let_def split: option.splits ladder_phase.splits attempt_outcome.splits)
  show ?thesis by (rule pin_saved_cong [OF _ _ _ a]) (use same in auto)
qed

lemma set_update_subset: "set (AList.update i c xs) \<subseteq> insert (i, c) (set xs)"
  by (induction xs) auto

lemma pin_saved_drop: "pin_saved p st \<Longrightarrow> pin_saved p (drop_call i st)"
  by (auto simp: pin_saved_def drop_call_def AList.delete_eq)

lemma pin_saved_exit: "pin_saved p st \<Longrightarrow> pin_saved p (ensure_init_exit i d st)"
  unfolding ensure_init_exit_def by (rule pin_saved_drop) (simp add: pin_saved_def)

lemma pin_saved_call: "pin_saved p st \<Longrightarrow> map_of (sv_calls st) i = Some c \<Longrightarrow> call_pin c = None \<or> call_pin c = Some p"
  by (auto simp: pin_saved_def dest!: map_of_SomeD)

lemma pin_saved_log [simp]: "pin_saved p (log_activity a st) = pin_saved p st"
  by (simp add: pin_saved_def)

lemma pin_saved_enter:
  assumes "pin_saved p st" and "call_pin c = None \<or> call_pin c = Some p"
  shows "pin_saved p (st\<lparr>sv_pin_probe := d, sv_post_init := n, sv_calls := AList.update i c (sv_calls st)\<rparr>)"
  using assms set_update_subset [of i c "sv_calls st"]
  by (simp add: pin_saved_def) blast

lemma pin_saved_result: "pin_saved p st \<Longrightarrow> pin_saved p (snd (ensure_route_result i r now st))"
  using pin_saved_call [of p st i] pin_saved_enter [of p st] pin_saved_drop [of p st i]
  by (auto simp: ensure_route_result_def Let_def split: option.splits ensure_call.splits ensure_result.splits)

lemma pin_saved_finish: "pin_saved p st \<Longrightarrow> pin_saved p (snd (ensure_route_finish i w c st))"
proof (cases "map_of (sv_calls st) i")
  case (Some k)
  assume a: "pin_saved p st"
  show ?thesis
  proof (cases k)
    case (EcInit mac pin d)
    have ex: "pin_saved p (ensure_init_exit i d st)" using a by (rule pin_saved_exit)
    have "pin = None \<or> pin = Some (sv_pin (ensure_init_exit i d st))"
      using pin_saved_call [OF a Some] EcInit ex by (auto simp: pin_saved_def)
    then show ?thesis
      using ex Some EcInit by (auto simp: ensure_route_finish_def Let_def pin_saved_def)
  qed (use a Some in \<open>simp add: ensure_route_finish_def\<close>)
qed (simp add: ensure_route_finish_def)

lemma pin_saved_step:
  assumes "pin_saved p st" and "keeps_pin p e"
  shows "pin_saved p (service_step e st)"
proof (cases e)
  case (SvEnsure i mac pin busy)
  have "pin_saved p (snd (ensure_route_begin i mac pin busy st))"
    using assms SvEnsure set_update_subset [of i "EcConnecting mac pin" "sv_calls st"]
    by (auto simp: ensure_route_begin_def cancel_tasks_def Let_def pin_saved_def load_ble_pin_def read_ble_state_file_def)
  then show ?thesis using assms SvEnsure by simp
next
  case (SvEnsureAbort i)
  then show ?thesis
    using assms by (auto simp: ensure_route_abort_def pin_saved_exit pin_saved_drop split: option.splits ensure_call.splits)
next
  case (SvSetPin q w)
  then show ?thesis using assms by (auto simp: set_ble_pin_def pin_saved_def)
next
  case (SvConnectDone m n oc w c)
  then show ?thesis using assms by (auto simp: connect_route_done_def pin_saved_def Let_def split: attempt_outcome.splits)
next
  case (SvDrop idle now)
  then show ?thesis
    using assms by (auto simp: adapter_drop_def on_adapter_disconnect_def schedule_reconnect_def Let_def pin_saved_def
        split: option.splits)
qed (use assms in \<open>auto simp: pin_saved_wakes pin_saved_done pin_saved_result pin_saved_finish adapter_up_def adapter_closes_def
    connect_route_begin_def disconnect_route_done_def Let_def intro: pin_saved_cong\<close>)

lemma pin_saved_run: "pin_saved p st \<Longrightarrow> list_all (keeps_pin p) es \<Longrightarrow> pin_saved p (service_run es st)"
  by (induction es arbitrary: st) (auto intro: pin_saved_step)

text \<open>C25: BLE service, the PIN: a PIN set while no request carries another one, and written to disk, is the PIN of
  every later start of the process, through any run of connects, reconnects, link losses, cancelled requests and
  failed writes, as long as neither of the routes that unlink the state file runs and no other PIN is set; a stored 0
  ("disabled") gives way to the PIN of the environment.\<close>
theorem pin_survives_restart:
  assumes "set_ble_pin p True st = (RouteOk r, st1)"
    and "\<forall>(i, c) \<in> set (sv_calls st). call_pin c = None \<or> call_pin c = Some p"
    and "list_all (keeps_pin p) es"
  shows "sv_pin (service_start env_pin auto_connect (service_init (sv_file (service_run es st1)))) = (if p = 0 then env_pin else p)"
proof -
  have "pin_saved p st1"
    using assms(1,2) by (auto simp: set_ble_pin_def pin_saved_def split: if_splits)
  then have "load_ble_pin (service_run es st1) = p"
    using pin_saved_run [OF _ assms(3)] by (simp add: pin_saved_def)
  then show ?thesis
    by (simp add: service_start_def service_init_def Let_def load_ble_pin_def read_ble_state_file_def)
qed

definition demo_pin_events :: "service_event list" where
  "demo_pin_events = [SvEnsure 1 ''AA'' None False, SvEnsureResult 1 EnsureSucceeded 10, SvUp ''AA'' None,
     SvEnsureFinish 1 True ''t'', SvDrop True 90, SvWake ReconnectTask False]"

lemma pin_survives_restart_witness:
  "sv_pin (service_start 0 False (service_init (sv_file (service_run demo_pin_events
     (snd (set_ble_pin 123456 True (service_start 0 False (service_init None)))))))) = 123456"
proof -
  have a: "set_ble_pin 123456 True (service_start 0 False (service_init None))
      = (RouteOk ''ok'', snd (set_ble_pin 123456 True (service_start 0 False (service_init None))))"
    by (simp add: set_ble_pin_def BLE_PIN_MIN_def BLE_PIN_MAX_def)
  have b: "\<forall>(i, c) \<in> set (sv_calls (service_start 0 False (service_init None))). call_pin c = None \<or> call_pin c = Some 123456"
    by (simp add: service_start_def service_init_def Let_def)
  have c: "list_all (keeps_pin 123456) demo_pin_events" by (simp add: demo_pin_events_def)
  show ?thesis using pin_survives_restart [OF a b c] by simp
qed

text \<open>The disconnect route unlinks the state file and the PIN with it; a later connect with the same PIN does not
  write it again, since it equals the one in memory: after the next start the service is without it.\<close>

lemma disconnect_loses_pin:
  "let st0 = snd (set_ble_pin 123456 True (service_start 0 False (service_init None)));
       st = service_run [SvDisconnect True True, SvEnsure 1 ''AA'' (Some 123456) False, SvUp ''AA'' None,
              SvEnsureResult 1 EnsureSucceeded 10, SvEnsureFinish 1 True ''t''] st0 in
   sv_pin st = 123456 \<and> sv_connected st \<and> sv_pin (service_start 0 True (service_init (sv_file st))) = 0"
  unfolding Let_def by (intro conjI) code_simp+

end
