(* ===== verification/BleFrames.thy ===== *)
theory BleFrames
  imports Utf8 LinkFrames
begin

text \<open>
  \<open>ble_protocol.py\<close>, the binary half: the frames a node notifies over GATT, their checksum, and the
  callsign appendix of an acknowledgement. A frame is a list of bytes.
\<close>

unbundle bit_operations_syntax

type_synonym bytes = "8 word list"

section \<open>Constants and small helpers\<close>

definition PAYLOAD_TYPE_MSG :: nat where "PAYLOAD_TYPE_MSG = 58"
definition PAYLOAD_TYPE_POS :: nat where "PAYLOAD_TYPE_POS = 33"
definition PAYLOAD_TYPE_ACK :: nat where "PAYLOAD_TYPE_ACK = 65"
definition ACK_APPENDIX_OFFSET :: nat where "ACK_APPENDIX_OFFSET = 8"
definition ACK_APPENDIX_MAX_LEN :: nat where "ACK_APPENDIX_MAX_LEN = 10"
definition ACK_TIMESTAMP_LEN :: nat where "ACK_TIMESTAMP_LEN = 4"
definition HEADER_LEN :: nat where "HEADER_LEN = 6"
definition FOOTER_LEN :: nat where "FOOTER_LEN = 14"
definition FCS_EXCLUDED_TRAILER_LEN :: nat where "FCS_EXCLUDED_TRAILER_LEN = 11"

definition ACK_TEXT_BY_TYPE :: "(nat, string) dict" where
  "ACK_TEXT_BY_TYPE = [(0, ''Node ACK''), (1, ''Gateway ACK''), (2, ''Peer ACK'')]"

definition ack_type_text :: "nat \<Rightarrow> string" where
  "ack_type_text t = dict_get ACK_TEXT_BY_TYPE t (''Unknown ('' @ nat_str t @ '')'')"

text \<open>The pattern \<open>^[A-Z0-9][A-Z0-9-]{0,9}$\<close>; \<open>$\<close> also matches before a final line feed.\<close>

definition ack_callsign_char :: "char \<Rightarrow> bool" where
  "ack_callsign_char c \<longleftrightarrow> ascii_upper c \<or> ascii_digit c"

definition ack_callsign_match :: "string \<Rightarrow> bool" where
  "ack_callsign_match s =
     (let t = (if s \<noteq> [] \<and> last s = CHR 0x0A then butlast s else s) in
      (case t of
         [] \<Rightarrow> False
       | c # cs \<Rightarrow> ack_callsign_char c \<and> length cs \<le> 9 \<and> list_all (\<lambda>d. ack_callsign_char d \<or> d = CHR ''-'') cs))"

text \<open>The value is the bytes of a BLE appendix, or the \<open>from\<close> field of a datagram.\<close>

datatype ack_source = AckBytes bytes | AckJson json

definition ascii_decode :: "bytes \<Rightarrow> string option" where
  "ascii_decode bs = (if list_all (\<lambda>b. unat b < 128) bs then Some (map (\<lambda>b. char_of (unat b)) bs) else None)"

definition ack_source_text :: "ack_source \<Rightarrow> string option" where
  "ack_source_text v =
     (case v of AckBytes bs \<Rightarrow> ascii_decode bs | AckJson j \<Rightarrow> (case j of JStr s \<Rightarrow> Some s | _ \<Rightarrow> None))"

definition normalise_ack_callsign :: "ack_source \<Rightarrow> string option" where
  "normalise_ack_callsign v =
     (case ack_source_text v of
        None \<Rightarrow> None
      | Some s \<Rightarrow>
          let candidate = upper (strip s) in
          if candidate = [] \<or> ACK_APPENDIX_MAX_LEN < length candidate then None
          else if ack_callsign_match candidate then Some candidate else None)"

definition parse_ack_appendix :: "bytes \<Rightarrow> string option" where
  "parse_ack_appendix byte_msg =
     (if length byte_msg \<le> ACK_APPENDIX_OFFSET - 1 then None
      else
        let n = unat (byte_msg ! (ACK_APPENDIX_OFFSET - 1)) in
        if n = 0 \<or> ACK_APPENDIX_MAX_LEN < n then None
        else
          let e = ACK_APPENDIX_OFFSET + n in
          if length byte_msg < e + ACK_TIMESTAMP_LEN then None
          else normalise_ack_callsign (AckBytes (take n (drop ACK_APPENDIX_OFFSET byte_msg))))"

text \<open>The sum is unbounded in Python; the two masks keep its low 16 bits, with the bytes swapped.\<close>

definition calc_fcs :: "bytes \<Rightarrow> nat" where
  "calc_fcs msg =
     (let fcs = sum_list (map unat msg) in
      drop_bit 8 (fcs AND 0xFF00) OR push_bit 8 (fcs AND 0xFF))"

definition hex_msg_id :: "nat \<Rightarrow> string" where
  "hex_msg_id msg_id = hex_padded 8 msg_id"

text \<open>\<open>struct\<close>'s little-endian integers\<close>

fun le_nat :: "bytes \<Rightarrow> nat" where
  "le_nat [] = 0"
| "le_nat (b # bs) = unat b + 256 * le_nat bs"

definition unpack_header :: "bytes \<Rightarrow> (nat \<times> nat \<times> nat) res" where
  "unpack_header bs =
     (if length bs = HEADER_LEN then Inr (unat (bs ! 0), le_nat (take 4 (drop 1 bs)), unat (bs ! 5))
      else Inl StructError)"

section \<open>Decoding\<close>

record ack_frame =
  af_payload_type :: nat
  af_msg_id :: nat
  af_ack_type :: nat
  af_ack_type_text :: string
  af_ack_from :: "string option"

record data_frame =
  df_payload_type :: nat
  df_msg_id :: nat
  df_max_hop :: nat
  df_mesh_info :: nat
  df_path :: utext
  df_dest :: utext
  df_message :: utext
  df_hardware_id :: nat
  df_lora_mod :: nat
  df_fw :: nat
  df_fw_sub :: nat
  df_last_hw_id :: nat
  df_last_sending :: bool
  df_fcs_ok :: bool

datatype decoded = AckFrame ack_frame | DataFrame data_frame

definition decode_ack_frame :: "nat \<Rightarrow> nat \<Rightarrow> nat \<Rightarrow> bytes \<Rightarrow> ack_frame" where
  "decode_ack_frame payload_type msg_id max_hop_raw byte_msg =
     \<lparr>af_payload_type = payload_type, af_msg_id = msg_id, af_ack_type = max_hop_raw,
      af_ack_type_text = ack_type_text max_hop_raw, af_ack_from = parse_ack_appendix byte_msg\<rparr>"

text \<open>\<open>bytes.find\<close>, None for -1\<close>

fun find_byte :: "8 word \<Rightarrow> bytes \<Rightarrow> nat option" where
  "find_byte x [] = None"
| "find_byte x (b # bs) = (if b = x then Some 0 else map_option Suc (find_byte x bs))"

definition decode_text :: "bytes \<Rightarrow> utext" where
  "decode_text bs = utf8_ignore (map unat bs)"

text \<open>The position of the text, just before the \<open>:\<close> or just after the \<open>*\<close>.\<close>

definition split_dest :: "nat \<Rightarrow> bytes \<Rightarrow> nat option" where
  "split_dest payload_type rest =
     (if payload_type = PAYLOAD_TYPE_MSG then find_byte 58 rest
      else if payload_type = PAYLOAD_TYPE_POS then map_option Suc (find_byte 42 rest)
      else None)"

text \<open>\<open>remaining[split_idx : remaining.find(NUL)]\<close>; a missing NUL is index -1, before the last byte.\<close>

definition text_bytes :: "nat \<Rightarrow> bytes \<Rightarrow> bytes" where
  "text_bytes split_idx rest =
     drop split_idx (take (case find_byte 0 rest of None \<Rightarrow> length rest - 1 | Some j \<Rightarrow> j) rest)"

definition coerce_lora_mod :: "nat \<Rightarrow> nat" where
  "coerce_lora_mod v = v AND 0x0F"

definition decode_data_frame ::
  "bytes \<Rightarrow> nat \<Rightarrow> nat \<Rightarrow> nat \<Rightarrow> nat \<Rightarrow> bytes \<Rightarrow> nat \<Rightarrow> data_frame option res" where
  "decode_data_frame byte_msg payload_type msg_id max_hop mesh_info remaining_msg calced_fcs =
     (case find_byte 62 remaining_msg of
        None \<Rightarrow> Inr None
      | Some gt \<Rightarrow>
          let path = take (gt + 1) remaining_msg; rest = drop (gt + 1) remaining_msg in
          (case split_dest payload_type rest of
             None \<Rightarrow> Inr None
           | Some split_idx \<Rightarrow>
               let footer = drop (length byte_msg - FOOTER_LEN) (take (length byte_msg - 1) byte_msg) in
               if length footer \<noteq> 13 then Inl StructError
               else
                 let lasthw = unat (footer ! 6) in
                 Inr (Some \<lparr>
                   df_payload_type = payload_type, df_msg_id = msg_id, df_max_hop = max_hop, df_mesh_info = mesh_info,
                   df_path = decode_text path,
                   df_dest = decode_text (take split_idx rest),
                   df_message = ustrip (decode_text (text_bytes split_idx rest)),
                   df_hardware_id = unat (footer ! 1),
                   df_lora_mod = coerce_lora_mod (unat (footer ! 2)),
                   df_fw = unat (footer ! 5), df_fw_sub = unat (footer ! 7),
                   df_last_hw_id = lasthw AND 0x7F, df_last_sending = (lasthw AND 0x80 \<noteq> 0),
                   df_fcs_ok = (calced_fcs = le_nat (take 2 (drop 3 footer)))\<rparr>)))"

definition rstrip_zero :: "bytes \<Rightarrow> bytes" where
  "rstrip_zero bs = rev (dropWhile (\<lambda>b. b = 0) (rev bs))"

definition decode_binary_message :: "bytes \<Rightarrow> decoded option res" where
  "decode_binary_message byte_msg =
     bind_res (unpack_header (take HEADER_LEN (drop 1 byte_msg))) (\<lambda>(payload_type, msg_id, max_hop_raw).
       let max_hop = max_hop_raw AND 0x0F; mesh_info = drop_bit 4 max_hop_raw;
           calced_fcs = calc_fcs (drop 1 (take (length byte_msg - FCS_EXCLUDED_TRAILER_LEN) byte_msg));
           remaining_msg = rstrip_zero (drop (1 + HEADER_LEN) byte_msg)
       in if take 2 byte_msg = [64, 65]
          then Inr (Some (AckFrame (decode_ack_frame payload_type msg_id max_hop_raw byte_msg)))
          else if take 2 byte_msg \<in> {[64, 58], [64, 33]}
          then map_sum id (map_option DataFrame)
            (decode_data_frame byte_msg payload_type msg_id max_hop mesh_info remaining_msg calced_fcs)
          else Inr None)"

section \<open>The checksum\<close>

lemma calc_fcs_swap:
  "calc_fcs msg = (let s = sum_list (map unat msg) in s div 256 mod 256 + 256 * (s mod 256))"
proof -
  let ?s = "sum_list (map unat msg) :: nat"
  have "drop_bit 8 (?s AND 0xFF00) = drop_bit 8 ?s AND drop_bit 8 0xFF00" by (rule drop_bit_and)
  also have "drop_bit 8 (0xFF00 :: nat) = mask 8" by (simp add: mask_eq_exp_minus_1 drop_bit_eq_div)
  finally have hi: "drop_bit 8 (?s AND 0xFF00) = take_bit 8 (drop_bit 8 ?s)" by (simp add: take_bit_eq_mask)
  have "(0xFF :: nat) = mask 8" by (simp add: mask_eq_exp_minus_1)
  then have lo: "push_bit 8 (?s AND 0xFF) = push_bit 8 (take_bit 8 ?s)" by (simp add: take_bit_eq_mask)
  have "take_bit 8 (drop_bit 8 ?s) OR push_bit 8 (take_bit 8 ?s) = take_bit 8 (drop_bit 8 ?s) + push_bit 8 (take_bit 8 ?s)"
    by (rule disjunctive_add[symmetric]) (auto simp: bit_simps)
  then show ?thesis unfolding calc_fcs_def Let_def hi lo
    by (simp add: take_bit_eq_mod drop_bit_eq_div push_bit_eq_mult)
qed

lemma calc_fcs_bound: "calc_fcs msg < 65536"
proof -
  have "a < 256 \<Longrightarrow> b < 256 \<Longrightarrow> a + 256 * b < (65536 :: nat)" for a b by linarith
  then show ?thesis by (simp add: calc_fcs_swap Let_def)
qed

lemma calc_fcs_eq_iff:
  "calc_fcs m = calc_fcs m' \<longleftrightarrow> sum_list (map unat m) mod 65536 = sum_list (map unat m') mod (65536 :: nat)"
proof -
  have p: "a + 256 * b = a' + 256 * b' \<longleftrightarrow> a = a' \<and> b = b'"
    if "a < 256" "a' < 256" for a a' b b' :: nat
  proof -
    have "(a + 256 * b) mod 256 = a" "(a' + 256 * b') mod 256 = a'" using that by simp_all
    then show ?thesis by (metis add_left_cancel mult_left_cancel zero_neq_numeral)
  qed
  have m: "s mod 65536 = s mod 256 + 256 * (s div 256 mod 256)" for s :: nat
    using mod_mult2_eq[of s 256 256] by simp
  show ?thesis by (simp add: calc_fcs_swap Let_def p m conj_commute)
qed

section \<open>Layout lemmas\<close>

fun le_bytes :: "nat \<Rightarrow> nat \<Rightarrow> bytes" where
  "le_bytes 0 n = []"
| "le_bytes (Suc k) n = word_of_nat (n mod 256) # le_bytes k (n div 256)"

lemma length_le_bytes [simp]: "length (le_bytes k n) = k"
  by (induction k arbitrary: n) auto

lemma unat_byte [simp]: "unat (word_of_nat (n mod 256) :: 8 word) = n mod 256"
  by (simp add: unsigned_of_nat take_bit_eq_mod)

lemma le_nat_le_bytes: "n < 256 ^ k \<Longrightarrow> le_nat (le_bytes k n) = n"
proof (induction k arbitrary: n)
  case (Suc k)
  have "n div 256 < 256 ^ k" using Suc.prems by (simp add: less_mult_imp_div_less mult.commute)
  then show ?case using Suc.IH by simp
qed simp

definition utf8_bytes :: "utext \<Rightarrow> bytes" where
  "utf8_bytes t = map word_of_nat (utf8_encode t)"

lemma utf8_encode_byte: "list_all scalar t \<Longrightarrow> b \<in> set (utf8_encode t) \<Longrightarrow> b < 256"
  by (induction t) (auto simp: utf8_encode_def utf8_char_bytes)

lemma unat_utf8_bytes: "list_all scalar t \<Longrightarrow> map unat (utf8_bytes t) = utf8_encode t"
  by (auto simp: utf8_bytes_def unsigned_of_nat take_bit_eq_mod utf8_encode_byte intro: map_idI)

lemma decode_utf8_bytes: "list_all scalar t \<Longrightarrow> decode_text (utf8_bytes t) = t"
  by (simp add: decode_text_def unat_utf8_bytes utf8_roundtrip_all)

lemma utf8_bytes_append: "utf8_bytes (s @ t) = utf8_bytes s @ utf8_bytes t"
  by (simp add: utf8_bytes_def)

lemma utf8_bytes_ascii: "c < 128 \<Longrightarrow> utf8_bytes [c] = [word_of_nat c]"
  by (simp add: utf8_bytes_def utf8_encode_def utf8_char_def)

lemma utf8_bytes_absent:
  assumes "list_all scalar t" "unat b < 128" "unat b \<notin> set t"
  shows "b \<notin> set (utf8_bytes t)"
proof
  assume "b \<in> set (utf8_bytes t)"
  then have "unat b \<in> set (map unat (utf8_bytes t))" by simp
  with assms show False by (simp only: unat_utf8_bytes utf8_encode_ascii)
qed

lemma find_byte_first: "x \<notin> set xs \<Longrightarrow> find_byte x (xs @ x # ys) = Some (length xs)"
  by (induction xs) auto

lemma find_byte_None: "find_byte x xs = None \<longleftrightarrow> x \<notin> set xs"
  by (induction xs) auto

lemma rstrip_zero_snoc: "h \<noteq> 0 \<Longrightarrow> rstrip_zero (xs @ h # ys) = xs @ h # rstrip_zero ys"
proof -
  assume h: "h \<noteq> 0"
  have "dropWhile (\<lambda>b. b = 0) (rev ys @ h # rev xs) = dropWhile (\<lambda>b. b = 0) (rev ys) @ h # rev xs"
    using h by (induction ys rule: rev_induct) auto
  then show ?thesis by (simp add: rstrip_zero_def)
qed

section \<open>The layout of a data frame\<close>

text \<open>
  The layout documented in the source: header, routing path, destination and text, footer. The
  checksum covers everything from the payload type to the modulation byte.
\<close>

record frame_tail =
  ft_hardware :: "8 word"
  ft_mod :: "8 word"
  ft_fw :: "8 word"
  ft_lasthw :: "8 word"
  ft_fw_sub :: "8 word"
  ft_ending :: "8 word"
  ft_time :: nat
  ft_terminator :: "8 word"

definition covered :: "8 word \<Rightarrow> nat \<Rightarrow> 8 word \<Rightarrow> bytes \<Rightarrow> frame_tail \<Rightarrow> bytes" where
  "covered ptype msg_id hop body t =
     ptype # le_bytes 4 msg_id @ hop # body @ [0, ft_hardware t, ft_mod t]"

definition uncovered :: "frame_tail \<Rightarrow> bytes" where
  "uncovered t = [ft_fw t, ft_lasthw t, ft_fw_sub t, ft_ending t] @ le_bytes 4 (ft_time t) @ [ft_terminator t]"

definition frame_with_fcs :: "bytes \<Rightarrow> nat \<Rightarrow> frame_tail \<Rightarrow> bytes" where
  "frame_with_fcs cov fcs t = 64 # cov @ le_bytes 2 fcs @ uncovered t"

definition fields_of :: "8 word \<Rightarrow> nat \<Rightarrow> 8 word \<Rightarrow> utext \<Rightarrow> utext \<Rightarrow> utext \<Rightarrow> frame_tail \<Rightarrow> bool \<Rightarrow> data_frame" where
  "fields_of ptype msg_id hop path dest text t ok =
     \<lparr>df_payload_type = unat ptype, df_msg_id = msg_id, df_max_hop = unat hop AND 0x0F,
      df_mesh_info = drop_bit 4 (unat hop), df_path = path, df_dest = dest, df_message = text,
      df_hardware_id = unat (ft_hardware t), df_lora_mod = unat (ft_mod t) AND 0x0F, df_fw = unat (ft_fw t),
      df_fw_sub = unat (ft_fw_sub t), df_last_hw_id = unat (ft_lasthw t) AND 0x7F,
      df_last_sending = (unat (ft_lasthw t) AND 0x80 \<noteq> 0), df_fcs_ok = ok\<rparr>"

lemma frame_parts:
  assumes "cov = covered ptype msg_id hop body t" "msg_id < 2 ^ 32" "fcs < 65536"
    and "f = frame_with_fcs cov fcs t"
  shows "unpack_header (take HEADER_LEN (drop 1 f)) = Inr (unat ptype, msg_id, unat hop)"
    "drop 1 (take (length f - FCS_EXCLUDED_TRAILER_LEN) f) = cov"
    "take 2 f = [64, ptype]"
    "drop (1 + HEADER_LEN) f = body @ [0, ft_hardware t, ft_mod t] @ le_bytes 2 fcs @ uncovered t"
    "drop (length f - FOOTER_LEN) (take (length f - 1) f) =
       [0, ft_hardware t, ft_mod t] @ le_bytes 2 fcs @ [ft_fw t, ft_lasthw t, ft_fw_sub t, ft_ending t] @ le_bytes 4 (ft_time t)"
proof -
  have "length (le_bytes 4 msg_id) = Suc (Suc (Suc (Suc 0)))" by simp
  then obtain a b c d where le: "le_bytes 4 msg_id = [a, b, c, d]"
    by (auto simp only: length_Suc_conv length_0_conv)
  have id: "le_nat [a, b, c, d] = msg_id" using le_nat_le_bytes[of msg_id 4] assms(2) le by simp
  have len: "length f = length body + 21"
    by (simp add: assms(1,4) frame_with_fcs_def covered_def uncovered_def)
  show "unpack_header (take HEADER_LEN (drop 1 f)) = Inr (unat ptype, msg_id, unat hop)"
    using id by (simp add: assms(1,4) frame_with_fcs_def covered_def le unpack_header_def HEADER_LEN_def)
  show "take 2 f = [64, ptype]" by (simp add: assms(1,4) frame_with_fcs_def covered_def)
  show "drop (1 + HEADER_LEN) f = body @ [0, ft_hardware t, ft_mod t] @ le_bytes 2 fcs @ uncovered t"
    by (simp add: assms(1,4) frame_with_fcs_def covered_def le HEADER_LEN_def)
  have "f = (64 # cov) @ (le_bytes 2 fcs @ uncovered t)" by (simp add: assms(4) frame_with_fcs_def)
  moreover have "length f - FCS_EXCLUDED_TRAILER_LEN = length (64 # cov)"
    by (simp add: len assms(1) covered_def FCS_EXCLUDED_TRAILER_LEN_def)
  ultimately show "drop 1 (take (length f - FCS_EXCLUDED_TRAILER_LEN) f) = cov" by simp
  let ?front = "64 # ptype # le_bytes 4 msg_id @ hop # body"
  let ?footer = "[0, ft_hardware t, ft_mod t] @ le_bytes 2 fcs @ [ft_fw t, ft_lasthw t, ft_fw_sub t, ft_ending t] @ le_bytes 4 (ft_time t)"
  have f: "f = (?front @ ?footer) @ [ft_terminator t]"
    by (simp add: assms(1,4) frame_with_fcs_def covered_def uncovered_def)
  have butlast: "take (length (xs @ [x]) - 1) (xs @ [x]) = xs" for xs :: bytes and x by simp
  have "take (length f - 1) f = ?front @ ?footer" unfolding f by (rule butlast)
  moreover have "length f - FOOTER_LEN = length ?front" by (simp add: len FOOTER_LEN_def)
  moreover have "drop (length xs) (xs @ ys) = ys" for xs ys :: bytes by simp
  ultimately show "drop (length f - FOOTER_LEN) (take (length f - 1) f) = ?footer" by (simp only:)
qed

lemma text_bytes_layout:
  "0 \<notin> set D \<Longrightarrow> 0 \<notin> set T \<Longrightarrow> text_bytes (length D) (D @ T @ 0 # rest) = T"
  using find_byte_first[of 0 "D @ T" rest] by (simp add: text_bytes_def)

text \<open>How a frame with this layout decodes, whatever checksum it carries.\<close>

lemma decode_layout:
  assumes f: "f = frame_with_fcs cov fcs t" "cov = covered ptype msg_id hop body t"
    and bounds: "msg_id < 2 ^ 32" "fcs < 65536" and hw: "ft_hardware t \<noteq> 0"
    and body: "body = utf8_bytes path @ 62 # D @ T"
    and ptype: "ptype \<in> {58, 33}"
    and path: "list_all scalar path" "62 \<notin> set path"
    and dest: "\<And>rest. split_dest (unat ptype) (D @ T @ 0 # rest) = Some (length D)" "0 \<notin> set D" "0 \<notin> set T"
  shows "decode_binary_message f = Inr (Some (DataFrame
    (fields_of ptype msg_id hop (path @ [62]) (decode_text D) (ustrip (decode_text T)) t (calc_fcs cov = fcs))))"
proof -
  note p = frame_parts[OF f(2) bounds f(1)]
  let ?hw = "ft_hardware t"
  define X where "X = rstrip_zero (ft_mod t # le_bytes 2 fcs @ uncovered t)"
  have "rstrip_zero (drop (1 + HEADER_LEN) f) = (body @ [0]) @ ?hw # X"
    unfolding p(4) X_def using rstrip_zero_snoc[OF hw, of "body @ [0]"] by simp
  then have rem: "rstrip_zero (drop (1 + HEADER_LEN) f) = utf8_bytes path @ 62 # D @ T @ 0 # ?hw # X"
    by (simp add: body)
  have nogt: "62 \<notin> set (utf8_bytes path)" using path by (intro utf8_bytes_absent) simp_all
  note gt = find_byte_first[OF nogt, of "D @ T @ 0 # ?hw # X"]
  have path': "decode_text (utf8_bytes path @ [62]) = path @ [62]"
    using path decode_utf8_bytes[of "path @ [62]"] by (simp add: utf8_bytes_append utf8_bytes_ascii scalar_def)
  have "length (le_bytes 2 fcs) = Suc (Suc 0)" by simp
  then obtain q r where le: "le_bytes 2 fcs = [q, r]" by (auto simp only: length_Suc_conv length_0_conv)
  have fcs: "le_nat [q, r] = fcs" using le_nat_le_bytes[of fcs 2] bounds(2) le by simp
  have "decode_data_frame f (unat ptype) msg_id (unat hop AND 0x0F) (drop_bit 4 (unat hop))
      (rstrip_zero (drop (1 + HEADER_LEN) f)) (calc_fcs cov) =
    Inr (Some (fields_of ptype msg_id hop (path @ [62]) (decode_text D) (ustrip (decode_text T)) t (calc_fcs cov = fcs)))"
    using fcs dest text_bytes_layout[OF dest(2,3)]
    unfolding decode_data_frame_def rem gt p(5) le
    by (simp add: path' fields_of_def coerce_lora_mod_def Let_def)
  then show ?thesis using ptype
    unfolding decode_binary_message_def p(1-3) by auto
qed

definition body_of :: "8 word \<Rightarrow> utext \<Rightarrow> utext \<Rightarrow> utext \<Rightarrow> bytes" where
  "body_of ptype path dest body_text = utf8_bytes (path @ [62] @ dest @ [if ptype = 58 then 58 else 42] @ body_text)"

definition encode_frame :: "8 word \<Rightarrow> nat \<Rightarrow> 8 word \<Rightarrow> utext \<Rightarrow> utext \<Rightarrow> utext \<Rightarrow> frame_tail \<Rightarrow> bytes" where
  "encode_frame ptype msg_id hop path dest body_text t =
     (let cov = covered ptype msg_id hop (body_of ptype path dest body_text) t in frame_with_fcs cov (calc_fcs cov) t)"

text \<open>What a sender may put into a frame so that it can be taken apart again.\<close>

definition encodable :: "8 word \<Rightarrow> nat \<Rightarrow> utext \<Rightarrow> utext \<Rightarrow> utext \<Rightarrow> frame_tail \<Rightarrow> bool" where
  "encodable ptype msg_id path dest body_text t \<longleftrightarrow>
     ptype \<in> {58, 33} \<and> msg_id < 2 ^ 32 \<and> ft_hardware t \<noteq> 0 \<and>
     list_all scalar (path @ dest @ body_text) \<and> 62 \<notin> set path \<and> 0 \<notin> set (dest @ body_text) \<and>
     (if ptype = 58 then 58 else 42) \<notin> set dest \<and>
     ustrip (if ptype = 58 then 58 # body_text else body_text) = (if ptype = 58 then 58 # body_text else body_text)"

lemma split_dest_layout:
  assumes "list_all scalar (dest @ body_text)"
  shows "58 \<notin> set dest \<Longrightarrow> split_dest 58 (utf8_bytes dest @ utf8_bytes (58 # body_text) @ rest) = Some (length (utf8_bytes dest))"
    and "42 \<notin> set dest \<Longrightarrow> split_dest 33 (utf8_bytes (dest @ [42]) @ utf8_bytes body_text @ rest) = Some (length (utf8_bytes (dest @ [42])))"
proof -
  have c: "utf8_bytes (58 # body_text) = 58 # utf8_bytes body_text"
    using utf8_bytes_append[of "[58]" body_text] by (simp add: utf8_bytes_ascii)
  show "58 \<notin> set dest \<Longrightarrow> split_dest 58 (utf8_bytes dest @ utf8_bytes (58 # body_text) @ rest) = Some (length (utf8_bytes dest))"
    using assms utf8_bytes_absent[of dest 58] find_byte_first[of 58 "utf8_bytes dest" "utf8_bytes body_text @ rest"]
    by (simp add: split_dest_def PAYLOAD_TYPE_MSG_def c)
  show "42 \<notin> set dest \<Longrightarrow> split_dest 33 (utf8_bytes (dest @ [42]) @ utf8_bytes body_text @ rest) = Some (length (utf8_bytes (dest @ [42])))"
    using assms utf8_bytes_absent[of dest 42] find_byte_first[of 42 "utf8_bytes dest" "utf8_bytes body_text @ rest"]
    by (simp add: split_dest_def PAYLOAD_TYPE_MSG_def PAYLOAD_TYPE_POS_def utf8_bytes_append utf8_bytes_ascii)
qed

section \<open>Properties\<close>

text \<open>C12: a data frame survives the radio. For a text or position frame laid out as documented, with its
  checksum over header, body and the first footer bytes, the decoder gives back the path, the
  destination, the text, the id and all footer fields, and finds the checksum right.
\<close>

theorem data_frame_roundtrip:
  assumes "encodable ptype msg_id path dest body_text t"
  shows "decode_binary_message (encode_frame ptype msg_id hop path dest body_text t) =
    Inr (Some (DataFrame (fields_of ptype msg_id hop (path @ [62])
      (if ptype = 58 then dest else dest @ [42]) (if ptype = 58 then 58 # body_text else body_text) t True)))"
proof -
  define D where "D = (if ptype = 58 then dest else dest @ [42])"
  define T where "T = (if ptype = 58 then 58 # body_text else body_text)"
  have s: "list_all scalar D" "list_all scalar T" "list_all scalar path"
    and nul: "0 \<notin> set D" "0 \<notin> set T"
    using assms by (auto simp: encodable_def D_def T_def scalar_def)
  have body: "body_of ptype path dest body_text = utf8_bytes path @ 62 # utf8_bytes D @ utf8_bytes T"
    by (simp add: body_of_def D_def T_def utf8_bytes_def utf8_encode_def utf8_char_def)
  have split: "split_dest (unat ptype) (utf8_bytes D @ utf8_bytes T @ 0 # rest) = Some (length (utf8_bytes D))" for rest
    using assms split_dest_layout[of dest body_text "0 # rest"]
    by (auto simp: encodable_def D_def T_def split: if_splits)
  have "decode_binary_message (encode_frame ptype msg_id hop path dest body_text t) = Inr (Some (DataFrame
      (fields_of ptype msg_id hop (path @ [62]) (decode_text (utf8_bytes D)) (ustrip (decode_text (utf8_bytes T))) t True)))"
    unfolding encode_frame_def Let_def
    using assms s split utf8_bytes_absent[of D 0] utf8_bytes_absent[of T 0] nul
    by (subst decode_layout[OF refl refl _ calc_fcs_bound _ body]) (simp_all add: encodable_def)
  moreover have "ustrip T = T" using assms by (simp add: encodable_def T_def)
  ultimately show ?thesis using s by (simp add: decode_utf8_bytes D_def T_def)
qed

definition demo_tail :: frame_tail where
  "demo_tail = \<lparr>ft_hardware = 3, ft_mod = 131, ft_fw = 35, ft_lasthw = 131, ft_fw_sub = 109, ft_ending = 126,
     ft_time = 0, ft_terminator = 0\<rparr>"

theorem data_frame_roundtrip_witness:
  "decode_binary_message (encode_frame 58 0x9A3C0007 0x95 (utext ''DK5EN-99,OE1ABC'') (utext ''20'') (utext ''gr'' @ [0xFC, 0x20AC]) demo_tail) =
    Inr (Some (DataFrame (fields_of 58 0x9A3C0007 0x95 (utext ''DK5EN-99,OE1ABC>'') (utext ''20'') (utext '':gr'' @ [0xFC, 0x20AC]) demo_tail True)))"
proof -
  have e: "encodable 58 0x9A3C0007 (utext ''DK5EN-99,OE1ABC'') (utext ''20'') (utext ''gr'' @ [0xFC, 0x20AC]) demo_tail"
    by (simp add: encodable_def demo_tail_def utext_def scalar_def ustrip_def uspace_def)
  show ?thesis using data_frame_roundtrip[OF e, of "0x95"] by (simp add: utext_def)
qed

section \<open>Corrupted, short and acknowledging frames\<close>

lemma bind_unpack:
  "decode_binary_message bs = Inr (Some (DataFrame d)) \<Longrightarrow>
   \<exists>p m h rem. decode_data_frame bs p m (h AND 0x0F) (drop_bit 4 h) rem
     (calc_fcs (drop 1 (take (length bs - FCS_EXCLUDED_TRAILER_LEN) bs))) = Inr (Some d)"
  unfolding decode_binary_message_def
  by (auto simp: Let_def map_sum_def split: if_splits sum.splits)

lemma decode_fcs:
  assumes "decode_binary_message bs = Inr (Some (DataFrame d))"
  shows "df_fcs_ok d \<longleftrightarrow>
    calc_fcs (drop 1 (take (length bs - 11) bs)) = le_nat (take 2 (drop (length bs - 11) bs))"
proof -
  from bind_unpack[OF assms] obtain p m h rem where
    d: "decode_data_frame bs p m (h AND 0x0F) (drop_bit 4 h) rem
      (calc_fcs (drop 1 (take (length bs - FCS_EXCLUDED_TRAILER_LEN) bs))) = Inr (Some d)" by blast
  define footer where "footer = drop (length bs - FOOTER_LEN) (take (length bs - 1) bs)"
  from d have len: "length footer = 13"
    and ok: "df_fcs_ok d \<longleftrightarrow> calc_fcs (drop 1 (take (length bs - FCS_EXCLUDED_TRAILER_LEN) bs)) = le_nat (take 2 (drop 3 footer))"
    unfolding decode_data_frame_def footer_def[symmetric]
    by (auto simp: Let_def split: option.splits if_splits)
  have n: "14 \<le> length bs" using len by (simp add: footer_def FOOTER_LEN_def)
  have "drop 3 footer = drop (length bs - 11) (take (length bs - 1) bs)"
    using n by (simp add: footer_def FOOTER_LEN_def)
  also have "\<dots> = take (length bs - 1 - (length bs - 11)) (drop (length bs - 11) bs)" by (rule drop_take)
  finally have "take 2 (drop 3 footer) = take 2 (drop (length bs - 11) bs)" using n by simp
  with ok show ?thesis by (simp add: FCS_EXCLUDED_TRAILER_LEN_def)
qed

lemma byte_less: "unat (b :: 8 word) < 256"
  using unsigned_less[of b, where 'a = nat] by simp

lemma mod_near:
  fixes s s' x y :: nat
  assumes "s' + x = s + y" "x < 256" "y < 256" "y \<noteq> x"
  shows "s' mod 65536 \<noteq> s mod 65536"
proof
  assume e: "s' mod 65536 = s mod 65536"
  show False
  proof (cases "s \<le> s'")
    case True
    with e have "65536 dvd s' - s" by (metis mod_eq_dvd_iff_nat)
    moreover have "s' - s = y - x" "0 < y - x" "y - x < 65536" using assms True by linarith+
    ultimately show False by (metis dvd_imp_le not_le)
  next
    case False
    with e have "65536 dvd s - s'" by (metis mod_eq_dvd_iff_nat nat_le_linear)
    moreover have "s - s' = x - y" "0 < x - y" "x - y < 65536" using assms False by linarith+
    ultimately show False by (metis dvd_imp_le not_le)
  qed
qed

text \<open>C13: the checksum catches every single corrupted byte. If a data frame with a matching checksum is
  changed in one byte that the checksum covers, then it either no longer decodes to a data frame or is
  decoded with its checksum flag cleared.
\<close>

theorem corruption_detected:
  assumes "decode_binary_message bs = Inr (Some (DataFrame d))" and "df_fcs_ok d"
    and "1 \<le> i" and "i + 11 < length bs" and "b \<noteq> bs ! i"
    and "decode_binary_message (bs[i := b]) = Inr (Some (DataFrame d'))"
  shows "\<not> df_fcs_ok d'"
proof -
  let ?cov = "drop 1 (take (length bs - 11) bs)"
  have i: "i - 1 < length ?cov" "?cov ! (i - 1) = bs ! i" using assms(3,4) by simp_all
  have c: "drop 1 (take (length bs - 11) (bs[i := b])) = ?cov[i - 1 := b]"
    using assms(3,4) by (simp add: take_update_swap drop_update_swap)
  have f: "take 2 (drop (length bs - 11) (bs[i := b])) = take 2 (drop (length bs - 11) bs)"
    using assms(4) by simp
  let ?s = "sum_list (map unat ?cov)" and ?s' = "sum_list (map unat (?cov[i - 1 := b]))"
  have "?s' + unat (bs ! i) = ?s + unat b"
    using i elem_le_sum_list[of "i - 1" "map unat ?cov"] by (simp add: map_update sum_list_update)
  moreover have "unat (bs ! i) < 256" "unat b < 256" using byte_less by blast+
  moreover have "unat b \<noteq> unat (bs ! i)" using assms(5) by (metis unsigned_word_eqI)
  ultimately have "?s' mod 65536 \<noteq> ?s mod 65536" by (rule mod_near)
  then have "calc_fcs (?cov[i - 1 := b]) \<noteq> calc_fcs ?cov" unfolding calc_fcs_eq_iff .
  with decode_fcs[OF assms(1)] decode_fcs[OF assms(6)] assms(2) c f show ?thesis by simp
qed


definition demo_frame :: bytes where
  "demo_frame = encode_frame 58 1 5 (utext ''A'') (utext ''*'') (utext ''hi'') demo_tail"

theorem corruption_detected_witness:
  "\<exists>d'. decode_binary_message (demo_frame[11 := 74]) = Inr (Some (DataFrame d')) \<and>
     \<not> df_fcs_ok d' \<and> df_message d' = utext '':Ji''"
proof -
  have e: "encodable 58 1 (utext ''A'') (utext ''*'') (utext ''hi'') demo_tail"
    by (simp add: encodable_def demo_tail_def utext_def scalar_def ustrip_def uspace_def)
  note d1 = data_frame_roundtrip[OF e, of 5, folded demo_frame_def]
  define fcs where "fcs = calc_fcs (covered 58 1 5 (body_of 58 (utext ''A'') (utext ''*'') (utext ''hi'')) demo_tail)"
  let ?body = "body_of 58 (utext ''A'') (utext ''*'') (utext ''Ji'')"
  let ?cov = "covered 58 1 5 ?body demo_tail"
  have le: "le_bytes 4 1 = [1, 0, 0, 0]" by code_simp
  have bytes: "demo_frame = [64, 58] @ le_bytes 4 1 @ [5, 65, 62, 42, 58, 104, 105, 0, 3, 131] @ le_bytes 2 fcs @ uncovered demo_tail"
    by (simp add: demo_frame_def encode_frame_def fcs_def frame_with_fcs_def covered_def Let_def)
      (simp add: demo_tail_def body_of_def utf8_bytes_def utf8_encode_def utf8_char_def utext_def)
  have "frame_with_fcs ?cov fcs demo_tail =
      [64, 58] @ le_bytes 4 1 @ [5, 65, 62, 42, 58, 74, 105, 0, 3, 131] @ le_bytes 2 fcs @ uncovered demo_tail"
    by (simp add: frame_with_fcs_def covered_def)
      (simp add: demo_tail_def body_of_def utf8_bytes_def utf8_encode_def utf8_char_def utext_def)
  then have f2: "demo_frame[11 := 74] = frame_with_fcs ?cov fcs demo_tail"
    unfolding bytes le by simp
  have "decode_binary_message (demo_frame[11 := 74]) = Inr (Some (DataFrame
      (fields_of 58 1 5 (utext ''A'' @ [62]) (decode_text (utf8_bytes (utext ''*'')))
        (ustrip (decode_text (utf8_bytes (58 # utext ''Ji'')))) demo_tail (calc_fcs ?cov = fcs))))"
  proof (rule decode_layout[OF f2 refl])
    show "?body = utf8_bytes (utext ''A'') @ 62 # utf8_bytes (utext ''*'') @ utf8_bytes (58 # utext ''Ji'')"
      by (simp add: body_of_def utf8_bytes_def utf8_encode_def utf8_char_def utext_def)
    show "split_dest (unat (58 :: 8 word)) (utf8_bytes (utext ''*'') @ utf8_bytes (58 # utext ''Ji'') @ 0 # rest) =
      Some (length (utf8_bytes (utext ''*'')))" for rest
      by (simp add: split_dest_def PAYLOAD_TYPE_MSG_def utf8_bytes_def utf8_encode_def utf8_char_def utext_def)
  qed (simp_all add: fcs_def calc_fcs_bound demo_tail_def utext_def scalar_def utf8_bytes_def utf8_encode_def utf8_char_def)
  moreover have "list_all scalar (58 # utext ''Ji'')" "ustrip (58 # utext ''Ji'') = utext '':Ji''"
    by (simp_all add: utext_def scalar_def ustrip_def uspace_def)
  ultimately obtain d2 where d2: "decode_binary_message (demo_frame[11 := 74]) = Inr (Some (DataFrame d2))"
    "df_message d2 = utext '':Ji''"
    by (simp add: decode_utf8_bytes fields_of_def)
  have "\<not> df_fcs_ok d2"
    by (rule corruption_detected[OF d1 _ _ _ _ d2(1)]) (simp_all add: fields_of_def bytes le[unfolded One_nat_def] uncovered_def)
  with d2 show ?thesis by blast
qed

text \<open>When a destination separator is found, as the decoder looks for it.\<close>

definition separable :: "bytes \<Rightarrow> bool" where
  "separable bs =
     (let rem = rstrip_zero (drop 7 bs) in
      case find_byte 62 rem of
        None \<Rightarrow> False
      | Some gt \<Rightarrow> split_dest (unat (bs ! 1)) (drop (gt + 1) rem) \<noteq> None)"

text \<open>When decoding raises. Although a malformed frame is documented to decode to None, a frame of less
  than seven bytes raises \<open>struct.error\<close>, and so does a data frame of less than fourteen bytes that has
  its separators; every other input decodes or is refused with None.
\<close>

theorem decode_raises_iff:
  "decode_binary_message bs = Inl e \<longleftrightarrow>
     e = StructError \<and> (length bs < 7 \<or> length bs < 14 \<and> take 2 bs \<in> {[64, 58], [64, 33]} \<and> separable bs)"
proof (cases "length bs < 7")
  case True
  then have "length (take HEADER_LEN (drop 1 bs)) \<noteq> HEADER_LEN" by (simp add: HEADER_LEN_def)
  with True show ?thesis by (auto simp: decode_binary_message_def unpack_header_def)
next
  case False
  then have h: "take HEADER_LEN (drop 1 bs) ! 0 = bs ! 1"
    "length (take HEADER_LEN (drop 1 bs)) = HEADER_LEN" by (simp_all add: HEADER_LEN_def)
  obtain m r where u: "unpack_header (take HEADER_LEN (drop 1 bs)) = Inr (unat (bs ! 1), m, r)"
    using h by (simp add: unpack_header_def)
  let ?ok = "length bs < 14 \<and> separable bs"
  have d: "decode_data_frame bs (unat (bs ! 1)) m (r AND 0x0F) (drop_bit 4 r) (rstrip_zero (drop (1 + HEADER_LEN) bs)) c = Inl e \<longleftrightarrow>
      e = StructError \<and> ?ok" for c
  proof -
    have seven: "1 + HEADER_LEN = 7" by (simp add: HEADER_LEN_def)
    show ?thesis unfolding decode_data_frame_def separable_def seven
      by (auto simp: Let_def FOOTER_LEN_def split: option.splits if_splits)
  qed
  have "take 2 bs = [64, 65] \<Longrightarrow> take 2 bs \<notin> {[64, 58], [64, 33]}" by auto
  moreover have "map_sum id (map_option DataFrame) x = Inl e \<longleftrightarrow> x = Inl e" for x by (cases x) auto
  ultimately show ?thesis using False
    unfolding decode_binary_message_def u bind_res.simps Let_def prod.case
    by (cases "take 2 bs = [64, 65]"; cases "take 2 bs \<in> {[64, 58], [64, 33]}") (simp_all only: d if_True if_False, simp_all)
qed

section \<open>Acknowledgements\<close>

definition callsign_text :: "string \<Rightarrow> bool" where
  "callsign_text c \<longleftrightarrow> length c \<le> 10 \<and>
     (case c of [] \<Rightarrow> False | d # ds \<Rightarrow> ack_callsign_char d \<and> list_all (\<lambda>e. ack_callsign_char e \<or> e = CHR ''-'') ds)"

definition char_byte :: "char \<Rightarrow> 8 word" where
  "char_byte c = word_of_nat (of_char c)"

definition ack_gatt :: "nat \<Rightarrow> 8 word \<Rightarrow> bytes \<Rightarrow> bytes" where
  "ack_gatt msg_id ack_type rest = [64, 65] @ le_bytes 4 msg_id @ [ack_type] @ rest"

lemma ack_callsign_charD: "ack_callsign_char c \<or> c = CHR ''-'' \<Longrightarrow> of_char c < (128 :: nat) \<and> \<not> is_space c \<and> upper_char c = [c]"
  by (auto simp: ack_callsign_char_def ascii_upper_def ascii_digit_def is_space_def upper_char_def ascii_lower_def Let_def)

lemma callsign_text_chars: "callsign_text c \<Longrightarrow> d \<in> set c \<Longrightarrow> ack_callsign_char d \<or> d = CHR ''-''"
  by (auto simp: callsign_text_def list_all_iff split: list.splits)

lemma callsign_text_match:
  assumes "callsign_text c"
  shows "ack_callsign_match c" "c \<noteq> []" "length c \<le> 10"
proof -
  show ne: "c \<noteq> []" "length c \<le> 10" using assms by (auto simp: callsign_text_def)
  have "last c \<noteq> CHR 0x0A"
    using ack_callsign_charD[OF callsign_text_chars[OF assms, of "last c"]] ne(1) by (auto simp: is_space_def)
  with assms show "ack_callsign_match c"
    by (auto simp: ack_callsign_match_def callsign_text_def split: list.splits)
qed

lemma ascii_decode_bytes:
  assumes "\<forall>d \<in> set c. of_char d < (128 :: nat)"
  shows "ascii_decode (map char_byte c) = Some c"
proof -
  have u: "unat (char_byte d) = of_char d" if "d \<in> set c" for d
    using assms that by (simp add: char_byte_def unsigned_of_nat take_bit_eq_mod)
  then have "map (\<lambda>b. char_of (unat b)) (map char_byte c) = c" by (auto intro: map_idI)
  with u assms show ?thesis by (simp add: ascii_decode_def list_all_iff)
qed

lemma normalise_callsign_text:
  assumes "callsign_text c"
  shows "normalise_ack_callsign (AckBytes (map char_byte c)) = Some c"
proof -
  note ch = ack_callsign_charD[OF callsign_text_chars[OF assms]]
  have "upper c = c" using ch by (induction c) (auto simp: upper_def)
  moreover have "strip c = c" using ch by (intro strip_no_space) (simp add: list_all_iff)
  ultimately show ?thesis using ch callsign_text_match[OF assms]
    by (simp add: normalise_ack_callsign_def ack_source_text_def ascii_decode_bytes ACK_APPENDIX_MAX_LEN_def)
qed

text \<open>An appendix never costs an acknowledgement, and a proper one is read. Every acknowledgement frame
  decodes to its message id and its kind whatever follows the status byte; a station it names is a
  callsign of at most ten characters; and the callsign of an attributing firmware comes through.
\<close>

theorem ack_frame_decodes:
  assumes "msg_id < 2 ^ 32"
  shows "\<exists>from. decode_binary_message (ack_gatt msg_id ack_type rest) =
      Inr (Some (AckFrame \<lparr>af_payload_type = 65, af_msg_id = msg_id, af_ack_type = unat ack_type,
        af_ack_type_text = ack_type_text (unat ack_type), af_ack_from = from\<rparr>)) \<and>
    pred_option (\<lambda>c. length c \<le> 10 \<and> ack_callsign_match c) from \<and>
    (if \<exists>stamp. rest = word_of_nat (length c) # map char_byte c @ stamp \<and> callsign_text c \<and> 4 \<le> length stamp
     then from = Some c else True)"
proof -
  have "length (le_bytes 4 msg_id) = Suc (Suc (Suc (Suc 0)))" by simp
  then obtain a b d e where le: "le_bytes 4 msg_id = [a, b, d, e]" by (auto simp only: length_Suc_conv length_0_conv)
  have id: "le_nat [a, b, d, e] = msg_id" using le_nat_le_bytes[of msg_id 4] assms le by simp
  let ?f = "ack_gatt msg_id ack_type rest"
  have f: "?f = [64, 65, a, b, d, e, ack_type] @ rest" by (simp add: ack_gatt_def le)
  have u: "unpack_header (take HEADER_LEN (drop 1 ?f)) = Inr (65, msg_id, unat ack_type)"
    using id by (simp add: f unpack_header_def HEADER_LEN_def)
  have dec: "decode_binary_message ?f = Inr (Some (AckFrame (decode_ack_frame 65 msg_id (unat ack_type) ?f)))"
    unfolding decode_binary_message_def u by (simp add: f)
  have valid: "pred_option (\<lambda>c. length c \<le> 10 \<and> ack_callsign_match c) (parse_ack_appendix ?f)"
    by (auto simp: parse_ack_appendix_def normalise_ack_callsign_def Let_def ACK_APPENDIX_MAX_LEN_def
        pred_option_def split: option.splits if_splits)
  have named: "parse_ack_appendix ?f = Some c"
    if r: "rest = word_of_nat (length c) # map char_byte c @ stamp" "callsign_text c" "4 \<le> length stamp" for stamp
  proof -
    have n: "0 < length c" "length c \<le> 10" using callsign_text_match[OF r(2)] by simp_all
    then have un: "unat (word_of_nat (length c) :: 8 word) = length c"
      by (simp add: unsigned_of_nat take_bit_eq_mod)
    have "take (length c) (drop 8 ?f) = map char_byte c" unfolding f unfolding r(1) by simp
    then show ?thesis using n un r(3) normalise_callsign_text[OF r(2)]
      unfolding f unfolding r(1)
      by (simp add: parse_ack_appendix_def ACK_APPENDIX_OFFSET_def ACK_APPENDIX_MAX_LEN_def ACK_TIMESTAMP_LEN_def Let_def)
  qed
  show ?thesis unfolding dec decode_ack_frame_def using valid named by auto
qed

theorem ack_frame_decodes_witness:
  "\<exists>a. decode_binary_message (ack_gatt 7 1 (8 # map char_byte ''DB0ED-99'' @ [1, 2, 3, 4])) = Inr (Some (AckFrame a)) \<and>
     af_msg_id a = 7 \<and> af_ack_from a = Some ''DB0ED-99''"
proof -
  have "callsign_text ''DB0ED-99''" by code_simp
  then show ?thesis
    using ack_frame_decodes[of 7 1 "8 # map char_byte ''DB0ED-99'' @ [1, 2, 3, 4]" "''DB0ED-99''"]
    by (auto simp: exI[of _ "[1, 2, 3, 4]"])
qed

text \<open>The id shown for a BLE frame correlates. The hexadecimal id that the decoder's output is published
  with normalises, in the link check, to the 32-bit id of the frame.
\<close>

theorem ble_id_correlates:
  assumes "msg_id < 2 ^ 32"
  shows "length (hex_msg_id msg_id) = 8 \<and> normalise_id (JStr (hex_msg_id msg_id)) = Some (word_of_nat msg_id)"
proof -
  have len: "length (hex_msg_id msg_id) = 8"
    unfolding hex_msg_id_def using assms by (intro hex_padded_length[of _ 8]) simp_all
  have "strip (hex_msg_id msg_id) = hex_msg_id msg_id"
    using hex_padded_text[of 8 msg_id] hex_text_facts(2) by (auto simp: hex_msg_id_def intro: strip_no_space)
  with len hex_padded_text[of 8 msg_id] show ?thesis
    by (simp add: normalise_id_def MAX_HEX_ID_LEN_def hex_msg_id_def py_int16_hex_padded Let_def)
qed

theorem ble_id_correlates_witness: "normalise_id (JStr (hex_msg_id 7)) = Some 7"
  using ble_id_correlates[of 7] by simp

end
