(* ===== verification/BleAdapter.thy ===== *)
theory BleAdapter
  imports BleFrames NumText
begin

text \<open>
  ble_service/src/ble_adapter.py: the BLE adapter over BlueZ. Every D-Bus call is a question to the environment,
  which answers it from the calls made so far: with a value, an exception, the expiry of the surrounding
  \<open>wait_for\<close>, or the cancellation of the whole request. With each answer the environment may also deliver a loss of
  the link (\<open>_on_disconnect_detected\<close>), the release of the pairing agent, or a concurrent \<open>disconnect()\<close>'s cancel
  flag, so every interleaving at an await is covered. An operation returns a value or an exception together with the
  adapter's new state; \<open>ad_calls\<close> and \<open>ad_callbacks\<close> are history variables.
\<close>

section \<open>Exceptions\<close>

text \<open>\<open>Cancelled\<close> and \<open>Expired\<close> are not \<open>Exception\<close>s in Python: no handler but \<open>finally\<close> and \<open>wait_for\<close> sees them.\<close>

datatype py_exc =
    DBusError string string
  | TimeoutError string
  | InterfaceNotFoundError string
  | OtherError string string
  | ConnectionError string "py_exc option"
  | BondRecoveryReconnectError string py_exc
  | Cancelled
  | Expired

definition DEVICE_NOT_FOUND_MSG :: string where "DEVICE_NOT_FOUND_MSG = ''Device not found or not paired''"

definition GATT_SECURITY_ERROR_NAMES :: "string list" where
  "GATT_SECURITY_ERROR_NAMES =
     [''org.bluez.Error.NotPermitted'', ''org.bluez.Error.NotAuthorized'', ''org.bluez.Error.NotPaired'']"

definition GATT_SECURITY_ERROR_TEXT_MARKERS :: "string list" where
  "GATT_SECURITY_ERROR_TEXT_MARKERS =
     [''not permitted'', ''not authorized'', ''not paired'', ''insufficient authentication'', ''insufficient encryption'']"

definition STALE_BOND_ERROR_NAMES :: "string list" where
  "STALE_BOND_ERROR_NAMES = [''org.bluez.Error.AuthenticationFailed'']"

fun class_name :: "py_exc \<Rightarrow> string" where
  "class_name (DBusError name msg) = ''DBusError''"
| "class_name (TimeoutError msg) = ''TimeoutError''"
| "class_name (InterfaceNotFoundError msg) = ''InterfaceNotFoundError''"
| "class_name (OtherError cls msg) = cls"
| "class_name (ConnectionError msg cause) = ''ConnectionError''"
| "class_name (BondRecoveryReconnectError mac e) = ''BondRecoveryReconnectError''"
| "class_name Cancelled = ''CancelledError''"
| "class_name Expired = ''CancelledError''"

text \<open>\<open>_dbus_error_parts\<close> and \<open>str()\<close>; only a \<open>DBusError\<close> has the attributes \<open>type\<close> and \<open>text\<close>.\<close>

definition or_else :: "string \<Rightarrow> string \<Rightarrow> string" where
  "or_else a b = (if a = [] then b else a)"

fun error_name :: "py_exc \<Rightarrow> string" where
  "error_name (DBusError name msg) = or_else name ''DBusError''"
| "error_name e = class_name e"

fun error_text :: "py_exc \<Rightarrow> string" where
  "error_text (DBusError name msg) = msg"
| "error_text (TimeoutError msg) = msg"
| "error_text (InterfaceNotFoundError msg) = msg"
| "error_text (OtherError cls msg) = msg"
| "error_text (ConnectionError msg cause) = msg"
| "error_text (BondRecoveryReconnectError mac e) =
     ''BLE pairing was reset for '' @ mac @ '' after a stale-bond recovery attempt, but the reconnect still failed (''
       @ error_name e @ '': '' @ error_text e @ ''); the device may need to be re-paired, possibly with a PIN''"
| "error_text Cancelled = []"
| "error_text Expired = []"

fun is_device_not_found_error :: "py_exc \<Rightarrow> bool" where
  "is_device_not_found_error (ConnectionError msg cause) = contains msg DEVICE_NOT_FOUND_MSG"
| "is_device_not_found_error (BondRecoveryReconnectError mac e) = contains (error_text (BondRecoveryReconnectError mac e)) DEVICE_NOT_FOUND_MSG"
| "is_device_not_found_error e = False"

definition is_gatt_security_error :: "py_exc \<Rightarrow> bool" where
  "is_gatt_security_error e \<longleftrightarrow>
     error_name e \<in> set GATT_SECURITY_ERROR_NAMES \<or>
     list_ex (\<lambda>marker. contains (lower (error_text e)) marker) GATT_SECURITY_ERROR_TEXT_MARKERS"

fun cause_of :: "py_exc \<Rightarrow> py_exc option" where
  "cause_of (ConnectionError msg cause) = cause"
| "cause_of e = None"

fun is_dbus_error :: "py_exc \<Rightarrow> bool" where
  "is_dbus_error (DBusError name msg) = True"
| "is_dbus_error e = False"

fun is_timeout_error :: "py_exc \<Rightarrow> bool" where
  "is_timeout_error (TimeoutError msg) = True"
| "is_timeout_error e = False"

definition is_recoverable_stale_bond_signature :: "py_exc \<Rightarrow> bool" where
  "is_recoverable_stale_bond_signature e =
     (case (if is_dbus_error e then Some e else cause_of e) of
        Some c \<Rightarrow> is_dbus_error c \<and> error_name c \<in> set STALE_BOND_ERROR_NAMES
      | None \<Rightarrow> False)"

definition is_plain_timeout :: "py_exc \<Rightarrow> bool" where
  "is_plain_timeout e \<longleftrightarrow> is_timeout_error e \<or> (case cause_of e of Some c \<Rightarrow> is_timeout_error c | None \<Rightarrow> False)"

section \<open>Calls to BlueZ\<close>

datatype dbus_op =
    OpBus
  | OpIntrospect string
  | OpInterface string string
  | OpRegisterAgent
  | OpRequestDefaultAgent
  | OpManagedObjects
  | OpStartDiscovery
  | OpDiscovery
  | OpStopDiscovery
  | OpGetConnected
  | OpConnect string
  | OpDisconnect
  | OpSetTrusted
  | OpClock
  | OpGetServicesResolved
  | OpGetName
  | OpSubscribe
  | OpGetMtu
  | OpGetNotifying
  | OpAttachHandler
  | OpStartNotify
  | OpStopNotify
  | OpGetPaired string
  | OpPair string
  | OpRemoveDevice string
  | OpSleep
  | OpWrite bytes

record device_props =
  dp_name :: string
  dp_address :: string
  dp_rssi :: int
  dp_paired :: bool

text \<open>An object of BlueZ's tree: its Device1 properties, and the UUID of its GattCharacteristic1.\<close>

record managed_object =
  mo_path :: string
  mo_device :: "device_props option"
  mo_uuid :: "string option"

datatype dbus_answer = AnsBool bool | AnsStr string | AnsObjects "managed_object list" | AnsRaise py_exc

record dbus_reply =
  dr_answer :: dbus_answer
  dr_lost :: bool
  dr_released :: bool
  dr_stop :: bool

type_synonym dbus_log = "(dbus_op \<times> dbus_answer) list"
type_synonym bluez = "dbus_log \<Rightarrow> dbus_op \<Rightarrow> dbus_reply"

datatype adapter_state = AsDisconnected | AsConnecting | AsConnected | AsDisconnecting | AsError

record adapter =
  ad_state :: adapter_state
  ad_device :: "(string \<times> string) option"
  ad_error :: "string option"
  ad_mac :: "string option"
  ad_bus :: bool
  ad_agent :: bool
  ad_dev_iface :: bool
  ad_props_iface :: bool
  ad_read_char :: bool
  ad_read_props :: bool
  ad_write_char :: bool
  ad_handler :: bool
  ad_listening :: bool
  ad_keepalive :: bool
  ad_dst_check :: bool
  ad_cancel :: bool
  ad_passkey :: int
  ad_hello :: bytes
  ad_callbacks :: nat
  ad_calls :: dbus_log

type_synonym 'a act = "adapter \<Rightarrow> (py_exc + 'a) \<times> adapter"

definition ret :: "'a \<Rightarrow> 'a act" where "ret x = (\<lambda>st. (Inr x, st))"

definition raise_exc :: "py_exc \<Rightarrow> 'a act" where "raise_exc e = (\<lambda>st. (Inl e, st))"

definition andthen :: "'a act \<Rightarrow> ('a \<Rightarrow> 'b act) \<Rightarrow> 'b act" where
  "andthen m f = (\<lambda>st. case m st of (Inl e, st') \<Rightarrow> (Inl e, st') | (Inr x, st') \<Rightarrow> f x st')"

definition then_do :: "'a act \<Rightarrow> 'b act \<Rightarrow> 'b act" where
  "then_do m n = andthen m (\<lambda>_. n)"

definition update :: "(adapter \<Rightarrow> adapter) \<Rightarrow> unit act" where "update f = (\<lambda>st. (Inr (), f st))"

definition reading :: "(adapter \<Rightarrow> 'a) \<Rightarrow> ('a \<Rightarrow> 'b act) \<Rightarrow> 'b act" where "reading g f = (\<lambda>st. f (g st) st)"

text \<open>\<open>except Exception\<close>, \<open>finally\<close> and \<open>wait_for\<close>.\<close>

definition catching :: "'a act \<Rightarrow> (py_exc \<Rightarrow> 'a act) \<Rightarrow> 'a act" where
  "catching m h = (\<lambda>st. case m st of
       (Inl e, st') \<Rightarrow> if e = Cancelled \<or> e = Expired then (Inl e, st') else h e st'
     | (Inr x, st') \<Rightarrow> (Inr x, st'))"

definition suppress :: "'a act \<Rightarrow> unit act" where
  "suppress m = catching (then_do m (ret ())) (\<lambda>_. ret ())"

definition finally_do :: "'a act \<Rightarrow> unit act \<Rightarrow> 'a act" where
  "finally_do m f = (\<lambda>st. case m st of (r, st') \<Rightarrow> (case f st' of (Inl e, st'') \<Rightarrow> (Inl e, st'') | (Inr _, st'') \<Rightarrow> (r, st'')))"

definition wait_for :: "'a act \<Rightarrow> 'a act" where
  "wait_for m = (\<lambda>st. case m st of (Inl Expired, st') \<Rightarrow> (Inl (TimeoutError []), st') | r \<Rightarrow> r)"

text \<open>\<open>_on_disconnect_detected\<close>; the callback is counted.\<close>

definition on_disconnect_detected :: "adapter \<Rightarrow> adapter" where
  "on_disconnect_detected st =
     (if ad_state st = AsDisconnected then st
      else st\<lparr>ad_state := AsDisconnected, ad_device := None, ad_error := Some ''Connection lost'', ad_mac := None,
        ad_keepalive := False, ad_dst_check := False, ad_listening := False,
        ad_dev_iface := False, ad_props_iface := False, ad_read_char := False, ad_read_props := False,
        ad_write_char := False, ad_handler := False, ad_callbacks := ad_callbacks st + 1\<rparr>)"

definition on_agent_released :: "adapter \<Rightarrow> adapter" where
  "on_agent_released st = st\<lparr>ad_agent := False\<rparr>"

definition dbus :: "bluez \<Rightarrow> dbus_op \<Rightarrow> dbus_answer act" where
  "dbus bz op = (\<lambda>st.
     let r = bz (ad_calls st) op;
         st1 = st\<lparr>ad_calls := ad_calls st @ [(op, dr_answer r)]\<rparr>;
         st2 = (if dr_stop r then st1\<lparr>ad_cancel := True\<rparr> else st1);
         st3 = (if dr_released r then on_agent_released st2 else st2);
         st4 = (if dr_lost r then on_disconnect_detected st3 else st3)
     in case dr_answer r of AnsRaise e \<Rightarrow> (Inl e, st4) | a \<Rightarrow> (Inr a, st4))"

fun ans_bool :: "dbus_answer \<Rightarrow> bool" where
  "ans_bool (AnsBool b) = b"
| "ans_bool (AnsStr s) = (s \<noteq> [])"
| "ans_bool a = False"

fun ans_str :: "dbus_answer \<Rightarrow> string" where
  "ans_str (AnsStr s) = s"
| "ans_str a = []"

fun ans_objects :: "dbus_answer \<Rightarrow> managed_object list" where
  "ans_objects (AnsObjects l) = l"
| "ans_objects a = []"

text \<open>A call through one of the adapter's interface fields: \<open>None\<close> has no such method.\<close>

definition through :: "(adapter \<Rightarrow> bool) \<Rightarrow> bluez \<Rightarrow> dbus_op \<Rightarrow> dbus_answer act" where
  "through present bz op =
     reading present (\<lambda>p. if p then dbus bz op
       else raise_exc (OtherError ''AttributeError'' ''NoneType object has no such attribute''))"

section \<open>Bus, agent and session state\<close>

definition ADAPTER_PATH :: string where "ADAPTER_PATH = ''/org/bluez/hci0''"
definition DEVICE_INTERFACE :: string where "DEVICE_INTERFACE = ''org.bluez.Device1''"
definition ADAPTER_INTERFACE :: string where "ADAPTER_INTERFACE = ''org.bluez.Adapter1''"
definition PROPERTIES_INTERFACE :: string where "PROPERTIES_INTERFACE = ''org.freedesktop.DBus.Properties''"
definition OBJECT_MANAGER_INTERFACE :: string where "OBJECT_MANAGER_INTERFACE = ''org.freedesktop.DBus.ObjectManager''"
definition GATT_CHARACTERISTIC_INTERFACE :: string where "GATT_CHARACTERISTIC_INTERFACE = ''org.bluez.GattCharacteristic1''"
definition NUS_RX_UUID :: string where "NUS_RX_UUID = ''6e400002-b5a3-f393-e0a9-e50e24dcca9e''"
definition NUS_TX_UUID :: string where "NUS_TX_UUID = ''6e400003-b5a3-f393-e0a9-e50e24dcca9e''"
definition MESHCOM_NAME_PREFIX :: string where "MESHCOM_NAME_PREFIX = ''MC-''"

definition mac_to_dbus_path :: "string \<Rightarrow> string" where
  "mac_to_dbus_path mac = ADAPTER_PATH @ ''/dev_'' @ map (\<lambda>c. if c = CHR '':'' then CHR ''_'' else c) mac"

definition reset_bus :: "adapter \<Rightarrow> adapter" where
  "reset_bus st = st\<lparr>ad_bus := False, ad_agent := False\<rparr>"

definition reset_state :: "adapter \<Rightarrow> adapter" where
  "reset_state st = st\<lparr>ad_bus := False, ad_dev_iface := False, ad_props_iface := False, ad_read_char := False,
     ad_read_props := False, ad_write_char := False, ad_mac := None, ad_handler := False, ad_agent := False\<rparr>"

definition register_agent :: "bluez \<Rightarrow> unit act" where
  "register_agent bz =
     reading ad_agent (\<lambda>registered. if registered then ret () else
       then_do (dbus bz (OpIntrospect ''/org/bluez''))
         (then_do (dbus bz (OpInterface ''/org/bluez'' ''org.bluez.AgentManager1''))
           (then_do
             (catching (then_do (dbus bz OpRegisterAgent) (ret ()))
               (\<lambda>e. if is_dbus_error e \<and> error_name e = ''org.bluez.Error.AlreadyExists'' then ret () else raise_exc e))
             (then_do (dbus bz OpRequestDefaultAgent) (update (\<lambda>st. st\<lparr>ad_agent := True\<rparr>))))))"

definition ensure_bus :: "bluez \<Rightarrow> unit act" where
  "ensure_bus bz =
     then_do (reading ad_bus (\<lambda>up. if up then ret () else then_do (dbus bz OpBus) (update (\<lambda>st. st\<lparr>ad_bus := True\<rparr>))))
       (reading ad_agent (\<lambda>registered. if registered then ret () else suppress (register_agent bz)))"

definition get_proxy :: "bluez \<Rightarrow> string \<Rightarrow> string \<Rightarrow> unit act" where
  "get_proxy bz path iface = then_do (dbus bz (OpIntrospect path)) (then_do (dbus bz (OpInterface path iface)) (ret ()))"

section \<open>Scanning\<close>

record ble_device =
  bd_name :: string
  bd_address :: string
  bd_rssi :: int
  bd_paired :: bool
  bd_known :: bool
  bd_path :: string

definition known_device :: "string \<Rightarrow> managed_object \<Rightarrow> ble_device option" where
  "known_device pfx obj =
     (case mo_device obj of
        Some p \<Rightarrow>
          if startswith (dp_name p) pfx
          then Some \<lparr>bd_name = dp_name p, bd_address = dp_address p, bd_rssi = dp_rssi p, bd_paired = dp_paired p,
                 bd_known = True, bd_path = mo_path obj\<rparr>
          else None
      | None \<Rightarrow> None)"

definition found_device :: "string \<Rightarrow> (string, ble_device) dict \<Rightarrow> managed_object \<Rightarrow> (string, ble_device) dict" where
  "found_device pfx found obj =
     (case mo_device obj of
        Some p \<Rightarrow>
          if startswith (dp_name p) pfx
          then AList.update (mo_path obj) \<lparr>bd_name = dp_name p, bd_address = dp_address p, bd_rssi = dp_rssi p,
                 bd_paired = False, bd_known = False, bd_path = mo_path obj\<rparr> found
          else found
      | None \<Rightarrow> found)"

definition scan_results :: "string \<Rightarrow> managed_object list \<Rightarrow> managed_object list \<Rightarrow> ble_device list" where
  "scan_results pfx known added =
     List.map_filter (known_device pfx) known @ map snd (foldl (found_device pfx) [] added)"

text \<open>\<open>OpDiscovery\<close> is the scan's sleep; its answer is the objects that were announced meanwhile.\<close>

definition scan_unlocked :: "bluez \<Rightarrow> string \<Rightarrow> ble_device list act" where
  "scan_unlocked bz pfx =
     then_do (ensure_bus bz)
      (then_do (get_proxy bz ADAPTER_PATH ADAPTER_INTERFACE)
       (then_do (get_proxy bz ''/'' OBJECT_MANAGER_INTERFACE)
        (andthen (dbus bz OpManagedObjects) (\<lambda>objects.
          then_do (dbus bz OpStartDiscovery)
           (andthen (finally_do (dbus bz OpDiscovery) (then_do (dbus bz OpStopDiscovery) (ret ()))) (\<lambda>added.
             ret (scan_results pfx (ans_objects objects) (ans_objects added))))))))"

section \<open>One connection attempt\<close>

definition fail_connect :: "string \<Rightarrow> py_exc option \<Rightarrow> 'a act" where
  "fail_connect message cause = raise_exc (ConnectionError message cause)"

text \<open>The polls of \<open>_wait_for_services_resolved\<close>: each sleeps half a second, so the ten seconds allow at most twenty.\<close>

definition SERVICE_POLLS :: nat where "SERVICE_POLLS = 20"

fun poll_services :: "bluez \<Rightarrow> nat \<Rightarrow> bool act" where
  "poll_services bz 0 = ret False"
| "poll_services bz (Suc n) =
     andthen (dbus bz OpClock) (\<lambda>in_time. if \<not> ans_bool in_time then ret False else
       andthen
         (catching (andthen (through ad_props_iface bz OpGetServicesResolved) (\<lambda>a. ret (ans_bool a)))
           (\<lambda>e. if is_dbus_error e then ret False else raise_exc e))
         (\<lambda>resolved. if resolved then ret True else then_do (dbus bz OpSleep) (poll_services bz n)))"

definition wait_for_services_resolved :: "bluez \<Rightarrow> bool act" where
  "wait_for_services_resolved bz =
     reading ad_props_iface (\<lambda>p. if p then poll_services bz SERVICE_POLLS else ret False)"

text \<open>The characteristic of a UUID under the device's path, whose proxy can be built.\<close>

fun search_characteristic :: "bluez \<Rightarrow> string \<Rightarrow> string \<Rightarrow> managed_object list \<Rightarrow> bool act" where
  "search_characteristic bz path uuid [] = ret False"
| "search_characteristic bz path uuid (obj # objs) =
     (if \<not> startswith (mo_path obj) (path @ ''/'') then search_characteristic bz path uuid objs
      else case mo_uuid obj of
          None \<Rightarrow> search_characteristic bz path uuid objs
        | Some u \<Rightarrow>
            if lower u \<noteq> lower uuid then search_characteristic bz path uuid objs
            else andthen (catching (then_do (dbus bz (OpIntrospect (mo_path obj))) (ret True)) (\<lambda>_. ret False))
              (\<lambda>built. if built then then_do (dbus bz (OpInterface (mo_path obj) GATT_CHARACTERISTIC_INTERFACE)) (ret True)
                 else search_characteristic bz path uuid objs))"

definition find_gatt_characteristic :: "bluez \<Rightarrow> string \<Rightarrow> string \<Rightarrow> bool act" where
  "find_gatt_characteristic bz path uuid =
     andthen
       (catching
         (then_do (ensure_bus bz)
           (then_do (get_proxy bz ''/'' OBJECT_MANAGER_INTERFACE)
             (andthen (dbus bz OpManagedObjects) (\<lambda>a. ret (Some (ans_objects a))))))
         (\<lambda>_. ret None))
       (\<lambda>objects. case objects of None \<Rightarrow> ret False | Some objs \<Rightarrow> search_characteristic bz path uuid objs)"

definition find_characteristics :: "bluez \<Rightarrow> string \<Rightarrow> unit act" where
  "find_characteristics bz path =
     andthen (find_gatt_characteristic bz path NUS_TX_UUID) (\<lambda>r.
       then_do (update (\<lambda>st. st\<lparr>ad_read_char := r\<rparr>))
         (andthen (find_gatt_characteristic bz path NUS_RX_UUID) (\<lambda>w. update (\<lambda>st. st\<lparr>ad_write_char := w\<rparr>))))"

definition clear_stale_connection :: "bluez \<Rightarrow> unit act" where
  "clear_stale_connection bz =
     suppress (andthen (through ad_props_iface bz OpGetConnected) (\<lambda>connected.
       if ans_bool connected
       then then_do (suppress (wait_for (through ad_dev_iface bz OpDisconnect))) (then_do (dbus bz OpSleep) (ret ()))
       else ret ()))"

definition device_connect :: "bluez \<Rightarrow> string \<Rightarrow> unit act" where
  "device_connect bz mac =
     catching (then_do (wait_for (through ad_dev_iface bz (OpConnect mac))) (ret ()))
       (\<lambda>e. if is_timeout_error e then fail_connect ''Connection timeout after 10 seconds'' (Some e)
          else if is_dbus_error e then
            (if contains (error_text e) ''In Progress''
             then then_do (suppress (wait_for (through ad_dev_iface bz OpDisconnect)))
                    (fail_connect ''Cleared stale BlueZ state, will retry'' (Some e))
             else fail_connect (''Connect failed: '' @ error_text e) (Some e))
          else raise_exc e)"

definition device_proxy :: "bluez \<Rightarrow> string \<Rightarrow> unit act" where
  "device_proxy bz path =
     then_do (dbus bz (OpIntrospect path))
      (then_do
        (catching (then_do (dbus bz (OpInterface path DEVICE_INTERFACE)) (update (\<lambda>st. st\<lparr>ad_dev_iface := True\<rparr>)))
          (\<lambda>e. case e of
             InterfaceNotFoundError msg \<Rightarrow> fail_connect (DEVICE_NOT_FOUND_MSG @ '': '' @ msg) (Some e)
           | _ \<Rightarrow> raise_exc e))
        (then_do (dbus bz (OpInterface path PROPERTIES_INTERFACE)) (update (\<lambda>st. st\<lparr>ad_props_iface := True\<rparr>))))"

definition find_required :: "bluez \<Rightarrow> string \<Rightarrow> unit act" where
  "find_required bz path =
     then_do
       (catching (wait_for (find_characteristics bz path))
         (\<lambda>e. if is_timeout_error e then fail_connect ''GATT characteristic discovery timeout'' (Some e) else raise_exc e))
       (reading (\<lambda>st. ad_read_char st \<and> ad_write_char st) (\<lambda>both.
         if \<not> both then fail_connect ''Required GATT characteristics not found'' None
         else then_do (dbus bz (OpInterface path PROPERTIES_INTERFACE)) (update (\<lambda>st. st\<lparr>ad_read_props := True\<rparr>))))"

definition attempt_connection :: "bluez \<Rightarrow> string \<Rightarrow> unit act" where
  "attempt_connection bz mac =
     (let path = mac_to_dbus_path mac in
      then_do (ensure_bus bz)
       (then_do (device_proxy bz path)
        (then_do (clear_stale_connection bz)
         (then_do (device_connect bz mac)
          (then_do (suppress (wait_for (through ad_dev_iface bz OpSetTrusted)))
           (andthen (wait_for_services_resolved bz) (\<lambda>resolved.
              if \<not> resolved then fail_connect ''Services not resolved within timeout'' None else find_required bz path)))))))"

section \<open>Sessions\<close>

definition cleanup_failed_connection :: "bluez \<Rightarrow> unit act" where
  "cleanup_failed_connection bz =
     finally_do
       (suppress (reading ad_dev_iface (\<lambda>present. if present then suppress (wait_for (dbus bz OpDisconnect)) else ret ())))
       (update reset_state)"

definition subscribe_device_properties :: "bluez \<Rightarrow> unit act" where
  "subscribe_device_properties bz =
     reading ad_props_iface (\<lambda>present. if \<not> present then ret ()
       else then_do (update (\<lambda>st. st\<lparr>ad_listening := True\<rparr>)) (then_do (dbus bz OpSubscribe) (ret ())))"

definition finalize_successful_connection :: "bluez \<Rightarrow> string \<Rightarrow> unit act" where
  "finalize_successful_connection bz mac =
     then_do (update (\<lambda>st. st\<lparr>ad_mac := Some mac, ad_state := AsConnected\<rparr>))
      (andthen
        (reading ad_props_iface (\<lambda>present. if \<not> present then ret []
           else catching (andthen (dbus bz OpGetName) (\<lambda>a. ret (ans_str a))) (\<lambda>_. ret [])))
        (\<lambda>name. then_do (update (\<lambda>st. st\<lparr>ad_device := Some (mac, name)\<rparr>))
          (then_do (subscribe_device_properties bz)
            (then_do (update (\<lambda>st. st\<lparr>ad_keepalive := True, ad_dst_check := True\<rparr>))
              (reading ad_read_props (\<lambda>present. if present then suppress (dbus bz OpGetMtu) else ret ()))))))"

definition detach_notify_handler :: "adapter \<Rightarrow> adapter" where
  "detach_notify_handler st = st\<lparr>ad_handler := False\<rparr>"

definition not_connected :: "'a act" where
  "not_connected = raise_exc (OtherError ''RuntimeError'' ''Not connected'')"

definition start_notify :: "bluez \<Rightarrow> unit act" where
  "start_notify bz =
     reading (\<lambda>st. ad_state st = AsConnected \<and> ad_read_char st \<and> ad_read_props st) (\<lambda>ready.
       if \<not> ready then not_connected
       else andthen (dbus bz OpGetNotifying) (\<lambda>notifying.
         then_do
           (reading ad_handler (\<lambda>attached. if attached then ret ()
              else then_do (through ad_read_props bz OpAttachHandler) (update (\<lambda>st. st\<lparr>ad_handler := True\<rparr>))))
           (if ans_bool notifying then ret ()
            else catching (then_do (through ad_read_char bz OpStartNotify) (ret ()))
              (\<lambda>e. then_do (update detach_notify_handler) (raise_exc e)))))"

definition stop_notify :: "bluez \<Rightarrow> unit act" where
  "stop_notify bz =
     reading ad_read_char (\<lambda>present. if \<not> present then update (\<lambda>st. st\<lparr>ad_handler := False\<rparr>)
       else then_do (update detach_notify_handler)
         (catching (then_do (through ad_read_char bz OpStopNotify) (ret ()))
           (\<lambda>e. if is_dbus_error e \<and> contains (error_text e) ''No notify session started'' then ret () else raise_exc e)))"

definition disconnect_internal :: "bluez \<Rightarrow> bool act" where
  "disconnect_internal bz =
     reading ad_state (\<lambda>s. if s = AsDisconnected then ret True
       else
         then_do (update (\<lambda>st. st\<lparr>ad_state := AsDisconnecting, ad_keepalive := False, ad_dst_check := False, ad_listening := False\<rparr>))
          (then_do (suppress (stop_notify bz))
            (then_do (suppress (reading ad_dev_iface (\<lambda>present. if present then then_do (wait_for (dbus bz OpDisconnect)) (ret ()) else ret ())))
              (then_do (update (\<lambda>st. (reset_state st)\<lparr>ad_state := AsDisconnected, ad_device := None\<rparr>)) (ret True)))))"

definition adapter_disconnect :: "bluez \<Rightarrow> bool act" where
  "adapter_disconnect bz = then_do (update (\<lambda>st. st\<lparr>ad_cancel := True\<rparr>)) (disconnect_internal bz)"

text \<open>\<open>connect\<close>: up to three attempts, given up when a disconnect asked for it.\<close>

fun connect_attempts :: "bluez \<Rightarrow> string \<Rightarrow> nat \<Rightarrow> bool act" where
  "connect_attempts bz mac 0 =
     then_do (cleanup_failed_connection bz)
       (then_do (update (\<lambda>st. if ad_cancel st then st\<lparr>ad_state := AsDisconnected, ad_error := None\<rparr>
           else st\<lparr>ad_state := AsError, ad_error := Some ''Connection failed after 3 attempts''\<rparr>))
         (ret False))"
| "connect_attempts bz mac (Suc n) =
     reading ad_cancel (\<lambda>cancelled. if cancelled then connect_attempts bz mac 0
       else
         andthen (catching (then_do (attempt_connection bz mac) (ret True))
             (\<lambda>e. then_do (if 0 < n then then_do (cleanup_failed_connection bz) (then_do (dbus bz OpSleep) (ret ())) else ret ())
                (ret False)))
           (\<lambda>ok. if ok then then_do (finalize_successful_connection bz mac) (ret True) else connect_attempts bz mac n))"

definition adapter_connect :: "bluez \<Rightarrow> string \<Rightarrow> bool act" where
  "adapter_connect bz mac =
     then_do (update (\<lambda>st. st\<lparr>ad_cancel := False\<rparr>))
      (reading (\<lambda>st. (ad_state st = AsConnected, ad_mac st)) (\<lambda>(connected, current).
         if connected \<and> current = Some mac then ret True
         else then_do (if connected then then_do (disconnect_internal bz) (ret ()) else ret ())
           (then_do (update (\<lambda>st. st\<lparr>ad_state := AsConnecting, ad_error := None\<rparr>))
             (connect_attempts bz mac 3))))"

section \<open>Pairing\<close>

definition pair_unlocked :: "bluez \<Rightarrow> string \<Rightarrow> bool \<Rightarrow> (bool \<times> py_exc option) act" where
  "pair_unlocked bz mac disconnect_after =
     (let path = mac_to_dbus_path mac in
      then_do (ensure_bus bz)
       (then_do (dbus bz (OpIntrospect path))
        (andthen
          (catching (then_do (dbus bz (OpInterface path DEVICE_INTERFACE)) (ret None))
            (\<lambda>e. case e of InterfaceNotFoundError msg \<Rightarrow> ret (Some e) | _ \<Rightarrow> raise_exc e))
          (\<lambda>missing. case missing of
             Some e \<Rightarrow> ret (False, Some e)
           | None \<Rightarrow>
               andthen (catching (andthen (dbus bz (OpGetPaired mac)) (\<lambda>a. ret (ans_bool a))) (\<lambda>_. ret False))
                (\<lambda>already. andthen
                  (if already then ret None
                   else catching (then_do (dbus bz (OpPair mac)) (ret None))
                     (\<lambda>e. if is_dbus_error e \<and> error_name e = ''org.bluez.Error.AlreadyExists'' then ret None else ret (Some e)))
                  (\<lambda>failure. case failure of
                     Some e \<Rightarrow> ret (False, Some e)
                   | None \<Rightarrow>
                       then_do (suppress (dbus bz OpSetTrusted))
                        (andthen (catching (andthen (dbus bz (OpGetPaired mac)) (\<lambda>a. ret (ans_bool a))) (\<lambda>_. ret True))
                          (\<lambda>is_paired.
                            then_do (if disconnect_after then then_do (dbus bz OpSleep) (suppress (dbus bz OpDisconnect)) else ret ())
                              (ret (is_paired, None)))))))))) "

definition adapter_pair :: "bluez \<Rightarrow> string \<Rightarrow> bool act" where
  "adapter_pair bz mac = andthen (pair_unlocked bz mac True) (\<lambda>(ok, e). ret ok)"

definition unpair :: "bluez \<Rightarrow> string \<Rightarrow> bool act" where
  "unpair bz mac =
     then_do (ensure_bus bz)
      (then_do (get_proxy bz ADAPTER_PATH ADAPTER_INTERFACE)
        (catching (then_do (dbus bz (OpRemoveDevice mac)) (ret True))
          (\<lambda>e. if is_dbus_error e then ret False else raise_exc e)))"

section \<open>The composite connect\<close>

record ensure_connected_result =
  er_success :: bool
  er_stage :: string
  er_error_name :: "string option"
  er_error_text :: "string option"

definition failed_result :: "string \<Rightarrow> string \<Rightarrow> string \<Rightarrow> ensure_connected_result" where
  "failed_result stage name msg =
     \<lparr>er_success = False, er_stage = stage, er_error_name = Some name, er_error_text = Some msg\<rparr>"

definition good_result :: "string \<Rightarrow> ensure_connected_result" where
  "good_result stage = \<lparr>er_success = True, er_stage = stage, er_error_name = None, er_error_text = None\<rparr>"

definition set_error :: "string \<Rightarrow> unit act" where
  "set_error msg = update (\<lambda>st. st\<lparr>ad_state := AsError, ad_error := Some msg\<rparr>)"

definition connect_stage :: "bluez \<Rightarrow> string \<Rightarrow> py_exc option act" where
  "connect_stage bz mac =
     then_do (update (\<lambda>st. st\<lparr>ad_state := AsConnecting, ad_error := None\<rparr>))
      (andthen
        (catching (then_do (attempt_connection bz mac) (ret None))
          (\<lambda>e. then_do (cleanup_failed_connection bz) (ret (Some e))))
        (\<lambda>failure. case failure of
           Some e \<Rightarrow> ret (Some e)
         | None \<Rightarrow> then_do (finalize_successful_connection bz mac) (ret None)))"

definition connect_with_scan_retry :: "bluez \<Rightarrow> string \<Rightarrow> py_exc option act" where
  "connect_with_scan_retry bz mac =
     andthen (connect_stage bz mac) (\<lambda>failure.
       case failure of
         None \<Rightarrow> ret None
       | Some e \<Rightarrow>
           if \<not> is_device_not_found_error e then ret (Some e)
           else then_do (scan_unlocked bz MESHCOM_NAME_PREFIX) (connect_stage bz mac))"

definition read_paired_live :: "bluez \<Rightarrow> string \<Rightarrow> bool act" where
  "read_paired_live bz mac =
     catching
       (then_do (ensure_bus bz)
         (then_do (get_proxy bz (mac_to_dbus_path mac) DEVICE_INTERFACE)
           (andthen (dbus bz (OpGetPaired mac)) (\<lambda>a. ret (ans_bool a)))))
       (\<lambda>_. ret False)"

definition remove_device_unlocked :: "bluez \<Rightarrow> string \<Rightarrow> bool act" where
  "remove_device_unlocked bz mac =
     then_do (ensure_bus bz)
      (then_do (get_proxy bz ADAPTER_PATH ADAPTER_INTERFACE)
        (catching (then_do (dbus bz (OpRemoveDevice mac)) (ret True)) (\<lambda>_. ret False)))"

definition stale_bond_recovery_allowed :: "bluez \<Rightarrow> string \<Rightarrow> py_exc \<Rightarrow> bool \<Rightarrow> bool act" where
  "stale_bond_recovery_allowed bz mac e user_initiated =
     (if \<not> user_initiated then ret False
      else if is_plain_timeout e then ret False
      else if \<not> is_recoverable_stale_bond_signature e then ret False
      else read_paired_live bz mac)"

definition maybe_recover_stale_bond :: "bluez \<Rightarrow> string \<Rightarrow> py_exc \<Rightarrow> bool \<Rightarrow> py_exc option act" where
  "maybe_recover_stale_bond bz mac e user_initiated =
     andthen (stale_bond_recovery_allowed bz mac e user_initiated) (\<lambda>allowed.
       if \<not> allowed then ret (Some e)
       else andthen (remove_device_unlocked bz mac) (\<lambda>removed.
         if \<not> removed then ret (Some e)
         else then_do (scan_unlocked bz MESHCOM_NAME_PREFIX)
           (andthen (connect_stage bz mac) (\<lambda>retry_err.
             ret (case retry_err of None \<Rightarrow> None | Some e' \<Rightarrow> Some (BondRecoveryReconnectError mac e'))))))"

definition pair_then_resume :: "bluez \<Rightarrow> string \<Rightarrow> ensure_connected_result option act" where
  "pair_then_resume bz mac =
     andthen (pair_unlocked bz mac False) (\<lambda>(ok, e).
       if \<not> ok then
         then_do (set_error ''Pairing required but failed'')
           (ret (Some (case e of
               Some err \<Rightarrow> failed_result ''pair'' (error_name err) (error_text err)
             | None \<Rightarrow> failed_result ''pair'' ''PairingNotEstablished''
                 ''Pair() reported success but BlueZ still reports the device as not paired'')))
       else
         catching (then_do (start_notify bz) (ret None))
           (\<lambda>err. then_do (set_error (''GATT subscribe failed after pairing: '' @ error_text err))
              (ret (Some (failed_result ''gatt_post_pair'' (error_name err) (error_text err))))))"

definition ensure_gatt_ready :: "bluez \<Rightarrow> string \<Rightarrow> ensure_connected_result option act" where
  "ensure_gatt_ready bz mac =
     andthen (catching (then_do (start_notify bz) (ret None)) (\<lambda>e. ret (Some e))) (\<lambda>failure.
       case failure of
         None \<Rightarrow> ret None
       | Some e \<Rightarrow>
           if \<not> (is_dbus_error e \<and> is_gatt_security_error e)
           then then_do (set_error (''GATT subscribe failed: '' @ error_text e))
                  (ret (Some (failed_result ''gatt'' (error_name e) (error_text e))))
           else pair_then_resume bz mac)"

definition teardown_after_post_connect_failure :: "bluez \<Rightarrow> unit act" where
  "teardown_after_post_connect_failure bz =
     reading (\<lambda>st. (ad_state st, ad_error st)) (\<lambda>(failed_state, failed_error).
       then_do (suppress (disconnect_internal bz))
         (update (\<lambda>st. st\<lparr>ad_state := failed_state, ad_error := failed_error\<rparr>)))"

text \<open>\<open>sha256\<close> is \<open>hashlib.sha256(...).digest()\<close>.\<close>

definition OPEN_HELLO :: bytes where "OPEN_HELLO = [0x04, 0x10, 0x20, 0x30]"

definition build_hello_bytes :: "(bytes \<Rightarrow> bytes) \<Rightarrow> int \<Rightarrow> bytes" where
  "build_hello_bytes sha256 pin =
     (if 0 < pin then [0x24, 0x10, 0x20, 0x30] @ sha256 (utf8_bytes (utext (pad_left 6 CHR ''0'' (int_str pin))))
      else OPEN_HELLO)"

definition apply_pin :: "(bytes \<Rightarrow> bytes) \<Rightarrow> int option \<Rightarrow> adapter \<Rightarrow> adapter" where
  "apply_pin sha256 pin st =
     (case pin of
        None \<Rightarrow> st\<lparr>ad_cancel := False\<rparr>
      | Some p \<Rightarrow> st\<lparr>ad_cancel := False, ad_passkey := p, ad_hello := build_hello_bytes sha256 p\<rparr>)"

text \<open>The rest of the operation, once the connect stage (with recovery) has its verdict.\<close>

definition conclude_connect :: "bluez \<Rightarrow> string \<Rightarrow> py_exc option \<Rightarrow> ensure_connected_result act" where
  "conclude_connect bz mac connect_err =
     (case connect_err of
        Some e \<Rightarrow>
          then_do (set_error (''Connect failed: '' @ error_text e)) (ret (failed_result ''connect'' (error_name e) (error_text e)))
      | None \<Rightarrow>
          andthen (ensure_gatt_ready bz mac) (\<lambda>gatt_failure.
            case gatt_failure of
              Some r \<Rightarrow> then_do (teardown_after_post_connect_failure bz) (ret r)
            | None \<Rightarrow> ret (good_result ''connected'')))"

definition connect_composite :: "bluez \<Rightarrow> string \<Rightarrow> bool \<Rightarrow> ensure_connected_result act" where
  "connect_composite bz mac user_initiated =
     andthen (connect_with_scan_retry bz mac) (\<lambda>failure.
       andthen (case failure of None \<Rightarrow> ret None | Some e \<Rightarrow> maybe_recover_stale_bond bz mac e user_initiated)
         (conclude_connect bz mac))"

definition ensure_connected :: "(bytes \<Rightarrow> bytes) \<Rightarrow> bluez \<Rightarrow> string \<Rightarrow> int option \<Rightarrow> bool \<Rightarrow> ensure_connected_result act" where
  "ensure_connected sha256 bz mac pin user_initiated =
     then_do (update (apply_pin sha256 pin))
       (reading (\<lambda>st. (ad_state st = AsConnected, ad_mac st)) (\<lambda>(connected, current).
          if connected \<and> current = Some mac then ret (good_result ''already_connected'')
          else then_do (if connected then then_do (disconnect_internal bz) (ret ()) else ret ())
            (connect_composite bz mac user_initiated)))"

section \<open>What an operation adds to the log\<close>

text \<open>At most \<open>n\<close> of the calls an operation makes are of the kind \<open>C\<close>; \<open>calm\<close> when there is none.\<close>

definition adds :: "(dbus_op \<Rightarrow> bool) \<Rightarrow> nat \<Rightarrow> 'a act \<Rightarrow> bool" where
  "adds C n m \<longleftrightarrow> (\<forall>st. \<exists>new. ad_calls (snd (m st)) = ad_calls st @ new \<and> length (filter (\<lambda>(op, a). C op) new) \<le> n)"

abbreviation calm :: "(dbus_op \<Rightarrow> bool) \<Rightarrow> 'a act \<Rightarrow> bool" where "calm C m \<equiv> adds C 0 m"

named_theorems calm_rules

lemma adds_ret: "adds C n (ret x)"
  by (auto simp: adds_def ret_def)

lemma adds_raise: "adds C n (raise_exc e)"
  by (auto simp: adds_def raise_exc_def)

lemma adds_update: "(\<And>st. ad_calls (f st) = ad_calls st) \<Longrightarrow> adds C n (update f)"
  by (auto simp: adds_def update_def)

lemma adds_reading: "(\<And>x. adds C n (f x)) \<Longrightarrow> adds C n (reading g f)"
  by (auto simp: adds_def reading_def)

lemma adds_andthen:
  assumes "adds C k m" and "\<And>x. adds C n (f x)"
  shows "adds C (k + n) (andthen m f)"
  unfolding adds_def
proof
  fix st
  obtain new where new: "ad_calls (snd (m st)) = ad_calls st @ new" "length (filter (\<lambda>(op, a). C op) new) \<le> k"
    using assms(1) by (auto simp: adds_def)
  show "\<exists>new. ad_calls (snd (andthen m f st)) = ad_calls st @ new \<and> length (filter (\<lambda>(op, a). C op) new) \<le> k + n"
  proof (cases "fst (m st)")
    case (Inl e)
    then show ?thesis using new by (intro exI [of _ new]) (auto simp: andthen_def case_prod_unfold)
  next
    case (Inr x)
    obtain new' where "ad_calls (snd (f x (snd (m st)))) = ad_calls (snd (m st)) @ new'" "length (filter (\<lambda>(op, a). C op) new') \<le> n"
      using assms(2) by (auto simp: adds_def)
    then show ?thesis
      using new Inr by (intro exI [of _ "new @ new'"]) (auto simp: andthen_def case_prod_unfold)
  qed
qed

lemma adds_catching:
  assumes "adds C k m" and "\<And>e. adds C n (h e)"
  shows "adds C (k + n) (catching m h)"
  unfolding adds_def
proof
  fix st
  obtain new where new: "ad_calls (snd (m st)) = ad_calls st @ new" "length (filter (\<lambda>(op, a). C op) new) \<le> k"
    using assms(1) by (auto simp: adds_def)
  show "\<exists>new. ad_calls (snd (catching m h st)) = ad_calls st @ new \<and> length (filter (\<lambda>(op, a). C op) new) \<le> k + n"
  proof (cases "fst (m st)")
    case (Inr x)
    then show ?thesis using new by (intro exI [of _ new]) (auto simp: catching_def case_prod_unfold)
  next
    case (Inl e)
    obtain new' where "ad_calls (snd (h e (snd (m st)))) = ad_calls (snd (m st)) @ new'" "length (filter (\<lambda>(op, a). C op) new') \<le> n"
      using assms(2) by (auto simp: adds_def)
    then show ?thesis
      using new Inl by (cases "e = Cancelled \<or> e = Expired")
        (auto simp: catching_def case_prod_unfold intro: exI [of _ new] exI [of _ "new @ new'"])
  qed
qed

lemma adds_finally:
  assumes "adds C k m" and "adds C n f"
  shows "adds C (k + n) (finally_do m f)"
  unfolding adds_def
proof
  fix st
  obtain new where new: "ad_calls (snd (m st)) = ad_calls st @ new" "length (filter (\<lambda>(op, a). C op) new) \<le> k"
    using assms(1) by (auto simp: adds_def)
  obtain new' where "ad_calls (snd (f (snd (m st)))) = ad_calls (snd (m st)) @ new'" "length (filter (\<lambda>(op, a). C op) new') \<le> n"
    using assms(2) by (auto simp: adds_def)
  then show "\<exists>new. ad_calls (snd (finally_do m f st)) = ad_calls st @ new \<and> length (filter (\<lambda>(op, a). C op) new) \<le> k + n"
    using new by (intro exI [of _ "new @ new'"]) (auto simp: finally_do_def case_prod_unfold split: sum.splits)
qed

lemma adds_wait_for:
  assumes "adds C n m"
  shows "adds C n (wait_for m)"
proof -
  have "snd (wait_for m st) = snd (m st)" for st
    by (auto simp: wait_for_def split: prod.splits sum.splits py_exc.splits)
  then show ?thesis using assms by (simp add: adds_def)
qed

lemma on_disconnect_detected_calls [simp]: "ad_calls (on_disconnect_detected st) = ad_calls st"
  by (simp add: on_disconnect_detected_def)

lemma dbus_calls: "ad_calls (snd (dbus bz op st)) = ad_calls st @ [(op, dr_answer (bz (ad_calls st) op))]"
  by (simp add: dbus_def Let_def on_agent_released_def split: dbus_answer.splits)

lemma adds_dbus: "(C op \<Longrightarrow> 1 \<le> n) \<Longrightarrow> adds C n (dbus bz op)"
  unfolding adds_def by (intro allI exI) (rule conjI, rule dbus_calls, auto)

lemma adds_through: "(C op \<Longrightarrow> 1 \<le> n) \<Longrightarrow> adds C n (through p bz op)"
  unfolding through_def by (intro adds_reading) (auto intro: adds_dbus adds_raise)

lemma adds_mono: "adds C k m \<Longrightarrow> k \<le> n \<Longrightarrow> adds C n m"
  unfolding adds_def by (meson order_trans)

text \<open>The rules for calm operations, for proof by introduction.\<close>

lemma calm_andthen [calm_rules]: "calm C m \<Longrightarrow> (\<And>x. calm C (f x)) \<Longrightarrow> calm C (andthen m f)"
  using adds_andthen [of C 0 m 0 f] by simp

lemma calm_then_do [calm_rules]: "calm C m \<Longrightarrow> calm C n \<Longrightarrow> calm C (then_do m n)"
  unfolding then_do_def by (rule calm_andthen)

lemma calm_catching [calm_rules]: "calm C m \<Longrightarrow> (\<And>e. calm C (h e)) \<Longrightarrow> calm C (catching m h)"
  using adds_catching [of C 0 m 0 h] by simp

lemma calm_suppress [calm_rules]: "calm C m \<Longrightarrow> calm C (suppress m)"
  unfolding suppress_def by (intro calm_catching calm_then_do adds_ret)

lemma calm_finally [calm_rules]: "calm C m \<Longrightarrow> calm C f \<Longrightarrow> calm C (finally_do m f)"
  using adds_finally [of C 0 m 0 f] by simp

lemma calm_dbus [calm_rules]: "\<not> C op \<Longrightarrow> calm C (dbus bz op)"
  by (rule adds_dbus) simp

lemma calm_through [calm_rules]: "\<not> C op \<Longrightarrow> calm C (through p bz op)"
  by (rule adds_through) simp

lemma calm_if [calm_rules]: "(b \<Longrightarrow> adds C n x) \<Longrightarrow> (\<not> b \<Longrightarrow> adds C n y) \<Longrightarrow> adds C n (if b then x else y)"
  by simp

lemma calm_option [calm_rules]:
  "adds C n x \<Longrightarrow> (\<And>v. adds C n (f v)) \<Longrightarrow> adds C n (case o1 of None \<Rightarrow> x | Some v \<Rightarrow> f v)"
  by (cases o1) auto

lemma calm_prod [calm_rules]: "(\<And>x y. adds C n (f x y)) \<Longrightarrow> adds C n (case p of (x, y) \<Rightarrow> f x y)"
  by (cases p) auto

lemma calm_exc [calm_rules]:
  "(\<And>m. adds C n (f m)) \<Longrightarrow> adds C n y \<Longrightarrow> adds C n (case e of InterfaceNotFoundError m \<Rightarrow> f m | _ \<Rightarrow> y)"
  by (cases e) auto

lemmas [calm_rules] = adds_ret adds_raise adds_update adds_reading adds_wait_for

fun is_remove :: "dbus_op \<Rightarrow> bool" where
  "is_remove (OpRemoveDevice m) = True"
| "is_remove op = False"

fun is_connect :: "dbus_op \<Rightarrow> bool" where
  "is_connect (OpConnect m) = True"
| "is_connect op = False"

text \<open>The calls that matter: everything else is bookkeeping.\<close>

fun special :: "dbus_op \<Rightarrow> bool" where
  "special (OpRemoveDevice m) = True"
| "special (OpConnect m) = True"
| "special (OpGetPaired m) = True"
| "special OpDiscovery = True"
| "special op = False"

definition among :: "(dbus_op \<Rightarrow> bool) \<Rightarrow> (dbus_op \<Rightarrow> bool) \<Rightarrow> bool" where
  "among C D \<longleftrightarrow> (\<forall>op. C op \<longrightarrow> D op)"

lemma among_remove: "among is_remove special" and among_connect: "among is_connect special"
  by (auto simp: among_def elim: is_remove.elims is_connect.elims)

lemma plain: "among C special \<Longrightarrow> C op \<Longrightarrow> special op"
  by (simp add: among_def)

lemma calm_ensure_bus: "among C special \<Longrightarrow> calm C (ensure_bus bz)"
  unfolding ensure_bus_def register_agent_def by (intro calm_rules) (auto dest: plain)

lemma calm_get_proxy: "among C special \<Longrightarrow> calm C (get_proxy bz path iface)"
  unfolding get_proxy_def by (intro calm_rules) (auto dest: plain)

lemma calm_cleanup: "among C special \<Longrightarrow> calm C (cleanup_failed_connection bz)"
  unfolding cleanup_failed_connection_def by (intro calm_rules) (auto dest: plain simp: reset_state_def)

lemma calm_finalize: "among C special \<Longrightarrow> calm C (finalize_successful_connection bz mac)"
  unfolding finalize_successful_connection_def subscribe_device_properties_def by (intro calm_rules) (auto dest: plain)

lemma calm_start_notify: "among C special \<Longrightarrow> calm C (start_notify bz)"
  unfolding start_notify_def not_connected_def
  by (intro calm_rules) (auto dest: plain simp: detach_notify_handler_def)

lemma calm_stop_notify: "among C special \<Longrightarrow> calm C (stop_notify bz)"
  unfolding stop_notify_def by (intro calm_rules) (auto dest: plain simp: detach_notify_handler_def)

lemma calm_disconnect_internal: "among C special \<Longrightarrow> calm C (disconnect_internal bz)"
  unfolding disconnect_internal_def by (intro calm_rules calm_stop_notify) (auto dest: plain simp: reset_state_def)

lemma calm_teardown: "among C special \<Longrightarrow> calm C (teardown_after_post_connect_failure bz)"
  unfolding teardown_after_post_connect_failure_def by (intro calm_rules calm_disconnect_internal) auto

lemma calm_device_proxy: "among C special \<Longrightarrow> calm C (device_proxy bz path)"
  unfolding device_proxy_def fail_connect_def by (intro calm_rules) (auto dest: plain)

lemma calm_clear_stale: "among C special \<Longrightarrow> calm C (clear_stale_connection bz)"
  unfolding clear_stale_connection_def by (intro calm_rules) (auto dest: plain)

lemma calm_poll: "among C special \<Longrightarrow> calm C (poll_services bz n)"
  by (induction n) (auto intro!: calm_rules dest: plain)

lemma calm_wait_services: "among C special \<Longrightarrow> calm C (wait_for_services_resolved bz)"
  unfolding wait_for_services_resolved_def by (intro calm_rules calm_poll)

lemma calm_search: "among C special \<Longrightarrow> calm C (search_characteristic bz path uuid objs)"
  by (induction objs) (auto intro!: calm_rules dest: plain)

lemma calm_find_required: "among C special \<Longrightarrow> calm C (find_required bz path)"
  unfolding find_required_def find_characteristics_def find_gatt_characteristic_def fail_connect_def
  by (intro calm_rules calm_ensure_bus calm_get_proxy calm_search) (auto dest: plain)

lemma calm_device_connect: "among C special \<Longrightarrow> \<not> C (OpConnect mac) \<Longrightarrow> calm C (device_connect bz mac)"
  unfolding device_connect_def fail_connect_def by (intro calm_rules) (auto dest: plain)

lemma calm_attempt: "among C special \<Longrightarrow> \<not> C (OpConnect mac) \<Longrightarrow> calm C (attempt_connection bz mac)"
  unfolding attempt_connection_def Let_def fail_connect_def
  by (intro calm_rules calm_ensure_bus calm_device_proxy calm_clear_stale calm_device_connect calm_wait_services calm_find_required)
    (auto dest: plain)

lemma calm_connect_stage: "among C special \<Longrightarrow> \<not> C (OpConnect mac) \<Longrightarrow> calm C (connect_stage bz mac)"
  unfolding connect_stage_def by (intro calm_rules calm_attempt calm_cleanup calm_finalize) auto

lemma calm_scan: "among C special \<Longrightarrow> \<not> C OpDiscovery \<Longrightarrow> calm C (scan_unlocked bz pfx)"
  unfolding scan_unlocked_def by (intro calm_rules calm_ensure_bus calm_get_proxy) (auto dest: plain)

lemma calm_pair: "among C special \<Longrightarrow> \<not> C (OpGetPaired mac) \<Longrightarrow> calm C (pair_unlocked bz mac d)"
  unfolding pair_unlocked_def Let_def by (intro calm_rules calm_ensure_bus) (auto dest: plain)

lemma calm_gatt: "among C special \<Longrightarrow> \<not> C (OpGetPaired mac) \<Longrightarrow> calm C (ensure_gatt_ready bz mac)"
  unfolding ensure_gatt_ready_def pair_then_resume_def set_error_def
  by (intro calm_rules calm_start_notify calm_pair) auto

lemma calm_connect_with_scan_retry:
  "among C special \<Longrightarrow> \<not> C (OpConnect mac) \<Longrightarrow> \<not> C OpDiscovery \<Longrightarrow> calm C (connect_with_scan_retry bz mac)"
  unfolding connect_with_scan_retry_def by (intro calm_rules calm_connect_stage calm_scan)

text \<open>Connects are counted.\<close>

lemma adds_then_do: "adds C k m \<Longrightarrow> adds C n m' \<Longrightarrow> adds C (k + n) (then_do m m')"
  unfolding then_do_def by (rule adds_andthen)

lemma connects_device_connect: "adds is_connect 1 (device_connect bz mac)"
proof -
  have "adds is_connect (1 + 0) (device_connect bz mac)"
    unfolding device_connect_def fail_connect_def
    by (intro adds_catching adds_mono [OF adds_then_do [of is_connect 1 _ 0]] calm_rules adds_through) auto
  then show ?thesis by simp
qed

lemma connects_attempt: "adds is_connect 1 (attempt_connection bz mac)"
proof -
  note q = among_connect
  have rest: "adds is_connect (1 + 0) (then_do (device_connect bz mac)
      (then_do (suppress (wait_for (through ad_dev_iface bz OpSetTrusted)))
        (andthen (wait_for_services_resolved bz) (\<lambda>resolved.
           if \<not> resolved then fail_connect ''Services not resolved within timeout'' None
           else find_required bz (mac_to_dbus_path mac)))))"
    unfolding fail_connect_def
    by (intro adds_then_do connects_device_connect calm_rules calm_wait_services calm_find_required q) auto
  have "adds is_connect (0 + (0 + (0 + (1 + 0)))) (attempt_connection bz mac)"
    unfolding attempt_connection_def Let_def
    by (intro adds_then_do rest calm_ensure_bus calm_device_proxy calm_clear_stale q)
  then show ?thesis by simp
qed

lemma connects_stage: "adds is_connect 1 (connect_stage bz mac)"
proof -
  have "adds is_connect (0 + ((1 + 0) + 0)) (connect_stage bz mac)"
    unfolding connect_stage_def
    by (intro adds_then_do adds_andthen adds_catching adds_mono [OF adds_then_do [OF connects_attempt, of 0]] calm_rules calm_cleanup calm_finalize among_connect)
      auto
  then show ?thesis by simp
qed

section \<open>Where exceptions come from\<close>

text \<open>The D-Bus error an exception is, or wraps.\<close>

fun dbus_root :: "py_exc \<Rightarrow> (string \<times> string) option" where
  "dbus_root (DBusError name msg) = Some (name, msg)"
| "dbus_root (ConnectionError m (Some (DBusError name msg))) = Some (name, msg)"
| "dbus_root e = None"

definition rooted :: "py_exc \<Rightarrow> dbus_log \<Rightarrow> bool" where
  "rooted e calls \<longleftrightarrow> (\<forall>name msg. dbus_root e = Some (name, msg) \<longrightarrow> (\<exists>op e0. (op, AnsRaise e0) \<in> set calls \<and> dbus_root e0 = Some (name, msg)))"

definition traced :: "'a act \<Rightarrow> bool" where
  "traced m \<longleftrightarrow> (\<forall>st e. fst (m st) = Inl e \<longrightarrow> rooted e (ad_calls (snd (m st))))"

definition traced_from :: "py_exc \<Rightarrow> 'a act \<Rightarrow> bool" where
  "traced_from e m \<longleftrightarrow> (\<forall>st e'. rooted e (ad_calls st) \<longrightarrow> fst (m st) = Inl e' \<longrightarrow> rooted e' (ad_calls (snd (m st))))"

definition grows :: "'a act \<Rightarrow> bool" where
  "grows m \<longleftrightarrow> (\<forall>st. \<exists>new. ad_calls (snd (m st)) = ad_calls st @ new)"

named_theorems traced_rules

lemma grows_calm: "calm (\<lambda>op. False) m \<Longrightarrow> grows m"
  by (auto simp: adds_def grows_def)

lemma among_false: "among (\<lambda>op. False) special"
  by (simp add: among_def)

lemma rooted_mono: "rooted e calls \<Longrightarrow> rooted e (calls @ new)"
  unfolding rooted_def set_append by blast

lemma rooted_none: "dbus_root e = None \<Longrightarrow> rooted e calls"
  by (simp add: rooted_def)

lemma rooted_grows: "rooted e (ad_calls st) \<Longrightarrow> grows m \<Longrightarrow> rooted e (ad_calls (snd (m st)))"
  by (metis grows_def rooted_mono)

lemma traced_ret [traced_rules]: "traced (ret x)"
  by (simp add: traced_def ret_def)

lemma traced_raise [traced_rules]: "dbus_root e = None \<Longrightarrow> traced (raise_exc e)"
  by (simp add: traced_def raise_exc_def rooted_none)

lemma traced_update [traced_rules]: "traced (update f)"
  by (simp add: traced_def update_def)

lemma traced_reading [traced_rules]: "(\<And>x. traced (f x)) \<Longrightarrow> traced (reading g f)"
  by (simp add: traced_def reading_def)

lemma traced_andthen [traced_rules]: "traced m \<Longrightarrow> (\<And>x. traced (f x)) \<Longrightarrow> traced (andthen m f)"
  by (auto simp: traced_def andthen_def case_prod_unfold split: sum.splits)

lemma traced_then_do [traced_rules]: "traced m \<Longrightarrow> traced n \<Longrightarrow> traced (then_do m n)"
  unfolding then_do_def by (rule traced_andthen)

lemma traced_dbus [traced_rules]: "traced (dbus bz op)"
proof -
  have "dr_answer (bz (ad_calls st) op) = AnsRaise e" if "fst (dbus bz op st) = Inl e" for st e
    using that by (auto simp: dbus_def Let_def split: dbus_answer.splits)
  moreover have "rooted e (calls @ [(op, AnsRaise e)])" for e calls
    unfolding rooted_def by fastforce
  ultimately show ?thesis by (auto simp: traced_def dbus_calls)
qed


lemma traced_through [traced_rules]: "traced (through p bz op)"
  unfolding through_def
  by (rule traced_reading) (simp add: traced_dbus traced_raise)

lemma traced_catching [traced_rules]:
  assumes "traced m" and "\<And>e. traced_from e (h e)"
  shows "traced (catching m h)"
  using assms by (auto simp: traced_def traced_from_def catching_def case_prod_unfold split: sum.splits if_splits)

lemma traced_finally [traced_rules]:
  assumes "traced m" and "traced f" and "grows f"
  shows "traced (finally_do m f)"
  unfolding traced_def
proof (intro allI impI)
  fix st e
  assume "fst (finally_do m f st) = Inl e"
  then show "rooted e (ad_calls (snd (finally_do m f st)))"
    using assms(1,2) rooted_grows [OF _ assms(3), of e "snd (m st)"]
    by (auto simp: traced_def finally_do_def case_prod_unfold split: sum.splits)
qed

lemma traced_wait_for [traced_rules]:
  assumes "traced m"
  shows "traced (wait_for m)"
  unfolding traced_def
proof (intro allI impI)
  fix st e
  assume e: "fst (wait_for m st) = Inl e"
  have same: "snd (wait_for m st) = snd (m st)"
    by (auto simp: wait_for_def split: prod.splits sum.splits py_exc.splits)
  have "e = TimeoutError [] \<or> fst (m st) = Inl e"
    using e by (auto simp: wait_for_def split: prod.splits sum.splits py_exc.splits)
  then show "rooted e (ad_calls (snd (wait_for m st)))"
    using assms same by (auto simp: traced_def rooted_none)
qed

lemma traced_from_traced [traced_rules]: "traced m \<Longrightarrow> traced_from e m"
  by (simp add: traced_def traced_from_def)

lemma traced_from_raise: "dbus_root e' = dbus_root e \<Longrightarrow> traced_from e (raise_exc e')"
  by (simp add: traced_from_def raise_exc_def rooted_def)

lemma traced_from_then_do: "traced m \<Longrightarrow> grows m \<Longrightarrow> traced_from e n \<Longrightarrow> traced_from e (then_do m n)"
  unfolding traced_from_def then_do_def andthen_def traced_def
  by (auto simp: case_prod_unfold split: sum.splits) (metis rooted_grows)

lemma traced_suppress [traced_rules]: "traced m \<Longrightarrow> traced (suppress m)"
  unfolding suppress_def by (intro traced_rules)

lemma traced_if [traced_rules]: "(b \<Longrightarrow> traced x) \<Longrightarrow> (\<not> b \<Longrightarrow> traced y) \<Longrightarrow> traced (if b then x else y)"
  by simp

lemma traced_from_if: "(b \<Longrightarrow> traced_from e x) \<Longrightarrow> (\<not> b \<Longrightarrow> traced_from e y) \<Longrightarrow> traced_from e (if b then x else y)"
  by simp

lemma traced_option [traced_rules]:
  "traced x \<Longrightarrow> (\<And>v. traced (f v)) \<Longrightarrow> traced (case o1 of None \<Rightarrow> x | Some v \<Rightarrow> f v)"
  by (cases o1) auto

lemma traced_ensure_bus: "traced (ensure_bus bz)"
  unfolding ensure_bus_def register_agent_def
  by (intro traced_rules traced_from_if traced_from_raise) auto

lemma traced_get_proxy: "traced (get_proxy bz path iface)"
  unfolding get_proxy_def by (intro traced_rules)

lemma traced_cleanup: "traced (cleanup_failed_connection bz)"
  unfolding cleanup_failed_connection_def
  by (intro traced_rules grows_calm adds_update) (simp add: reset_state_def)

lemma traced_device_proxy: "traced (device_proxy bz path)"
proof -
  have handler: "traced_from e (case e of
      InterfaceNotFoundError msg \<Rightarrow> raise_exc (ConnectionError (DEVICE_NOT_FOUND_MSG @ '': '' @ msg) (Some e)) | _ \<Rightarrow> raise_exc e)" for e
    by (cases e) (auto intro!: traced_from_raise)
  show ?thesis
    unfolding device_proxy_def fail_connect_def
    by (rule traced_then_do traced_dbus traced_catching traced_update handler)+
qed

lemma traced_device_connect: "traced (device_connect bz mac)"
  unfolding device_connect_def fail_connect_def
  by (intro traced_rules traced_from_if traced_from_then_do traced_from_raise grows_calm calm_suppress adds_wait_for calm_through)
    (auto elim: is_timeout_error.elims is_dbus_error.elims)

lemma traced_poll: "traced (poll_services bz n)"
proof (induction n)
  case (Suc n)
  then show ?case
    unfolding poll_services.simps
    by (intro traced_rules traced_from_if traced_from_raise; simp)
qed (simp add: traced_ret)

lemma traced_search: "traced (search_characteristic bz path uuid objs)"
  by (induction objs) (auto intro!: traced_rules)

lemma traced_find_required: "traced (find_required bz path)"
  unfolding find_required_def find_characteristics_def find_gatt_characteristic_def fail_connect_def
  by (intro traced_rules traced_ensure_bus traced_get_proxy traced_search traced_from_if traced_from_raise)
    (auto elim: is_timeout_error.elims)

lemma traced_attempt: "traced (attempt_connection bz mac)"
  unfolding attempt_connection_def Let_def clear_stale_connection_def wait_for_services_resolved_def fail_connect_def
  by (intro traced_rules traced_ensure_bus traced_device_proxy traced_device_connect traced_poll traced_find_required) auto

section \<open>When a bond is destroyed\<close>

definition plain_log :: "dbus_log \<Rightarrow> bool" where
  "plain_log l = list_all (\<lambda>(op, a). \<not> special op) l"

definition none_of :: "(dbus_op \<Rightarrow> bool) \<Rightarrow> dbus_log \<Rightarrow> bool" where
  "none_of C l = list_all (\<lambda>(op, a). \<not> C op) l"

lemma none_of_append [simp]: "none_of C (xs @ ys) \<longleftrightarrow> none_of C xs \<and> none_of C ys"
  by (simp add: none_of_def)

lemma none_of_Cons [simp]: "none_of C (x # ys) \<longleftrightarrow> \<not> C (fst x) \<and> none_of C ys"
  by (cases x) (simp add: none_of_def)

lemma none_of_Nil [simp]: "none_of C []"
  by (simp add: none_of_def)

lemma none_of_filter: "none_of C l \<longleftrightarrow> filter (\<lambda>(op, a). C op) l = []"
  by (induction l) auto

lemma plain_none_of: "plain_log l \<Longrightarrow> among C special \<Longrightarrow> none_of C l"
  unfolding plain_log_def none_of_def among_def list_all_iff by fastforce

lemma calm_none:
  assumes "calm C m"
  obtains new where "ad_calls (snd (m st)) = ad_calls st @ new" "none_of C new"
  using assms unfolding adds_def none_of_filter by (metis le_zero_eq length_0_conv)

lemma calm_plain:
  assumes "calm special m"
  obtains new where "ad_calls (snd (m st)) = ad_calls st @ new" "plain_log new"
  using calm_none [OF assms, of st] by (auto simp: plain_log_def none_of_def)

lemma among_special: "among special special"
  by (simp add: among_def)

lemma andthen_Inr:
  assumes "andthen m f st = (Inr y, st')"
  obtains x st1 where "m st = (Inr x, st1)" "f x st1 = (Inr y, st')"
  using assms by (cases "m st") (auto simp: andthen_def split: sum.splits)

lemma then_do_Inr:
  assumes "then_do m n st = (Inr y, st')"
  obtains x st1 where "m st = (Inr x, st1)" "n st1 = (Inr y, st')"
  using assms unfolding then_do_def by (elim andthen_Inr)

lemma catching_Inr:
  assumes "catching m h st = (Inr y, st')"
  obtains "m st = (Inr y, st')" | e st1 where "m st = (Inl e, st1)" "h e st1 = (Inr y, st')"
  using assms by (cases "m st") (auto simp: catching_def split: sum.splits if_splits)

lemma read_paired_live_True:
  assumes "read_paired_live bz mac st = (Inr True, st')"
  obtains pre b where "ad_calls st' = ad_calls st @ pre @ [(OpGetPaired mac, b)]" "ans_bool b" "plain_log pre"
proof -
  have "then_do (ensure_bus bz)
         (then_do (get_proxy bz (mac_to_dbus_path mac) DEVICE_INTERFACE)
           (andthen (dbus bz (OpGetPaired mac)) (\<lambda>a. ret (ans_bool a)))) st = (Inr True, st')"
    using assms unfolding read_paired_live_def by (rule catching_Inr) (auto simp: ret_def)
  then obtain u1 s1 u2 s2 b s3 where 1: "ensure_bus bz st = (Inr u1, s1)"
    and 2: "get_proxy bz (mac_to_dbus_path mac) DEVICE_INTERFACE s1 = (Inr u2, s2)"
    and 3: "dbus bz (OpGetPaired mac) s2 = (Inr b, s3)" and 4: "ret (ans_bool b) s3 = (Inr True, st')"
    by (elim then_do_Inr andthen_Inr) blast
  obtain n1 where n1: "ad_calls s1 = ad_calls st @ n1" "plain_log n1"
    using calm_plain [OF calm_ensure_bus [OF among_special], of bz st] 1 by auto
  obtain n2 where n2: "ad_calls s2 = ad_calls s1 @ n2" "plain_log n2"
    using calm_plain [OF calm_get_proxy [OF among_special], of bz "mac_to_dbus_path mac" DEVICE_INTERFACE s1] 2 by auto
  have "ad_calls s3 = ad_calls s2 @ [(OpGetPaired mac, b)]"
    using 3 dbus_calls [of bz "OpGetPaired mac" s2] by (auto simp: dbus_def Let_def split: dbus_answer.splits)
  then show ?thesis
    using n1 n2 4 by (intro that [of "n1 @ n2" b]) (auto simp: ret_def plain_log_def)
qed

text \<open>The removal is the last call of its step, or is never reached.\<close>

lemma remove_device_log:
  obtains pre where "ad_calls (snd (remove_device_unlocked bz mac st)) = ad_calls st @ pre" "plain_log pre"
      "\<And>b. fst (remove_device_unlocked bz mac st) \<noteq> Inr b"
    | pre a where "ad_calls (snd (remove_device_unlocked bz mac st)) = ad_calls st @ pre @ [(OpRemoveDevice mac, a)]" "plain_log pre"
proof -
  let ?bus = "ensure_bus bz st"
  let ?proxy = "get_proxy bz ADAPTER_PATH ADAPTER_INTERFACE (snd ?bus)"
  let ?rm = "catching (then_do (dbus bz (OpRemoveDevice mac)) (ret True)) (\<lambda>_. ret False)"
  obtain n1 where n1: "ad_calls (snd ?bus) = ad_calls st @ n1" "plain_log n1"
    using calm_plain [OF calm_ensure_bus [OF among_special]] .
  obtain n2 where n2: "ad_calls (snd ?proxy) = ad_calls (snd ?bus) @ n2" "plain_log n2"
    using calm_plain [OF calm_get_proxy [OF among_special]] .
  have unfold: "remove_device_unlocked bz mac st =
      (case fst ?bus of Inl e \<Rightarrow> (Inl e, snd ?bus)
       | Inr u \<Rightarrow> (case fst ?proxy of Inl e \<Rightarrow> (Inl e, snd ?proxy) | Inr u \<Rightarrow> ?rm (snd ?proxy)))"
    by (simp add: remove_device_unlocked_def then_do_def andthen_def case_prod_unfold split: sum.splits)
  show ?thesis
  proof (cases "fst ?bus")
    case (Inl e)
    then show ?thesis using n1 unfold by (intro that(1)) auto
  next
    case (Inr u)
    show ?thesis
    proof (cases "fst ?proxy")
      case (Inl e)
      then show ?thesis using n1 n2 unfold Inr by (intro that(1) [of "n1 @ n2"]) (auto simp: plain_log_def)
    next
      case (Inr u')
      have "ad_calls (snd (?rm s)) = ad_calls s @ [(OpRemoveDevice mac, dr_answer (bz (ad_calls s) (OpRemoveDevice mac)))]" for s
        using dbus_calls [of bz "OpRemoveDevice mac" s]
        by (auto simp: catching_def then_do_def andthen_def ret_def case_prod_unfold split: sum.splits)
      then show ?thesis
        using n1 n2 unfold Inr \<open>fst ?bus = Inr u\<close> by (intro that(2) [of "n1 @ n2"]) (auto simp: plain_log_def)
    qed
  qed
qed

lemma finally_Inr:
  assumes "finally_do m f st = (Inr y, st')"
  obtains st1 u where "m st = (Inr y, st1)" "f st1 = (Inr u, st')"
  using assms by (cases "m st"; cases "f (snd (m st))") (auto simp: finally_do_def split: sum.splits)

lemma grows_new: "grows m \<Longrightarrow> m st = (r, st') \<Longrightarrow> \<exists>new. ad_calls st' = ad_calls st @ new"
  by (metis grows_def snd_conv)

lemma dbus_new: "dbus bz op st = (r, st') \<Longrightarrow> \<exists>a. ad_calls st' = ad_calls st @ [(op, a)]"
  using dbus_calls [of bz op st] by auto

lemma grows_of: "calm special m \<or> calm (\<lambda>op. False) m \<Longrightarrow> grows m"
  unfolding adds_def grows_def by blast

lemma scan_discovers:
  assumes "scan_unlocked bz pfx st = (Inr l, st')" and "ad_calls st' = ad_calls st @ new"
  shows "\<exists>a. (OpDiscovery, a) \<in> set new"
proof -
  obtain s1 s2 s3 s4 s5 s6 u1 u2 u3 u4 a5 v6 a7 where
    1: "ensure_bus bz st = (Inr u1, s1)" and 2: "get_proxy bz ADAPTER_PATH ADAPTER_INTERFACE s1 = (Inr u2, s2)"
    and 3: "get_proxy bz ''/'' OBJECT_MANAGER_INTERFACE s2 = (Inr u3, s3)" and 4: "dbus bz OpManagedObjects s3 = (Inr u4, s4)"
    and 5: "dbus bz OpStartDiscovery s4 = (Inr a5, s5)" and 6: "dbus bz OpDiscovery s5 = (Inr v6, s6)"
    and 7: "dbus bz OpStopDiscovery s6 = (Inr a7, st')"
    using assms(1) unfolding scan_unlocked_def by (elim then_do_Inr andthen_Inr finally_Inr) (auto simp: ret_def)
  have g: "grows (ensure_bus bz)" "grows (get_proxy bz p i)" for p i
    by (auto intro!: grows_of calm_ensure_bus calm_get_proxy among_special)
  obtain b where "ad_calls s6 = ad_calls s5 @ [(OpDiscovery, b)]" using dbus_new [OF 6] by blast
  then show ?thesis
    using grows_new [OF g(1) 1] grows_new [OF g(2) 2] grows_new [OF g(2) 3] dbus_new [OF 4] dbus_new [OF 5] dbus_new [OF 7] assms(2)
    by auto
qed

lemma grows_stage: "grows (connect_stage bz mac)"
  using connects_stage unfolding adds_def grows_def by blast

lemma grows_scan: "grows (scan_unlocked bz pfx)"
  by (rule grows_calm [OF calm_scan [OF among_false]]) simp

lemma stage_rooted:
  assumes "connect_stage bz mac st = (Inr (Some e), st')"
  shows "rooted e (ad_calls st')"
proof -
  obtain s1 f s2 where 1: "catching (then_do (attempt_connection bz mac) (ret None))
       (\<lambda>e. then_do (cleanup_failed_connection bz) (ret (Some e))) s1 = (Inr f, s2)"
    and 2: "(case f of Some e \<Rightarrow> ret (Some e) | None \<Rightarrow> then_do (finalize_successful_connection bz mac) (ret None)) s2 = (Inr (Some e), st')"
    using assms unfolding connect_stage_def by (elim then_do_Inr andthen_Inr) blast
  have f: "f = Some e" "s2 = st'"
    using 2 by (auto simp: ret_def elim!: then_do_Inr split: option.splits)
  from 1 show ?thesis
  proof (rule catching_Inr)
    fix e0 s3
    assume raised: "then_do (attempt_connection bz mac) (ret None) s1 = (Inl e0, s3)"
      and handled: "then_do (cleanup_failed_connection bz) (ret (Some e0)) s3 = (Inr f, s2)"
    have tr: "traced (then_do (attempt_connection bz mac) (ret None))" by (intro traced_rules traced_attempt)
    have "rooted e0 (ad_calls s3)" using tr raised unfolding traced_def by (metis fst_conv snd_conv)
    moreover have "\<exists>new. ad_calls s2 = ad_calls s3 @ new"
    proof -
      have "grows (then_do (cleanup_failed_connection bz) (ret (Some e0)))"
        by (intro grows_of disjI1 calm_then_do calm_cleanup among_special adds_ret)
      then show ?thesis using handled unfolding grows_def by (metis snd_conv)
    qed
    moreover have "e0 = e" using handled f by (auto simp: ret_def elim!: then_do_Inr)
    ultimately show ?thesis using rooted_mono f by metis
  qed (use f in \<open>auto simp: ret_def elim!: then_do_Inr\<close>)
qed

lemma scan_retry_rooted:
  assumes "connect_with_scan_retry bz mac st = (Inr (Some e), st')"
  shows "rooted e (ad_calls st')"
  using assms unfolding connect_with_scan_retry_def
  by (elim andthen_Inr then_do_Inr) (auto simp: ret_def stage_rooted elim!: then_do_Inr split: option.splits if_splits)

lemma recoverable_root:
  assumes "is_recoverable_stale_bond_signature e"
  shows "\<exists>msg. dbus_root e = Some (''org.bluez.Error.AuthenticationFailed'', msg)"
proof -
  obtain c where c: "c = e \<or> cause_of e = Some c" "is_dbus_error c" "error_name c \<in> set STALE_BOND_ERROR_NAMES"
    using assms by (auto simp: is_recoverable_stale_bond_signature_def split: if_splits option.splits)
  obtain nm msg where cn: "c = DBusError nm msg" using c(2) by (cases c) auto
  have "nm = ''org.bluez.Error.AuthenticationFailed''"
    using c(3) cn by (auto simp: STALE_BOND_ERROR_NAMES_def or_else_def split: if_splits)
  then show ?thesis using c(1) cn by (cases e) auto
qed

definition reconnects_once :: "dbus_log \<Rightarrow> bool" where
  "reconnects_once l \<longleftrightarrow> (\<exists>s c. l = s @ c \<and> none_of is_connect s \<and> length (filter (\<lambda>(op, a). is_connect op) c) \<le> 1
     \<and> (none_of is_connect c \<or> (\<exists>a. (OpDiscovery, a) \<in> set s)))"

lemma reconnects_once_append: "reconnects_once l \<Longrightarrow> none_of is_connect l' \<Longrightarrow> reconnects_once (l @ l')"
  unfolding reconnects_once_def none_of_filter
  by (elim exE conjE, rename_tac s c, rule_tac x = s in exI, rule_tac x = "c @ l'" in exI) auto

text \<open>The log of one composite connect: no removal, or one with everything around it.\<close>

definition bond_log :: "string \<Rightarrow> bool \<Rightarrow> py_exc \<Rightarrow> dbus_log \<Rightarrow> bool" where
  "bond_log mac ui e new \<longleftrightarrow> none_of is_remove new \<or>
     (\<exists>p1 b p2 a rest. new = p1 @ (OpGetPaired mac, b) # p2 @ (OpRemoveDevice mac, a) # rest \<and> plain_log p1 \<and> ans_bool b \<and> plain_log p2
        \<and> ui \<and> is_recoverable_stale_bond_signature e \<and> \<not> is_plain_timeout e \<and> none_of is_remove rest \<and> reconnects_once rest)"

lemma andthen_cases:
  obtains e where "fst (m st) = Inl e" "andthen m f st = (Inl e, snd (m st))"
    | x where "fst (m st) = Inr x" "andthen m f st = f x (snd (m st))"
  by (cases "m st"; cases "fst (m st)") (auto simp: andthen_def)

lemma reconnects_none: "none_of is_connect l \<Longrightarrow> reconnects_once l"
  unfolding reconnects_once_def by (intro exI [of _ l] exI [of _ "[]"]) simp

lemma reconnects_found:
  assumes "none_of is_connect s" and "length (filter (\<lambda>(op, a). is_connect op) c) \<le> 1" and "(OpDiscovery, a) \<in> set s"
  shows "reconnects_once (s @ c)"
  unfolding reconnects_once_def using assms by blast

lemma recover_log:
  obtains new where "ad_calls (snd (maybe_recover_stale_bond bz mac e ui st)) = ad_calls st @ new" "bond_log mac ui e new"
proof -
  let ?allowed = "stale_bond_recovery_allowed bz mac e ui"
  let ?rest = "then_do (scan_unlocked bz MESHCOM_NAME_PREFIX)
           (andthen (connect_stage bz mac) (\<lambda>retry_err.
             ret (case retry_err of None \<Rightarrow> None | Some e' \<Rightarrow> Some (BondRecoveryReconnectError mac e'))))"
  have allowed_calm: "calm is_remove ?allowed"
    unfolding stale_bond_recovery_allowed_def read_paired_live_def
    by (intro calm_rules calm_ensure_bus calm_get_proxy among_remove) simp
  obtain n0 where n0: "ad_calls (snd (?allowed st)) = ad_calls st @ n0" "none_of is_remove n0"
    using calm_none [OF allowed_calm] .
  have rest: "\<exists>r. ad_calls (snd (?rest s)) = ad_calls s @ r \<and> none_of is_remove r \<and> reconnects_once r" for s
  proof -
    obtain sc where sc: "ad_calls (snd (scan_unlocked bz MESHCOM_NAME_PREFIX s)) = ad_calls s @ sc" "none_of is_connect sc"
      by (rule calm_none [OF calm_scan [OF among_connect], of bz MESHCOM_NAME_PREFIX s]) auto
    have scr: "none_of is_remove sc"
      by (rule calm_none [OF calm_scan [OF among_remove], of bz MESHCOM_NAME_PREFIX s]) (use sc(1) in auto)
    let ?tail = "andthen (connect_stage bz mac) (\<lambda>retry_err.
             ret (case retry_err of None \<Rightarrow> None | Some e' \<Rightarrow> Some (BondRecoveryReconnectError mac e')))"
    show ?thesis
    proof (cases "fst (scan_unlocked bz MESHCOM_NAME_PREFIX s)")
      case (Inl x)
      then have "snd (?rest s) = snd (scan_unlocked bz MESHCOM_NAME_PREFIX s)"
        by (simp add: then_do_def andthen_def case_prod_unfold)
      then show ?thesis
        using sc scr by (intro exI [of _ sc]) (simp add: reconnects_none)
    next
      case (Inr l)
      have rest_eq: "?rest s = ?tail (snd (scan_unlocked bz MESHCOM_NAME_PREFIX s))"
        using Inr by (simp add: then_do_def andthen_def case_prod_unfold)
      have "adds is_connect (1 + 0) ?tail" by (intro adds_andthen connects_stage adds_ret)
      then obtain c where c: "ad_calls (snd (?rest s)) = ad_calls s @ sc @ c" "length (filter (\<lambda>(op, a). is_connect op) c) \<le> 1"
        unfolding adds_def rest_eq using sc(1) by (metis add_0_right append_assoc)
      have "calm is_remove ?tail" by (intro calm_rules calm_connect_stage among_remove) simp
      then obtain c' where "ad_calls (snd (?rest s)) = (ad_calls s @ sc) @ c'" "none_of is_remove c'"
        unfolding rest_eq sc(1) [symmetric] by (rule calm_none)
      then have "none_of is_remove c" using c(1) by simp
      moreover obtain a where "(OpDiscovery, a) \<in> set sc"
        by (rule exE, rule scan_discovers [where l = l]) (use Inr sc(1) in \<open>auto simp: prod_eq_iff\<close>)
      ultimately show ?thesis
        using c sc scr reconnects_found by (intro exI [of _ "sc @ c"]) auto
    qed
  qed
  show ?thesis
  proof (cases "fst (?allowed st) = Inr True")
    case False
    then have "snd (maybe_recover_stale_bond bz mac e ui st) = snd (?allowed st)"
      by (auto simp: maybe_recover_stale_bond_def andthen_def ret_def case_prod_unfold split: sum.splits)
    then show ?thesis using n0 by (intro that [of n0]) (auto simp: bond_log_def)
  next
    case True
    then have gates: "ui" "\<not> is_plain_timeout e" "is_recoverable_stale_bond_signature e"
      and live: "read_paired_live bz mac st = (Inr True, snd (?allowed st))"
      by (auto simp: stale_bond_recovery_allowed_def ret_def prod_eq_iff split: if_splits)
    let ?s = "snd (?allowed st)"
    let ?rm = "remove_device_unlocked bz mac"
    obtain pre b where pre: "ad_calls ?s = ad_calls st @ pre @ [(OpGetPaired mac, b)]" "ans_bool b" "plain_log pre"
      using read_paired_live_True [OF live] .
    have step: "maybe_recover_stale_bond bz mac e ui st =
        andthen ?rm (\<lambda>removed. if \<not> removed then ret (Some e) else ?rest) ?s"
      using True by (simp add: maybe_recover_stale_bond_def andthen_def case_prod_unfold)
    consider (none) p where "ad_calls (snd (?rm ?s)) = ad_calls ?s @ p" "plain_log p" "\<And>x. fst (?rm ?s) \<noteq> Inr x"
      | (done_) p a where "ad_calls (snd (?rm ?s)) = ad_calls ?s @ p @ [(OpRemoveDevice mac, a)]" "plain_log p"
      using remove_device_log [of bz mac ?s] by metis
    then show ?thesis
    proof cases
      case none
      then have "snd (maybe_recover_stale_bond bz mac e ui st) = snd (?rm ?s)"
        unfolding step by (cases "fst (?rm ?s)") (auto simp: andthen_def case_prod_unfold)
      then show ?thesis
        using none pre plain_none_of [OF _ among_remove] by (intro that [of "pre @ [(OpGetPaired mac, b)] @ p"]) (auto simp: bond_log_def)
    next
      case done_
      obtain r where r: "ad_calls (snd (maybe_recover_stale_bond bz mac e ui st)) = ad_calls (snd (?rm ?s)) @ r"
          "none_of is_remove r" "reconnects_once r"
      proof (cases "fst (?rm ?s) = Inr True")
        case True
        then show ?thesis using rest [of "snd (?rm ?s)"] that unfolding step by (auto simp: andthen_def case_prod_unfold)
      next
        case False
        then have "snd (maybe_recover_stale_bond bz mac e ui st) = snd (?rm ?s)"
          unfolding step by (auto simp: andthen_def ret_def case_prod_unfold split: sum.splits)
        then show ?thesis by (intro that [of "[]"]) (auto simp: reconnects_none)
      qed
      have "bond_log mac ui e (pre @ (OpGetPaired mac, b) # p @ (OpRemoveDevice mac, a) # r)"
        unfolding bond_log_def using pre done_ r gates by blast
      then show ?thesis using r(1) done_ pre(1) by (intro that) auto
    qed
  qed
qed

lemma none_of_removes: "bond_log mac ui e new \<Longrightarrow> none_of is_remove new \<or> length (filter (\<lambda>(op, a). is_remove op) new) = 1"
  by (auto simp: bond_log_def none_of_filter dest!: plain_none_of [OF _ among_remove])

text \<open>The log of the part after a possible disconnect: before, around and after the recovery.\<close>

definition composite_log :: "string \<Rightarrow> bool \<Rightarrow> dbus_log \<Rightarrow> dbus_log \<Rightarrow> bool" where
  "composite_log mac ui old new \<longleftrightarrow> none_of is_remove new \<or>
     (\<exists>e a bl b. new = a @ bl @ b \<and> none_of is_remove a \<and> rooted e (old @ a) \<and> bond_log mac ui e bl
        \<and> none_of is_remove b \<and> none_of is_connect b)"

lemma calm_conclude: "among C special \<Longrightarrow> \<not> C (OpGetPaired mac) \<Longrightarrow> calm C (conclude_connect bz mac x)"
  unfolding conclude_connect_def set_error_def by (intro calm_rules calm_gatt calm_teardown) auto

lemma composite_part_log:
  "\<exists>new. ad_calls (snd (connect_composite bz mac ui st)) = ad_calls st @ new \<and> composite_log mac ui (ad_calls st) new"
proof -
  let ?G = "conclude_connect bz mac"
  have G: "calm is_remove (?G x)" "calm is_connect (?G x)" for x
    using calm_conclude [of is_remove mac bz x] calm_conclude [of is_connect mac bz x] among_remove among_connect by auto
  let ?C = "connect_with_scan_retry bz mac"
  let ?F = "\<lambda>failure. andthen (case failure of None \<Rightarrow> ret None | Some e \<Rightarrow> maybe_recover_stale_bond bz mac e ui) ?G"
  have "calm is_remove ?C" by (rule calm_connect_with_scan_retry [OF among_remove]) simp_all
  then obtain a where a: "ad_calls (snd (?C st)) = ad_calls st @ a" "none_of is_remove a" by (rule calm_none)
  consider e where "fst (?C st) = Inl e" | "fst (?C st) = Inr None" | e where "fst (?C st) = Inr (Some e)"
    by (metis option.exhaust sum.exhaust)
  then show ?thesis
  proof cases
    case (1 e)
    then show ?thesis using a by (intro exI [of _ a]) (auto simp: connect_composite_def andthen_def case_prod_unfold composite_log_def)
  next
    case 2
    have "calm is_remove (?F None)" by (simp add: calm_andthen adds_ret G)
    then obtain b where "ad_calls (snd (?F None (snd (?C st)))) = ad_calls (snd (?C st)) @ b" "none_of is_remove b" by (rule calm_none)
    then show ?thesis
      using a 2 by (intro exI [of _ "a @ b"]) (auto simp: connect_composite_def andthen_def [of ?C] case_prod_unfold composite_log_def)
  next
    case (3 e)
    let ?s = "snd (?C st)"
    have root: "rooted e (ad_calls st @ a)" using scan_retry_rooted [of bz mac st e ?s] 3 a(1) by (simp add: prod_eq_iff)
    obtain bl where bl: "ad_calls (snd (maybe_recover_stale_bond bz mac e ui ?s)) = ad_calls ?s @ bl" "bond_log mac ui e bl"
      by (rule recover_log)
    obtain b where b: "ad_calls (snd (?F (Some e) ?s)) = ad_calls ?s @ bl @ b" "none_of is_remove b" "none_of is_connect b"
    proof (cases "fst (maybe_recover_stale_bond bz mac e ui ?s)")
      case (Inl x)
      then show ?thesis using bl that [of "[]"] by (auto simp: andthen_def case_prod_unfold)
    next
      case (Inr x)
      let ?t = "snd (maybe_recover_stale_bond bz mac e ui ?s)"
      obtain b where b: "ad_calls (snd (?G x ?t)) = ad_calls ?t @ b" "none_of is_remove b" using calm_none [OF G(1)] .
      have "none_of is_connect b" using calm_none [OF G(2), of x ?t] b(1) by auto
      then show ?thesis using b bl Inr that [of b] by (auto simp: andthen_def case_prod_unfold)
    qed
    have "composite_log mac ui (ad_calls st) (a @ bl @ b)"
      unfolding composite_log_def using a(2) root bl(2) b by blast
    moreover have "ad_calls (snd (andthen ?C ?F st)) = ad_calls st @ a @ bl @ b"
      using 3 a b by (simp add: andthen_def [of ?C] case_prod_unfold)
    ultimately show ?thesis unfolding connect_composite_def by blast
  qed
qed

lemma composite_log_prepend: "none_of is_remove a0 \<Longrightarrow> composite_log mac ui (old @ a0) new \<Longrightarrow> composite_log mac ui old (a0 @ new)"
  unfolding composite_log_def by (metis append.assoc none_of_append)

lemma apply_pin_frame [simp]:
  "ad_calls (apply_pin sha256 pin st) = ad_calls st" "ad_state (apply_pin sha256 pin st) = ad_state st"
  "ad_mac (apply_pin sha256 pin st) = ad_mac st" "ad_keepalive (apply_pin sha256 pin st) = ad_keepalive st"
  "ad_dst_check (apply_pin sha256 pin st) = ad_dst_check st" "ad_listening (apply_pin sha256 pin st) = ad_listening st"
  "ad_device (apply_pin sha256 pin st) = ad_device st" "ad_handler (apply_pin sha256 pin st) = ad_handler st"
  by (simp_all add: apply_pin_def split: option.splits)

lemma then_update: "then_do (update f) n st = n (f st)"
  by (simp add: then_do_def andthen_def update_def)

lemma ensure_connected_log:
  "\<exists>new. ad_calls (snd (ensure_connected sha256 bz mac pin ui st)) = ad_calls st @ new \<and> composite_log mac ui (ad_calls st) new"
proof -
  let ?st = "apply_pin sha256 pin st"
  let ?D = "if ad_state st = AsConnected then then_do (disconnect_internal bz) (ret ()) else ret ()"
  let ?P = "connect_composite bz mac ui"
  show ?thesis
  proof (cases "ad_state st = AsConnected \<and> ad_mac st = Some mac")
    case True
    then have "snd (ensure_connected sha256 bz mac pin ui st) = ?st"
      by (simp add: ensure_connected_def then_update reading_def ret_def)
    then show ?thesis by (intro exI [of _ "[]"]) (simp add: composite_log_def)
  next
    case False
    then have run: "ensure_connected sha256 bz mac pin ui st = then_do ?D ?P ?st"
      by (auto simp: ensure_connected_def then_update reading_def)
    have "calm is_remove ?D" by (intro calm_rules calm_disconnect_internal among_remove)
    then obtain a0 where a0: "ad_calls (snd (?D ?st)) = ad_calls ?st @ a0" "none_of is_remove a0" by (rule calm_none)
    show ?thesis
    proof (cases "fst (?D ?st)")
      case (Inl e)
      then have "snd (then_do ?D ?P ?st) = snd (?D ?st)" by (simp add: then_do_def andthen_def case_prod_unfold)
      then show ?thesis using a0 run by (intro exI [of _ a0]) (simp add: composite_log_def)
    next
      case (Inr u)
      obtain new where new: "ad_calls (snd (?P (snd (?D ?st)))) = ad_calls (snd (?D ?st)) @ new"
          "composite_log mac ui (ad_calls (snd (?D ?st))) new"
        using composite_part_log by blast
      have "then_do ?D ?P ?st = ?P (snd (?D ?st))" using Inr by (simp add: then_do_def andthen_def case_prod_unfold)
      then show ?thesis
        using new a0 run composite_log_prepend by (intro exI [of _ "a0 @ new"]) auto
    qed
  qed
qed


lemma unique_split:
  assumes "xs @ y # ys = us @ v # vs" and "C (fst y)" and "none_of C us" and "none_of C vs"
  shows "xs = us \<and> y = v \<and> ys = vs"
  using assms
proof (induction us arbitrary: xs)
  case Nil
  then show ?case by (cases xs) auto
next
  case (Cons u us)
  then show ?case by (cases xs) auto
qed

text \<open>C27: BLE adapter, destroying a pairing: in one composite connect, whatever BlueZ answers and whenever the link is lost
  or the request is cancelled, the bond of a device is removed only if the user asked for this connect, only for the
  device asked for, only after BlueZ reported an authentication failure and then, in the last answer that matters before
  the removal, reported the device as paired; it is removed at most once, and at most one connect follows, after a scan.\<close>
theorem bond_destroyed_only_when_stale:
  assumes "ad_calls st = []" and "ensure_connected sha256 bz mac pin user_initiated st = (r, st')"
    and "ad_calls st' = xs @ (OpRemoveDevice m, a) # ys"
  shows "user_initiated \<and> m = mac
    \<and> (\<exists>op e msg. (op, AnsRaise e) \<in> set xs \<and> dbus_root e = Some (''org.bluez.Error.AuthenticationFailed'', msg))
    \<and> (\<exists>before b mid. xs = before @ (OpGetPaired mac, b) # mid \<and> ans_bool b \<and> plain_log mid)
    \<and> none_of is_remove (xs @ ys) \<and> reconnects_once ys"
proof -
  have "composite_log mac user_initiated [] (xs @ (OpRemoveDevice m, a) # ys)"
    using ensure_connected_log [of sha256 bz mac pin user_initiated st] assms by auto
  then obtain e a0 bl b where log: "xs @ (OpRemoveDevice m, a) # ys = a0 @ bl @ b" "none_of is_remove a0" "rooted e a0"
      "bond_log mac user_initiated e bl" "none_of is_remove b" "none_of is_connect b"
    by (auto simp: composite_log_def)
  have "\<not> none_of is_remove (a0 @ bl @ b)" unfolding log(1) [symmetric] by simp
  then have "\<not> none_of is_remove bl" using log by simp
  then obtain p1 v p2 a' rest where bl: "bl = p1 @ (OpGetPaired mac, v) # p2 @ (OpRemoveDevice mac, a') # rest"
      "plain_log p1" "ans_bool v" "plain_log p2" "user_initiated" "is_recoverable_stale_bond_signature e"
      "none_of is_remove rest" "reconnects_once rest"
    using log(4) unfolding bond_log_def by blast
  have "xs = a0 @ p1 @ (OpGetPaired mac, v) # p2 \<and> (OpRemoveDevice m, a) = (OpRemoveDevice mac, a') \<and> ys = rest @ b"
    by (rule unique_split [of _ _ _ _ _ _ is_remove]) (use log bl plain_none_of [OF _ among_remove] in auto)
  then have parts: "xs = (a0 @ p1) @ (OpGetPaired mac, v) # p2" "m = mac" "ys = rest @ b" by auto
  obtain msg where "dbus_root e = Some (''org.bluez.Error.AuthenticationFailed'', msg)" using recoverable_root [OF bl(6)] by blast
  then have auth: "\<exists>op e msg. (op, AnsRaise e) \<in> set xs \<and> dbus_root e = Some (''org.bluez.Error.AuthenticationFailed'', msg)"
    using log(3) parts unfolding rooted_def by fastforce
  have "none_of is_remove (xs @ ys)" using parts log bl plain_none_of [OF _ among_remove] by simp
  moreover have "reconnects_once ys" using parts bl log reconnects_once_append by simp
  ultimately show ?thesis using auth parts bl by blast
qed

definition adapter_init :: "bytes \<Rightarrow> adapter" where
  "adapter_init hello =
     \<lparr>ad_state = AsDisconnected, ad_device = None, ad_error = None, ad_mac = None, ad_bus = False, ad_agent = False,
      ad_dev_iface = False, ad_props_iface = False, ad_read_char = False, ad_read_props = False, ad_write_char = False,
      ad_handler = False, ad_listening = False, ad_keepalive = False, ad_dst_check = False, ad_cancel = False,
      ad_passkey = 0, ad_hello = hello, ad_callbacks = 0, ad_calls = []\<rparr>"

definition plainly :: "dbus_answer \<Rightarrow> dbus_reply" where
  "plainly a = \<lparr>dr_answer = a, dr_lost = False, dr_released = False, dr_stop = False\<rparr>"

definition demo_objects :: "managed_object list" where
  "demo_objects =
     [\<lparr>mo_path = ''/org/bluez/hci0/dev_AA/s/r'', mo_device = None, mo_uuid = Some NUS_TX_UUID\<rparr>,
      \<lparr>mo_path = ''/org/bluez/hci0/dev_AA/s/w'', mo_device = None, mo_uuid = Some NUS_RX_UUID\<rparr>]"

text \<open>A node whose bond is stale: the first connect fails, the device is paired, everything else succeeds.\<close>

definition stale_bluez :: bluez where
  "stale_bluez calls op = plainly
     (case op of
        OpConnect m \<Rightarrow> if list_ex (\<lambda>(o1, a). is_connect o1) calls then AnsBool True
          else AnsRaise (DBusError ''org.bluez.Error.AuthenticationFailed'' ''x'')
      | OpManagedObjects \<Rightarrow> AnsObjects demo_objects
      | OpGetConnected \<Rightarrow> AnsBool False
      | OpGetNotifying \<Rightarrow> AnsBool False
      | _ \<Rightarrow> AnsBool True)"

definition stale_run :: "(py_exc + ensure_connected_result) \<times> adapter" where
  "stale_run = ensure_connected id stale_bluez ''AA'' None True (adapter_init OPEN_HELLO)"

lemma bond_destroyed_only_when_stale_witness:
  "fst stale_run = Inr (good_result ''connected'') \<and>
   (\<exists>xs a ys. ad_calls (snd stale_run) = xs @ (OpRemoveDevice ''AA'', a) # ys \<and> none_of is_remove (xs @ ys) \<and> reconnects_once ys)"
proof -
  let ?L = "ad_calls (snd stale_run)"
  let ?P = "\<lambda>(op, a). \<not> is_remove op"
  have res: "fst stale_run = Inr (good_result ''connected'')" by code_simp
  have split: "dropWhile ?P ?L = (OpRemoveDevice ''AA'', AnsBool True) # tl (dropWhile ?P ?L)" by code_simp
  then have L: "?L = takeWhile ?P ?L @ (OpRemoveDevice ''AA'', AnsBool True) # tl (dropWhile ?P ?L)"
    by (metis takeWhile_dropWhile_id)
  have start: "ad_calls (adapter_init OPEN_HELLO) = []" by (simp add: adapter_init_def)
  have run: "ensure_connected id stale_bluez ''AA'' None True (adapter_init OPEN_HELLO) = (fst stale_run, snd stale_run)"
    by (simp add: stale_run_def)
  show ?thesis
    using bond_destroyed_only_when_stale [OF start run L] res L by blast
qed

section \<open>What a failed connect leaves behind\<close>

definition preserves :: "(adapter \<Rightarrow> bool) \<Rightarrow> 'a act \<Rightarrow> bool" where
  "preserves Q m \<longleftrightarrow> (\<forall>st. Q st \<longrightarrow> Q (snd (m st)))"

text \<open>A property that the arrival of an answer cannot break.\<close>

definition stable :: "(adapter \<Rightarrow> bool) \<Rightarrow> bool" where
  "stable Q \<longleftrightarrow> (\<forall>st l. Q st \<longrightarrow> Q (st\<lparr>ad_calls := l\<rparr>)) \<and> (\<forall>st. Q st \<longrightarrow> Q (st\<lparr>ad_cancel := True\<rparr>))
     \<and> (\<forall>st. Q st \<longrightarrow> Q (on_agent_released st)) \<and> (\<forall>st. Q st \<longrightarrow> Q (on_disconnect_detected st))"

named_theorems pres_rules

lemma pres_ret [pres_rules]: "preserves Q (ret x)"
  by (simp add: preserves_def ret_def)

lemma pres_raise [pres_rules]: "preserves Q (raise_exc e)"
  by (simp add: preserves_def raise_exc_def)

lemma pres_update [pres_rules]: "(\<And>st. Q st \<Longrightarrow> Q (f st)) \<Longrightarrow> preserves Q (update f)"
  by (simp add: preserves_def update_def)

lemma pres_reading [pres_rules]: "(\<And>x. preserves Q (f x)) \<Longrightarrow> preserves Q (reading g f)"
  by (simp add: preserves_def reading_def)

lemma pres_andthen [pres_rules]: "preserves Q m \<Longrightarrow> (\<And>x. preserves Q (f x)) \<Longrightarrow> preserves Q (andthen m f)"
  by (auto simp: preserves_def andthen_def case_prod_unfold split: sum.splits)

lemma pres_then_do [pres_rules]: "preserves Q m \<Longrightarrow> preserves Q n \<Longrightarrow> preserves Q (then_do m n)"
  unfolding then_do_def by (rule pres_andthen)

lemma pres_catching [pres_rules]: "preserves Q m \<Longrightarrow> (\<And>e. preserves Q (h e)) \<Longrightarrow> preserves Q (catching m h)"
  by (auto simp: preserves_def catching_def case_prod_unfold split: sum.splits)

lemma pres_suppress [pres_rules]: "preserves Q m \<Longrightarrow> preserves Q (suppress m)"
  unfolding suppress_def by (intro pres_rules)

lemma pres_finally [pres_rules]: "preserves Q m \<Longrightarrow> preserves Q f \<Longrightarrow> preserves Q (finally_do m f)"
  by (auto simp: preserves_def finally_do_def case_prod_unfold split: sum.splits)

lemma pres_wait_for [pres_rules]: "preserves Q m \<Longrightarrow> preserves Q (wait_for m)"
  by (auto simp: preserves_def wait_for_def split: prod.splits sum.splits py_exc.splits)

lemma pres_dbus: "stable Q \<Longrightarrow> preserves Q (dbus bz op)"
  by (auto simp: preserves_def stable_def dbus_def Let_def split: dbus_answer.splits)

lemma pres_through: "stable Q \<Longrightarrow> preserves Q (through p bz op)"
  unfolding through_def by (rule pres_reading) (simp add: pres_dbus pres_raise)

lemma pres_if [pres_rules]: "(b \<Longrightarrow> preserves Q x) \<Longrightarrow> (\<not> b \<Longrightarrow> preserves Q y) \<Longrightarrow> preserves Q (if b then x else y)"
  by simp

lemma pres_option [pres_rules]:
  "preserves Q x \<Longrightarrow> (\<And>v. preserves Q (f v)) \<Longrightarrow> preserves Q (case o1 of None \<Rightarrow> x | Some v \<Rightarrow> f v)"
  by (cases o1) auto

lemma pres_exc [pres_rules]:
  "(\<And>m. preserves Q (f m)) \<Longrightarrow> preserves Q y \<Longrightarrow> preserves Q (case e of InterfaceNotFoundError m \<Rightarrow> f m | _ \<Rightarrow> y)"
  by (cases e) auto

lemma presD: "preserves Q m \<Longrightarrow> Q st \<Longrightarrow> m st = (r, st') \<Longrightarrow> Q st'"
  by (metis preserves_def snd_conv)

definition tasks_off :: "adapter \<Rightarrow> bool" where
  "tasks_off st \<longleftrightarrow> ad_device st = None \<and> \<not> ad_keepalive st \<and> \<not> ad_dst_check st \<and> \<not> ad_listening st"

definition session_down :: "adapter \<Rightarrow> bool" where
  "session_down st \<longleftrightarrow> tasks_off st \<and> ad_mac st = None \<and> \<not> ad_dev_iface st \<and> \<not> ad_props_iface st \<and> \<not> ad_read_char st
     \<and> \<not> ad_read_props st \<and> \<not> ad_write_char st \<and> \<not> ad_handler st"

lemma stable_tasks_off: "stable tasks_off" and stable_session_down: "stable session_down"
  by (auto simp: stable_def tasks_off_def session_down_def on_agent_released_def on_disconnect_detected_def)

lemmas pres_calls = pres_dbus [OF stable_tasks_off] pres_through [OF stable_tasks_off]
  pres_dbus [OF stable_session_down] pres_through [OF stable_session_down]

lemma pres_ensure_bus:
  assumes "stable Q" and "\<And>st b. Q st \<Longrightarrow> Q (st\<lparr>ad_bus := b\<rparr>)" and "\<And>st b. Q st \<Longrightarrow> Q (st\<lparr>ad_agent := b\<rparr>)"
  shows "preserves Q (ensure_bus bz)"
  unfolding ensure_bus_def register_agent_def
  by (intro pres_rules pres_dbus assms) auto

lemma pres_bus: "preserves tasks_off (ensure_bus bz)" "preserves session_down (ensure_bus bz)"
  by (rule pres_ensure_bus; auto simp: stable_tasks_off stable_session_down tasks_off_def session_down_def)+

lemma pres_proxy: "preserves tasks_off (get_proxy bz p i)" "preserves session_down (get_proxy bz p i)"
  unfolding get_proxy_def by (intro pres_rules pres_calls)+

lemma pres_poll: "preserves tasks_off (poll_services bz n)"
  by (induction n) (auto intro!: pres_rules pres_calls)

lemma pres_search: "preserves tasks_off (search_characteristic bz path uuid objs)"
  by (induction objs) (auto intro!: pres_rules pres_calls)

lemma pres_attempt: "preserves tasks_off (attempt_connection bz mac)"
  unfolding attempt_connection_def Let_def device_proxy_def clear_stale_connection_def device_connect_def
    wait_for_services_resolved_def find_required_def find_characteristics_def find_gatt_characteristic_def fail_connect_def
  by (intro pres_rules pres_calls pres_bus pres_proxy pres_poll pres_search) (auto simp: tasks_off_def)

lemma pres_scan: "preserves tasks_off (scan_unlocked bz pfx)" "preserves session_down (scan_unlocked bz pfx)"
  unfolding scan_unlocked_def by (intro pres_rules pres_calls pres_bus pres_proxy)+

lemma cleanup_down:
  assumes "tasks_off st" and "cleanup_failed_connection bz st = (Inr u, st')"
  shows "session_down st'"
proof -
  have off: "tasks_off (snd (suppress (reading ad_dev_iface (\<lambda>present. if present then suppress (wait_for (dbus bz OpDisconnect)) else ret ())) st))"
    using assms(1)
    by (rule presD [where m = "suppress (reading ad_dev_iface (\<lambda>present. if present then suppress (wait_for (dbus bz OpDisconnect)) else ret ()))", rotated])
      (auto simp: prod_eq_iff intro!: pres_rules pres_calls)
  then show ?thesis
    using assms(2) unfolding cleanup_failed_connection_def
    by (elim finally_Inr) (auto simp: update_def session_down_def tasks_off_def reset_state_def)
qed

lemma stage_failed_down:
  assumes "tasks_off st" and "connect_stage bz mac st = (Inr (Some e), st')"
  shows "session_down st'"
proof -
  obtain s1 f s2 u1 where 0: "update (\<lambda>st. st\<lparr>ad_state := AsConnecting, ad_error := None\<rparr>) st = (Inr u1, s1)"
    and 1: "catching (then_do (attempt_connection bz mac) (ret None))
       (\<lambda>e. then_do (cleanup_failed_connection bz) (ret (Some e))) s1 = (Inr f, s2)"
    and 2: "(case f of Some e \<Rightarrow> ret (Some e) | None \<Rightarrow> then_do (finalize_successful_connection bz mac) (ret None)) s2 = (Inr (Some e), st')"
    using assms unfolding connect_stage_def by (elim then_do_Inr andthen_Inr) blast
  have f: "f = Some e" "s2 = st'"
    using 2 by (auto simp: ret_def elim!: then_do_Inr split: option.splits)
  have off: "tasks_off s1" using 0 assms(1) by (auto simp: update_def tasks_off_def)
  from 1 show ?thesis
  proof (rule catching_Inr)
    fix e0 s3
    assume raised: "then_do (attempt_connection bz mac) (ret None) s1 = (Inl e0, s3)"
      and handled: "then_do (cleanup_failed_connection bz) (ret (Some e0)) s3 = (Inr f, s2)"
    have "preserves tasks_off (then_do (attempt_connection bz mac) (ret None))" by (intro pres_rules pres_attempt)
    then have "tasks_off s3" using off raised by (rule presD)
    then show ?thesis using handled f by (auto simp: ret_def elim!: then_do_Inr dest: cleanup_down)
  qed (use f in \<open>auto simp: ret_def elim!: then_do_Inr\<close>)
qed

lemma down_off: "session_down st \<Longrightarrow> tasks_off st"
  by (simp add: session_down_def)


lemma scan_retry_failed_down:
  assumes "tasks_off st" and "connect_with_scan_retry bz mac st = (Inr (Some e), st')"
  shows "session_down st'"
proof -
  obtain f s1 where 1: "connect_stage bz mac st = (Inr f, s1)" and 2: "(case f of None \<Rightarrow> ret None
       | Some e \<Rightarrow> if \<not> is_device_not_found_error e then ret (Some e)
           else then_do (scan_unlocked bz MESHCOM_NAME_PREFIX) (connect_stage bz mac)) s1 = (Inr (Some e), st')"
    using assms(2) unfolding connect_with_scan_retry_def by (rule andthen_Inr)
  then obtain e0 where f: "f = Some e0" by (cases f) (auto simp: ret_def)
  then have down: "session_down s1" using stage_failed_down [OF assms(1)] 1 by simp
  show ?thesis
  proof (cases "is_device_not_found_error e0")
    case True
    then obtain u s2 where "scan_unlocked bz MESHCOM_NAME_PREFIX s1 = (Inr u, s2)" "connect_stage bz mac s2 = (Inr (Some e), st')"
      using 2 f by (auto elim: then_do_Inr)
    then show ?thesis using stage_failed_down down_off presD [OF pres_scan(2) down] by blast
  qed (use 2 f down in \<open>auto simp: ret_def\<close>)
qed

lemma recovery_failed_down:
  assumes "session_down st" and "maybe_recover_stale_bond bz mac e ui st = (Inr (Some e'), st')"
  shows "session_down st'"
proof -
  have pa: "preserves session_down (stale_bond_recovery_allowed bz mac e ui)"
    unfolding stale_bond_recovery_allowed_def read_paired_live_def by (intro pres_rules pres_calls pres_bus pres_proxy)
  have pr: "preserves session_down (remove_device_unlocked bz mac)"
    unfolding remove_device_unlocked_def by (intro pres_rules pres_calls pres_bus pres_proxy)
  obtain allowed s1 where 1: "stale_bond_recovery_allowed bz mac e ui st = (Inr allowed, s1)"
    and 2: "(if \<not> allowed then ret (Some e)
       else andthen (remove_device_unlocked bz mac) (\<lambda>removed.
         if \<not> removed then ret (Some e)
         else then_do (scan_unlocked bz MESHCOM_NAME_PREFIX)
           (andthen (connect_stage bz mac) (\<lambda>retry_err.
             ret (case retry_err of None \<Rightarrow> None | Some e' \<Rightarrow> Some (BondRecoveryReconnectError mac e')))))) s1 = (Inr (Some e'), st')"
    using assms(2) unfolding maybe_recover_stale_bond_def by (rule andthen_Inr)
  have s1: "session_down s1" using presD [OF pa assms(1) 1] .
  show ?thesis
  proof (cases allowed)
    case True
    then obtain removed s2 where 3: "remove_device_unlocked bz mac s1 = (Inr removed, s2)"
      and 4: "(if \<not> removed then ret (Some e)
         else then_do (scan_unlocked bz MESHCOM_NAME_PREFIX)
           (andthen (connect_stage bz mac) (\<lambda>retry_err.
             ret (case retry_err of None \<Rightarrow> None | Some e' \<Rightarrow> Some (BondRecoveryReconnectError mac e'))))) s2 = (Inr (Some e'), st')"
      using 2 by (auto elim: andthen_Inr)
    have s2: "session_down s2" using presD [OF pr s1 3] .
    show ?thesis
    proof (cases removed)
      case True
      then obtain u s3 r s4 where 5: "scan_unlocked bz MESHCOM_NAME_PREFIX s2 = (Inr u, s3)" and 6: "connect_stage bz mac s3 = (Inr r, s4)"
        and 7: "ret (case r of None \<Rightarrow> None | Some e' \<Rightarrow> Some (BondRecoveryReconnectError mac e')) s4 = (Inr (Some e'), st')"
        using 4 by (auto elim!: then_do_Inr andthen_Inr)
      obtain e1 where "r = Some e1" "s4 = st'" using 7 by (cases r) (auto simp: ret_def)
      then show ?thesis using stage_failed_down down_off presD [OF pres_scan(2) s2 5] 6 by blast
    qed (use 4 s2 in \<open>auto simp: ret_def\<close>)
  qed (use 2 s1 in \<open>auto simp: ret_def\<close>)
qed

text \<open>The teardown after a failed pair or subscribe.\<close>

lemma disconnect_internal_down:
  assumes "disconnect_internal bz st = (Inr b, st')" and "ad_state st \<noteq> AsDisconnected"
  shows "session_down st' \<and> ad_state st' = AsDisconnected"
proof -
  define off where "off = (\<lambda>st :: adapter. \<not> ad_keepalive st \<and> \<not> ad_dst_check st \<and> \<not> ad_listening st)"
  have stable: "stable off" by (auto simp: stable_def off_def on_agent_released_def on_disconnect_detected_def)
  define s1 where "s1 = st\<lparr>ad_state := AsDisconnecting, ad_keepalive := False, ad_dst_check := False, ad_listening := False\<rparr>"
  let ?stop = "suppress (stop_notify bz)"
  let ?drop = "suppress (reading ad_dev_iface (\<lambda>present. if present then then_do (wait_for (dbus bz OpDisconnect)) (ret ()) else ret ()))"
  let ?fin = "then_do (update (\<lambda>st. (reset_state st)\<lparr>ad_state := AsDisconnected, ad_device := None\<rparr>)) (ret True)"
  have "then_do ?stop (then_do ?drop ?fin) s1 = (Inr b, st')"
    using assms unfolding disconnect_internal_def s1_def by (simp add: reading_def then_update)
  then obtain u2 s2 where 2: "?stop s1 = (Inr u2, s2)" and rest: "then_do ?drop ?fin s2 = (Inr b, st')" by (rule then_do_Inr)
  from rest obtain u3 s3 where 3: "?drop s2 = (Inr u3, s3)" and 4: "?fin s3 = (Inr b, st')" by (rule then_do_Inr)
  have "preserves off ?stop" "preserves off ?drop"
    unfolding stop_notify_def
    by (intro pres_rules pres_dbus pres_through stable; simp add: off_def detach_notify_handler_def)+
  moreover have "off s1" by (simp add: off_def s1_def)
  ultimately have "off s3" using presD 2 3 by blast
  then show ?thesis
    using 4 by (auto simp: then_update ret_def session_down_def tasks_off_def reset_state_def off_def)
qed

lemma suppress_cases:
  assumes "suppress m st = (Inr u, st')"
  obtains x where "m st = (Inr x, st')" | e where "m st = (Inl e, st')" "e \<noteq> Cancelled" "e \<noteq> Expired"
  using assms
  by (cases "m st") (auto simp: suppress_def catching_def then_do_def andthen_def ret_def split: sum.splits if_splits)

definition only_fatal :: "'a act \<Rightarrow> bool" where
  "only_fatal m \<longleftrightarrow> (\<forall>st e. fst (m st) = Inl e \<longrightarrow> e = Cancelled \<or> e = Expired)"

lemma fatal_suppress: "only_fatal (suppress m)"
  by (auto simp: only_fatal_def suppress_def catching_def then_do_def andthen_def ret_def case_prod_unfold
      split: sum.splits if_splits)

lemma fatal_then_do: "only_fatal m \<Longrightarrow> only_fatal n \<Longrightarrow> only_fatal (then_do m n)"
  by (auto simp: only_fatal_def then_do_def andthen_def case_prod_unfold split: sum.splits)

lemma fatal_update: "only_fatal (update f)" and fatal_ret: "only_fatal (ret x)"
  by (auto simp: only_fatal_def update_def ret_def)

lemma fatal_reading: "(\<And>x. only_fatal (f x)) \<Longrightarrow> only_fatal (reading g f)"
  by (simp add: only_fatal_def reading_def)

lemma fatal_if: "only_fatal x \<Longrightarrow> only_fatal y \<Longrightarrow> only_fatal (if b then x else y)"
  by simp

lemma disconnect_internal_fatal: "only_fatal (disconnect_internal bz)"
  unfolding disconnect_internal_def
  by (intro fatal_reading fatal_if fatal_then_do fatal_update fatal_suppress fatal_ret)

lemma teardown_down:
  assumes "teardown_after_post_connect_failure bz st = (Inr u, st')" and "ad_state st = AsError"
  shows "session_down st' \<and> ad_state st' = AsError \<and> ad_error st' = ad_error st"
proof -
  obtain u1 s1 where 1: "suppress (disconnect_internal bz) st = (Inr u1, s1)"
    and 2: "st' = s1\<lparr>ad_state := AsError, ad_error := ad_error st\<rparr>"
    using assms unfolding teardown_after_post_connect_failure_def
    by (auto simp: reading_def update_def elim!: then_do_Inr)
  from 1 obtain b where "disconnect_internal bz st = (Inr b, s1)"
  proof (rule suppress_cases)
    fix e
    assume "disconnect_internal bz st = (Inl e, s1)" "e \<noteq> Cancelled" "e \<noteq> Expired"
    then show ?thesis using disconnect_internal_fatal [of bz] unfolding only_fatal_def by (metis fst_conv)
  qed
  then have "session_down s1" using disconnect_internal_down assms(2) by fastforce
  then show ?thesis using 2 by (simp add: session_down_def tasks_off_def)
qed

definition failure_report :: "ensure_connected_result \<Rightarrow> adapter \<Rightarrow> bool" where
  "failure_report r st \<longleftrightarrow> \<not> er_success r \<and> er_error_name r \<noteq> None \<and> er_error_text r \<noteq> None
     \<and> ad_state st = AsError \<and> ad_error st \<noteq> None"

lemma gatt_failure_report:
  assumes "ensure_gatt_ready bz mac st = (Inr (Some r), st')"
  shows "failure_report r st'"
  using assms unfolding ensure_gatt_ready_def pair_then_resume_def set_error_def
  by (elim andthen_Inr catching_Inr then_do_Inr)
    (auto simp: ret_def update_def failure_report_def failed_result_def elim!: andthen_Inr then_do_Inr catching_Inr
      split: option.splits if_splits prod.splits)

lemma conclude_failed:
  assumes "conclude_connect bz mac x st = (Inr r, st')" and "\<not> er_success r"
    and "\<And>e. x = Some e \<Longrightarrow> session_down st"
  shows "session_down st' \<and> failure_report r st'"
proof (cases x)
  case (Some e)
  then show ?thesis
    using assms unfolding conclude_connect_def set_error_def
    by (auto simp: then_update ret_def failure_report_def failed_result_def session_down_def tasks_off_def)
next
  case None
  obtain g s1 where 1: "ensure_gatt_ready bz mac st = (Inr g, s1)"
    and 2: "(case g of Some r \<Rightarrow> then_do (teardown_after_post_connect_failure bz) (ret r) | None \<Rightarrow> ret (good_result ''connected'')) s1 = (Inr r, st')"
    using assms(1) None unfolding conclude_connect_def by (auto elim!: andthen_Inr)
  obtain r' where g: "g = Some r'" using 2 assms(2) by (cases g) (auto simp: ret_def good_result_def)
  have rep: "failure_report r' s1" using gatt_failure_report 1 g by simp
  obtain u where "teardown_after_post_connect_failure bz s1 = (Inr u, st')" "r' = r"
    using 2 g by (auto simp: ret_def elim!: then_do_Inr)
  then show ?thesis using teardown_down rep by (fastforce simp: failure_report_def)
qed


text \<open>A node that refuses the subscription for a reason that pairing cannot mend.\<close>

definition refusing_bluez :: bluez where
  "refusing_bluez calls op = plainly
     (case op of
        OpStartNotify \<Rightarrow> AnsRaise (DBusError ''org.bluez.Error.Failed'' ''le-connection-abort-by-local'')
      | OpManagedObjects \<Rightarrow> AnsObjects demo_objects
      | OpGetConnected \<Rightarrow> AnsBool False
      | OpGetNotifying \<Rightarrow> AnsBool False
      | _ \<Rightarrow> AnsBool True)"

definition refused_run :: "(py_exc + ensure_connected_result) \<times> adapter" where
  "refused_run = ensure_connected id refusing_bluez ''AA'' None True (adapter_init OPEN_HELLO)"

definition refused_result :: ensure_connected_result where
  "refused_result = failed_result ''gatt'' ''org.bluez.Error.Failed'' ''le-connection-abort-by-local''"


text \<open>The operation can also end in an exception, past its teardown: when the pairing step cannot look the device up,
  the session stays up; when the scan for an unknown device fails, the status stays "connecting".\<close>

definition failing_bluez :: "dbus_op \<Rightarrow> dbus_op \<Rightarrow> bluez" where
  "failing_bluez cue failing calls op = plainly
     (if op = failing \<and> list_ex (\<lambda>(o1, a). o1 = cue) calls then AnsRaise (DBusError ''org.bluez.Error.NotReady'' [])
      else case op of
        OpStartNotify \<Rightarrow> AnsRaise (DBusError ''org.bluez.Error.NotPermitted'' [])
      | OpManagedObjects \<Rightarrow> AnsObjects demo_objects
      | OpGetConnected \<Rightarrow> AnsBool False
      | OpGetNotifying \<Rightarrow> AnsBool False
      | OpInterface path i \<Rightarrow> if cue = OpBus \<and> i = DEVICE_INTERFACE then AnsRaise (InterfaceNotFoundError []) else AnsBool True
      | _ \<Rightarrow> AnsBool True)"

lemma escaped_exception_keeps_session:
  "let (r, st) = ensure_connected id (failing_bluez OpStartNotify (OpIntrospect (mac_to_dbus_path ''AA''))) ''AA'' None True (adapter_init OPEN_HELLO) in
   r = Inl (DBusError ''org.bluez.Error.NotReady'' []) \<and> ad_state st = AsConnected \<and> ad_keepalive st \<and> \<not> ad_handler st"
  by code_simp

lemma escaped_exception_keeps_connecting:
  "let (r, st) = ensure_connected id (failing_bluez OpBus OpStartDiscovery) ''AA'' None True (adapter_init OPEN_HELLO) in
   r = Inl (DBusError ''org.bluez.Error.NotReady'' []) \<and> ad_state st = AsConnecting"
  by code_simp

text \<open>A session that the plain connect brought up and whose subscription failed counts as already connected: the
  composite connect succeeds, and no notification will ever arrive.\<close>

lemma already_connected_without_notifications:
  "let st1 = snd (adapter_connect refusing_bluez ''AA'' (adapter_init OPEN_HELLO));
       st2 = snd (start_notify refusing_bluez st1);
       (r, st3) = ensure_connected id refusing_bluez ''AA'' None True st2 in
   r = Inr (good_result ''already_connected'') \<and> ad_state st3 = AsConnected \<and> \<not> ad_handler st3"
  by code_simp

section \<open>What a successful connect means\<close>

definition link_or_told :: "string \<Rightarrow> nat \<Rightarrow> adapter \<Rightarrow> bool" where
  "link_or_told mac c st \<longleftrightarrow> (ad_state st = AsConnected \<and> ad_mac st = Some mac \<and> c \<le> ad_callbacks st)
     \<or> (ad_state st = AsDisconnected \<and> c < ad_callbacks st)"

definition told_from :: "nat \<Rightarrow> adapter \<Rightarrow> bool" where "told_from c st \<longleftrightarrow> c \<le> ad_callbacks st"

definition subscribed :: "adapter \<Rightarrow> bool" where "subscribed st \<longleftrightarrow> ad_state st = AsConnected \<longrightarrow> ad_handler st"

lemma stable_link: "stable (link_or_told mac c)" and stable_told: "stable (told_from c)" and stable_subscribed: "stable subscribed"
  by (auto simp: stable_def link_or_told_def told_from_def subscribed_def on_agent_released_def on_disconnect_detected_def)

lemmas told_calls = pres_dbus [OF stable_told] pres_through [OF stable_told]
lemmas link_calls = pres_dbus [OF stable_link] pres_through [OF stable_link]

lemma told_bus: "preserves (told_from c) (ensure_bus bz)" and link_bus: "preserves (link_or_told mac c) (ensure_bus bz)"
  by (rule pres_ensure_bus; auto simp: stable_told stable_link told_from_def link_or_told_def)+

lemma told_proxy: "preserves (told_from c) (get_proxy bz p i)"
  unfolding get_proxy_def by (intro pres_rules told_calls)

lemma told_poll: "preserves (told_from c) (poll_services bz n)"
  by (induction n) (auto intro!: pres_rules told_calls)

lemma told_search: "preserves (told_from c) (search_characteristic bz path uuid objs)"
  by (induction objs) (auto intro!: pres_rules told_calls)

lemma told_attempt: "preserves (told_from c) (attempt_connection bz mac)"
  unfolding attempt_connection_def Let_def device_proxy_def clear_stale_connection_def device_connect_def
    wait_for_services_resolved_def find_required_def find_characteristics_def find_gatt_characteristic_def fail_connect_def
  by (intro pres_rules told_calls told_bus told_proxy told_poll told_search) (auto simp: told_from_def)

lemma told_cleanup: "preserves (told_from c) (cleanup_failed_connection bz)"
  unfolding cleanup_failed_connection_def by (intro pres_rules told_calls) (auto simp: told_from_def reset_state_def)

lemma told_disconnect: "preserves (told_from c) (disconnect_internal bz)"
  unfolding disconnect_internal_def stop_notify_def
  by (intro pres_rules told_calls) (auto simp: told_from_def reset_state_def detach_notify_handler_def)

lemma told_finalize: "preserves (told_from c) (finalize_successful_connection bz mac)"
  unfolding finalize_successful_connection_def subscribe_device_properties_def
  by (intro pres_rules told_calls) (auto simp: told_from_def)

lemma told_stage: "preserves (told_from c) (connect_stage bz mac)"
  unfolding connect_stage_def by (intro pres_rules told_attempt told_cleanup told_finalize) (auto simp: told_from_def)

lemma told_scan: "preserves (told_from c) (scan_unlocked bz pfx)"
  unfolding scan_unlocked_def by (intro pres_rules told_calls told_bus told_proxy)

lemma told_scan_retry: "preserves (told_from c) (connect_with_scan_retry bz mac)"
  unfolding connect_with_scan_retry_def by (intro pres_rules told_stage told_scan)

lemma finalized_link:
  assumes "told_from c st" and "finalize_successful_connection bz mac st = (r, st')"
  shows "link_or_told mac c st'"
proof -
  let ?rest = "andthen
        (reading ad_props_iface (\<lambda>present. if \<not> present then ret []
           else catching (andthen (dbus bz OpGetName) (\<lambda>a. ret (ans_str a))) (\<lambda>_. ret [])))
        (\<lambda>name. then_do (update (\<lambda>st. st\<lparr>ad_device := Some (mac, name)\<rparr>))
          (then_do (subscribe_device_properties bz)
            (then_do (update (\<lambda>st. st\<lparr>ad_keepalive := True, ad_dst_check := True\<rparr>))
              (reading ad_read_props (\<lambda>present. if present then suppress (dbus bz OpGetMtu) else ret ())))))"
  have "preserves (link_or_told mac c) ?rest"
    unfolding subscribe_device_properties_def by (intro pres_rules link_calls) (auto simp: link_or_told_def)
  moreover have "link_or_told mac c (st\<lparr>ad_mac := Some mac, ad_state := AsConnected\<rparr>)"
    using assms(1) by (simp add: link_or_told_def told_from_def)
  ultimately show ?thesis
    using assms(2) unfolding finalize_successful_connection_def then_update by (rule presD)
qed

lemma stage_link:
  assumes "told_from c st" and "connect_stage bz mac st = (Inr None, st')"
  shows "link_or_told mac c st'"
proof -
  obtain s1 f s2 where 1: "catching (then_do (attempt_connection bz mac) (ret None))
       (\<lambda>e. then_do (cleanup_failed_connection bz) (ret (Some e))) s1 = (Inr f, s2)"
    and s1: "s1 = st\<lparr>ad_state := AsConnecting, ad_error := None\<rparr>"
    and 2: "(case f of Some e \<Rightarrow> ret (Some e) | None \<Rightarrow> then_do (finalize_successful_connection bz mac) (ret None)) s2 = (Inr None, st')"
    using assms(2) unfolding connect_stage_def then_update by (elim andthen_Inr) blast
  have "preserves (told_from c) (catching (then_do (attempt_connection bz mac) (ret None))
       (\<lambda>e. then_do (cleanup_failed_connection bz) (ret (Some e))))"
    by (intro pres_rules told_attempt told_cleanup)
  moreover have "told_from c s1" using assms(1) s1 by (simp add: told_from_def)
  ultimately have "told_from c s2" using 1 by (rule presD)
  then show ?thesis using 2 finalized_link by (cases f) (auto simp: ret_def elim!: then_do_Inr)
qed

lemma scan_retry_link:
  assumes "told_from c st" and "connect_with_scan_retry bz mac st = (Inr None, st')"
  shows "link_or_told mac c st'"
proof -
  obtain f s1 where 1: "connect_stage bz mac st = (Inr f, s1)" and 2: "(case f of None \<Rightarrow> ret None
       | Some e \<Rightarrow> if \<not> is_device_not_found_error e then ret (Some e)
           else then_do (scan_unlocked bz MESHCOM_NAME_PREFIX) (connect_stage bz mac)) s1 = (Inr None, st')"
    using assms(2) unfolding connect_with_scan_retry_def by (rule andthen_Inr)
  show ?thesis
  proof (cases f)
    case None
    then show ?thesis using 1 2 stage_link [OF assms(1)] by (simp add: ret_def)
  next
    case (Some e)
    then have "\<not> \<not> is_device_not_found_error e" using 2 by (auto simp: ret_def split: if_splits)
    then obtain u s2 where "scan_unlocked bz MESHCOM_NAME_PREFIX s1 = (Inr u, s2)" "connect_stage bz mac s2 = (Inr None, st')"
      using 2 Some by (auto elim: then_do_Inr)
    then show ?thesis using stage_link presD [OF told_scan] presD [OF told_stage assms(1) 1] by blast
  qed
qed

lemma recovery_link:
  assumes "told_from c st" and "maybe_recover_stale_bond bz mac e ui st = (Inr None, st')"
  shows "link_or_told mac c st'"
proof -
  have pa: "preserves (told_from c) (stale_bond_recovery_allowed bz mac e ui)"
    unfolding stale_bond_recovery_allowed_def read_paired_live_def by (intro pres_rules told_calls told_bus told_proxy)
  have pr: "preserves (told_from c) (remove_device_unlocked bz mac)"
    unfolding remove_device_unlocked_def by (intro pres_rules told_calls told_bus told_proxy)
  obtain allowed s1 where 1: "stale_bond_recovery_allowed bz mac e ui st = (Inr allowed, s1)"
    and 2: "(if \<not> allowed then ret (Some e)
       else andthen (remove_device_unlocked bz mac) (\<lambda>removed.
         if \<not> removed then ret (Some e)
         else then_do (scan_unlocked bz MESHCOM_NAME_PREFIX)
           (andthen (connect_stage bz mac) (\<lambda>retry_err.
             ret (case retry_err of None \<Rightarrow> None | Some e' \<Rightarrow> Some (BondRecoveryReconnectError mac e')))))) s1 = (Inr None, st')"
    using assms(2) unfolding maybe_recover_stale_bond_def by (rule andthen_Inr)
  have "allowed" using 2 by (auto simp: ret_def split: if_splits)
  then obtain removed s2 where 3: "remove_device_unlocked bz mac s1 = (Inr removed, s2)"
    and 4: "(if \<not> removed then ret (Some e)
         else then_do (scan_unlocked bz MESHCOM_NAME_PREFIX)
           (andthen (connect_stage bz mac) (\<lambda>retry_err.
             ret (case retry_err of None \<Rightarrow> None | Some e' \<Rightarrow> Some (BondRecoveryReconnectError mac e'))))) s2 = (Inr None, st')"
    using 2 by (auto elim: andthen_Inr)
  have "removed" using 4 by (auto simp: ret_def split: if_splits)
  then obtain u s3 r s4 where 5: "scan_unlocked bz MESHCOM_NAME_PREFIX s2 = (Inr u, s3)" and 6: "connect_stage bz mac s3 = (Inr r, s4)"
    and 7: "ret (case r of None \<Rightarrow> None | Some e' \<Rightarrow> Some (BondRecoveryReconnectError mac e')) s4 = (Inr None, st')"
    using 4 by (auto elim!: then_do_Inr andthen_Inr)
  have "r = None" "s4 = st'" using 7 by (cases r; auto simp: ret_def)+
  then show ?thesis
    using stage_link 6 presD [OF told_scan presD [OF pr presD [OF pa assms(1) 1] 3] 5] by blast
qed

lemma link_start_notify: "preserves (link_or_told mac c) (start_notify bz)"
  unfolding start_notify_def not_connected_def
  by (intro pres_rules link_calls) (auto simp: link_or_told_def detach_notify_handler_def)

lemma link_pair: "preserves (link_or_told mac c) (pair_unlocked bz m d)"
  unfolding pair_unlocked_def Let_def by (intro pres_rules link_calls link_bus)

lemma start_notify_subscribed:
  assumes "start_notify bz st = (Inr u, st')"
  shows "subscribed st'"
proof -
  let ?attach = "reading ad_handler (\<lambda>attached. if attached then ret ()
              else then_do (through ad_read_props bz OpAttachHandler) (update (\<lambda>st. st\<lparr>ad_handler := True\<rparr>)))"
  have at: "subscribed s2" if "?attach s1 = (Inr v, s2)" for s1 s2 v
    using that by (auto simp: reading_def ret_def subscribed_def update_def split: if_splits elim!: then_do_Inr)
  have on: "preserves subscribed (then_do (through ad_read_char bz OpStartNotify) (ret ()))"
    by (intro pres_rules pres_through stable_subscribed)
  obtain n s1 where 1: "then_do ?attach (if ans_bool n then ret ()
            else catching (then_do (through ad_read_char bz OpStartNotify) (ret ()))
              (\<lambda>e. then_do (update detach_notify_handler) (raise_exc e))) s1 = (Inr u, st')"
    using assms unfolding start_notify_def not_connected_def
    by (auto simp: reading_def [of "\<lambda>st. ad_state st = AsConnected \<and> ad_read_char st \<and> ad_read_props st"] raise_exc_def
        elim!: andthen_Inr split: if_splits)
  obtain v s2 where 2: "?attach s1 = (Inr v, s2)"
    and 3: "(if ans_bool n then ret () else catching (then_do (through ad_read_char bz OpStartNotify) (ret ()))
              (\<lambda>e. then_do (update detach_notify_handler) (raise_exc e))) s2 = (Inr u, st')"
    using 1 by (rule then_do_Inr)
  show ?thesis
  proof (cases "ans_bool n")
    case False
    then have "catching (then_do (through ad_read_char bz OpStartNotify) (ret ()))
              (\<lambda>e. then_do (update detach_notify_handler) (raise_exc e)) s2 = (Inr u, st')"
      using 3 by simp
    then show ?thesis
    proof (rule catching_Inr)
      assume "then_do (through ad_read_char bz OpStartNotify) (ret ()) s2 = (Inr u, st')"
      then show ?thesis by (rule presD [OF on at [OF 2]])
    qed (auto simp: then_update raise_exc_def)
  qed (use 3 at [OF 2] in \<open>simp add: ret_def\<close>)
qed

lemma gatt_ready_subscribed:
  assumes "ensure_gatt_ready bz mac st = (Inr None, st')" and "link_or_told mac c st"
  shows "subscribed st' \<and> link_or_told mac c st'"
proof -
  obtain f s1 where 1: "catching (then_do (start_notify bz) (ret None)) (\<lambda>e. ret (Some e)) st = (Inr f, s1)"
    and 2: "(case f of None \<Rightarrow> ret None
       | Some e \<Rightarrow>
           if \<not> (is_dbus_error e \<and> is_gatt_security_error e)
           then then_do (set_error (''GATT subscribe failed: '' @ error_text e))
                  (ret (Some (failed_result ''gatt'' (error_name e) (error_text e))))
           else pair_then_resume bz mac) s1 = (Inr None, st')"
    using assms(1) unfolding ensure_gatt_ready_def by (rule andthen_Inr)
  have "preserves (link_or_told mac c) (catching (then_do (start_notify bz) (ret None)) (\<lambda>e. ret (Some e)))"
    by (intro pres_rules link_start_notify)
  then have s1: "link_or_told mac c s1" using assms(2) 1 by (rule presD)
  show ?thesis
  proof (cases f)
    case None
    then have "\<exists>u. start_notify bz st = (Inr u, s1)" using 1 by (auto simp: ret_def elim!: catching_Inr then_do_Inr)
    then show ?thesis using start_notify_subscribed s1 2 None by (auto simp: ret_def)
  next
    case (Some e)
    then have "pair_then_resume bz mac s1 = (Inr None, st')"
      using 2 by (auto simp: set_error_def then_update ret_def split: if_splits)
    then obtain p s2 where 3: "pair_unlocked bz mac False s1 = (Inr p, s2)"
      and 4: "(case p of (ok, e) \<Rightarrow> if \<not> ok then
         then_do (set_error ''Pairing required but failed'')
           (ret (Some (case e of
               Some err \<Rightarrow> failed_result ''pair'' (error_name err) (error_text err)
             | None \<Rightarrow> failed_result ''pair'' ''PairingNotEstablished''
                 ''Pair() reported success but BlueZ still reports the device as not paired'')))
       else catching (then_do (start_notify bz) (ret None))
           (\<lambda>err. then_do (set_error (''GATT subscribe failed after pairing: '' @ error_text err))
              (ret (Some (failed_result ''gatt_post_pair'' (error_name err) (error_text err)))))) s2 = (Inr None, st')"
      unfolding pair_then_resume_def by (rule andthen_Inr)
    have s2: "link_or_told mac c s2" using presD [OF link_pair s1 3] .
    have "\<exists>u. start_notify bz s2 = (Inr u, st')"
      using 4 by (auto simp: set_error_def then_update ret_def split: prod.splits if_splits elim!: catching_Inr then_do_Inr)
    then show ?thesis using start_notify_subscribed presD [OF link_start_notify s2] by blast
  qed
qed


lemma bond_run_result: "fst stale_run = Inr (good_result ''connected'')"
  by code_simp


text \<open>\<open>connect\<close> makes at most three connects, the composite at most three as well: one, one after a scan, one after a recovery.\<close>

lemma connects_loop: "adds is_connect n (connect_attempts bz mac n)"
proof (induction n)
  case 0
  show ?case
    unfolding connect_attempts.simps by (intro calm_rules calm_cleanup among_connect) auto
next
  case (Suc n)
  have first: "adds is_connect (1 + 0) (catching (then_do (attempt_connection bz mac) (ret True))
             (\<lambda>e. then_do (if 0 < n then then_do (cleanup_failed_connection bz) (then_do (dbus bz OpSleep) (ret ())) else ret ())
                (ret False)))"
    by (intro adds_catching adds_mono [OF adds_then_do [OF connects_attempt, of 0]] calm_rules calm_cleanup among_connect) auto
  have zero: "adds is_connect (Suc n) (connect_attempts bz mac 0)"
    by (rule adds_mono [of _ 0]) (auto intro!: calm_rules calm_cleanup among_connect)
  have "adds is_connect (1 + 0 + n) (andthen (catching (then_do (attempt_connection bz mac) (ret True))
             (\<lambda>e. then_do (if 0 < n then then_do (cleanup_failed_connection bz) (then_do (dbus bz OpSleep) (ret ())) else ret ())
                (ret False)))
           (\<lambda>ok. if ok then then_do (finalize_successful_connection bz mac) (ret True) else connect_attempts bz mac n))"
    by (rule adds_andthen [OF first])
      (auto intro!: Suc adds_mono [OF calm_then_do [OF calm_finalize [OF among_connect] adds_ret]])
  then show ?case
    unfolding connect_attempts.simps using zero by (intro adds_reading) auto
qed

lemma connects_adapter_connect: "adds is_connect 3 (adapter_connect bz mac)"
proof -
  have "adds is_connect (0 + (0 + 3)) (then_do (if b then then_do (disconnect_internal bz) (ret ()) else ret ())
           (then_do (update (\<lambda>st. st\<lparr>ad_state := AsConnecting, ad_error := None\<rparr>)) (connect_attempts bz mac 3)))" for b
    by (intro adds_then_do connects_loop calm_rules calm_disconnect_internal among_connect) auto
  then have part: "adds is_connect 3 (then_do (if b then then_do (disconnect_internal bz) (ret ()) else ret ())
           (then_do (update (\<lambda>st. st\<lparr>ad_state := AsConnecting, ad_error := None\<rparr>)) (connect_attempts bz mac 3)))" for b
    by simp
  have "adds is_connect (0 + 3) (adapter_connect bz mac)"
    unfolding adapter_connect_def
    by (intro adds_then_do adds_update adds_reading calm_prod calm_if adds_ret part) auto
  then show ?thesis by simp
qed

end
