(* ===== verification/BleWrites.thy ===== *)
theory BleWrites
  imports BleAdapter
begin

text \<open>
  ble_service/src/ble_adapter.py: what the adapter writes to the node. The frame builder, the write operation, the hello,
  the text commands and messages, the time, callsign, WLAN, position, altitude and symbol settings, the reboot and the
  register queries. Texts are lists of code points; the IEEE single packing of a coordinate (\<open>struct.pack\<close>) and the
  rendering of the UTC offset are parameters.
\<close>

section \<open>Constants\<close>

definition MAX_CALLSIGN_LEN :: nat where "MAX_CALLSIGN_LEN = 9"
definition BLE_MTU_LIMIT :: nat where "BLE_MTU_LIMIT = 247"
definition MAX_SSID_LEN :: nat where "MAX_SSID_LEN = 32"
definition MAX_WIFI_PASSWORD_LEN :: nat where "MAX_WIFI_PASSWORD_LEN = 63"
definition INNER_LENGTH_BYTE_MAX :: nat where "INNER_LENGTH_BYTE_MAX = 255"
definition FRAME_LENGTH_PREFIX_MAX :: nat where "FRAME_LENGTH_PREFIX_MAX = 255"
definition ACK_ATTRIBUTION_COMMAND :: string where "ACK_ATTRIBUTION_COMMAND = ''--ackinfo on''"
definition SAVE_TO_FLASH :: "8 word" where "SAVE_TO_FLASH = 0x0A"
definition RAM_ONLY :: "8 word" where "RAM_ONLY = 0x0B"

datatype msg_type =
    TIME_SYNC | SET_CALLSIGN | SET_WIFI | SET_LATITUDE | SET_LONGITUDE | SET_ALTITUDE | SET_APRS_SYMBOLS
  | TEXT_COMMAND | SAVE_AND_REBOOT

fun type_byte :: "msg_type \<Rightarrow> 8 word" where
  "type_byte TIME_SYNC = 0x20"
| "type_byte SET_CALLSIGN = 0x50"
| "type_byte SET_WIFI = 0x55"
| "type_byte SET_LATITUDE = 0x70"
| "type_byte SET_LONGITUDE = 0x80"
| "type_byte SET_ALTITUDE = 0x90"
| "type_byte SET_APRS_SYMBOLS = 0x95"
| "type_byte TEXT_COMMAND = 0xA0"
| "type_byte SAVE_AND_REBOOT = 0xF0"

section \<open>Frames and writes\<close>

definition value_error :: "'a act" where "value_error = raise_exc (OtherError ''ValueError'' [])"

definition byte_of :: "nat \<Rightarrow> 8 word act" where
  "byte_of n = (if n < 256 then ret (word_of_nat n) else value_error)"

definition frame :: "msg_type \<Rightarrow> bytes \<Rightarrow> bytes act" where
  "frame t payload =
     (let n = length payload + 2 in
      if n < 256 then ret (word_of_nat n # type_byte t # payload) else raise_exc (OtherError ''OverflowError'' ''int too big to convert''))"

definition encode_utf8 :: "utext \<Rightarrow> bytes act" where
  "encode_utf8 t = (if list_all scalar t then ret (utf8_bytes t) else raise_exc (OtherError ''UnicodeEncodeError'' []))"

definition write_bytes :: "bluez \<Rightarrow> bytes \<Rightarrow> bool act" where
  "write_bytes bz data =
     reading (\<lambda>st. ad_state st = AsConnected \<and> ad_write_char st) (\<lambda>ready.
       if \<not> ready then not_connected
       else catching (then_do (wait_for (through ad_write_char bz (OpWrite data))) (ret True))
         (\<lambda>e. if \<not> is_timeout_error e \<and> contains (error_text e) ''Not connected''
            then then_do (update on_disconnect_detected) (ret False) else ret False))"

definition write_frame :: "bluez \<Rightarrow> msg_type \<Rightarrow> bytes \<Rightarrow> bool act" where
  "write_frame bz t payload = andthen (frame t payload) (write_bytes bz)"

definition send_text :: "bluez \<Rightarrow> utext \<Rightarrow> bool act" where
  "send_text bz txt =
     andthen (encode_utf8 txt) (\<lambda>payload.
       if FRAME_LENGTH_PREFIX_MAX < length payload + 2 then value_error else write_frame bz TEXT_COMMAND payload)"

definition send_message :: "bluez \<Rightarrow> utext \<Rightarrow> utext \<Rightarrow> bool act" where
  "send_message bz msg grp = send_text bz ([123] @ grp @ [125] @ msg)"

definition send_command :: "bluez \<Rightarrow> utext \<Rightarrow> bool act" where
  "send_command bz cmd = send_text bz cmd"

definition send_hello :: "bluez \<Rightarrow> bool act" where
  "send_hello bz =
     reading (\<lambda>st. (ad_state st = AsConnected, ad_hello st)) (\<lambda>(connected, hello).
       if \<not> connected then ret False else write_bytes bz hello)"

text \<open>\<open>offset\<close>: the UTC offset in hours as \<open>+.1f\<close>; \<open>now\<close>: the Unix time.\<close>

definition set_time :: "bluez \<Rightarrow> utext \<Rightarrow> int \<Rightarrow> bool act" where
  "set_time bz offset now =
     then_do (send_command bz (utext ''--utcoff '' @ offset))
      (then_do (dbus bz OpSleep)
        (if 0 \<le> now \<and> now < 2 ^ 32 then write_frame bz TIME_SYNC (le_bytes 4 (nat now))
         else raise_exc (OtherError ''OverflowError'' [])))"

definition when_connected :: "'a act \<Rightarrow> 'a act" where
  "when_connected m = reading (\<lambda>st. ad_state st = AsConnected) (\<lambda>c. if c then m else not_connected)"

definition set_callsign :: "bluez \<Rightarrow> utext \<Rightarrow> bool act" where
  "set_callsign bz callsign =
     when_connected
      (if callsign = [] \<or> MAX_CALLSIGN_LEN < length callsign then value_error
       else andthen (encode_utf8 callsign) (\<lambda>callsign_bytes.
         if INNER_LENGTH_BYTE_MAX < length callsign_bytes then value_error
         else andthen (byte_of (length callsign_bytes)) (\<lambda>n.
           let payload = n # callsign_bytes in
           if BLE_MTU_LIMIT < length payload + 2 then value_error else write_frame bz SET_CALLSIGN payload)))"

definition set_wifi :: "bluez \<Rightarrow> utext \<Rightarrow> utext \<Rightarrow> bool act" where
  "set_wifi bz ssid password =
     when_connected
      (if ssid = [] \<or> MAX_SSID_LEN < length ssid then value_error
       else if MAX_WIFI_PASSWORD_LEN < length password then value_error
       else andthen (encode_utf8 ssid) (\<lambda>ssid_bytes. andthen (encode_utf8 password) (\<lambda>pwd_bytes.
         andthen (byte_of (length ssid_bytes)) (\<lambda>n. andthen (byte_of (length pwd_bytes)) (\<lambda>k.
           let payload = n # ssid_bytes @ k # pwd_bytes in
           if BLE_MTU_LIMIT < length payload + 2 then value_error else write_frame bz SET_WIFI payload)))))"

definition save_flag :: "bool \<Rightarrow> 8 word" where
  "save_flag save = (if save then SAVE_TO_FLASH else RAM_ONLY)"

definition set_latitude :: "(rat \<Rightarrow> bytes) \<Rightarrow> bluez \<Rightarrow> rat \<Rightarrow> bool \<Rightarrow> bool act" where
  "set_latitude pack bz lat save =
     when_connected (if \<not> (-90 \<le> lat \<and> lat \<le> 90) then value_error
       else write_frame bz SET_LATITUDE (pack lat @ [save_flag save]))"

definition set_longitude :: "(rat \<Rightarrow> bytes) \<Rightarrow> bluez \<Rightarrow> rat \<Rightarrow> bool \<Rightarrow> bool act" where
  "set_longitude pack bz lon save =
     when_connected (if \<not> (-180 \<le> lon \<and> lon \<le> 180) then value_error
       else write_frame bz SET_LONGITUDE (pack lon @ [save_flag save]))"

definition set_altitude :: "bluez \<Rightarrow> int \<Rightarrow> bool \<Rightarrow> bool act" where
  "set_altitude bz alt save =
     when_connected (if \<not> (-1000 \<le> alt \<and> alt \<le> 10000) then value_error
       else write_frame bz SET_ALTITUDE (le_bytes 4 (nat (alt mod 2 ^ 32)) @ [save_flag save]))"

definition set_aprs_symbols :: "bluez \<Rightarrow> utext \<Rightarrow> utext \<Rightarrow> bool act" where
  "set_aprs_symbols bz primary secondary =
     when_connected
      (case (primary, secondary) of
         ([p], [s]) \<Rightarrow> andthen (byte_of p) (\<lambda>pb. andthen (byte_of s) (\<lambda>sb. write_frame bz SET_APRS_SYMBOLS [pb, sb]))
       | _ \<Rightarrow> value_error)"

definition save_and_reboot :: "bluez \<Rightarrow> bool act" where
  "save_and_reboot bz = when_connected (write_frame bz SAVE_AND_REBOOT [])"

fun send_queries :: "bluez \<Rightarrow> string list \<Rightarrow> unit act" where
  "send_queries bz [] = ret ()"
| "send_queries bz (c # cs) =
     then_do (suppress (then_do (send_command bz (utext c)) (dbus bz OpSleep))) (send_queries bz cs)"

definition query_extended_registers :: "bluez \<Rightarrow> unit act" where
  "query_extended_registers bz =
     reading (\<lambda>st. ad_state st = AsConnected) (\<lambda>c.
       if \<not> c then ret () else send_queries bz [ACK_ATTRIBUTION_COMMAND, ''--io'', ''--tel''])"

section \<open>Every write delimits itself\<close>

text \<open>The operations by which the service writes.\<close>

datatype write_request =
    WrMessage utext utext | WrCommand utext | WrHello | WrTime utext int | WrCallsign utext | WrWifi utext utext
  | WrLatitude rat bool | WrLongitude rat bool | WrAltitude int bool | WrSymbols utext utext | WrReboot | WrQueries

fun perform :: "(rat \<Rightarrow> bytes) \<Rightarrow> bluez \<Rightarrow> write_request \<Rightarrow> bool act" where
  "perform pack bz (WrMessage msg grp) = send_message bz msg grp"
| "perform pack bz (WrCommand cmd) = send_command bz cmd"
| "perform pack bz WrHello = send_hello bz"
| "perform pack bz (WrTime offset now) = set_time bz offset now"
| "perform pack bz (WrCallsign c) = set_callsign bz c"
| "perform pack bz (WrWifi ssid pwd) = set_wifi bz ssid pwd"
| "perform pack bz (WrLatitude x save) = set_latitude pack bz x save"
| "perform pack bz (WrLongitude x save) = set_longitude pack bz x save"
| "perform pack bz (WrAltitude x save) = set_altitude bz x save"
| "perform pack bz (WrSymbols p s) = set_aprs_symbols bz p s"
| "perform pack bz WrReboot = save_and_reboot bz"
| "perform pack bz WrQueries = then_do (query_extended_registers bz) (ret True)"

definition self_delimiting :: "bytes \<Rightarrow> bool" where
  "self_delimiting d \<longleftrightarrow> d \<noteq> [] \<and> unat (hd d) = length d"

fun bad_write :: "dbus_op \<Rightarrow> bool" where
  "bad_write (OpWrite d) = (\<not> self_delimiting d)"
| "bad_write op = False"

lemma calm_list [calm_rules]:
  "adds C n x \<Longrightarrow> (\<And>y ys. adds C n (f y ys)) \<Longrightarrow> adds C n (case xs of [] \<Rightarrow> x | y # ys \<Rightarrow> f y ys)"
  by (cases xs) auto

lemma calm_write_bytes: "\<not> C (OpWrite d) \<Longrightarrow> calm C (write_bytes bz d)"
  unfolding write_bytes_def not_connected_def by (intro calm_rules) auto

lemma calm_write_frame:
  assumes "\<And>d. self_delimiting d \<Longrightarrow> \<not> C (OpWrite d)"
  shows "calm C (write_frame bz t payload)"
proof (cases "length payload + 2 < 256")
  case True
  have "unat (word_of_nat (length payload + 2) :: 8 word) = length payload + 2"
    using True by (simp only: unsigned_of_nat take_bit_eq_mod) simp
  then have "calm C (write_bytes bz (word_of_nat (length payload + 2) # type_byte t # payload))"
    by (intro calm_write_bytes assms) (simp add: self_delimiting_def)
  moreover have "write_frame bz t payload = write_bytes bz (word_of_nat (length payload + 2) # type_byte t # payload)"
    using True by (auto simp: write_frame_def frame_def Let_def andthen_def ret_def)
  ultimately show ?thesis by (simp only:)
next
  case False
  then have "write_frame bz t payload = raise_exc (OtherError ''OverflowError'' ''int too big to convert'')"
    by (auto simp: write_frame_def frame_def Let_def andthen_def raise_exc_def)
  then show ?thesis by (simp add: adds_raise)
qed

lemma writes_self_delimiting: "self_delimiting d \<Longrightarrow> \<not> bad_write (OpWrite d)"
  by simp

lemma calm_send_command: "calm bad_write (send_command bz cmd)"
  unfolding send_command_def send_text_def encode_utf8_def value_error_def
  by (intro calm_rules calm_write_frame writes_self_delimiting)

lemma calm_send_queries: "calm bad_write (send_queries bz cs)"
  by (induction cs) (auto intro!: calm_rules calm_send_command)

lemma calm_perform: "req \<noteq> WrHello \<Longrightarrow> calm bad_write (perform pack bz req)"
  by (cases req)
    (auto simp: send_message_def set_time_def set_callsign_def set_wifi_def set_latitude_def set_longitude_def
      set_altitude_def set_aprs_symbols_def save_and_reboot_def query_extended_registers_def when_connected_def
      not_connected_def value_error_def byte_of_def encode_utf8_def Let_def send_text_def
      intro!: calm_rules calm_send_command calm_write_frame calm_send_queries)

definition hello_ok :: "(bytes \<Rightarrow> bytes) \<Rightarrow> bytes \<Rightarrow> bool" where
  "hello_ok sha256 hello \<longleftrightarrow> hello = OPEN_HELLO \<or> (\<exists>pin. hello = build_hello_bytes sha256 pin)"

lemma hello_self_delimiting:
  assumes "\<And>x. length (sha256 x) = 32" and "hello_ok sha256 hello"
  shows "self_delimiting hello"
  using assms by (auto simp: hello_ok_def build_hello_bytes_def self_delimiting_def OPEN_HELLO_def split: if_splits)


definition connected_adapter :: adapter where
  "connected_adapter = (adapter_init OPEN_HELLO)\<lparr>ad_state := AsConnected, ad_write_char := True\<rparr>"

definition willing_bluez :: bluez where "willing_bluez calls op = plainly (AnsBool True)"


section \<open>What the node reads\<close>

text \<open>The wire table of doc/ble-state-machine.md, read by the node: length, type, fields.\<close>

definition signed32 :: "nat \<Rightarrow> int" where
  "signed32 n = (if n < 2 ^ 31 then int n else int n - 2 ^ 32)"

definition node_reads :: "bytes \<Rightarrow> write_request option" where
  "node_reads d =
     (if \<not> self_delimiting d \<or> length d < 2 then None
      else
        let t = d ! 1; p = drop 2 d in
        if t = 0x50 then Some (WrCallsign (decode_text (take (unat (hd p)) (tl p))))
        else if t = 0x55 then
          (let n = unat (hd p); r = drop n (tl p)
           in Some (WrWifi (decode_text (take n (tl p))) (decode_text (take (unat (hd r)) (tl r)))))
        else if t = 0x90 then Some (WrAltitude (signed32 (le_nat (take 4 p))) (p ! 4 = 0x0A))
        else if t = 0x95 then Some (WrSymbols [unat (p ! 0)] [unat (p ! 1)])
        else if t = 0xA0 then Some (WrCommand (decode_text p))
        else if t = 0xF0 then Some WrReboot
        else None)"

fun readable :: "write_request \<Rightarrow> bool" where
  "readable (WrCommand c) = True"
| "readable (WrCallsign c) = True"
| "readable (WrWifi s p) = True"
| "readable (WrAltitude x save) = True"
| "readable (WrSymbols p s) = True"
| "readable WrReboot = True"
| "readable r = False"

definition wrote :: "adapter \<Rightarrow> adapter \<Rightarrow> bytes \<Rightarrow> bool" where
  "wrote st st' d \<longleftrightarrow> (\<exists>a. ad_calls st' = ad_calls st @ [(OpWrite d, a)])"

lemma write_bytes_True:
  assumes "write_bytes bz d st = (Inr True, st')"
  shows "wrote st st' d"
proof -
  have run: "catching (then_do (wait_for (through ad_write_char bz (OpWrite d))) (ret True))
         (\<lambda>e. if \<not> is_timeout_error e \<and> contains (error_text e) ''Not connected''
            then then_do (update on_disconnect_detected) (ret False) else ret False) st = (Inr True, st')"
    using assms by (auto simp: write_bytes_def reading_def not_connected_def raise_exc_def split: if_splits)
  then have "then_do (wait_for (through ad_write_char bz (OpWrite d))) (ret True) st = (Inr True, st')"
    by (rule catching_Inr) (auto simp: then_update ret_def split: if_splits)
  then obtain a where "wait_for (through ad_write_char bz (OpWrite d)) st = (Inr a, st')"
    by (rule then_do_Inr) (auto simp: ret_def)
  then have "through ad_write_char bz (OpWrite d) st = (Inr a, st')"
    by (auto simp: wait_for_def split: prod.splits sum.splits py_exc.splits)
  then have "dbus bz (OpWrite d) st = (Inr a, st')"
    by (auto simp: through_def reading_def raise_exc_def split: if_splits)
  then show ?thesis using dbus_new unfolding wrote_def by blast
qed

lemma write_frame_True:
  assumes "write_frame bz t payload st = (Inr True, st')"
  shows "length payload + 2 < 256 \<and> wrote st st' (word_of_nat (length payload + 2) # type_byte t # payload)"
  using assms write_bytes_True
  by (auto simp: write_frame_def frame_def Let_def ret_def raise_exc_def split: if_splits elim!: andthen_Inr)

lemma frame_delimits:
  "length payload + 2 < 256 \<Longrightarrow> self_delimiting (word_of_nat (length payload + 2) # x # payload)"
  unfolding self_delimiting_def by (simp only: list.sel unsigned_of_nat take_bit_eq_mod) simp

lemma unat_byte_small: "n < 256 \<Longrightarrow> unat (word_of_nat n :: 8 word) = n"
  by (simp add: unsigned_of_nat take_bit_eq_mod)

lemma connected_Inr:
  assumes "when_connected m st = (Inr x, st')"
  shows "m st = (Inr x, st')"
  using assms by (auto simp: when_connected_def reading_def not_connected_def raise_exc_def split: if_splits)

lemma value_error_Inr [simp]: "value_error st = (Inr x, st') \<longleftrightarrow> False"
  by (simp add: value_error_def raise_exc_def)

lemma encode_utf8_Inr: "encode_utf8 t st = (Inr b, st') \<Longrightarrow> list_all scalar t \<and> b = utf8_bytes t \<and> st' = st"
  by (auto simp: encode_utf8_def ret_def raise_exc_def split: if_splits)

lemma byte_of_Inr: "byte_of n st = (Inr b, st') \<Longrightarrow> n < 256 \<and> b = word_of_nat n \<and> st' = st"
  by (auto simp: byte_of_def ret_def split: if_splits)

lemma signed32_mod:
  assumes "-1000 \<le> alt" and "alt \<le> 10000"
  shows "signed32 (nat (alt mod 2 ^ 32)) = alt"
proof (cases "0 \<le> alt")
  case True
  then have "alt mod 2 ^ 32 = alt" using assms by (intro mod_pos_pos_trivial) auto
  then show ?thesis using True assms by (simp add: signed32_def)
next
  case False
  have "alt mod 2 ^ 32 = alt + 2 ^ 32"
    using False assms by (subst mod_add_self2 [symmetric], intro mod_pos_pos_trivial) auto
  then show ?thesis using False assms by (simp add: signed32_def)
qed

lemma node_reads_frame:
  assumes "length payload + 2 < 256"
  shows "node_reads (word_of_nat (length payload + 2) # t # payload) =
    (if t = 0x50 then Some (WrCallsign (decode_text (take (unat (hd payload)) (tl payload))))
     else if t = 0x55 then
       (let n = unat (hd payload); r = drop n (tl payload)
        in Some (WrWifi (decode_text (take n (tl payload))) (decode_text (take (unat (hd r)) (tl r)))))
     else if t = 0x90 then Some (WrAltitude (signed32 (le_nat (take 4 payload))) (payload ! 4 = 0x0A))
     else if t = 0x95 then Some (WrSymbols [unat (payload ! 0)] [unat (payload ! 1)])
     else if t = 0xA0 then Some (WrCommand (decode_text payload))
     else if t = 0xF0 then Some WrReboot
     else None)"
  using frame_delimits [OF assms, of t] by (simp add: node_reads_def Let_def)

lemma callsign_read:
  assumes "set_callsign bz c st = (Inr True, st')"
  shows "\<exists>d. wrote st st' d \<and> node_reads d = Some (WrCallsign c)"
proof -
  have "(if c = [] \<or> MAX_CALLSIGN_LEN < length c then value_error
       else andthen (encode_utf8 c) (\<lambda>callsign_bytes.
         if INNER_LENGTH_BYTE_MAX < length callsign_bytes then value_error
         else andthen (byte_of (length callsign_bytes)) (\<lambda>n.
           let payload = n # callsign_bytes in
           if BLE_MTU_LIMIT < length payload + 2 then value_error else write_frame bz SET_CALLSIGN payload))) st = (Inr True, st')"
    using connected_Inr assms unfolding set_callsign_def .
  then obtain n where n: "list_all scalar c" "length (utf8_bytes c) < 256" "n = word_of_nat (length (utf8_bytes c))"
      "write_frame bz SET_CALLSIGN (n # utf8_bytes c) st = (Inr True, st')"
    by (auto split: if_splits elim!: andthen_Inr dest!: encode_utf8_Inr byte_of_Inr simp: Let_def)
  note w = write_frame_True [OF n(4)]
  have "node_reads (word_of_nat (length (n # utf8_bytes c) + 2) # 0x50 # n # utf8_bytes c) = Some (WrCallsign c)"
    using w n by (subst node_reads_frame) (simp_all add: unat_byte_small decode_utf8_bytes)
  then show ?thesis using w by auto
qed

lemma wifi_read:
  assumes "set_wifi bz s p st = (Inr True, st')"
  shows "\<exists>d. wrote st st' d \<and> node_reads d = Some (WrWifi s p)"
proof -
  have "(if s = [] \<or> MAX_SSID_LEN < length s then value_error
       else if MAX_WIFI_PASSWORD_LEN < length p then value_error
       else andthen (encode_utf8 s) (\<lambda>ssid_bytes. andthen (encode_utf8 p) (\<lambda>pwd_bytes.
         andthen (byte_of (length ssid_bytes)) (\<lambda>n. andthen (byte_of (length pwd_bytes)) (\<lambda>k.
           let payload = n # ssid_bytes @ k # pwd_bytes in
           if BLE_MTU_LIMIT < length payload + 2 then value_error else write_frame bz SET_WIFI payload))))) st = (Inr True, st')"
    using connected_Inr assms unfolding set_wifi_def .
  then obtain n k where n: "list_all scalar s" "list_all scalar p" "length (utf8_bytes s) < 256" "length (utf8_bytes p) < 256"
      "n = word_of_nat (length (utf8_bytes s))" "k = word_of_nat (length (utf8_bytes p))"
      "write_frame bz SET_WIFI (n # utf8_bytes s @ k # utf8_bytes p) st = (Inr True, st')"
    by (auto split: if_splits elim!: andthen_Inr dest!: encode_utf8_Inr byte_of_Inr simp: Let_def)
  note w = write_frame_True [OF n(7)]
  have "node_reads (word_of_nat (length (n # utf8_bytes s @ k # utf8_bytes p) + 2) # 0x55 # n # utf8_bytes s @ k # utf8_bytes p)
      = Some (WrWifi s p)"
    using w n by (subst node_reads_frame) (simp_all add: unat_byte_small decode_utf8_bytes Let_def)
  then show ?thesis using w by auto
qed

lemma altitude_read:
  assumes "set_altitude bz x save st = (Inr True, st')"
  shows "\<exists>d. wrote st st' d \<and> node_reads d = Some (WrAltitude x save)"
proof -
  have x: "-1000 \<le> x" "x \<le> 10000" and run: "write_frame bz SET_ALTITUDE (le_bytes 4 (nat (x mod 2 ^ 32)) @ [save_flag save]) st = (Inr True, st')"
    using connected_Inr assms unfolding set_altitude_def by (force split: if_splits)+
  note w = write_frame_True [OF run]
  have small: "nat (x mod 2 ^ 32) < 256 ^ 4" by (simp add: nat_less_iff)
  have "node_reads (word_of_nat (length (le_bytes 4 (nat (x mod 2 ^ 32)) @ [save_flag save]) + 2) # 0x90
      # le_bytes 4 (nat (x mod 2 ^ 32)) @ [save_flag save]) = Some (WrAltitude x save)"
    using w small signed32_mod [OF x]
    by (subst node_reads_frame) (simp_all add: le_nat_le_bytes nth_append save_flag_def SAVE_TO_FLASH_def RAM_ONLY_def)
  then show ?thesis using w by auto
qed

lemma symbols_read:
  assumes "set_aprs_symbols bz p s st = (Inr True, st')"
  shows "\<exists>d. wrote st st' d \<and> node_reads d = Some (WrSymbols p s)"
proof -
  obtain a b where ab: "p = [a]" "s = [b]" "a < 256" "b < 256"
      and run: "write_frame bz SET_APRS_SYMBOLS [word_of_nat a, word_of_nat b] st = (Inr True, st')"
    using connected_Inr assms unfolding set_aprs_symbols_def
    by (force split: list.splits elim!: andthen_Inr dest!: byte_of_Inr)
  note w = write_frame_True [OF run]
  have "node_reads (word_of_nat (length [word_of_nat a :: 8 word, word_of_nat b] + 2) # 0x95 # [word_of_nat a, word_of_nat b])
      = Some (WrSymbols p s)"
    using ab by (subst node_reads_frame) (simp_all add: unat_byte_small)
  then show ?thesis using w by auto
qed

lemma command_read:
  assumes "send_command bz c st = (Inr True, st')"
  shows "\<exists>d. wrote st st' d \<and> node_reads d = Some (WrCommand c)"
proof -
  have c: "list_all scalar c" and run: "write_frame bz TEXT_COMMAND (utf8_bytes c) st = (Inr True, st')"
    using assms unfolding send_command_def send_text_def by (auto split: if_splits elim!: andthen_Inr dest!: encode_utf8_Inr)
  note w = write_frame_True [OF run]
  have "node_reads (word_of_nat (length (utf8_bytes c) + 2) # 0xA0 # utf8_bytes c) = Some (WrCommand c)"
    using w c by (subst node_reads_frame) (simp_all add: decode_utf8_bytes)
  then show ?thesis using w by auto
qed

lemma reboot_read:
  assumes "save_and_reboot bz st = (Inr True, st')"
  shows "\<exists>d. wrote st st' d \<and> node_reads d = Some WrReboot"
proof -
  have run: "write_frame bz SAVE_AND_REBOOT [] st = (Inr True, st')"
    using connected_Inr assms unfolding save_and_reboot_def .
  have "node_reads (word_of_nat (length ([] :: bytes) + 2) # 0xF0 # []) = Some WrReboot"
    by (subst node_reads_frame) simp_all
  then show ?thesis using write_frame_True [OF run] by auto
qed

text \<open>C31: BLE adapter, settings and commands: when a callsign, WLAN, altitude, symbol, reboot or text-command request reports
  success, exactly one write was made, and a node that reads it by the documented wire table (total length, type, inner
  lengths, little-endian signed altitude, save flag) gets back exactly the request: every text in full, every sign and
  flag.\<close>
theorem node_reads_what_was_asked:
  assumes "perform pack bz req st = (Inr True, st')" and "readable req"
  shows "\<exists>d a. ad_calls st' = ad_calls st @ [(OpWrite d, a)] \<and> node_reads d = Some req"
proof -
  have "\<exists>d. wrote st st' d \<and> node_reads d = Some req"
    using assms by (cases req) (auto dest: callsign_read wifi_read altitude_read symbols_read command_read reboot_read)
  then show ?thesis by (auto simp: wrote_def)
qed

lemma node_reads_what_was_asked_witness:
  "\<exists>d a. ad_calls (snd (perform (\<lambda>x. []) willing_bluez (WrAltitude (-12) True) connected_adapter)) = [(OpWrite d, a)]
     \<and> node_reads d = Some (WrAltitude (-12) True)"
proof -
  have run: "perform (\<lambda>x. []) willing_bluez (WrAltitude (-12) True) connected_adapter =
      (Inr True, snd (perform (\<lambda>x. []) willing_bluez (WrAltitude (-12) True) connected_adapter))"
    by (simp add: prod_eq_iff) (simp add: set_altitude_def when_connected_def reading_def connected_adapter_def adapter_init_def
      write_frame_def frame_def andthen_def ret_def write_bytes_def catching_def then_do_def wait_for_def through_def dbus_def
      willing_bluez_def plainly_def Let_def)
  have start: "ad_calls connected_adapter = []" by (simp add: connected_adapter_def adapter_init_def)
  show ?thesis using node_reads_what_was_asked [OF run] start by simp
qed

text \<open>The length of a callsign is checked in characters, the node's buffer counts bytes: nine characters of two bytes
  each pass the check and are written as eighteen.\<close>

lemma callsign_limit_counts_characters:
  "fst (perform pack willing_bluez (WrCallsign [196, 196, 196, 196, 196, 196, 196, 196, 196]) connected_adapter) = Inr True
   \<and> length (utf8_bytes [196, 196, 196, 196, 196, 196, 196, 196, 196]) = 18"
  by (simp add: set_callsign_def when_connected_def reading_def connected_adapter_def adapter_init_def
      write_frame_def frame_def andthen_def ret_def write_bytes_def catching_def then_do_def wait_for_def through_def dbus_def
      willing_bluez_def plainly_def Let_def encode_utf8_def scalar_def utf8_bytes_def utf8_encode_def utf8_char_def
      byte_of_def MAX_CALLSIGN_LEN_def INNER_LENGTH_BYTE_MAX_def BLE_MTU_LIMIT_def not_connected_def)

end
