(* ===== verification/UdpIngress.thy ===== *)
theory UdpIngress
  imports BleFrames Interfaces Callsigns
begin

text \<open>
  udp_handler.py: the Extern-UDP port. Repair and cleaning of a datagram, the normaliser of
  delivery-status datagrams, the learning of the outbound target from inbound traffic with its
  anti-flap rules and bounded reporting, and the guard in front of an outgoing datagram. With
  \<open>undouble_aprs_symbol_escapes\<close> and \<open>unescape_firmware_msg_body\<close> of util.py. The arguments
  \<open>loads\<close> (\<open>json.loads\<close>: a value, or the position of the error), \<open>scale\<close> (\<open>round(v * FEET_TO_METERS)\<close> in
  floating point, an integer or an exception), \<open>category\<close> and \<open>uname\<close> (\<open>unicodedata\<close>) stand for the
  library; the clocks are arguments too. \<open>ud_warnings\<close>, \<open>ud_moves\<close> and \<open>ud_writes\<close> are history variables.
\<close>

section \<open>Cleaning text\<close>

definition backslash :: char where "backslash = CHR 0x5C"
definition quotation :: char where "quotation = CHR 0x22"

definition FIRMWARE_DOUBLED_BACKSLASH :: string where "FIRMWARE_DOUBLED_BACKSLASH = [backslash, backslash]"
definition APRS_ALTERNATE_TABLE :: string where "APRS_ALTERNATE_TABLE = [backslash]"
definition APRS_SYMBOL_FIELDS :: "string list" where "APRS_SYMBOL_FIELDS = [''aprs_symbol'', ''aprs_symbol_group'']"
definition ESCAPABLE_BY_STR_ESC :: "char list" where "ESCAPABLE_BY_STR_ESC = [quotation, backslash]"

definition undouble_field :: "string \<Rightarrow> msgd \<Rightarrow> msgd" where
  "undouble_field field payload =
     (if map_of payload field = Some (JStr FIRMWARE_DOUBLED_BACKSLASH)
      then AList.update field (JStr APRS_ALTERNATE_TABLE) payload else payload)"

definition undouble_aprs_symbol_escapes :: "msgd \<Rightarrow> msgd" where
  "undouble_aprs_symbol_escapes payload = fold undouble_field APRS_SYMBOL_FIELDS payload"

fun unescape_body :: "string \<Rightarrow> string" where
  "unescape_body [] = []"
| "unescape_body [c] = [c]"
| "unescape_body (c # d # s) =
     (if c = backslash \<and> d \<in> set ESCAPABLE_BY_STR_ESC then d # unescape_body s
      else c # unescape_body (d # s))"

definition unescape_firmware_msg_body :: "msgd \<Rightarrow> bool \<times> msgd" where
  "unescape_firmware_msg_body payload =
     (if map_of payload ''type'' \<noteq> Some (JStr ''msg'') then (False, payload)
      else case map_of payload ''msg'' of
          Some (JStr body) \<Rightarrow>
            if backslash \<notin> set body then (False, payload)
            else let unescaped = unescape_body body in
              if unescaped = body then (False, payload)
              else (True, AList.update ''msg'' (JStr unescaped) payload)
        | _ \<Rightarrow> (False, payload))"

definition NON_SCALAR_ALLOWED_FIELDS :: "string list" where "NON_SCALAR_ALLOWED_FIELDS = [''extras'']"

fun json_scalar :: "json \<Rightarrow> bool" where
  "json_scalar (JList xs) = False"
| "json_scalar (JObj kvs) = False"
| "json_scalar _ = True"

definition strip_non_scalar_fields :: "msgd \<Rightarrow> string list \<times> msgd" where
  "strip_non_scalar_fields message =
     (let bad = (\<lambda>(key, value). key \<notin> set NON_SCALAR_ALLOWED_FIELDS \<and> \<not> json_scalar value);
          dropped = map fst (filter bad message)
      in (dropped, filter (\<lambda>(key, value). key \<notin> set dropped) message))"

definition EMOJI_SEQUENCE_GLUE :: "nat list" where "EMOJI_SEQUENCE_GLUE = [0x200D, 0xFE0E, 0xFE0F, 0x20E3]"

definition allowed_letters :: "nat list" where
  "allowed_letters =
    [0xE4, 0xF6, 0xFC, 0xC4, 0xD6, 0xDC, 0xDF, 0xE0, 0xE1, 0xE2, 0xE3, 0xE5, 0x101, 0xE9, 0xE8, 0xEA, 0xEB,
     0x117, 0xEF, 0xEE, 0xED, 0x12B, 0xEC, 0xF4, 0xF2, 0xF3, 0xF5, 0x14D, 0xFB, 0xF9, 0xFA, 0x16B,
     0xC0, 0xC1, 0xC2, 0xC3, 0xC5, 0x100, 0xC9, 0xC8, 0xCA, 0xCB, 0x116, 0xCE, 0xCF, 0xCD, 0x12A, 0xCC,
     0xD4, 0xD2, 0xD3, 0xD5, 0x14C, 0xDC, 0xDB, 0xD9, 0xDA, 0x16A, 0x15B, 0x161, 0x15A, 0x160, 0xFF,
     0xE7, 0x107, 0x10D, 0xF1, 0x144]"

definition is_allowed_char :: "(nat \<Rightarrow> string) \<Rightarrow> (nat \<Rightarrow> string) \<Rightarrow> nat \<Rightarrow> bool" where
  "is_allowed_char category uname codepoint =
     (if codepoint \<in> set allowed_letters then True
      else if codepoint = 0x2070 then True
      else if 0x20 \<le> codepoint \<and> codepoint \<le> 0x5C then True
      else if 0x5D \<le> codepoint \<and> codepoint \<le> 0x7E then True
      else if codepoint \<in> set EMOJI_SEQUENCE_GLUE \<or> (0xE0020 \<le> codepoint \<and> codepoint \<le> 0xE007F) then True
      else if 0xD800 \<le> codepoint \<and> codepoint \<le> 0xDFFF then False
      else if codepoint mod 0x10000 \<in> {0xFFFE, 0xFFFF} then False
      else if (0xE000 \<le> codepoint \<and> codepoint \<le> 0xF8FF) \<or> (0xF0000 \<le> codepoint \<and> codepoint \<le> 0xFFFFD)
           \<or> (0x100000 \<le> codepoint \<and> codepoint \<le> 0x10FFFD) then False
      else startswith (category codepoint) ''S'' \<or> startswith (category codepoint) ''P''
           \<or> contains (uname codepoint) ''EMOJI'')"

definition strip_invalid_utf8 :: "(nat \<Rightarrow> string) \<Rightarrow> (nat \<Rightarrow> string) \<Rightarrow> nat list \<Rightarrow> utext" where
  "strip_invalid_utf8 category uname data = filter (is_allowed_char category uname) (utf8_ignore data)"

definition MAX_JSON_REPAIR_ATTEMPTS :: nat where "MAX_JSON_REPAIR_ATTEMPTS = 10"

fun repair_from :: "(string \<Rightarrow> nat + json) \<Rightarrow> nat \<Rightarrow> string \<Rightarrow> msgd" where
  "repair_from loads 0 s = [(''raw_text'', JStr s), (''error'', JStr ''invalid_json_repair_failed'')]"
| "repair_from loads (Suc n) s =
     (case loads s of
        Inl pos \<Rightarrow>
          if length s \<le> pos then [(''raw_text'', JStr s), (''error'', JStr ''invalid_json_repair_failed'')]
          else repair_from loads n (take pos s @ drop (pos + 1) s)
      | Inr (JObj kvs) \<Rightarrow> kvs
      | Inr _ \<Rightarrow> [(''raw_text'', JStr s), (''error'', JStr ''invalid_json_not_an_object'')])"

definition try_repair_json :: "(string \<Rightarrow> nat + json) \<Rightarrow> string \<Rightarrow> msgd" where
  "try_repair_json loads s = repair_from loads (min (length s) MAX_JSON_REPAIR_ATTEMPTS) s"

section \<open>Delivery-status datagrams\<close>

definition EXTUDP_ACK_MSG_ID_LEN :: nat where "EXTUDP_ACK_MSG_ID_LEN = 8"
definition EXTUDP_ACK_VIA :: "string list" where "EXTUDP_ACK_VIA = [''lora'', ''udp'']"

definition normalize_extudp_ack :: "msgd \<Rightarrow> msgd option" where
  "normalize_extudp_ack message =
     (case dict_get message ''msg_id'' JNull of
        JStr raw \<Rightarrow>
          let msg_id = upper (strip raw) in
          if length msg_id \<noteq> EXTUDP_ACK_MSG_ID_LEN then None
          else (case py_int16 msg_id of
              Inl e \<Rightarrow> None
            | Inr _ \<Rightarrow>
                (case dict_get message ''status'' JNull of
                   JInt status \<Rightarrow>
                     if status \<notin> {0, 1, 2} then None
                     else Some
                       ([(''type'', JStr ''ack''), (''src_type'', JStr ''udp''), (''msg_id'', JStr msg_id),
                         (''ack_type'', JInt status), (''ack_type_text'', JStr (ack_type_text (nat status)))] @
                        (case normalise_ack_callsign (AckJson (dict_get message ''from'' JNull)) of
                           None \<Rightarrow> [] | Some c \<Rightarrow> [(''ack_from'', JStr c)]) @
                        (case dict_get message ''via'' JNull of
                           JStr via \<Rightarrow> if lower via \<in> set EXTUDP_ACK_VIA then [(''ack_via'', JStr (lower via))] else []
                         | _ \<Rightarrow> []))
                 | _ \<Rightarrow> None))
      | _ \<Rightarrow> None)"

section \<open>The source address\<close>

text \<open>\<open>ipaddress.IPv4Address\<close>: four decimal octets without leading zeros.\<close>

definition ipv4_octet :: "string \<Rightarrow> nat option" where
  "ipv4_octet s =
     (if s = [] \<or> \<not> list_all ascii_digit s \<or> 3 < length s \<or> (s \<noteq> ''0'' \<and> hd s = CHR ''0'') \<or> 255 < dec_val s
      then None else Some (nat (dec_val s)))"

definition ipv4_parse :: "string \<Rightarrow> (nat \<times> nat \<times> nat \<times> nat) option" where
  "ipv4_parse s =
     (case map ipv4_octet (split_on (CHR ''.'') s) of
        [Some a, Some b, Some c, Some d] \<Rightarrow> Some (a, b, c, d)
      | _ \<Rightarrow> None)"

text \<open>\<open>is_private\<close> lists the blocks that are not globally reachable.\<close>

fun ipv4_is_private :: "nat \<times> nat \<times> nat \<times> nat \<Rightarrow> bool" where
  "ipv4_is_private (a, b, c, d) =
     ((a = 0 \<or> a = 10 \<or> a = 127 \<or> (a = 169 \<and> b = 254) \<or> (a = 172 \<and> 16 \<le> b \<and> b \<le> 31) \<or>
       (a = 192 \<and> b = 0 \<and> c = 0) \<or> (a = 192 \<and> b = 0 \<and> c = 2) \<or> (a = 192 \<and> b = 168) \<or>
       (a = 198 \<and> (b = 18 \<or> b = 19)) \<or> (a = 198 \<and> b = 51 \<and> c = 100) \<or> (a = 203 \<and> b = 0 \<and> c = 113) \<or> 240 \<le> a)
      \<and> (a, b, c, d) \<notin> {(192, 0, 0, 9), (192, 0, 0, 10)})"

definition is_trusted_node_source :: "string \<Rightarrow> bool" where
  "is_trusted_node_source ip_str =
     (if CHR ''.'' \<notin> set ip_str then False
      else case ipv4_parse ip_str of
          None \<Rightarrow> False
        | Some (a, b, c, d) \<Rightarrow> ipv4_is_private (a, b, c, d) \<and> \<not> a = 127)"

section \<open>State\<close>

definition MAX_TRACKED_SOURCE_IPS :: nat where "MAX_TRACKED_SOURCE_IPS = 8"
definition TARGET_CHANGE_COOLDOWN_S :: time where "TARGET_CHANGE_COOLDOWN_S = 60"

datatype target_kind = TkConfig | TkFirstSeen | TkIdentified

datatype udp_warning =
    WUntrusted string | WUntrustedCap | WKnownCap | WUnexpected string | WContested | WNonScalar string
  | WMalformed | WBadOctet | WNotIPv4

record udp_state =
  ud_target :: string
  ud_kind :: target_kind
  ud_known :: "string list"
  ud_known_cap :: bool
  ud_untrusted :: "string list"
  ud_untrusted_cap :: bool
  ud_non_scalar :: "string list"
  ud_last_change :: "time option"
  ud_suppressed :: nat
  ud_flap_warned :: bool
  ud_persist :: bool
  ud_socket_open :: bool
  ud_warnings :: "udp_warning list"
  ud_moves :: "(time \<times> target_kind \<times> target_kind) list"
  ud_writes :: "string list"

definition udp_init :: "string \<Rightarrow> bool \<Rightarrow> udp_state" where
  "udp_init target_host persist =
     \<lparr>ud_target = target_host, ud_kind = TkConfig, ud_known = [], ud_known_cap = False,
      ud_untrusted = [], ud_untrusted_cap = False, ud_non_scalar = [], ud_last_change = None,
      ud_suppressed = 0, ud_flap_warned = False, ud_persist = persist, ud_socket_open = True,
      ud_warnings = [], ud_moves = [], ud_writes = []\<rparr>"

definition warn :: "udp_warning \<Rightarrow> udp_state \<Rightarrow> udp_state" where
  "warn w st = st\<lparr>ud_warnings := ud_warnings st @ [w]\<rparr>"

section \<open>Learning the target\<close>

definition record_seen_source_ip :: "string \<Rightarrow> udp_state \<Rightarrow> bool \<times> udp_state" where
  "record_seen_source_ip ip_str st =
     (if ip_str \<in> set (ud_known st) then (False, st)
      else if MAX_TRACKED_SOURCE_IPS \<le> length (ud_known st)
      then (False, if ud_known_cap st then st else warn WKnownCap (st\<lparr>ud_known_cap := True\<rparr>))
      else (True, st\<lparr>ud_known := ud_known st @ [ip_str]\<rparr>))"

definition note_untrusted_source :: "string \<Rightarrow> udp_state \<Rightarrow> udp_state" where
  "note_untrusted_source ip_str st =
     (if ip_str \<in> set (ud_untrusted st) then st
      else if MAX_TRACKED_SOURCE_IPS \<le> length (ud_untrusted st)
      then (if ud_untrusted_cap st then st else warn WUntrustedCap (st\<lparr>ud_untrusted_cap := True\<rparr>))
      else warn (WUntrusted ip_str) (st\<lparr>ud_untrusted := ud_untrusted st @ [ip_str]\<rparr>))"

definition persist_learned_target :: "string \<Rightarrow> udp_state \<Rightarrow> udp_state" where
  "persist_learned_target ip_str st =
     (if ud_persist st then st\<lparr>ud_writes := ud_writes st @ [ip_str]\<rparr> else st)"

definition adopt_target :: "string \<Rightarrow> target_kind \<Rightarrow> time \<Rightarrow> udp_state \<Rightarrow> udp_state" where
  "adopt_target ip_str kind now_s st =
     (if ip_str = ud_target st then st\<lparr>ud_kind := kind\<rparr>
      else if ud_kind st = TkIdentified \<and> kind = TkIdentified \<and>
         (case ud_last_change st of None \<Rightarrow> False | Some last_change \<Rightarrow> now_s - last_change < TARGET_CHANGE_COOLDOWN_S)
      then
        let st1 = st\<lparr>ud_suppressed := ud_suppressed st + 1\<rparr> in
        if ud_flap_warned st1 then st1 else warn WContested (st1\<lparr>ud_flap_warned := True\<rparr>)
      else
        persist_learned_target ip_str
          (st\<lparr>ud_target := ip_str, ud_kind := kind, ud_last_change := Some now_s,
              ud_moves := ud_moves st @ [(now_s, ud_kind st, kind)]\<rparr>))"

definition learn_target_from_source :: "string option \<Rightarrow> string \<Rightarrow> json \<Rightarrow> time \<Rightarrow> udp_state \<Rightarrow> udp_state" where
  "learn_target_from_source my_callsign ip_str src now_s st =
     (if \<not> is_trusted_node_source ip_str then note_untrusted_source ip_str st
      else
        let (is_new_ip, st1) = record_seen_source_ip ip_str st;
            identified = (case src of JStr s \<Rightarrow> Some (strip_relay_path s) = my_callsign | _ \<Rightarrow> False)
        in if identified then adopt_target ip_str TkIdentified now_s st1
           else if ud_kind st1 = TkConfig then adopt_target ip_str TkFirstSeen now_s st1
           else if ip_str \<noteq> ud_target st1 \<and> is_new_ip then warn (WUnexpected ip_str) st1
           else st1)"

definition reject_non_scalar_fields :: "msgd \<Rightarrow> string \<Rightarrow> udp_state \<Rightarrow> msgd \<times> udp_state" where
  "reject_non_scalar_fields message ip_str st =
     (let (dropped, message') = strip_non_scalar_fields message in
      (message',
       if dropped = [] then st
       else if ip_str \<in> set (ud_non_scalar st) then st
       else if MAX_TRACKED_SOURCE_IPS \<le> length (ud_non_scalar st) then st
       else warn (WNonScalar ip_str) (st\<lparr>ud_non_scalar := ud_non_scalar st @ [ip_str]\<rparr>)))"

section \<open>One datagram\<close>

definition normalize_altitude_to_meters :: "(json \<Rightarrow> int res) \<Rightarrow> msgd \<Rightarrow> msgd res" where
  "normalize_altitude_to_meters scale message =
     (if truthy (dict_get message ''alt'' JNull)
      then bind_res (scale (dict_get message ''alt'' JNull)) (\<lambda>m. Inr (AList.update ''alt'' (JInt m) message))
      else Inr message)"

text \<open>Telemetry without a source gets a name made of the last octet; None where it is dropped.\<close>

definition pseudo_source :: "string \<Rightarrow> udp_state \<Rightarrow> string option \<times> udp_state" where
  "pseudo_source ip_str st =
     (if CHR ''.'' \<in> set ip_str then
        (case py_int (last (split_on (CHR ''.'') ip_str)) of
           Inl e \<Rightarrow> (None, st)
         | Inr last_octet \<Rightarrow>
             if 0 \<le> last_octet \<and> last_octet \<le> 255 then (Some (''NODE-'' @ int_str last_octet), st)
             else (None, warn WBadOctet st))
      else (None, warn WNotIPv4 st))"

definition log_non_chat_frame :: "msgd \<Rightarrow> udp_state \<Rightarrow> udp_state" where
  "log_non_chat_frame message st = (if truthy (dict_get message ''error'' JNull) then warn WMalformed st else st)"

definition handle_non_chat_frame :: "msgd \<Rightarrow> int \<Rightarrow> udp_state \<Rightarrow> udp_state \<times> msgd list" where
  "handle_non_chat_frame message now_ms st =
     (if map_of message ''type'' \<noteq> Some (JStr ''ack'') then (log_non_chat_frame message st, [])
      else case normalize_extudp_ack message of
          None \<Rightarrow> (st, [])
        | Some ack \<Rightarrow> (st, [AList.update ''timestamp'' (JInt now_ms) ack]))"

definition handle_telemetry :: "(json \<Rightarrow> int res) \<Rightarrow> msgd \<Rightarrow> string \<Rightarrow> int \<Rightarrow> udp_state \<Rightarrow> udp_state \<times> msgd list res" where
  "handle_telemetry scale message ip_str now_ms st =
     (case normalize_altitude_to_meters scale (AList.update ''timestamp'' (JInt now_ms) message) of
        Inl e \<Rightarrow> (st, Inl e)
      | Inr m \<Rightarrow>
          if truthy (dict_get m ''src'' JNull) then (st, Inr [m])
          else (case pseudo_source ip_str st of
              (None, st') \<Rightarrow> (st', Inr [])
            | (Some src, st') \<Rightarrow> (st', Inr [AList.update ''src'' (JStr src) m])))"

definition handle_chat :: "(json \<Rightarrow> int res) \<Rightarrow> msgd \<Rightarrow> int \<Rightarrow> msgd list res" where
  "handle_chat scale message now_ms =
     bind_res (normalize_altitude_to_meters scale (AList.update ''timestamp'' (JInt now_ms) message)) (\<lambda>m.
       Inr (case map_of m ''msg'' of Some (JStr body) \<Rightarrow> [m] | _ \<Rightarrow> []))"

definition process_received_message ::
  "(json \<Rightarrow> int res) \<Rightarrow> string option \<Rightarrow> msgd \<Rightarrow> string \<Rightarrow> time \<Rightarrow> int \<Rightarrow> udp_state \<Rightarrow> udp_state \<times> msgd list res" where
  "process_received_message scale my_callsign message ip_str now_s now_ms st =
     (let st1 = learn_target_from_source my_callsign ip_str (dict_get message ''src'' JNull) now_s st in
      if message = [] then (st1, Inr [])
      else
        let (m, st2) = reject_non_scalar_fields
              (snd (unescape_firmware_msg_body (undouble_aprs_symbol_escapes message))) ip_str st1
        in if \<not> in_dict ''msg'' m then
             (if map_of m ''type'' = Some (JStr ''tele'') then handle_telemetry scale m ip_str now_ms st2
              else let (st3, out) = handle_non_chat_frame m now_ms st2 in (st3, Inr out))
           else (st2, handle_chat scale m now_ms))"

section \<open>Sending\<close>

definition UDP_MAX_DST_LEN :: nat where "UDP_MAX_DST_LEN = 9"
definition UDP_MAX_MSG_BYTES :: nat where "UDP_MAX_MSG_BYTES = 150"
definition UDP_WIRE_FRAME_OVERHEAD_BYTES :: nat where "UDP_WIRE_FRAME_OVERHEAD_BYTES = 3"
definition UDP_MAX_WIRE_FRAME_BYTES :: nat where "UDP_MAX_WIRE_FRAME_BYTES = 159"

datatype wire_violation = DstLength nat | MsgBytes nat | FrameBytes nat

definition dst_msg_wire_violation :: "json \<Rightarrow> json \<Rightarrow> wire_violation option" where
  "dst_msg_wire_violation dst msg =
     (let dst_str = str_or [] dst; msg_str = str_or [] msg; dst_len = length dst_str in
      if dst_len = 0 \<or> UDP_MAX_DST_LEN < dst_len then Some (DstLength dst_len)
      else let msg_bytes = byte_len (utext msg_str) in
        if msg_bytes = 0 \<or> UDP_MAX_MSG_BYTES < msg_bytes then Some (MsgBytes msg_bytes)
        else let frame_bytes = UDP_WIRE_FRAME_OVERHEAD_BYTES + byte_len (utext dst_str) + msg_bytes in
          if UDP_MAX_WIRE_FRAME_BYTES < frame_bytes then Some (FrameBytes frame_bytes) else None)"

definition ensure_send_socket :: "udp_state \<Rightarrow> udp_state" where
  "ensure_send_socket st = (if ud_socket_open st then st else st\<lparr>ud_socket_open := True\<rparr>)"

definition stop_listening :: "udp_state \<Rightarrow> udp_state" where
  "stop_listening st = st\<lparr>ud_socket_open := False\<rparr>"

text \<open>The datagram that leaves and its destination, or the exception; \<open>delivered\<close> says whether \<open>sendto\<close> raises.\<close>

definition udp_send_message :: "bool \<Rightarrow> msgd \<Rightarrow> udp_state \<Rightarrow> (msgd \<times> string) res \<times> udp_state" where
  "udp_send_message delivered message_data st =
     (case dst_msg_wire_violation (dict_get message_data ''dst'' JNull) (dict_get message_data ''msg'' JNull) of
        Some v \<Rightarrow> (Inl ValueError, st)
      | None \<Rightarrow>
          let st1 = ensure_send_socket st in
          ((if delivered then Inr (message_data, ud_target st1) else Inl OSError), st1))"

section \<open>The message body\<close>

text \<open>
  The firmware's \<open>strEsc\<close>, as documented: a backslash in front of every quotation mark and every
  backslash.
\<close>

fun str_esc :: "string \<Rightarrow> string" where
  "str_esc [] = []"
| "str_esc (c # s) = (if c \<in> set ESCAPABLE_BY_STR_ESC then backslash # c # str_esc s else c # str_esc s)"

lemma unescape_body_plain: "c \<noteq> backslash \<Longrightarrow> unescape_body (c # s) = c # unescape_body s"
  by (cases s) simp_all

lemma unescape_str_esc: "unescape_body (str_esc s) = s"
  by (induction s) (auto simp: unescape_body_plain ESCAPABLE_BY_STR_ESC_def)

lemma update_same: "map_of d k = Some v \<Longrightarrow> AList.update k v d = d"
  by (induction d) (auto split: if_splits)

lemma unescape_body_id: "backslash \<notin> set s \<Longrightarrow> unescape_body s = s"
proof (induction s)
  case (Cons c s)
  then show ?case using unescape_body_plain[of c s] by auto
qed simp

text \<open>The firmware escapes every quotation mark and backslash of a typed text; the receiving side gives back
  exactly the typed text, whatever it contains.\<close>

theorem message_body_restored:
  assumes "map_of payload ''type'' = Some (JStr ''msg'')" and "map_of payload ''msg'' = Some (JStr (str_esc typed))"
  shows "snd (unescape_firmware_msg_body payload) = AList.update ''msg'' (JStr typed) payload"
  using assms unescape_str_esc[of typed] unescape_body_id[of "str_esc typed"]
  by (auto simp: unescape_firmware_msg_body_def Let_def update_same)

lemma message_body_restored_witness:
  "snd (unescape_firmware_msg_body
      [(''type'', JStr ''msg''), (''msg'', JStr [backslash, quotation, CHR ''a'', backslash, backslash])]) =
    [(''type'', JStr ''msg''), (''msg'', JStr [quotation, CHR ''a'', backslash])]"
  using message_body_restored[of "[(''type'', JStr ''msg''), (''msg'', JStr [backslash, quotation, CHR ''a'', backslash, backslash])]"
      "[quotation, CHR ''a'', backslash]"]
  by (simp add: ESCAPABLE_BY_STR_ESC_def backslash_def quotation_def)

section \<open>What is published\<close>

definition flat :: "msgd \<Rightarrow> bool" where
  "flat m \<longleftrightarrow> list_all (\<lambda>(k, v). k \<in> set NON_SCALAR_ALLOWED_FIELDS \<or> json_scalar v) m"

definition published_ok :: "msgd \<Rightarrow> bool" where
  "published_ok m \<longleftrightarrow> flat m \<and> (\<exists>t. map_of m ''timestamp'' = Some (JInt t)) \<and>
     ((\<exists>body. map_of m ''msg'' = Some (JStr body)) \<or>
      (map_of m ''type'' = Some (JStr ''tele'') \<and> truthy (dict_get m ''src'' JNull)) \<or>
      map_of m ''type'' = Some (JStr ''ack''))"

lemma flat_update: "flat m \<Longrightarrow> json_scalar v \<Longrightarrow> flat (AList.update k v m)"
  unfolding flat_def by (rule list_all_update) auto

lemma flat_append [simp]: "flat (m @ m') \<longleftrightarrow> flat m \<and> flat m'"
  by (simp add: flat_def)

lemma flat_stripped: "flat (snd (strip_non_scalar_fields m))"
  by (force simp: flat_def strip_non_scalar_fields_def Let_def list_all_iff)

lemma normalize_extudp_ack_ok:
  assumes "normalize_extudp_ack m = Some ack"
  shows "flat ack" "map_of ack ''type'' = Some (JStr ''ack'')"
  using assms
  by (auto simp: normalize_extudp_ack_def flat_def Let_def split: json.splits if_splits sum.splits option.splits)

lemma normalize_altitude_ok:
  assumes "normalize_altitude_to_meters scale m = Inr m'" "flat m"
  shows "flat m'" "k \<noteq> ''alt'' \<Longrightarrow> map_of m' k = map_of m k"
  using assms by (auto simp: normalize_altitude_to_meters_def intro!: flat_update split: if_splits)


lemma pseudo_source_nonempty: "pseudo_source ip st = (Some s, st') \<Longrightarrow> s \<noteq> []"
  by (auto simp: pseudo_source_def split: if_splits sum.splits)

lemma handle_telemetry_ok:
  assumes "handle_telemetry scale m ip now_ms st = (st', Inr out)" "flat m" "map_of m ''type'' = Some (JStr ''tele'')"
  shows "list_all published_ok out"
proof -
  obtain m' where m': "normalize_altitude_to_meters scale (AList.update ''timestamp'' (JInt now_ms) m) = Inr m'"
    using assms(1) by (auto simp: handle_telemetry_def split: sum.splits)
  have f: "flat m'" and t: "map_of m' ''timestamp'' = Some (JInt now_ms)" "map_of m' ''type'' = Some (JStr ''tele'')"
    using normalize_altitude_ok[OF m'] assms(2,3) by (simp_all add: flat_update)
  show ?thesis using assms(1) f t
    by (auto simp: handle_telemetry_def m' published_ok_def flat_update dest: pseudo_source_nonempty
      split: if_splits option.splits prod.splits)
qed

lemma handle_chat_ok:
  assumes "handle_chat scale m now_ms = Inr out" "flat m"
  shows "list_all published_ok out"
proof -
  obtain m' where m': "normalize_altitude_to_meters scale (AList.update ''timestamp'' (JInt now_ms) m) = Inr m'"
    and out: "out = (case map_of m' ''msg'' of Some (JStr body) \<Rightarrow> [m'] | _ \<Rightarrow> [])"
    using assms(1) by (auto simp: handle_chat_def)
  have f: "flat m'" and t: "map_of m' ''timestamp'' = Some (JInt now_ms)"
    using normalize_altitude_ok[OF m'] assms(2) by (simp_all add: flat_update)
  show ?thesis using f t by (auto simp: out published_ok_def split: option.splits json.splits)
qed

lemma handle_non_chat_ok:
  "list_all published_ok (snd (handle_non_chat_frame m now_ms st))"
  using normalize_extudp_ack_ok
  by (auto simp: handle_non_chat_frame_def published_ok_def flat_update split: option.splits)

text \<open>C19: Whatever datagram arrives, everything published for it is flat (no nested value outside the allowed
  field), carries an integer timestamp, and is a chat frame with a text body, telemetry with a
  source, or a delivery status.\<close>

theorem published_is_flat:
  assumes "process_received_message scale my message ip now_s now_ms st = (st', Inr out)"
  shows "list_all published_ok out"
proof (cases "message = []")
  case True
  then show ?thesis using assms by (auto simp: process_received_message_def Let_def)
next
  case False
  define m0 where "m0 = snd (unescape_firmware_msg_body (undouble_aprs_symbol_escapes message))"
  define m where "m = snd (strip_non_scalar_fields m0)"
  define s1 where "s1 = learn_target_from_source my ip (dict_get message ''src'' JNull) now_s st"
  obtain s2 where r: "reject_non_scalar_fields m0 ip s1 = (m, s2)"
    by (simp add: reject_non_scalar_fields_def m_def case_prod_beta)
  have f: "flat m" by (simp add: m_def flat_stripped)
  have e: "process_received_message scale my message ip now_s now_ms st =
     (if \<not> in_dict ''msg'' m then
        (if map_of m ''type'' = Some (JStr ''tele'') then handle_telemetry scale m ip now_ms s2
         else let (st3, out) = handle_non_chat_frame m now_ms s2 in (st3, Inr out))
      else (s2, handle_chat scale m now_ms))"
    using False by (simp add: process_received_message_def Let_def r[unfolded m0_def s1_def])
  have n: "list_all published_ok (snd (handle_non_chat_frame m now_ms s2))" by (rule handle_non_chat_ok)
  show ?thesis
    using assms f n handle_telemetry_ok[of scale m ip now_ms s2 st' out] handle_chat_ok[of scale m now_ms out]
    unfolding e by (auto split: if_splits prod.splits)
qed

lemma published_is_flat_witness:
  "list_all published_ok [[(''type'', JStr ''msg''), (''msg'', JStr ''hi''), (''timestamp'', JInt 7)]]"
proof -
  have "process_received_message (\<lambda>v. Inl TypeError) None
      [(''type'', JStr ''msg''), (''x'', JList []), (''msg'', JStr ''hi'')] ''8.8.8.8'' 0 7 (udp_init ''node'' True) =
    (fst (process_received_message (\<lambda>v. Inl TypeError) None
      [(''type'', JStr ''msg''), (''x'', JList []), (''msg'', JStr ''hi'')] ''8.8.8.8'' 0 7 (udp_init ''node'' True)),
     Inr [[(''type'', JStr ''msg''), (''msg'', JStr ''hi''), (''timestamp'', JInt 7)]])"
    by code_simp
  then show ?thesis by (rule published_is_flat)
qed


section \<open>The target\<close>

text \<open>A run of datagrams: own callsign, message, source address, monotonic and wall time.\<close>

type_synonym datagram = "string option \<times> msgd \<times> string \<times> time \<times> int"

fun udp_run :: "(json \<Rightarrow> int res) \<Rightarrow> datagram list \<Rightarrow> udp_state \<Rightarrow> udp_state" where
  "udp_run scale [] st = st"
| "udp_run scale ((my, message, ip, now_s, now_ms) # ds) st =
     udp_run scale ds (fst (process_received_message scale my message ip now_s now_ms st))"

definition identifies :: "string option \<Rightarrow> msgd \<Rightarrow> bool" where
  "identifies my message \<longleftrightarrow>
     (case dict_get message ''src'' JNull of JStr s \<Rightarrow> Some (strip_relay_path s) = my | _ \<Rightarrow> False)"

lemma warn_fields [simp]:
  "ud_target (warn w st) = ud_target st" "ud_kind (warn w st) = ud_kind st"
  "ud_last_change (warn w st) = ud_last_change st" "ud_moves (warn w st) = ud_moves st"
  "ud_known (warn w st) = ud_known st" "ud_untrusted (warn w st) = ud_untrusted st"
  "ud_non_scalar (warn w st) = ud_non_scalar st" "ud_known_cap (warn w st) = ud_known_cap st"
  "ud_untrusted_cap (warn w st) = ud_untrusted_cap st" "ud_flap_warned (warn w st) = ud_flap_warned st"
  "ud_writes (warn w st) = ud_writes st" "ud_warnings (warn w st) = ud_warnings st @ [w]"
  "ud_persist (warn w st) = ud_persist st"
  by (simp_all add: warn_def)

text \<open>What follows the learning step leaves the target alone.\<close>

definition same_target :: "udp_state \<Rightarrow> udp_state \<Rightarrow> bool" where
  "same_target s t \<longleftrightarrow> ud_target t = ud_target s \<and> ud_kind t = ud_kind s \<and>
     ud_last_change t = ud_last_change s \<and> ud_moves t = ud_moves s \<and> ud_writes t = ud_writes s \<and> ud_persist t = ud_persist s"

lemma same_target_refl [simp]: "same_target s s"
  by (simp add: same_target_def)

lemma same_target_warn [simp]: "same_target s (warn w t) = same_target s t"
  by (simp add: same_target_def)

lemma same_target_reject: "same_target st (snd (reject_non_scalar_fields m ip st))"
  by (auto simp: reject_non_scalar_fields_def same_target_def split: prod.splits)

lemma same_target_telemetry: "same_target st (fst (handle_telemetry scale m ip now_ms st))"
  by (auto simp: handle_telemetry_def pseudo_source_def split: sum.splits option.splits prod.splits)

lemma same_target_non_chat: "same_target st (fst (handle_non_chat_frame m now_ms st))"
  by (auto simp: handle_non_chat_frame_def log_non_chat_frame_def split: option.splits)

lemma same_target_trans: "same_target r s \<Longrightarrow> same_target s t \<Longrightarrow> same_target r t"
  by (simp add: same_target_def)

lemma process_same_target:
  "same_target (learn_target_from_source my ip (dict_get message ''src'' JNull) now_s st)
     (fst (process_received_message scale my message ip now_s now_ms st))"
proof -
  define s1 where "s1 = learn_target_from_source my ip (dict_get message ''src'' JNull) now_s st"
  obtain m s2 where r: "reject_non_scalar_fields
      (snd (unescape_firmware_msg_body (undouble_aprs_symbol_escapes message))) ip s1 = (m, s2)"
    by (metis prod.exhaust)
  have a: "same_target s1 s2" using same_target_reject[of s1] r by (metis snd_conv)
  have "same_target s2 (fst (handle_telemetry scale m ip now_ms s2))"
    "same_target s2 (fst (handle_non_chat_frame m now_ms s2))"
    by (rule same_target_telemetry, rule same_target_non_chat)
  with a show ?thesis
    unfolding s1_def[symmetric]
    by (auto simp: process_received_message_def Let_def r[unfolded s1_def] s1_def
        intro: same_target_trans split: prod.splits)
qed

lemma record_seen_same: "same_target st (snd (record_seen_source_ip ip st))"
  by (auto simp: record_seen_source_ip_def) (simp_all add: same_target_def)

lemma note_untrusted_same: "same_target st (note_untrusted_source ip st)"
  by (auto simp: note_untrusted_source_def) (simp_all add: same_target_def)

text \<open>The learning step: not, or \<open>adopt_target\<close> on a state with the same target.\<close>

lemma learn_cases:
  obtains "same_target st (learn_target_from_source my ip src now_s st)"
  | s1 kind where "same_target st s1" "is_trusted_node_source ip"
      "learn_target_from_source my ip src now_s st = adopt_target ip kind now_s s1"
      "kind = TkIdentified \<and> (case src of JStr s \<Rightarrow> Some (strip_relay_path s) = my | _ \<Rightarrow> False) \<or>
       kind = TkFirstSeen \<and> ud_kind st = TkConfig"
proof -
  obtain n s1 where r: "record_seen_source_ip ip st = (n, s1)" by (metis prod.exhaust)
  have s1: "same_target st s1" using record_seen_same[of st ip] r by simp
  then have k: "ud_kind s1 = ud_kind st" by (simp add: same_target_def)
  show ?thesis
  proof (cases "is_trusted_node_source ip")
    case False
    then show ?thesis using that(1) by (simp add: learn_target_from_source_def note_untrusted_same)
  next
    case True
    show ?thesis
    proof (cases "case src of JStr s \<Rightarrow> Some (strip_relay_path s) = my | _ \<Rightarrow> False")
      case i: True
      then show ?thesis using that(2)[OF s1 True, of TkIdentified] True
        by (simp add: learn_target_from_source_def r)
    next
      case i: False
      show ?thesis
      proof (cases "ud_kind st = TkConfig")
        case c: True
        then show ?thesis using that(2)[OF s1 True, of TkFirstSeen] True i k
          by (simp add: learn_target_from_source_def r)
      next
        case False
        then have "same_target st (learn_target_from_source my ip src now_s st)"
          using True i k s1 by (simp add: learn_target_from_source_def r)
        then show ?thesis by (rule that(1))
      qed
    qed
  qed
qed

text \<open>C17: Once a target has been adopted, no sequence of datagrams moves it unless one of them comes from a
  trusted address and names the proxy's own callsign as its source.\<close>

theorem locked_target_kept:
  assumes "ud_kind st \<noteq> TkConfig"
    and "\<forall>(my, message, ip, now_s, now_ms) \<in> set ds. \<not> (is_trusted_node_source ip \<and> identifies my message)"
  shows "ud_target (udp_run scale ds st) = ud_target st"
  using assms
proof (induction ds arbitrary: st)
  case (Cons d ds)
  obtain my message ip now_s now_ms where d: "d = (my, message, ip, now_s, now_ms)" by (cases d)
  define s1 where "s1 = learn_target_from_source my ip (dict_get message ''src'' JNull) now_s st"
  define s2 where "s2 = fst (process_received_message scale my message ip now_s now_ms st)"
  have "same_target st s1"
    using Cons.prems d unfolding s1_def
    by (cases rule: learn_cases[of st my ip "dict_get message ''src'' JNull" now_s]) (auto simp: identifies_def)
  then have "same_target st s2"
    using process_same_target[of my ip message now_s st scale now_ms] same_target_trans
    unfolding s1_def s2_def by blast
  then show ?case using Cons.IH[of s2] Cons.prems d by (simp add: s2_def[symmetric] same_target_def)
qed simp

lemma locked_target_kept_witness:
  "ud_target (udp_run (\<lambda>v. Inl TypeError)
     [(Some ''DK5EN-1'', [(''src'', JStr ''DL1ABC-1'')], ''192.168.1.9'', 1, 1),
      (Some ''DK5EN-1'', [(''src'', JStr ''DK5EN-1'')], ''8.8.8.8'', 2, 2)]
     (udp_init ''192.168.1.5'' True\<lparr>ud_kind := TkIdentified\<rparr>)) = ''192.168.1.5''"
proof -
  have "ud_target (udp_run (\<lambda>v. Inl TypeError)
     [(Some ''DK5EN-1'', [(''src'', JStr ''DL1ABC-1'')], ''192.168.1.9'', 1, 1),
      (Some ''DK5EN-1'', [(''src'', JStr ''DK5EN-1'')], ''8.8.8.8'', 2, 2)]
     (udp_init ''192.168.1.5'' True\<lparr>ud_kind := TkIdentified\<rparr>)) =
    ud_target (udp_init ''192.168.1.5'' True\<lparr>ud_kind := TkIdentified\<rparr>)"
    by (rule locked_target_kept) (simp_all add: udp_init_def, code_simp)
  then show ?thesis by (simp add: udp_init_def)
qed

text \<open>Every target in use is the configured one or a trusted address that sent a datagram.\<close>

lemma target_provenance:
  "ud_target (udp_run scale ds st) \<in>
     insert (ud_target st) {ip. is_trusted_node_source ip \<and> ip \<in> (fst \<circ> snd \<circ> snd) ` set ds}"
proof (induction ds arbitrary: st)
  case (Cons d ds)
  obtain my message ip now_s now_ms where d: "d = (my, message, ip, now_s, now_ms)" by (cases d)
  define s1 where "s1 = learn_target_from_source my ip (dict_get message ''src'' JNull) now_s st"
  have "ud_target s1 = ud_target st \<or> ud_target s1 = ip \<and> is_trusted_node_source ip"
    unfolding s1_def
    by (cases rule: learn_cases[of st my ip "dict_get message ''src'' JNull" now_s])
      (auto simp: same_target_def adopt_target_def persist_learned_target_def Let_def)
  moreover have "ud_target (fst (process_received_message scale my message ip now_s now_ms st)) = ud_target s1"
    using process_same_target[of my ip message now_s st scale now_ms] by (simp add: s1_def same_target_def)
  ultimately show ?case
    using Cons[of "fst (process_received_message scale my message ip now_s now_ms st)"] by (auto simp: d image_iff)
qed simp

text \<open>The moves of the target, against the time that has passed since \<open>t0\<close>.\<close>

definition moves_ok :: "time \<Rightarrow> time \<Rightarrow> udp_state \<Rightarrow> bool" where
  "moves_ok t0 now st \<longleftrightarrow>
     (case ud_last_change st of
        None \<Rightarrow> ud_moves st = []
      | Some lc \<Rightarrow> t0 \<le> lc \<and> lc \<le> now \<and>
          of_nat (length (ud_moves st)) \<le> 2 + (lc - t0) / TARGET_CHANGE_COOLDOWN_S) \<and>
     (ud_kind st = TkConfig \<longrightarrow> ud_moves st = []) \<and>
     (ud_kind st = TkFirstSeen \<longrightarrow> length (ud_moves st) \<le> 1) \<and>
     length (ud_writes st) = (if ud_persist st then length (ud_moves st) else 0)"

lemma moves_ok_same: "same_target s t \<Longrightarrow> moves_ok t0 now t = moves_ok t0 now s"
  by (cases "ud_last_change s") (simp_all add: same_target_def moves_ok_def)

lemma moves_ok_later: "moves_ok t0 now st \<Longrightarrow> now \<le> now' \<Longrightarrow> moves_ok t0 now' st"
  by (auto simp: moves_ok_def split: option.splits)

lemma moves_ok_adopt:
  assumes "moves_ok t0 now st" "t0 \<le> now" "kind = TkIdentified \<or> kind = TkFirstSeen \<and> ud_kind st = TkConfig"
  shows "moves_ok t0 now (adopt_target ip kind now st)"
proof -
  let ?move = "ip \<noteq> ud_target st \<and> \<not> (ud_kind st = TkIdentified \<and> kind = TkIdentified \<and>
     (case ud_last_change st of None \<Rightarrow> False | Some lc \<Rightarrow> now - lc < TARGET_CHANGE_COOLDOWN_S))"
  show ?thesis
  proof (cases ?move)
    case False
    then show ?thesis using assms by (auto simp: adopt_target_def moves_ok_def Let_def split: option.splits)
  next
    case True
    have few: "of_nat (length (ud_moves st)) \<le> 1 + (now - t0) / TARGET_CHANGE_COOLDOWN_S"
    proof (cases "ud_kind st = TkIdentified")
      case False
      then have "length (ud_moves st) \<le> 1" using assms(1) by (cases "ud_kind st") (auto simp: moves_ok_def)
      then have "of_nat (length (ud_moves st)) \<le> (1::rat)" by (metis of_nat_1 of_nat_le_iff)
      moreover have "0 \<le> (now - t0) / TARGET_CHANGE_COOLDOWN_S"
        using assms(2) by (simp add: TARGET_CHANGE_COOLDOWN_S_def)
      ultimately show ?thesis by linarith
    next
      case i: True
      then have k: "kind = TkIdentified" using assms(3) by auto
      show ?thesis
      proof (cases "ud_last_change st")
        case None
        then show ?thesis using assms(1,2) by (simp add: moves_ok_def TARGET_CHANGE_COOLDOWN_S_def)
      next
        case (Some lc)
        then have "60 \<le> now - lc" using True i k by (simp add: TARGET_CHANGE_COOLDOWN_S_def)
        moreover have "of_nat (length (ud_moves st)) \<le> 2 + (lc - t0) / 60"
          using assms(1) Some by (simp add: moves_ok_def TARGET_CHANGE_COOLDOWN_S_def)
        ultimately show ?thesis by (simp add: TARGET_CHANGE_COOLDOWN_S_def field_simps)
      qed
    qed
    have "adopt_target ip kind now st = persist_learned_target ip
        (st\<lparr>ud_target := ip, ud_kind := kind, ud_last_change := Some now,
            ud_moves := ud_moves st @ [(now, ud_kind st, kind)]\<rparr>)"
      using True by (auto simp: adopt_target_def)
    moreover have "kind = TkFirstSeen \<Longrightarrow> ud_moves st = []" using assms(1,3) by (auto simp: moves_ok_def)
    ultimately show ?thesis
      using few assms by (auto simp: moves_ok_def persist_learned_target_def)
  qed
qed


lemma moves_ok_process:
  assumes "moves_ok t0 now st" "t0 \<le> now" "now \<le> now_s"
  shows "moves_ok t0 now_s (fst (process_received_message scale my message ip now_s now_ms st))"
proof -
  define s1 where "s1 = learn_target_from_source my ip (dict_get message ''src'' JNull) now_s st"
  have later: "moves_ok t0 now_s st" by (rule moves_ok_later[OF assms(1,3)])
  have "moves_ok t0 now_s s1"
    unfolding s1_def
  proof (cases rule: learn_cases[of st my ip "dict_get message ''src'' JNull" now_s])
    case 1
    then show "moves_ok t0 now_s (learn_target_from_source my ip (dict_get message ''src'' JNull) now_s st)"
      using later moves_ok_same by blast
  next
    case (2 s kind)
    then have k: "ud_kind s = ud_kind st" by (simp add: same_target_def)
    have "moves_ok t0 now_s (adopt_target ip kind now_s s)"
      by (rule moves_ok_adopt) (use 2 later moves_ok_same assms(2,3) k in auto)
    then show "moves_ok t0 now_s (learn_target_from_source my ip (dict_get message ''src'' JNull) now_s st)"
      using 2 by simp
  qed
  then show ?thesis
    using process_same_target[of my ip message now_s st scale now_ms] moves_ok_same unfolding s1_def by blast
qed

definition arrival_times :: "datagram list \<Rightarrow> (time \<times> unit) list" where
  "arrival_times ds = map (\<lambda>(my, message, ip, now_s, now_ms). (now_s, ())) ds"

lemma moves_ok_run:
  "moves_ok t0 now st \<Longrightarrow> t0 \<le> now \<Longrightarrow> times_from now (arrival_times ds) \<Longrightarrow>
   moves_ok t0 (end_time now (arrival_times ds)) (udp_run scale ds st)"
proof (induction ds arbitrary: st now)
  case (Cons d ds)
  obtain my message ip now_s now_ms where d: "d = (my, message, ip, now_s, now_ms)" by (cases d)
  have t: "now \<le> now_s" "times_from now_s (arrival_times ds)"
    using Cons.prems(3) by (simp_all add: d arrival_times_def)
  have "moves_ok t0 now_s (fst (process_received_message scale my message ip now_s now_ms st))"
    by (rule moves_ok_process[OF Cons.prems(1,2) t(1)])
  then show ?case using Cons.IH[OF _ _ t(2)] Cons.prems(2) t(1) by (simp add: d arrival_times_def)
qed (simp add: arrival_times_def)



section \<open>The reports about sources\<close>

fun source_report :: "udp_warning \<Rightarrow> bool" where
  "source_report WMalformed = False"
| "source_report WBadOctet = False"
| "source_report WNotIPv4 = False"
| "source_report _ = True"

definition reports :: "udp_state \<Rightarrow> nat" where
  "reports st = length (filter source_report (ud_warnings st))"

text \<open>What the state has paid for: every tracked address once, and each one-time notice once.\<close>

definition report_budget :: "udp_state \<Rightarrow> nat" where
  "report_budget st = length (ud_known st) + length (ud_untrusted st) + length (ud_non_scalar st) +
     of_bool (ud_known_cap st) + of_bool (ud_untrusted_cap st) + of_bool (ud_flap_warned st)"

definition tracking_bounded :: "udp_state \<Rightarrow> bool" where
  "tracking_bounded st \<longleftrightarrow> length (ud_known st) \<le> MAX_TRACKED_SOURCE_IPS \<and>
     length (ud_untrusted st) \<le> MAX_TRACKED_SOURCE_IPS \<and> length (ud_non_scalar st) \<le> MAX_TRACKED_SOURCE_IPS"

definition reports_ok :: "nat \<Rightarrow> udp_state \<Rightarrow> bool" where
  "reports_ok slack st \<longleftrightarrow> reports st + slack \<le> report_budget st \<and> tracking_bounded st"

lemmas reports_defs = reports_ok_def reports_def report_budget_def tracking_bounded_def

lemma reports_ok_record_seen:
  assumes "reports_ok 0 st" "record_seen_source_ip ip st = (n, s1)"
  shows "reports_ok (of_bool n) s1"
  using assms by (auto simp: record_seen_source_ip_def reports_defs split: if_splits)

lemma reports_ok_note_untrusted: "reports_ok 0 st \<Longrightarrow> reports_ok 0 (note_untrusted_source ip st)"
  by (auto simp: note_untrusted_source_def reports_defs)

lemma reports_ok_adopt: "reports_ok k st \<Longrightarrow> reports_ok 0 (adopt_target ip kind now_s st)"
  by (auto simp: adopt_target_def persist_learned_target_def reports_defs Let_def)

lemma reports_ok_learn:
  assumes "reports_ok 0 st"
  shows "reports_ok 0 (learn_target_from_source my ip src now_s st)"
proof -
  obtain n s1 where r: "record_seen_source_ip ip st = (n, s1)" by (metis prod.exhaust)
  note s1 = reports_ok_record_seen[OF assms r]
  have "reports_ok 0 s1" "n \<Longrightarrow> reports_ok 0 (warn (WUnexpected ip) s1)"
    using s1 by (auto simp: reports_defs)
  then show ?thesis
    using reports_ok_note_untrusted[OF assms] reports_ok_adopt[OF s1]
    by (auto simp: learn_target_from_source_def r Let_def)
qed

lemma reports_ok_reject: "reports_ok 0 st \<Longrightarrow> reports_ok 0 (snd (reject_non_scalar_fields m ip st))"
  by (auto simp: reject_non_scalar_fields_def reports_defs split: prod.splits)

lemma reports_ok_quiet: "\<not> source_report w \<Longrightarrow> reports_ok 0 (warn w st) = reports_ok 0 st"
  by (simp add: reports_defs)

lemma reports_ok_tail:
  assumes "reports_ok 0 st"
  shows "reports_ok 0 (fst (handle_telemetry scale m ip now_ms st))"
    and "reports_ok 0 (fst (handle_non_chat_frame m now_ms st))"
  using assms reports_ok_quiet
  by (auto simp: handle_telemetry_def pseudo_source_def handle_non_chat_frame_def log_non_chat_frame_def
      split: sum.splits option.splits prod.splits)

lemma reports_ok_process:
  assumes "reports_ok 0 st"
  shows "reports_ok 0 (fst (process_received_message scale my message ip now_s now_ms st))"
proof -
  define s1 where "s1 = learn_target_from_source my ip (dict_get message ''src'' JNull) now_s st"
  obtain m s2 where r: "reject_non_scalar_fields
      (snd (unescape_firmware_msg_body (undouble_aprs_symbol_escapes message))) ip s1 = (m, s2)"
    by (metis prod.exhaust)
  have a: "reports_ok 0 s1" using reports_ok_learn[OF assms] by (simp add: s1_def)
  then have "reports_ok 0 s2" using reports_ok_reject[of s1] r by (metis snd_conv)
  from a this reports_ok_tail[OF this] show ?thesis
    by (auto simp: process_received_message_def Let_def r[unfolded s1_def] s1_def case_prod_beta)
qed

lemma reports_ok_run: "reports_ok 0 st \<Longrightarrow> reports_ok 0 (udp_run scale ds st)"
  by (induction ds arbitrary: st) (auto simp: reports_ok_process)

text \<open>The port is unauthenticated, so what it logs about sources is bounded once and for all: any number of
  datagrams from any number of addresses causes at most 27 warnings about sources, and at most eight
  addresses of each sort are remembered.\<close>

theorem source_reports_bounded:
  "reports (udp_run scale ds (udp_init host persist)) \<le> 27 \<and> tracking_bounded (udp_run scale ds (udp_init host persist))"
proof -
  have "reports_ok 0 (udp_run scale ds (udp_init host persist))"
    by (rule reports_ok_run) (simp add: reports_defs udp_init_def)
  then show ?thesis
    by (auto simp: reports_defs MAX_TRACKED_SOURCE_IPS_def of_bool_def split: if_splits)
qed

text \<open>
  The warning about a malformed datagram has no such bound: each one logs a line of its own. And the
  id of a delivery status is only checked with \<open>int(s, 16)\<close>, which admits a prefix and underscores.
\<close>

lemma log_malformed:
  "map_of m ''type'' = None \<Longrightarrow> truthy (dict_get m ''error'' JNull) \<Longrightarrow>
   handle_non_chat_frame m t st = (warn WMalformed st, [])"
  by (simp add: handle_non_chat_frame_def log_non_chat_frame_def)

lemma malformed_datagrams_unbounded:
  assumes "ip \<in> set (ud_untrusted st)" "\<not> is_trusted_node_source ip"
  shows "length (ud_warnings (udp_run scale (replicate n (None, try_repair_json (\<lambda>s. Inr (JInt 0)) ''0'', ip, 0, 0)) st)) =
    length (ud_warnings st) + n"
proof -
  define m where "m = try_repair_json (\<lambda>s. Inr (JInt 0)) ''0''"
  have m: "m = [(''raw_text'', JStr ''0''), (''error'', JStr ''invalid_json_not_an_object'')]"
    by (simp add: m_def try_repair_json_def MAX_JSON_REPAIR_ATTEMPTS_def)
  have step: "fst (process_received_message scale None m ip 0 0 s) = warn WMalformed s"
    if "ip \<in> set (ud_untrusted s)" for s
    using assms(2) that by (simp add: m process_received_message_def learn_target_from_source_def
        note_untrusted_source_def undouble_aprs_symbol_escapes_def undouble_field_def APRS_SYMBOL_FIELDS_def
        unescape_firmware_msg_body_def reject_non_scalar_fields_def strip_non_scalar_fields_def in_dict_def
        log_malformed dict_get_def Let_def)
  have "ip \<in> set (ud_untrusted s) \<Longrightarrow>
      length (ud_warnings (udp_run scale (replicate n (None, m, ip, 0, 0)) s)) = length (ud_warnings s) + n" for s
    by (induction n arbitrary: s) (simp_all add: step)
  from this[OF assms(1)] show ?thesis by (simp add: m_def)
qed

lemma ack_id_not_hex:
  "normalize_extudp_ack [(''msg_id'', JStr ''0X12_345''), (''status'', JInt 1)] \<noteq> None"
  by code_simp

text \<open>Trusted addresses beyond RFC 1918 and link-local: benchmark, documentation and reserved blocks.\<close>

lemma trusted_beyond_rfc1918:
  "is_trusted_node_source ''198.18.0.1'' \<and> is_trusted_node_source ''203.0.113.7'' \<and> is_trusted_node_source ''240.0.0.1'' \<and>
   \<not> is_trusted_node_source ''127.0.0.1'' \<and> \<not> is_trusted_node_source ''192.168.1.01''"
  by code_simp

end
