(* ===== verification/Telemetry.thy ===== *)
theory Telemetry
  imports McPrelude
begin

text \<open>
  Telemetry: the reconcile policy of \<open>storage/telemetry_reconcile.py\<close> and the write path that uses
  it, \<open>store_telemetry\<close> of \<open>storage/ingest.py\<close>.

  \<^item> A reading is a value with its provenance; \<open>reconcile\<close> merges the stored row with a frame field
    by field and says what happens to the row. Both work on dictionaries keyed by the field names, as
    the code does, with the validation that raises \<open>ValueError\<close>.
  \<^item> The two tables are lists of rows: \<open>telemetry\<close> with an increasing id, and one row per callsign of
    \<open>station_positions\<close>. Of the latter the columns \<open>store_telemetry\<close> reads or writes are kept.
    Readings are numbers, as the type of \<open>Reading.value\<close> says: a number is its exact value, since
    SQLite stores 5 and 5.0 alike. A frame with text in a sensor field is refused with \<open>TypeError\<close>;
    the code raises it for \<open>qfe\<close>, \<open>qnh\<close> and \<open>alt\<close> and binds the text as it is for the others.
  \<^item> Parameters: \<open>loads\<close> and \<open>dumps\<close> are \<open>json.loads\<close> (\<open>None\<close> where it raises) and \<open>json.dumps\<close>
    (its first argument is \<open>sort_keys\<close>); \<open>baro\<close> is the floating-point value of
    \<open>round(qnh * base ** BARO_EXPONENT, 1)\<close>, for a base that is not negative.
\<close>

section \<open>Readings\<close>

definition ALL_FIELDS :: "string list" where
  "ALL_FIELDS = [''temp1'', ''temp2'', ''hum'', ''hum2'', ''qfe'', ''gas'', ''co2'', ''batt'']"

datatype provenance = ABSENT | DERIVED | MEASURED

fun prov_rank :: "provenance \<Rightarrow> nat" where
  "prov_rank ABSENT = 0"
| "prov_rank DERIVED = 1"
| "prov_rank MEASURED = 2"

lemma prov_rank_eq [simp]: "prov_rank p = prov_rank q \<longleftrightarrow> p = q"
  by (cases p; cases q) auto

text \<open>\<open>IntEnum\<close> gives the provenances the order of their values.\<close>

instantiation provenance :: linorder
begin

definition less_eq_provenance :: "provenance \<Rightarrow> provenance \<Rightarrow> bool" where
  "p \<le> q \<longleftrightarrow> prov_rank p \<le> prov_rank q"

definition less_provenance :: "provenance \<Rightarrow> provenance \<Rightarrow> bool" where
  "p < q \<longleftrightarrow> prov_rank p < prov_rank q"

instance
  by standard (auto simp: less_eq_provenance_def less_provenance_def)

end

lemmas prov_order = less_eq_provenance_def less_provenance_def

lemma absent_least [simp]: "ABSENT \<le> p" and absent_less [simp]: "ABSENT < p \<longleftrightarrow> p \<noteq> ABSENT"
  by (cases p; simp add: prov_order)+

lemma measured_greatest [simp]: "p \<le> MEASURED" and measured_not_less [simp]: "\<not> MEASURED < p"
  by (cases p; simp add: prov_order)+

record tele_reading =
  rd_value :: "rat option"
  rd_prov :: provenance

definition mk_reading :: "rat option \<Rightarrow> provenance \<Rightarrow> tele_reading res" where
  "mk_reading v p =
     (if (p = ABSENT) \<noteq> (v = None) then Inl ValueError else Inr \<lparr>rd_value = v, rd_prov = p\<rparr>)"

definition absent :: tele_reading where
  "absent = \<lparr>rd_value = None, rd_prov = ABSENT\<rparr>"

definition measured :: "rat \<Rightarrow> tele_reading" where
  "measured v = \<lparr>rd_value = Some v, rd_prov = MEASURED\<rparr>"

definition derived :: "rat \<Rightarrow> tele_reading" where
  "derived v = \<lparr>rd_value = Some v, rd_prov = DERIVED\<rparr>"

type_synonym readings_map = "(string, tele_reading) dict"

definition readings :: "readings_map \<Rightarrow> readings_map res" where
  "readings by_field =
     (if list_ex (\<lambda>(k, r). k \<notin> set ALL_FIELDS) by_field then Inl ValueError
      else Inr (map (\<lambda>f. (f, dict_get by_field f absent)) ALL_FIELDS))"

definition validate :: "readings_map \<Rightarrow> unit res" where
  "validate m =
     (if list_all (\<lambda>f. in_dict f m) ALL_FIELDS \<and> list_all (\<lambda>(k, r). k \<in> set ALL_FIELDS) m
      then Inr () else Inl ValueError)"

section \<open>Reconciling\<close>

datatype action = INSERT | UPDATE_EXISTING | REPLACE_EXISTING | SKIP

definition choose_reading :: "bool \<Rightarrow> tele_reading \<Rightarrow> tele_reading \<Rightarrow> tele_reading" where
  "choose_reading incoming_is_newer old new =
     (if rd_prov old = ABSENT then new
      else if rd_prov new = ABSENT then old
      else if rd_prov new > rd_prov old then new
      else if rd_prov new < rd_prov old then old
      else if incoming_is_newer then new else old)"

text \<open>A subscript \<open>m[field]\<close>, on maps \<open>validate\<close> has accepted.\<close>

definition rd :: "readings_map \<Rightarrow> string \<Rightarrow> tele_reading" where
  "rd m f = dict_get m f absent"

definition merge_readings :: "bool \<Rightarrow> readings_map \<Rightarrow> readings_map \<Rightarrow> readings_map" where
  "merge_readings newer old new = map (\<lambda>f. (f, choose_reading newer (rd old f) (rd new f))) ALL_FIELDS"

definition changed_fields :: "readings_map \<Rightarrow> readings_map \<Rightarrow> string list" where
  "changed_fields merged old = filter (\<lambda>f. rd_value (rd merged f) \<noteq> rd_value (rd old f)) ALL_FIELDS"

definition reconcile :: "readings_map option \<Rightarrow> readings_map \<Rightarrow> bool \<Rightarrow> (action \<times> readings_map) res" where
  "reconcile existing new newer =
     bind_res (validate new) (\<lambda>_.
       case existing of
         None \<Rightarrow> Inr (INSERT, new)
       | Some old \<Rightarrow>
           bind_res (validate old) (\<lambda>_.
             let merged = merge_readings newer old new;
                 changed = changed_fields merged old
             in if changed = [] then Inr (SKIP, merged)
                else let measured_win = list_ex (\<lambda>f. rd_prov (rd new f) = MEASURED \<and> rd merged f = rd new f) changed
                     in Inr (if measured_win \<and> newer then REPLACE_EXISTING else UPDATE_EXISTING, merged)))"

definition column_names :: "string list" where
  "column_names = ALL_FIELDS"

definition values_for :: "readings_map \<Rightarrow> rat option list res" where
  "values_for merged = bind_res (validate merged) (\<lambda>_. Inr (map (\<lambda>f. rd_value (rd merged f)) ALL_FIELDS))"

definition safe_json_object :: "(string \<Rightarrow> json option) \<Rightarrow> string option \<Rightarrow> msgd" where
  "safe_json_object loads blob =
     (case blob of None \<Rightarrow> []
      | Some b \<Rightarrow> if b = [] then [] else (case loads b of Some (JObj d) \<Rightarrow> d | _ \<Rightarrow> []))"

text \<open>\<open>{**old, **new}\<close> and \<open>dict.update\<close>: the later entry wins and keeps the earlier one's place.\<close>

definition dict_update :: "('k, 'v) dict \<Rightarrow> ('k, 'v) dict \<Rightarrow> ('k, 'v) dict" where
  "dict_update old new = foldl (\<lambda>d (k, v). AList.update k v d) old new"

definition merge_extras :: "(string \<Rightarrow> json option) \<Rightarrow> (bool \<Rightarrow> msgd \<Rightarrow> string) \<Rightarrow> string option \<Rightarrow> string option \<Rightarrow> string option" where
  "merge_extras loads dumps existing_json incoming_json =
     (let old = safe_json_object loads existing_json; new = safe_json_object loads incoming_json
      in if old = [] \<and> new = [] then None else Some (dumps True (dict_update old new)))"

section \<open>The tables\<close>

definition TELEMETRY_DEDUP_WINDOW_MS :: int where
  "TELEMETRY_DEDUP_WINDOW_MS = 60000"

record telemetry_row =
  tr_id :: nat
  tr_callsign :: string
  tr_ts :: int
  tr_values :: "rat option list"
  tr_alt :: "rat option"
  tr_extras :: "string option"

record station =
  sp_alt :: "rat option"
  sp_values :: "rat option list"
  sp_telemetry_ts :: "int option"
  sp_last_seen :: "int option"
  sp_extras :: "string option"

record tele_db =
  db_rows :: "telemetry_row list"
  db_next_id :: nat
  db_stations :: "(string, station) dict"

definition empty_db :: tele_db where
  "empty_db = \<lparr>db_rows = [], db_next_id = 1, db_stations = []\<rparr>"

text \<open>
  \<open>SELECT ... WHERE callsign = ? AND timestamp > ? AND timestamp < ? ORDER BY timestamp DESC LIMIT 1\<close>;
  rows of equal timestamp come in the order of their ids.
\<close>

definition in_window :: "string \<Rightarrow> int \<Rightarrow> telemetry_row \<Rightarrow> bool" where
  "in_window callsign timestamp r \<longleftrightarrow> tr_callsign r = callsign \<and>
     timestamp - TELEMETRY_DEDUP_WINDOW_MS < tr_ts r \<and> tr_ts r < timestamp + TELEMETRY_DEDUP_WINDOW_MS"

definition latest :: "telemetry_row list \<Rightarrow> telemetry_row option" where
  "latest rows = (case rows of [] \<Rightarrow> None
     | r # rs \<Rightarrow> Some (foldl (\<lambda>b x. if tr_ts x > tr_ts b then x else b) r rs))"

definition recent_row :: "string \<Rightarrow> int \<Rightarrow> tele_db \<Rightarrow> telemetry_row option" where
  "recent_row callsign timestamp db = latest (filter (in_window callsign timestamp) (db_rows db))"

definition insert_row :: "string \<Rightarrow> int \<Rightarrow> rat option list \<Rightarrow> rat option \<Rightarrow> string option \<Rightarrow> tele_db \<Rightarrow> tele_db" where
  "insert_row callsign timestamp vals alt extras db =
     db\<lparr>db_rows := db_rows db @ [\<lparr>tr_id = db_next_id db, tr_callsign = callsign, tr_ts = timestamp,
                                 tr_values = vals, tr_alt = alt, tr_extras = extras\<rparr>],
        db_next_id := db_next_id db + 1\<rparr>"

definition update_row :: "rat option list \<Rightarrow> string option \<Rightarrow> nat \<Rightarrow> tele_db \<Rightarrow> tele_db" where
  "update_row vals extras row_id db =
     db\<lparr>db_rows := map (\<lambda>r. if tr_id r = row_id then r\<lparr>tr_values := vals, tr_extras := extras\<rparr> else r) (db_rows db)\<rparr>"

definition delete_row :: "nat \<Rightarrow> tele_db \<Rightarrow> tele_db" where
  "delete_row row_id db = db\<lparr>db_rows := filter (\<lambda>r. tr_id r \<noteq> row_id) (db_rows db)\<rparr>"

definition coalesce :: "'a option \<Rightarrow> 'a option \<Rightarrow> 'a option" where
  "coalesce a b = (case a of None \<Rightarrow> b | Some x \<Rightarrow> Some x)"

definition upsert_station :: "string \<Rightarrow> rat option list \<Rightarrow> int \<Rightarrow> int \<Rightarrow> string option \<Rightarrow> tele_db \<Rightarrow> tele_db" where
  "upsert_station callsign vals telemetry_ts last_seen extras db =
     (let new = (case map_of (db_stations db) callsign of
          None \<Rightarrow> \<lparr>sp_alt = None, sp_values = vals, sp_telemetry_ts = Some telemetry_ts,
                   sp_last_seen = Some last_seen, sp_extras = extras\<rparr>
        | Some s \<Rightarrow> s\<lparr>sp_values := map2 coalesce vals (sp_values s),
              sp_telemetry_ts := Some (max (case sp_telemetry_ts s of None \<Rightarrow> 0 | Some t \<Rightarrow> t) telemetry_ts),
              sp_last_seen := Some (max (case sp_last_seen s of None \<Rightarrow> 0 | Some t \<Rightarrow> t) last_seen),
              sp_extras := coalesce extras (sp_extras s)\<rparr>)
      in db\<lparr>db_stations := AList.update callsign new (db_stations db)\<rparr>)"


section \<open>Storing a frame\<close>

definition QFE_PLAUSIBLE_HPA_RANGE :: "rat \<times> rat" where
  "QFE_PLAUSIBLE_HPA_RANGE = (300, 1100)"

definition QNH_PLAUSIBLE_HPA_RANGE :: "rat \<times> rat" where
  "QNH_PLAUSIBLE_HPA_RANGE = (850, 1100)"

definition plausible :: "rat \<times> rat \<Rightarrow> rat \<Rightarrow> bool" where
  "plausible bounds v \<longleftrightarrow> fst bounds \<le> v \<and> v \<le> snd bounds"

definition BARO_LAPSE_RATE_K_PER_M :: rat where
  "BARO_LAPSE_RATE_K_PER_M = 65 / 10000"

definition BARO_STD_TEMP_K :: rat where
  "BARO_STD_TEMP_K = 28815 / 100"

fun number :: "json \<Rightarrow> rat res" where
  "number (JInt i) = Inr (of_int i)"
| "number (JFloat r) = Inr r"
| "number (JBool b) = Inr (if b then 1 else 0)"
| "number _ = Inl TypeError"

definition opt_number :: "string \<Rightarrow> msgd \<Rightarrow> rat option res" where
  "opt_number key data =
     (case map_of data key of None \<Rightarrow> Inr None
      | Some JNull \<Rightarrow> Inr None
      | Some v \<Rightarrow> bind_res (number v) (\<lambda>x. Inr (Some x)))"

definition is_ble_transport :: "msgd \<Rightarrow> bool" where
  "is_ble_transport data \<longleftrightarrow>
     dict_get data ''src_type'' (JStr '''') \<in> {JStr ''ble'', JStr ''ble_remote'', JStr ''BLE''}"

definition wire_reading :: "msgd \<Rightarrow> string \<Rightarrow> tele_reading res" where
  "wire_reading data key = bind_res (opt_number key data) (\<lambda>v.
     Inr (case v of None \<Rightarrow> absent
          | Some x \<Rightarrow> if x = 0 \<and> \<not> is_ble_transport data then absent else measured x))"

text \<open>\<open>v == 0\<close> in Python.\<close>

fun py_zero :: "json \<Rightarrow> bool" where
  "py_zero (JInt i) = (i = 0)"
| "py_zero (JFloat r) = (r = 0)"
| "py_zero (JBool b) = (\<not> b)"
| "py_zero _ = False"

definition TELEMETRY_META_KEYS :: "string list" where
  "TELEMETRY_META_KEYS = [''timestamp'', ''src'', ''src_type'', ''type'', ''msg'', ''dst'', ''via'',
     ''transformer'', ''transformer2'', ''tele_seq'', ''lat'', ''lon'', ''lat_dir'', ''lon_dir'',
     ''aprs_symbol'', ''aprs_symbol_group'', ''hw_id'', ''firmware'', ''fw_sub'', ''gw'', ''lora_mod'',
     ''mesh'', ''rssi'', ''snr'']"

definition TELEMETRY_KNOWN_KEYS :: "string list" where
  "TELEMETRY_KNOWN_KEYS = [''temp1'', ''temp2'', ''hum'', ''hum2'', ''qfe'', ''qnh'', ''gas'', ''co2'',
     ''alt'', ''batt'']"

definition all_known :: "string list" where
  "all_known = TELEMETRY_META_KEYS @ TELEMETRY_KNOWN_KEYS @ [''extras'']"

definition extras_dict :: "msgd \<Rightarrow> msgd" where
  "extras_dict data =
     dict_update (case map_of data ''extras'' of Some (JObj d) \<Rightarrow> dict_update [] d | _ \<Rightarrow> [])
       (filter (\<lambda>(k, v). k \<notin> set all_known \<and> v \<noteq> JNull \<and> \<not> py_zero v) data)"

definition incoming_extras :: "(bool \<Rightarrow> msgd \<Rightarrow> string) \<Rightarrow> msgd \<Rightarrow> string option" where
  "incoming_extras dumps data = (let d = extras_dict data in if d = [] then None else Some (dumps False d))"

definition usable_qfe :: "msgd \<Rightarrow> rat option res" where
  "usable_qfe data = bind_res (opt_number ''qfe'' data) (\<lambda>q.
     Inr (case q of None \<Rightarrow> None
          | Some x \<Rightarrow> if map_of data ''src_type'' = Some (JStr ''lora'') \<or> \<not> plausible QFE_PLAUSIBLE_HPA_RANGE x
                      then None else Some x))"

definition frame_altitude :: "string \<Rightarrow> msgd \<Rightarrow> tele_db \<Rightarrow> rat option res" where
  "frame_altitude callsign data db = bind_res (opt_number ''alt'' data) (\<lambda>a.
     Inr (case a of Some x \<Rightarrow> Some x
          | None \<Rightarrow> (case map_of (db_stations db) callsign of None \<Rightarrow> None | Some s \<Rightarrow> sp_alt s)))"

text \<open>A negative base under the fractional exponent is a complex number, which \<open>round\<close> refuses.\<close>

definition baro_qfe :: "(rat \<Rightarrow> rat \<Rightarrow> rat) \<Rightarrow> rat \<Rightarrow> rat \<Rightarrow> rat res" where
  "baro_qfe baro qnh alt =
     (let base = 1 - BARO_LAPSE_RATE_K_PER_M * alt / BARO_STD_TEMP_K
      in if base < 0 then Inl TypeError else Inr (baro qnh base))"

definition qfe_reading :: "(rat \<Rightarrow> rat \<Rightarrow> rat) \<Rightarrow> msgd \<Rightarrow> rat option \<Rightarrow> rat option \<Rightarrow> tele_reading res" where
  "qfe_reading baro data raw_qfe alt =
     (case raw_qfe of
        Some q \<Rightarrow> Inr (measured q)
      | None \<Rightarrow> bind_res (opt_number ''qnh'' data) (\<lambda>qnh.
          case (qnh, alt) of
            (Some n, Some a) \<Rightarrow>
              if n \<noteq> 0 \<and> a \<noteq> 0 \<and> plausible QNH_PLAUSIBLE_HPA_RANGE n
              then bind_res (baro_qfe baro n a) (\<lambda>q. Inr (derived q)) else Inr absent
          | _ \<Rightarrow> Inr absent))"

definition incoming_readings :: "(rat \<Rightarrow> rat \<Rightarrow> rat) \<Rightarrow> msgd \<Rightarrow> rat option \<Rightarrow> readings_map res" where
  "incoming_readings baro data alt =
     bind_res (usable_qfe data) (\<lambda>raw_qfe.
     bind_res (qfe_reading baro data raw_qfe alt) (\<lambda>qfe.
     bind_res (wire_reading data ''temp1'') (\<lambda>temp1.
     bind_res (wire_reading data ''temp2'') (\<lambda>temp2.
     bind_res (wire_reading data ''hum'') (\<lambda>hum.
     bind_res (wire_reading data ''hum2'') (\<lambda>hum2.
     bind_res (wire_reading data ''gas'') (\<lambda>gas.
     bind_res (wire_reading data ''co2'') (\<lambda>co2.
     bind_res (wire_reading data ''batt'') (\<lambda>batt.
       readings [(''temp1'', temp1), (''temp2'', temp2), (''hum'', hum), (''hum2'', hum2), (''qfe'', qfe),
                 (''gas'', gas), (''co2'', co2), (''batt'', batt)])))))))))"

text \<open>Values read back from the table count as measured.\<close>

definition row_readings :: "telemetry_row \<Rightarrow> readings_map res" where
  "row_readings row = readings (map (\<lambda>(f, v). (f, case v of Some x \<Rightarrow> measured x | None \<Rightarrow> absent))
     (zip ALL_FIELDS (tr_values row)))"

definition row_option_readings :: "telemetry_row option \<Rightarrow> readings_map option res" where
  "row_option_readings r = (case r of None \<Rightarrow> Inr None | Some row \<Rightarrow> bind_res (row_readings row) (\<lambda>m. Inr (Some m)))"

fun apply_action :: "action \<Rightarrow> telemetry_row option \<Rightarrow> string \<Rightarrow> int \<Rightarrow> rat option list \<Rightarrow> rat option \<Rightarrow>
    string option \<Rightarrow> tele_db \<Rightarrow> tele_db res" where
  "apply_action INSERT row callsign timestamp vals alt extras db =
     Inr (insert_row callsign timestamp vals alt extras db)"
| "apply_action UPDATE_EXISTING (Some row) callsign timestamp vals alt extras db =
     Inr (update_row vals extras (tr_id row) db)"
| "apply_action REPLACE_EXISTING (Some row) callsign timestamp vals alt extras db =
     Inr (insert_row callsign timestamp vals alt extras (delete_row (tr_id row) db))"
| "apply_action SKIP row callsign timestamp vals alt extras db = Inr db"
| "apply_action _ None callsign timestamp vals alt extras db = Inl RuntimeError"

definition tele_timestamp :: "int \<Rightarrow> msgd \<Rightarrow> int res" where
  "tele_timestamp now_ms data =
     (case map_of data ''timestamp'' of None \<Rightarrow> Inr now_ms | Some (JInt t) \<Rightarrow> Inr t | _ \<Rightarrow> Inl TypeError)"

definition reconcile_and_write :: "(string \<Rightarrow> json option) \<Rightarrow> (bool \<Rightarrow> msgd \<Rightarrow> string) \<Rightarrow> string \<Rightarrow> int \<Rightarrow>
    rat option \<Rightarrow> string option \<Rightarrow> readings_map \<Rightarrow> tele_db \<Rightarrow> tele_db res" where
  "reconcile_and_write loads dumps callsign timestamp alt inc_extras new db =
     (let existing_row = recent_row callsign timestamp db;
          existing_ts = (case existing_row of None \<Rightarrow> timestamp | Some r \<Rightarrow> tr_ts r);
          newer = (existing_row = None \<or> timestamp > existing_ts);
          extras = merge_extras loads dumps (case existing_row of None \<Rightarrow> None | Some r \<Rightarrow> tr_extras r) inc_extras
      in bind_res (row_option_readings existing_row) (\<lambda>existing.
         bind_res (reconcile existing new newer) (\<lambda>(act, merged).
         bind_res (values_for merged) (\<lambda>vals.
         bind_res (apply_action act existing_row callsign timestamp vals alt extras db) (\<lambda>db'.
           Inr (upsert_station callsign vals (max existing_ts timestamp) timestamp extras db'))))))"

definition store_telemetry :: "(string \<Rightarrow> json option) \<Rightarrow> (bool \<Rightarrow> msgd \<Rightarrow> string) \<Rightarrow> (rat \<Rightarrow> rat \<Rightarrow> rat) \<Rightarrow>
    int \<Rightarrow> string \<Rightarrow> msgd \<Rightarrow> tele_db \<Rightarrow> tele_db res" where
  "store_telemetry loads dumps baro now_ms callsign data db =
     (if callsign = [] then Inr db
      else bind_res (frame_altitude callsign data db) (\<lambda>alt.
        bind_res (incoming_readings baro data alt) (\<lambda>new.
        if list_all (\<lambda>(f, r). rd_prov r = ABSENT) new then Inr db
        else bind_res (tele_timestamp now_ms data) (\<lambda>timestamp.
          reconcile_and_write loads dumps callsign timestamp alt (incoming_extras dumps data) new db))))"

section \<open>Readings keep their form\<close>

lemma fields_distinct [simp]: "distinct ALL_FIELDS"
  by (simp add: ALL_FIELDS_def)

lemma length_fields [simp]: "length ALL_FIELDS = 8"
  by (simp add: ALL_FIELDS_def)

definition well_formed :: "tele_reading \<Rightarrow> bool" where
  "well_formed r \<longleftrightarrow> (rd_prov r = ABSENT \<longleftrightarrow> rd_value r = None)"

lemma well_formed_simps [simp]: "well_formed absent" "well_formed (measured v)" "well_formed (derived v)"
  by (simp_all add: well_formed_def absent_def measured_def derived_def)

lemma mk_reading_iff: "mk_reading v p = Inr r \<longleftrightarrow> r = \<lparr>rd_value = v, rd_prov = p\<rparr> \<and> well_formed r"
  by (auto simp: mk_reading_def well_formed_def)

definition complete_map :: "readings_map \<Rightarrow> bool" where
  "complete_map m \<longleftrightarrow> map fst m = ALL_FIELDS \<and> list_all (\<lambda>(f, r). well_formed r) m"

lemma map_of_fields: "map_of (map (\<lambda>f. (f, g f)) xs) f = (if f \<in> set xs then Some (g f) else None)"
  by (induction xs) auto

lemma rd_fields [simp]: "f \<in> set ALL_FIELDS \<Longrightarrow> rd (map (\<lambda>f. (f, g f)) ALL_FIELDS) f = g f"
  by (simp add: rd_def dict_get_def map_of_fields)

lemma complete_well_formed: "complete_map m \<Longrightarrow> well_formed (rd m f)"
  by (auto simp: complete_map_def rd_def dict_get_def list_all_iff split: option.splits dest!: map_of_SomeD)

lemma complete_validates [simp]: "complete_map m \<Longrightarrow> validate m = Inr ()"
proof -
  assume m: "complete_map m"
  then have "fst ` set m = set ALL_FIELDS"
    by (metis complete_map_def list.set_map)
  then show ?thesis
    by (force simp: validate_def list_all_iff in_dict_iff)
qed

lemma complete_map_of_fields:
  "(\<And>f. f \<in> set ALL_FIELDS \<Longrightarrow> well_formed (g f)) \<Longrightarrow> complete_map (map (\<lambda>f. (f, g f)) ALL_FIELDS)"
  by (auto simp: complete_map_def list_all_iff comp_def)

lemma readings_complete:
  "readings by_field = Inr m \<Longrightarrow> list_all (\<lambda>(f, r). well_formed r) by_field \<Longrightarrow> complete_map m"
  by (auto simp: readings_def dict_get_def list_all_iff intro!: complete_map_of_fields
      split: if_splits option.splits dest!: map_of_SomeD)

lemma choose_cases: "choose_reading b x y = x \<or> choose_reading b x y = y"
  by (simp add: choose_reading_def)

lemma choose_prov: "rd_prov (choose_reading b x y) = max (rd_prov x) (rd_prov y)"
  by (cases "rd_prov x"; cases "rd_prov y"; cases b) (simp_all add: choose_reading_def prov_order max_def)

lemma choose_well_formed: "well_formed x \<Longrightarrow> well_formed y \<Longrightarrow> well_formed (choose_reading b x y)"
  using choose_cases[of b x y] by auto

lemma merge_complete: "complete_map x \<Longrightarrow> complete_map y \<Longrightarrow> complete_map (merge_readings b x y)"
  by (simp add: merge_readings_def complete_map_of_fields choose_well_formed complete_well_formed)

lemma rd_merge: "f \<in> set ALL_FIELDS \<Longrightarrow> rd (merge_readings b x y) f = choose_reading b (rd x f) (rd y f)"
  by (simp add: merge_readings_def)


section \<open>The outcome of reconciling\<close>

definition action_of :: "bool \<Rightarrow> readings_map \<Rightarrow> readings_map \<Rightarrow> action" where
  "action_of newer old new =
     (let merged = merge_readings newer old new; changed = changed_fields merged old
      in if changed = [] then SKIP
         else if newer \<and> (\<exists>f \<in> set changed. rd_prov (rd new f) = MEASURED \<and> rd merged f = rd new f)
              then REPLACE_EXISTING else UPDATE_EXISTING)"

lemma reconcile_none: "complete_map new \<Longrightarrow> reconcile None new newer = Inr (INSERT, new)"
  by (simp add: reconcile_def)

lemma reconcile_some:
  "complete_map old \<Longrightarrow> complete_map new \<Longrightarrow>
   reconcile (Some old) new newer = Inr (action_of newer old new, merge_readings newer old new)"
  by (auto simp: reconcile_def action_of_def Let_def list_ex_iff)

lemma values_for_complete: "complete_map m \<Longrightarrow> values_for m = Inr (map (\<lambda>f. rd_value (rd m f)) ALL_FIELDS)"
  by (simp add: values_for_def)

lemma action_not_insert: "action_of newer old new \<noteq> INSERT"
  by (simp add: action_of_def Let_def)

lemma older_never_replaces: "action_of False old new \<noteq> REPLACE_EXISTING"
  by (simp add: action_of_def Let_def)

lemma skip_iff: "action_of newer old new = SKIP \<longleftrightarrow> changed_fields (merge_readings newer old new) old = []"
  by (simp add: action_of_def Let_def)

section \<open>Rows and readings\<close>

definition row_map :: "rat option list \<Rightarrow> readings_map" where
  "row_map vals = map (\<lambda>f. (f, case map_of (zip ALL_FIELDS vals) f of Some (Some x) \<Rightarrow> measured x | _ \<Rightarrow> absent)) ALL_FIELDS"

lemma row_readings_eq: "row_readings row = Inr (row_map (tr_values row))"
proof -
  let ?g = "\<lambda>(f, v). (f, case v of Some x \<Rightarrow> measured x | None \<Rightarrow> absent)"
  have "map_of (map ?g d) f = map_option (\<lambda>v. case v of Some x \<Rightarrow> measured x | None \<Rightarrow> absent) (map_of d f)"
    for d :: "(string, rat option) dict" and f
    by (induction d) (auto split: option.splits)
  then have "dict_get (map ?g d) f absent = (case map_of d f of Some (Some x) \<Rightarrow> measured x | _ \<Rightarrow> absent)"
    for d :: "(string, rat option) dict" and f
    by (simp add: dict_get_def split: option.splits)
  moreover have "\<not> list_ex (\<lambda>(k, r). k \<notin> set ALL_FIELDS) (map ?g (zip ALL_FIELDS (tr_values row)))"
    by (auto simp: list_ex_iff dest: set_zip_leftD)
  ultimately show ?thesis
    by (simp add: row_readings_def readings_def row_map_def)
qed

lemma row_map_complete [simp]: "complete_map (row_map vals)"
  unfolding row_map_def by (rule complete_map_of_fields) (simp split: option.splits)

lemma map_of_zip_map: "f \<in> set fs \<Longrightarrow> map_of (zip fs (map g fs)) f = Some (g f)"
  by (induction fs) auto

lemma rd_row_map:
  "f \<in> set ALL_FIELDS \<Longrightarrow>
   rd (row_map (map g ALL_FIELDS)) f = (case g f of Some x \<Rightarrow> measured x | None \<Rightarrow> absent)"
  by (simp add: row_map_def map_of_zip_map split: option.splits)

lemma row_map_values:
  "length vals = 8 \<Longrightarrow> map (\<lambda>f. rd_value (rd (row_map vals) f)) ALL_FIELDS = vals"
proof -
  assume l: "length vals = 8"
  have "map_of (zip ALL_FIELDS vals) (ALL_FIELDS ! i) = Some (vals ! i)" if "i < 8" for i
    using that l by (simp add: map_of_zip_nth)
  then have "rd_value (rd (row_map vals) (ALL_FIELDS ! i)) = vals ! i" if "i < 8" for i
    using that by (cases "vals ! i") (simp_all add: row_map_def absent_def measured_def)
  then show ?thesis
    using l by (intro nth_equalityI) simp_all
qed

lemma wire_reading_well_formed: "wire_reading data key = Inr r \<Longrightarrow> well_formed r"
  by (auto simp: wire_reading_def split: option.splits if_splits)

lemma qfe_reading_well_formed: "qfe_reading baro data q alt = Inr r \<Longrightarrow> well_formed r"
  by (cases q; cases alt) (auto simp: qfe_reading_def split: option.splits if_splits)

lemma incoming_complete: "incoming_readings baro data alt = Inr m \<Longrightarrow> complete_map m"
  by (auto simp: incoming_readings_def qfe_reading_well_formed wire_reading_well_formed
      elim!: readings_complete)

section \<open>What a frame does to the tables\<close>

lemma latest_Some:
  assumes "latest rows = Some r"
  shows "r \<in> set rows" "x \<in> set rows \<Longrightarrow> tr_ts x \<le> tr_ts r"
proof -
  have fold: "foldl (\<lambda>b x. if tr_ts x > tr_ts b then x else b) b rs \<in> insert b (set rs) \<and>
      (\<forall>x \<in> insert b (set rs). tr_ts x \<le> tr_ts (foldl (\<lambda>b x. if tr_ts x > tr_ts b then x else b) b rs))" for b
      and rs :: "telemetry_row list"
  proof (induction rs arbitrary: b)
    case (Cons x rs)
    define w where "w = (if tr_ts b < tr_ts x then x else b)"
    have "tr_ts b \<le> tr_ts w" "tr_ts x \<le> tr_ts w" "w \<in> {b, x}"
      by (simp_all add: w_def)
    then show ?case
      using Cons.IH[of w] by (fastforce simp flip: w_def)
  qed simp
  show "r \<in> set rows" "x \<in> set rows \<Longrightarrow> tr_ts x \<le> tr_ts r"
    using assms fold by (auto simp: latest_def split: list.splits)
qed

lemma latest_None [simp]: "latest rows = None \<longleftrightarrow> rows = []"
  by (simp add: latest_def split: list.splits)

lemma latest_unique:
  assumes "r \<in> set rows" "\<And>x. x \<in> set rows \<Longrightarrow> x \<noteq> r \<Longrightarrow> tr_ts x < tr_ts r"
  shows "latest rows = Some r"
proof -
  obtain s where s: "latest rows = Some s"
    using assms(1) by (cases "latest rows") auto
  show ?thesis
    using latest_Some(1)[OF s] latest_Some(2)[OF s assms(1)] assms(2)[of s] s by force
qed

lemma latest_map:
  "(\<And>x. tr_ts (g x) = tr_ts x) \<Longrightarrow> latest (map g rows) = map_option g (latest rows)"
proof -
  assume g: "\<And>x. tr_ts (g x) = tr_ts x"
  have "foldl (\<lambda>b x. if tr_ts x > tr_ts b then x else b) (g b) (map g rs) =
      g (foldl (\<lambda>b x. if tr_ts x > tr_ts b then x else b) b rs)" for b rs
    by (induction rs arbitrary: b) (simp_all add: g)
  then show ?thesis
    by (simp add: latest_def split: list.splits)
qed

lemma recent_row_Some:
  assumes "recent_row c t db = Some r"
  shows "r \<in> set (db_rows db)" "in_window c t r"
    "x \<in> set (db_rows db) \<Longrightarrow> in_window c t x \<Longrightarrow> tr_ts x \<le> tr_ts r"
  using latest_Some[of "filter (in_window c t) (db_rows db)" r] assms by (auto simp: recent_row_def)

lemma recent_row_None: "recent_row c t db = None \<longleftrightarrow> (\<forall>x \<in> set (db_rows db). \<not> in_window c t x)"
  by (simp add: recent_row_def filter_empty_conv)

text \<open>The row a frame meets, and whether the frame is newer.\<close>

definition met_readings :: "telemetry_row option \<Rightarrow> readings_map" where
  "met_readings row = (case row of None \<Rightarrow> [] | Some r \<Rightarrow> row_map (tr_values r))"

definition met_newer :: "telemetry_row option \<Rightarrow> int \<Rightarrow> bool" where
  "met_newer row t = (case row of None \<Rightarrow> False | Some r \<Rightarrow> tr_ts r < t)"

definition met_action :: "telemetry_row option \<Rightarrow> int \<Rightarrow> readings_map \<Rightarrow> action" where
  "met_action row t new =
     (case row of None \<Rightarrow> INSERT | Some r \<Rightarrow> action_of (tr_ts r < t) (row_map (tr_values r)) new)"

definition met_values :: "telemetry_row option \<Rightarrow> int \<Rightarrow> readings_map \<Rightarrow> rat option list" where
  "met_values row t new =
     map (\<lambda>f. rd_value (choose_reading (met_newer row t) (rd (met_readings row) f) (rd new f))) ALL_FIELDS"

definition met_ts :: "telemetry_row option \<Rightarrow> int \<Rightarrow> int" where
  "met_ts row t = (case row of None \<Rightarrow> t | Some r \<Rightarrow> max (tr_ts r) t)"

lemma length_met_values [simp]: "length (met_values row t new) = 8"
  by (simp add: met_values_def)

lemma rd_Nil [simp]: "rd [] f = absent"
  by (simp add: rd_def dict_get_def)

lemma choose_absent [simp]: "choose_reading b absent y = y"
  by (simp add: choose_reading_def absent_def)

lemma apply_action_total:
  "act = INSERT \<or> act = SKIP \<or> row \<noteq> None \<Longrightarrow> \<exists>db'. apply_action act row c t vals alt extras db = Inr db'"
  by (cases act; cases row) auto

lemma reconcile_and_write_eq:
  assumes "complete_map new"
  shows "\<exists>extras db'. apply_action (met_action (recent_row c t db) t new) (recent_row c t db) c t
        (met_values (recent_row c t db) t new) alt extras db = Inr db' \<and>
      reconcile_and_write loads dumps c t alt inc new db =
        Inr (upsert_station c (met_values (recent_row c t db) t new) (met_ts (recent_row c t db) t) t extras db')"
proof (cases "recent_row c t db")
  case None
  then show ?thesis
    using assms by (auto simp: reconcile_and_write_def row_option_readings_def reconcile_none values_for_complete
        met_action_def met_values_def met_readings_def met_ts_def Let_def)
next
  case (Some r)
  have m: "complete_map (merge_readings b (row_map (tr_values r)) new)" for b
    using assms by (simp add: merge_complete)
  have v: "values_for (merge_readings b (row_map (tr_values r)) new) =
      Inr (map (\<lambda>f. rd_value (choose_reading b (rd (row_map (tr_values r)) f) (rd new f))) ALL_FIELDS)" for b
    using values_for_complete[OF m] by (simp add: rd_merge cong: map_cong)
  obtain db' where db': "apply_action (met_action (Some r) t new) (Some r) c t (met_values (Some r) t new) alt
      (merge_extras loads dumps (tr_extras r) inc) db = Inr db'"
    using apply_action_total by blast
  then show ?thesis
    using assms Some by (auto simp: reconcile_and_write_def row_option_readings_def row_readings_eq reconcile_some v
        met_action_def met_values_def met_readings_def met_newer_def met_ts_def Let_def
        intro!: exI[of _ "merge_extras loads dumps (tr_extras r) inc"])
qed


text \<open>A frame either changes nothing or reconciles complete readings with the row it meets.\<close>

lemma store_telemetry_cases:
  assumes "store_telemetry loads dumps baro now_ms c data db = Inr db'"
  obtains "db' = db"
  | alt new t extras db1 where "c \<noteq> []" "frame_altitude c data db = Inr alt" "incoming_readings baro data alt = Inr new"
      "complete_map new" "tele_timestamp now_ms data = Inr t"
      "apply_action (met_action (recent_row c t db) t new) (recent_row c t db) c t
         (met_values (recent_row c t db) t new) alt extras db = Inr db1"
      "db' = upsert_station c (met_values (recent_row c t db) t new) (met_ts (recent_row c t db) t) t extras db1"
proof (cases "db' = db")
  case False
  then obtain alt new t where w: "c \<noteq> []" "frame_altitude c data db = Inr alt" "incoming_readings baro data alt = Inr new"
      "tele_timestamp now_ms data = Inr t"
      "reconcile_and_write loads dumps c t alt (incoming_extras dumps data) new db = Inr db'"
    using assms by (auto simp: store_telemetry_def split: if_splits)
  have "complete_map new"
    using w(3) by (rule incoming_complete)
  from reconcile_and_write_eq[OF this, of c t db alt loads dumps "incoming_extras dumps data"] w(5)
  obtain extras db1 where "apply_action (met_action (recent_row c t db) t new) (recent_row c t db) c t
         (met_values (recent_row c t db) t new) alt extras db = Inr db1"
      "db' = upsert_station c (met_values (recent_row c t db) t new) (met_ts (recent_row c t db) t) t extras db1"
    by auto
  then show ?thesis
    by (rule that(2)[OF w(1-3) \<open>complete_map new\<close> w(4)])
qed

lemma upsert_rows [simp]: "db_rows (upsert_station c vals ts ls ex db) = db_rows db"
  "db_next_id (upsert_station c vals ts ls ex db) = db_next_id db"
  by (simp_all add: upsert_station_def Let_def)

section \<open>Rows of a station stay apart\<close>

definition rows_ok :: "tele_db \<Rightarrow> bool" where
  "rows_ok db \<longleftrightarrow>
     distinct (map tr_id (db_rows db)) \<and>
     (\<forall>r \<in> set (db_rows db). tr_id r < db_next_id db \<and> length (tr_values r) = 8) \<and>
     (\<forall>r \<in> set (db_rows db). \<forall>s \<in> set (db_rows db). tr_callsign r = tr_callsign s \<longrightarrow> tr_id r \<noteq> tr_id s \<longrightarrow>
        TELEMETRY_DEDUP_WINDOW_MS \<le> \<bar>tr_ts r - tr_ts s\<bar>)"

lemma rows_ok_same_id: "rows_ok db \<Longrightarrow> r \<in> set (db_rows db) \<Longrightarrow> s \<in> set (db_rows db) \<Longrightarrow> tr_id r = tr_id s \<Longrightarrow> r = s"
  by (auto simp: rows_ok_def distinct_map inj_on_def)

lemma rows_ok_upsert [simp]: "rows_ok (upsert_station c vals ts ls ex db) = rows_ok db"
  by (simp add: rows_ok_def)

lemma rows_ok_insert:
  assumes "rows_ok db" "\<forall>x \<in> set (db_rows db). \<not> in_window c t x" "length vals = 8"
  shows "rows_ok (insert_row c t vals alt extras db)"
proof -
  have "TELEMETRY_DEDUP_WINDOW_MS \<le> \<bar>tr_ts x - t\<bar>" "TELEMETRY_DEDUP_WINDOW_MS \<le> \<bar>t - tr_ts x\<bar>"
    if "x \<in> set (db_rows db)" "tr_callsign x = c" for x
    using assms(2) that by (auto simp: in_window_def)
  moreover have "db_next_id db \<notin> tr_id ` set (db_rows db)"
    using assms(1) by (auto simp: rows_ok_def)
  ultimately show ?thesis
    using assms(1,3) by (auto simp: rows_ok_def insert_row_def image_iff)
qed

lemma rows_ok_update:
  "rows_ok db \<Longrightarrow> length vals = 8 \<Longrightarrow> rows_ok (update_row vals extras i db)"
  by (auto simp: rows_ok_def update_row_def comp_def if_distrib cong: if_cong map_cong)

lemma rows_ok_delete: "rows_ok db \<Longrightarrow> rows_ok (delete_row i db)"
  by (auto simp: rows_ok_def delete_row_def distinct_map_filter)

text \<open>Deleting the latest row near a newer frame leaves no row near it.\<close>

lemma window_clear:
  assumes "rows_ok db" "recent_row c t db = Some r" "tr_ts r < t" "x \<in> set (db_rows (delete_row (tr_id r) db))"
  shows "\<not> in_window c t x"
proof
  assume x: "in_window c t x"
  have m: "x \<in> set (db_rows db)" "tr_id x \<noteq> tr_id r"
    using assms(4) by (auto simp: delete_row_def)
  note r = recent_row_Some[OF assms(2)]
  have "TELEMETRY_DEDUP_WINDOW_MS \<le> \<bar>tr_ts x - tr_ts r\<bar>"
    using assms(1) m r(1,2) x by (auto simp: rows_ok_def in_window_def)
  moreover have "tr_ts x \<le> tr_ts r"
    using r(3) m(1) x by blast
  ultimately show False
    using assms(3) x by (simp add: in_window_def)
qed

lemma met_replace: "met_action row t new = REPLACE_EXISTING \<Longrightarrow> \<exists>r. row = Some r \<and> tr_ts r < t"
  using older_never_replaces by (auto simp: met_action_def split: option.splits) (metis older_never_replaces)

lemma met_insert: "met_action row t new = INSERT \<longleftrightarrow> row = None"
  by (auto simp: met_action_def action_not_insert split: option.splits)

lemma rows_ok_apply:
  assumes "rows_ok db" "length vals = 8"
    "apply_action (met_action (recent_row c t db) t new) (recent_row c t db) c t vals alt extras db = Inr db'"
  shows "rows_ok db'"
proof (cases "met_action (recent_row c t db) t new")
  case INSERT
  then have "\<forall>x \<in> set (db_rows db). \<not> in_window c t x"
    by (simp add: met_insert recent_row_None)
  then show ?thesis
    using assms INSERT by (auto intro: rows_ok_insert)
next
  case UPDATE_EXISTING
  then show ?thesis
    using assms by (cases "recent_row c t db") (auto intro: rows_ok_update)
next
  case REPLACE_EXISTING
  then obtain r where r: "recent_row c t db = Some r" "tr_ts r < t"
    by (auto dest: met_replace)
  have "rows_ok (insert_row c t vals alt extras (delete_row (tr_id r) db))"
    using assms(1,2) window_clear[OF assms(1) r] by (blast intro: rows_ok_insert rows_ok_delete)
  then show ?thesis
    using assms(3) REPLACE_EXISTING r(1) by simp
qed (use assms in simp)

lemma rows_ok_store:
  "rows_ok db \<Longrightarrow> store_telemetry loads dumps baro now_ms c data db = Inr db' \<Longrightarrow> rows_ok db'"
  by (erule store_telemetry_cases) (simp_all add: rows_ok_apply[OF _ length_met_values])

text \<open>Frames in any order; one that raises leaves the tables as they are.\<close>

definition store_step :: "(string \<Rightarrow> json option) \<Rightarrow> (bool \<Rightarrow> msgd \<Rightarrow> string) \<Rightarrow> (rat \<Rightarrow> rat \<Rightarrow> rat) \<Rightarrow>
    int \<times> string \<times> msgd \<Rightarrow> tele_db \<Rightarrow> tele_db" where
  "store_step loads dumps baro f db = (case f of (now_ms, c, data) \<Rightarrow>
     (case store_telemetry loads dumps baro now_ms c data db of Inl e \<Rightarrow> db | Inr db' \<Rightarrow> db'))"

lemma rows_ok_step: "rows_ok db \<Longrightarrow> rows_ok (store_step loads dumps baro f db)"
  by (auto simp: store_step_def rows_ok_store split: prod.splits sum.splits)

lemma rows_ok_run: "rows_ok db \<Longrightarrow> rows_ok (fold (store_step loads dumps baro) frames db)"
  by (induction frames arbitrary: db) (simp_all add: rows_ok_step)

lemma rows_ok_empty [simp]: "rows_ok empty_db"
  by (simp add: rows_ok_def empty_db_def)



section \<open>Precedence\<close>

lemma mem_changed: "f \<in> set (changed_fields m old) \<longleftrightarrow> f \<in> set ALL_FIELDS \<and> rd_value (rd m f) \<noteq> rd_value (rd old f)"
  by (simp add: changed_fields_def)

lemma changed_Nil: "changed_fields m old = [] \<longleftrightarrow> (\<forall>f \<in> set ALL_FIELDS. rd_value (rd m f) = rd_value (rd old f))"
  by (simp add: changed_fields_def filter_empty_conv)

text \<open>For every field the merged reading is the stored or the incoming one and has the better of the
  two provenances, so nothing known is lost and an estimate never displaces a measurement; an older
  frame leaves a stored measurement alone and never replaces the row; and the row is left unwritten
  exactly if no value changes.
\<close>

theorem reconcile_precedence:
  assumes "complete_map old" "complete_map new" "reconcile (Some old) new newer = Inr (act, merged)"
  shows "(\<forall>f \<in> set ALL_FIELDS.
        rd merged f \<in> {rd old f, rd new f} \<and>
        rd_prov (rd merged f) = max (rd_prov (rd old f)) (rd_prov (rd new f)) \<and>
        (rd_prov (rd old f) = MEASURED \<and> \<not> newer \<longrightarrow> rd merged f = rd old f)) \<and>
    (act = SKIP \<longleftrightarrow> (\<forall>f \<in> set ALL_FIELDS. rd_value (rd merged f) = rd_value (rd old f))) \<and>
    (act = REPLACE_EXISTING \<longrightarrow> newer) \<and> act \<noteq> INSERT"
proof -
  have m: "merged = merge_readings newer old new" and a: "act = action_of newer old new"
    using assms(3) by (simp_all add: reconcile_some[OF assms(1,2)])
  have keep: "rd_prov x = MEASURED \<Longrightarrow> choose_reading False x y = x" for x y
    by (auto simp: choose_reading_def)
  have "act = REPLACE_EXISTING \<Longrightarrow> newer"
    using older_never_replaces[of old new] by (cases newer) (auto simp: a)
  then show ?thesis
    using choose_cases[of newer] by (auto simp: m a rd_merge choose_prov keep skip_iff changed_Nil action_not_insert)
qed

lemma reconcile_precedence_witness:
  "rd_value (rd (merge_readings False (row_map [Some 1, None, None, None, Some 950, None, None, None])
     (row_map [Some 2, None, Some 40, None, None, None, None, None])) ''temp1'') = Some 1"
proof -
  let ?old = "row_map [Some 1, None, None, None, Some 950, None, None, None]"
  let ?new = "row_map [Some 2, None, Some 40, None, None, None, None, None]"
  have "reconcile (Some ?old) ?new False = Inr (action_of False ?old ?new, merge_readings False ?old ?new)"
    by (rule reconcile_some) simp_all
  moreover have "''temp1'' \<in> set ALL_FIELDS" "rd_prov (rd ?old ''temp1'') = MEASURED" "rd_value (rd ?old ''temp1'') = Some 1"
    by code_simp+
  ultimately show ?thesis
    using reconcile_precedence[of ?old ?new False] by fastforce
qed

section \<open>A frame delivered again\<close>

lemma settled_field:
  assumes "well_formed x" "well_formed y" "b2 \<longrightarrow> b"
  defines "r \<equiv> (case rd_value (choose_reading b x y) of Some v \<Rightarrow> measured v | None \<Rightarrow> absent)"
  shows "rd_value (choose_reading b2 r y) = rd_value (choose_reading b x y)" "rd_value r = rd_value (choose_reading b x y)"
proof -
  show v: "rd_value r = rd_value (choose_reading b x y)"
    by (simp add: r_def absent_def measured_def split: option.splits)
  show "rd_value (choose_reading b2 r y) = rd_value (choose_reading b x y)"
  proof (cases "rd_value (choose_reading b x y)")
    case None
    have "well_formed (choose_reading b x y)"
      using assms(1,2) by (rule choose_well_formed)
    then have "max (rd_prov x) (rd_prov y) = ABSENT"
      using None choose_prov[of b x y] by (simp add: well_formed_def)
    then have "rd_prov y = ABSENT"
      by (cases "rd_prov x"; cases "rd_prov y") (simp_all add: max_def prov_order)
    then show ?thesis
      using None assms(2) by (simp add: r_def well_formed_def)
  next
    case (Some v)
    then have "r = measured v"
      by (simp add: r_def)
    then show ?thesis
      using Some assms(3) by (cases "rd_prov x"; cases "rd_prov y"; cases b)
        (auto simp: choose_reading_def measured_def prov_order)
  qed
qed

lemma settled_merge:
  assumes "\<And>f. well_formed (rd old f)" "complete_map new" "b2 \<longrightarrow> b"
    "vals = map (\<lambda>f. rd_value (choose_reading b (rd old f) (rd new f))) ALL_FIELDS"
  shows "action_of b2 (row_map vals) new = SKIP"
    "map (\<lambda>f. rd_value (choose_reading b2 (rd (row_map vals) f) (rd new f))) ALL_FIELDS = vals"
  using settled_field[OF assms(1) complete_well_formed[OF assms(2)] assms(3)]
  by (simp_all add: skip_iff changed_Nil rd_merge rd_row_map assms(4))

lemma met_readings_well_formed: "well_formed (rd (met_readings row) f)"
  by (auto simp: met_readings_def complete_well_formed split: option.splits)

lemma settled_row:
  assumes "complete_map new" "tr_values r = met_values row t new" "tr_ts r < t \<longrightarrow> met_newer row t"
  shows "met_action (Some r) t new = SKIP" "met_values (Some r) t new = met_values row t new"
proof -
  have "tr_values r = map (\<lambda>f. rd_value (choose_reading (met_newer row t) (rd (met_readings row) f) (rd new f))) ALL_FIELDS"
    using assms(2) by (simp add: met_values_def)
  note s = settled_merge[OF met_readings_well_formed assms(1,3) this]
  show "met_action (Some r) t new = SKIP"
    using s(1) by (simp add: met_action_def)
  have "met_values (Some r) t new = tr_values r"
    using s(2) by (simp add: met_values_def[of "Some r"] met_readings_def[of "Some r"] met_newer_def[of "Some r"])
  then show "met_values (Some r) t new = met_values row t new"
    using assms(2) by simp
qed

lemma recent_upsert [simp]: "recent_row c t (upsert_station c' vals ts ls ex db) = recent_row c t db"
  by (simp add: recent_row_def)

lemma recent_insert:
  "\<forall>x \<in> set (db_rows db). \<not> in_window c t x \<Longrightarrow>
   recent_row c t (insert_row c t vals alt ex db) =
     Some \<lparr>tr_id = db_next_id db, tr_callsign = c, tr_ts = t, tr_values = vals, tr_alt = alt, tr_extras = ex\<rparr>"
  by (simp add: recent_row_def insert_row_def in_window_def TELEMETRY_DEDUP_WINDOW_MS_def latest_def)

lemma recent_update:
  assumes "recent_row c t db = Some r"
  shows "recent_row c t (update_row vals ex (tr_id r) db) = Some (r\<lparr>tr_values := vals, tr_extras := ex\<rparr>)"
proof -
  let ?g = "\<lambda>x. if tr_id x = tr_id r then x\<lparr>tr_values := vals, tr_extras := ex\<rparr> else x"
  have "in_window c t \<circ> ?g = in_window c t"
    by (auto simp: in_window_def fun_eq_iff)
  then have "recent_row c t (update_row vals ex (tr_id r) db) = map_option ?g (recent_row c t db)"
    by (simp add: recent_row_def update_row_def filter_map latest_map)
  then show ?thesis
    using assms by simp
qed

text \<open>After a frame, the row that the same frame meets already says what it says.\<close>

lemma met_again:
  assumes "rows_ok db" "complete_map new" "row = recent_row c t db"
    "apply_action (met_action row t new) row c t (met_values row t new) alt extras db = Inr db1"
  shows "\<exists>r. recent_row c t db1 = Some r \<and> met_action (Some r) t new = SKIP \<and>
     met_values (Some r) t new = met_values row t new \<and> met_ts (Some r) t = met_ts row t"
proof (cases "met_action row t new")
  case INSERT
  then have row: "row = None"
    by (simp add: met_insert)
  then have db1: "recent_row c t db1 = Some \<lparr>tr_id = db_next_id db, tr_callsign = c, tr_ts = t,
      tr_values = met_values row t new, tr_alt = alt, tr_extras = extras\<rparr>"
    using assms(3,4) INSERT recent_insert[of db c t] recent_row_None[of c t db] by auto
  show ?thesis
    using settled_row[OF assms(2), of _ row t] row by (auto simp: db1 met_ts_def)
next
  case UPDATE_EXISTING
  then obtain r where r: "row = Some r"
    using assms(4) by (cases row) auto
  have db1: "recent_row c t db1 = Some (r\<lparr>tr_values := met_values row t new, tr_extras := extras\<rparr>)"
    using assms(4) UPDATE_EXISTING r recent_update[of c t db r] assms(3)[symmetric] by auto
  show ?thesis
    using settled_row[OF assms(2), of "r\<lparr>tr_values := met_values row t new, tr_extras := extras\<rparr>" row t] r
    by (auto simp: db1 met_ts_def met_newer_def)
next
  case REPLACE_EXISTING
  then obtain r where r: "row = Some r" "tr_ts r < t"
    by (auto dest: met_replace)
  have db1: "recent_row c t db1 = Some \<lparr>tr_id = db_next_id db, tr_callsign = c, tr_ts = t,
      tr_values = met_values row t new, tr_alt = alt, tr_extras = extras\<rparr>"
    using assms(4) REPLACE_EXISTING r window_clear[OF assms(1) _ r(2)] assms(3)[symmetric]
      recent_insert[of "delete_row (tr_id r) db" c t] by (auto simp: delete_row_def)
  show ?thesis
    using settled_row[OF assms(2), of _ row t] r by (auto simp: db1 met_ts_def)
next
  case SKIP
  then obtain r where r: "row = Some r"
    by (cases row) (auto simp: met_action_def)
  then have "recent_row c t db1 = Some r"
    using assms(4) SKIP assms(3)[symmetric] by simp
  then show ?thesis
    using r SKIP by blast
qed


lemma apply_action_stations:
  "apply_action act row c t vals alt extras db = Inr db1 \<Longrightarrow> db_stations db1 = db_stations db"
  by (cases act; cases row) (auto simp: insert_row_def update_row_def delete_row_def)

lemma frame_altitude_upsert:
  "db_stations db1 = db_stations db \<Longrightarrow>
   frame_altitude c data (upsert_station c' vals ts ls ex db1) = frame_altitude c data db"
  by (auto simp: frame_altitude_def upsert_station_def Let_def split: option.splits intro!: arg_cong[of _ _ "bind_res _"] ext)

text \<open>What the station row says, its extras aside.\<close>

definition without_extras :: "station option \<Rightarrow> station option" where
  "without_extras s = map_option (\<lambda>s. s\<lparr>sp_extras := None\<rparr>) s"

lemma coalesce_same [simp]: "coalesce v v = v" "coalesce v (coalesce v w) = coalesce v w"
  by (simp_all add: coalesce_def split: option.splits)

lemma coalesce_twice: "map2 coalesce vs (map2 coalesce vs ws) = map2 coalesce vs ws"
proof (induction vs arbitrary: ws)
  case (Cons v vs)
  then show ?case
    by (cases ws) simp_all
qed simp

lemma coalesce_self: "map2 coalesce vs vs = vs"
  by (induction vs) simp_all

lemma upsert_again:
  "without_extras (map_of (db_stations (upsert_station c vals ts ls ex' (upsert_station c vals ts ls ex db))) k) =
   without_extras (map_of (db_stations (upsert_station c vals ts ls ex db)) k)"
  by (simp add: upsert_station_def Let_def without_extras_def coalesce_twice coalesce_self split: option.splits)

text \<open>C34: a frame that arrives again right after it was stored (the node sends over BLE and UDP, and
  buffered notifications are replayed) is accepted and changes no telemetry row, and neither readings
  nor freshness of any station; only the station's extras are written again.
\<close>

theorem redelivery_is_inert:
  assumes "db = fold (store_step loads dumps baro) frames empty_db"
    and "store_telemetry loads dumps baro now1 c data db = Inr db1"
    and "in_dict ''timestamp'' data \<or> now2 = now1"
  shows "\<exists>db2. store_telemetry loads dumps baro now2 c data db1 = Inr db2 \<and> db_rows db2 = db_rows db1 \<and>
     (\<forall>k. without_extras (map_of (db_stations db2) k) = without_extras (map_of (db_stations db1) k))"
proof -
  have ok: "rows_ok db"
    unfolding assms(1) by (rule rows_ok_run) simp
  have ts: "tele_timestamp now2 data = tele_timestamp now1 data"
    using assms(3) by (auto simp: tele_timestamp_def in_dict_def)
  from assms(2) show ?thesis
  proof (cases rule: store_telemetry_cases)
    case 1
    have "store_telemetry loads dumps baro now2 c data db1 = store_telemetry loads dumps baro now1 c data db"
      by (simp only: store_telemetry_def ts 1)
    then have "store_telemetry loads dumps baro now2 c data db1 = Inr db1"
      using assms(2) by simp
    then show ?thesis
      by blast
  next
    case (2 alt new t extras dbm)
    note rows = apply_action_stations[OF 2(6)]
    have alt: "frame_altitude c data db1 = Inr alt"
      using 2(2) by (simp add: 2(7) frame_altitude_upsert[OF rows])
    obtain r where r: "recent_row c t db1 = Some r" "met_action (Some r) t new = SKIP"
        "met_values (Some r) t new = met_values (recent_row c t db) t new"
        "met_ts (Some r) t = met_ts (recent_row c t db) t"
      using met_again[OF ok 2(4) refl 2(6)] by (auto simp: 2(7))
    obtain extras2 where w: "reconcile_and_write loads dumps c t alt (incoming_extras dumps data) new db1 =
        Inr (upsert_station c (met_values (Some r) t new) (met_ts (Some r) t) t extras2 db1)"
      using reconcile_and_write_eq[OF 2(4), of c t db1 alt loads dumps "incoming_extras dumps data"] r(1,2) by auto
    show ?thesis
    proof (cases "list_all (\<lambda>(f, r). rd_prov r = ABSENT) new")
      case True
      then have "store_telemetry loads dumps baro now2 c data db1 = Inr db1"
        using 2(1,3) alt by (simp add: store_telemetry_def)
      then show ?thesis
        by blast
    next
      case False
      then have "store_telemetry loads dumps baro now2 c data db1 =
          Inr (upsert_station c (met_values (Some r) t new) (met_ts (Some r) t) t extras2 db1)"
        using 2(1,3,5) alt w by (simp add: store_telemetry_def ts)
      moreover have "db1 = upsert_station c (met_values (Some r) t new) (met_ts (Some r) t) t extras dbm"
        by (simp add: r 2(7))
      ultimately show ?thesis
        using upsert_again by (metis upsert_rows(1))
    qed
  qed
qed

lemma redelivery_is_inert_witness:
  "\<exists>db1 db2. store_telemetry (\<lambda>s. None) (\<lambda>b d. ''{}'') (\<lambda>q b. q) 5 ''A'' [(''timestamp'', JInt 100), (''temp1'', JInt 7)] empty_db = Inr db1 \<and>
     store_telemetry (\<lambda>s. None) (\<lambda>b d. ''{}'') (\<lambda>q b. q) 9 ''A'' [(''timestamp'', JInt 100), (''temp1'', JInt 7)] db1 = Inr db2 \<and>
     db_rows db2 = db_rows db1 \<and> length (db_rows db1) = 1"
proof -
  let ?f = "[(''timestamp'', JInt 100), (''temp1'', JInt 7)]"
  have "case store_telemetry (\<lambda>s. None) (\<lambda>b d. ''{}'') (\<lambda>q b. q) 5 ''A'' ?f empty_db of
      Inr db1 \<Rightarrow> length (db_rows db1) = 1 | Inl e \<Rightarrow> False"
    by code_simp
  then obtain db1 where "store_telemetry (\<lambda>s. None) (\<lambda>b d. ''{}'') (\<lambda>q b. q) 5 ''A'' ?f empty_db = Inr db1"
      "length (db_rows db1) = 1"
    by (auto split: sum.splits)
  moreover have "in_dict ''timestamp'' ?f"
    by (simp add: in_dict_def)
  ultimately show ?thesis
    using redelivery_is_inert[of empty_db "\<lambda>s. None" "\<lambda>b d. ''{}''" "\<lambda>q b. q" "[]" 5 "''A''" ?f db1 9] by auto
qed

section \<open>Older frames\<close>

definition keeps_known :: "rat option list \<Rightarrow> rat option list \<Rightarrow> bool" where
  "keeps_known old new = list_all2 (\<lambda>o' n. o' \<noteq> None \<longrightarrow> n = o') old new"

lemma older_keeps_known:
  assumes "length (tr_values r) = 8" "t \<le> tr_ts r"
  shows "keeps_known (tr_values r) (met_values (Some r) t new)"
proof -
  let ?x = "rd (row_map (tr_values r))"
  let ?keep = "\<lambda>o' n. o' \<noteq> None \<longrightarrow> n = o'"
  have "rd_value (choose_reading False (?x f) y) = rd_value (?x f)" if "rd_value (?x f) \<noteq> None" "f \<in> set ALL_FIELDS" for f y
    using that by (auto simp: row_map_def choose_reading_def absent_def measured_def split: option.splits)
  then have "list_all2 ?keep (map (\<lambda>f. rd_value (?x f)) ALL_FIELDS)
      (map (\<lambda>f. rd_value (choose_reading False (?x f) (rd new f))) ALL_FIELDS)"
    by (simp add: list_all2_conv_all_nth)
  moreover have "met_values (Some r) t new = map (\<lambda>f. rd_value (choose_reading False (?x f) (rd new f))) ALL_FIELDS"
    using assms(2) by (simp add: met_values_def met_readings_def met_newer_def)
  ultimately show ?thesis
    unfolding keeps_known_def by (simp only: row_map_values[OF assms(1)])
qed





section \<open>Freshness of the stations\<close>

definition no_earlier :: "int option \<Rightarrow> int option \<Rightarrow> bool" where
  "no_earlier a b \<longleftrightarrow> (\<forall>t. a = Some t \<longrightarrow> (\<exists>u. b = Some u \<and> t \<le> u))"

definition station_grows :: "station \<Rightarrow> station \<Rightarrow> bool" where
  "station_grows s s' \<longleftrightarrow> sp_alt s' = sp_alt s \<and> no_earlier (sp_telemetry_ts s) (sp_telemetry_ts s') \<and>
     no_earlier (sp_last_seen s) (sp_last_seen s')"

lemma station_grows_refl [simp]: "station_grows s s"
  by (simp add: station_grows_def no_earlier_def)

lemma station_grows_trans: "station_grows s s' \<Longrightarrow> station_grows s' s'' \<Longrightarrow> station_grows s s''"
  unfolding station_grows_def no_earlier_def by (metis order_trans)

lemma upsert_grows:
  "map_of (db_stations db) k = Some s \<Longrightarrow>
   \<exists>s'. map_of (db_stations (upsert_station c vals ts ls ex db)) k = Some s' \<and> station_grows s s' \<and> (k \<noteq> c \<longrightarrow> s' = s)"
  by (auto simp: upsert_station_def Let_def station_grows_def no_earlier_def split: option.splits)

text \<open>
  Neither the telemetry time nor the last-seen time of a station ever goes back, and a frame leaves
  the other stations alone.
\<close>

lemma freshness_never_goes_back:
  assumes "store_telemetry loads dumps baro now_ms c data db = Inr db'" "map_of (db_stations db) k = Some s"
  shows "\<exists>s'. map_of (db_stations db') k = Some s' \<and> station_grows s s' \<and> (k \<noteq> c \<longrightarrow> s' = s)"
  using assms(1)
proof (cases rule: store_telemetry_cases)
  case 1
  then show ?thesis
    using assms(2) by simp
next
  case (2 alt new t extras db1)
  then show ?thesis
    using upsert_grows[of db1 k s c] assms(2) apply_action_stations[OF 2(6)] by simp
qed

section \<open>A barometric altitude is never a pressure\<close>

text \<open>
  The \<open>qfe\<close> of a relayed node's frame is the altitude its barometer computed. It reaches neither the
  tables nor the extras: the frame is stored as if the key were not there.
\<close>

lemma opt_number_delete: "k \<noteq> k' \<Longrightarrow> opt_number k (AList.delete k' data) = opt_number k data"
  by (simp add: opt_number_def)

lemma extras_delete_known: "k \<in> set all_known \<Longrightarrow> k \<noteq> ''extras'' \<Longrightarrow> extras_dict (AList.delete k data) = extras_dict data"
proof -
  assume k: "k \<in> set all_known" "k \<noteq> ''extras''"
  have "filter (\<lambda>(k, v). k \<notin> set all_known \<and> v \<noteq> JNull \<and> \<not> py_zero v) (AList.delete k data) =
      filter (\<lambda>(k, v). k \<notin> set all_known \<and> v \<noteq> JNull \<and> \<not> py_zero v) data"
    using k(1) by (induction data) auto
  then show ?thesis
    using k(2) by (simp add: extras_dict_def)
qed

lemma relayed_qfe_ignored:
  assumes "map_of data ''src_type'' = Some (JStr ''lora'')" "usable_qfe data = Inr q"
  shows "store_telemetry loads dumps baro now_ms c (AList.delete ''qfe'' data) db = store_telemetry loads dumps baro now_ms c data db"
proof -
  let ?d = "AList.delete ''qfe'' data"
  have q: "usable_qfe data = Inr None" "usable_qfe ?d = Inr None"
    using assms by (auto simp: usable_qfe_def opt_number_def split: option.splits)
  have w: "wire_reading ?d k = wire_reading data k" if "k \<noteq> ''qfe''" for k
  proof -
    have "is_ble_transport ?d = is_ble_transport data"
      by (simp add: is_ble_transport_def dict_get_def)
    then show ?thesis
      by (simp only: wire_reading_def opt_number_delete[OF that])
  qed
  have "incoming_readings baro ?d alt = incoming_readings baro data alt" for alt
    by (simp add: incoming_readings_def q w qfe_reading_def opt_number_delete)
  moreover have "incoming_extras dumps ?d = incoming_extras dumps data"
    by (simp add: incoming_extras_def extras_delete_known all_known_def TELEMETRY_KNOWN_KEYS_def)
  moreover have "frame_altitude c ?d db = frame_altitude c data db" "tele_timestamp now_ms ?d = tele_timestamp now_ms data"
    by (simp_all add: frame_altitude_def opt_number_delete tele_timestamp_def)
  ultimately show ?thesis
    by (simp only: store_telemetry_def)
qed

section \<open>What the policy leaves open\<close>

text \<open>
  A frame replayed from outside the window is recorded as history, and its readings still replace the
  station's current ones, under the newer time.
\<close>

lemma replay_overwrites_station:
  "case map_of (db_stations (fold (store_step (\<lambda>s. None) (\<lambda>b d. ''{}'') (\<lambda>q b. q))
       [(0, ''A'', [(''timestamp'', JInt 200000), (''temp1'', JInt 7)]),
        (0, ''A'', [(''timestamp'', JInt 100000), (''temp1'', JInt 8)])] empty_db)) ''A'' of
     None \<Rightarrow> False | Some s \<Rightarrow> hd (sp_values s) = Some 8 \<and> sp_telemetry_ts s = Some 200000"
  by code_simp

text \<open>The order of two readings is the order of the rows they reached: a gap filled by an older frame
  stays closed to a newer one.\<close>

lemma filled_value_blocks_newer:
  "map tr_values (db_rows (fold (store_step (\<lambda>s. None) (\<lambda>b d. ''{}'') (\<lambda>q b. q))
       [(0, ''A'', [(''timestamp'', JInt 300), (''temp1'', JInt 7)]),
        (0, ''A'', [(''timestamp'', JInt 100), (''hum'', JInt 1)]),
        (0, ''A'', [(''timestamp'', JInt 200), (''hum'', JInt 2)])] empty_db)) =
   [[Some 7, None, Some 1, None, None, None, None, None]]"
  by code_simp

text \<open>The incoming extras win whatever their age.\<close>

lemma merge_extras_ignores_time:
  assumes "safe_json_object loads e = old" "safe_json_object loads i = new"
  shows "merge_extras loads dumps e i = (if old = [] \<and> new = [] then None else Some (dumps True (dict_update old new)))"
    and "distinct (map fst new) \<Longrightarrow>
      map_of (dict_update old new) k = (case map_of new k of Some v \<Rightarrow> Some v | None \<Rightarrow> map_of old k)"
proof -
  show "merge_extras loads dumps e i = (if old = [] \<and> new = [] then None else Some (dumps True (dict_update old new)))"
    by (simp add: merge_extras_def assms)
  show "distinct (map fst new) \<Longrightarrow>
      map_of (dict_update old new) k = (case map_of new k of Some v \<Rightarrow> Some v | None \<Rightarrow> map_of old k)" for old
  proof (induction new arbitrary: old)
    case (Cons kv new)
    have "map_of new (fst kv) = None"
      using Cons.prems by (simp add: map_of_eq_None_iff)
    then show ?case
      using Cons.IH[of "AList.update (fst kv) (snd kv) old"] Cons.prems
      by (cases kv) (auto simp: dict_update_def split: option.splits)
  qed (simp add: dict_update_def)
qed

text \<open>Above 44330 m the barometric formula has a negative base, and the frame is lost to the exception.\<close>

lemma high_altitude_raises:
  "store_telemetry loads dumps baro 0 ''A'' [(''timestamp'', JInt 100), (''temp1'', JInt 7), (''qnh'', JInt 1013),
     (''alt'', JInt 50000)] db = Inl TypeError"
  by (simp add: store_telemetry_def frame_altitude_def opt_number_def incoming_readings_def usable_qfe_def
      qfe_reading_def plausible_def QNH_PLAUSIBLE_HPA_RANGE_def baro_qfe_def BARO_LAPSE_RATE_K_PER_M_def
      BARO_STD_TEMP_K_def Let_def)

end
