(* ===== verification/Uptime.thy ===== *)
theory Uptime
  imports McPrelude
begin

text \<open>
  The gateway-uptime ledger of \<open>storage/uptime.py\<close>: the three writers (an accepted time beacon, the
  heartbeat of the process, the reconciliation at startup) and the reader that turns the stored
  segments into a cover of a time window with its statistics.

  \<^item> The ledger is the row of \<open>link_uptime_state\<close>, if there is one, and the rows of
    \<open>link_uptime_segments\<close> in the order of their insertion. Each writer is one SQLite transaction,
    so a history is a list of events (\<open>uptime_event\<close>), each with its clock reading.
  \<^item> Times are milliseconds, as \<^typ>\<open>int\<close>; percentages are exact rationals.
\<close>

section \<open>Which frames count\<close>

definition is_uplink_time_beacon :: "msgd \<Rightarrow> bool" where
  "is_uplink_time_beacon message =
     (let get = (\<lambda>k. str_or '''' (dict_get message k JNull)) in
      if \<not> startswith (get ''msg'') ''{CET}'' then False
      else if get ''src_type'' = ''lora'' then False
      else let origin = upper (strip (before (CHR '','') (get ''src'')));
               hops = map strip (filter (\<lambda>w. strip w \<noteq> '''' \<and> upper (strip w) \<noteq> origin) (split_on (CHR '','') (get ''via'')))
           in hops = [])"

section \<open>The ledger and its writers\<close>

definition GAP_TOLERANCE_MS :: int where
  "GAP_TOLERANCE_MS = 720000"

definition DARK_THRESHOLD_MS :: int where
  "DARK_THRESHOLD_MS = 90000"

definition SILENT_MS :: int where
  "SILENT_MS = 720000"

definition OFF_MS :: int where
  "OFF_MS = 1800000"

datatype uptime_kind = Up | Gap | Dark

record segment =
  sg_start :: int
  sg_end :: int
  sg_kind :: uptime_kind

record link_row =
  lr_first_observed :: int
  lr_last_beacon :: "int option"
  lr_open_up_start :: "int option"
  lr_last_tick :: "int option"

record ledger =
  lg_row :: "link_row option"
  lg_segments :: "segment list"

definition empty_ledger :: ledger where
  "empty_ledger = \<lparr>lg_row = None, lg_segments = []\<rparr>"

definition seed_row :: "int \<Rightarrow> link_row" where
  "seed_row now_ms = \<lparr>lr_first_observed = now_ms, lr_last_beacon = None, lr_open_up_start = None, lr_last_tick = None\<rparr>"

text \<open>\<open>INSERT OR IGNORE INTO link_uptime_state\<close>, and the row read back.\<close>

definition row_or_seed :: "int \<Rightarrow> ledger \<Rightarrow> link_row" where
  "row_or_seed now_ms l = (case lg_row l of None \<Rightarrow> seed_row now_ms | Some r \<Rightarrow> r)"

definition add_segment :: "int \<Rightarrow> int \<Rightarrow> uptime_kind \<Rightarrow> ledger \<Rightarrow> ledger" where
  "add_segment a b k l = l\<lparr>lg_segments := lg_segments l @ [\<lparr>sg_start = a, sg_end = b, sg_kind = k\<rparr>]\<rparr>"

definition record_link_beacon :: "int \<Rightarrow> ledger \<Rightarrow> ledger" where
  "record_link_beacon arrival l =
     (let r = row_or_seed arrival l in
      case lr_last_beacon r of
        None \<Rightarrow> l\<lparr>lg_row := Some (r\<lparr>lr_last_beacon := Some arrival, lr_open_up_start := Some arrival\<rparr>)\<rparr>
      | Some last_beacon \<Rightarrow>
          if arrival - last_beacon > GAP_TOLERANCE_MS
          then (add_segment last_beacon arrival Gap l)
                 \<lparr>lg_row := Some (r\<lparr>lr_last_beacon := Some arrival, lr_open_up_start := Some arrival\<rparr>)\<rparr>
          else if arrival > last_beacon then l\<lparr>lg_row := Some (r\<lparr>lr_last_beacon := Some arrival\<rparr>)\<rparr>
          else l\<lparr>lg_row := Some r\<rparr>)"

definition link_uptime_tick :: "int \<Rightarrow> ledger \<Rightarrow> ledger" where
  "link_uptime_tick now_ms l = l\<lparr>lg_row := Some ((row_or_seed now_ms l)\<lparr>lr_last_tick := Some now_ms\<rparr>)\<rparr>"

definition reconcile_link_uptime_startup :: "int \<Rightarrow> ledger \<Rightarrow> ledger" where
  "reconcile_link_uptime_startup now_ms l =
     (case lg_row l of
        None \<Rightarrow> l\<lparr>lg_row := Some (seed_row now_ms)\<rparr>
      | Some r \<Rightarrow>
          (case lr_last_tick r of
             None \<Rightarrow> l
           | Some last_tick \<Rightarrow>
               if now_ms - last_tick \<le> DARK_THRESHOLD_MS then l
               else (add_segment last_tick now_ms Dark l)
                      \<lparr>lg_row := Some (r\<lparr>lr_last_beacon := Some now_ms, lr_open_up_start := Some now_ms\<rparr>)\<rparr>))"

text \<open>The hook at the head of \<open>store_message\<close>, before any filter.\<close>

definition beacon_hook :: "msgd \<Rightarrow> int \<Rightarrow> ledger \<Rightarrow> ledger" where
  "beacon_hook message now_ms l = (if is_uplink_time_beacon message then record_link_beacon now_ms l else l)"

datatype uptime_event = Beacon int | Tick int | Startup int

fun event_time :: "uptime_event \<Rightarrow> int" where
  "event_time (Beacon t) = t"
| "event_time (Tick t) = t"
| "event_time (Startup t) = t"

fun uptime_step :: "uptime_event \<Rightarrow> ledger \<Rightarrow> ledger" where
  "uptime_step (Beacon t) = record_link_beacon t"
| "uptime_step (Tick t) = link_uptime_tick t"
| "uptime_step (Startup t) = reconcile_link_uptime_startup t"

section \<open>The reader\<close>

definition clip_segment :: "int \<Rightarrow> int \<Rightarrow> segment \<Rightarrow> segment list" where
  "clip_segment start fin s =
     (let a = max (sg_start s) start; b = min (sg_end s) fin
      in if b > a then [\<lparr>sg_start = a, sg_end = b, sg_kind = sg_kind s\<rparr>] else [])"

definition dark_head :: "int option \<Rightarrow> int \<Rightarrow> int \<Rightarrow> segment list" where
  "dark_head first_observed start fin =
     (let dark_before = (case first_observed of None \<Rightarrow> fin | Some f \<Rightarrow> min f fin)
      in if dark_before > start then [\<lparr>sg_start = start, sg_end = dark_before, sg_kind = Dark\<rparr>] else [])"

definition live_tail :: "int option \<Rightarrow> int option \<Rightarrow> int \<Rightarrow> int \<Rightarrow> int \<Rightarrow> segment list" where
  "live_tail first_observed last_beacon start fin now_ms =
     (case last_beacon of
        None \<Rightarrow>
          (case first_observed of
             None \<Rightarrow> []
           | Some f \<Rightarrow>
               if fin > max f start
               then [\<lparr>sg_start = max f start, sg_end = fin,
                      sg_kind = (if now_ms - f > GAP_TOLERANCE_MS then Gap else Dark)\<rparr>] else [])
      | Some b \<Rightarrow>
          if now_ms - b > GAP_TOLERANCE_MS \<and> fin > max b start
          then [\<lparr>sg_start = max b start, sg_end = fin, sg_kind = Gap\<rparr>] else [])"

definition collect_non_up_intervals :: "int option \<Rightarrow> int option \<Rightarrow> segment list \<Rightarrow> int \<Rightarrow> int \<Rightarrow> int \<Rightarrow> segment list" where
  "collect_non_up_intervals first_observed last_beacon seg_rows start fin now_ms =
     sort_key sg_start
       (dark_head first_observed start fin @ concat (map (clip_segment start fin) seg_rows) @
        live_tail first_observed last_beacon start fin now_ms)"

fun fill_up_segments :: "segment list \<Rightarrow> int \<Rightarrow> int \<Rightarrow> segment list" where
  "fill_up_segments [] cursor fin =
     (if cursor < fin then [\<lparr>sg_start = cursor, sg_end = fin, sg_kind = Up\<rparr>] else [])"
| "fill_up_segments (s # ss) cursor fin =
     (if sg_start s > cursor then [\<lparr>sg_start = cursor, sg_end = sg_start s, sg_kind = Up\<rparr>] else []) @
     s # fill_up_segments ss (max cursor (sg_end s)) fin"

datatype uptime_state = Unknown | Active | Silent | Off

definition link_state_of :: "int option \<Rightarrow> int \<Rightarrow> uptime_state" where
  "link_state_of last_beacon now_ms =
     (case last_beacon of None \<Rightarrow> Unknown
      | Some b \<Rightarrow> if now_ms - b < SILENT_MS then Active else if now_ms - b < OFF_MS then Silent else Off)"

definition MAX_RENDER_SEGMENTS :: nat where
  "MAX_RENDER_SEGMENTS = 500"

fun severity :: "uptime_kind \<Rightarrow> nat" where
  "severity Up = 0"
| "severity Dark = 1"
| "severity Gap = 2"

text \<open>\<open>max(..., key=...)\<close>: the first of the greatest.\<close>

definition worst_kind :: "segment list \<Rightarrow> uptime_kind" where
  "worst_kind chunk = foldl (\<lambda>w s. if severity (sg_kind s) > severity w then sg_kind s else w) (sg_kind (hd chunk)) (tl chunk)"

definition merge_chunk :: "segment list \<Rightarrow> segment list" where
  "merge_chunk chunk =
     (if chunk = [] then []
      else [\<lparr>sg_start = sg_start (hd chunk), sg_end = sg_end (last chunk), sg_kind = worst_kind chunk\<rparr>])"

definition chunk_of :: "nat \<Rightarrow> segment list \<Rightarrow> nat \<Rightarrow> segment list" where
  "chunk_of k segments i =
     (let n = length segments; lo = i * n div k; hi = (i + 1) * n div k in take (hi - lo) (drop lo segments))"

definition downsample :: "segment list \<Rightarrow> segment list" where
  "downsample segments =
     (if length segments \<le> MAX_RENDER_SEGMENTS then segments
      else concat (map (\<lambda>i. merge_chunk (chunk_of MAX_RENDER_SEGMENTS segments i)) [0..<MAX_RENDER_SEGMENTS]))"

definition seg_len :: "segment \<Rightarrow> int" where
  "seg_len s = sg_end s - sg_start s"

definition kind_ms :: "uptime_kind \<Rightarrow> segment list \<Rightarrow> int" where
  "kind_ms k segs = sum_list (map seg_len (filter (\<lambda>s. sg_kind s = k) segs))"

record uptime_report =
  ur_start :: int
  ur_end :: int
  ur_state :: uptime_state
  ur_uptime_pct :: "rat option"
  ur_coverage_pct :: rat
  ur_longest_outage :: int
  ur_last_beacon :: "int option"
  ur_segments :: "segment list"

definition exact_segments :: "ledger \<Rightarrow> int \<Rightarrow> int \<Rightarrow> segment list" where
  "exact_segments l window_ms now_ms =
     (let start = now_ms - window_ms;
          rows = sort_key sg_start (filter (\<lambda>s. sg_end s > start \<and> sg_start s < now_ms) (lg_segments l));
          first_observed = map_option lr_first_observed (lg_row l);
          last_beacon = (case lg_row l of None \<Rightarrow> None | Some r \<Rightarrow> lr_last_beacon r)
      in fill_up_segments (collect_non_up_intervals first_observed last_beacon rows start now_ms now_ms) start now_ms)"

definition get_link_uptime :: "ledger \<Rightarrow> int \<Rightarrow> int \<Rightarrow> uptime_report" where
  "get_link_uptime l window_ms now_ms =
     (let segments = exact_segments l window_ms now_ms;
          last_beacon = (case lg_row l of None \<Rightarrow> None | Some r \<Rightarrow> lr_last_beacon r);
          up_ms = kind_ms Up segments;
          gap_durations = map seg_len (filter (\<lambda>s. sg_kind s = Gap) segments);
          gap_ms = sum_list gap_durations;
          observed_ms = up_ms + gap_ms
      in \<lparr>ur_start = now_ms - window_ms, ur_end = now_ms, ur_state = link_state_of last_beacon now_ms,
          ur_uptime_pct = (if observed_ms > 0 then Some (100 * of_int up_ms / of_int observed_ms) else None),
          ur_coverage_pct = (if window_ms > 0 then 100 * of_int observed_ms / of_int window_ms else 0),
          ur_longest_outage = (if gap_durations \<noteq> [] then Max (set gap_durations) else 0),
          ur_last_beacon = last_beacon, ur_segments = downsample segments\<rparr>)"


section \<open>Chains of segments\<close>

text \<open>Segments that cover an interval without a hole, and sorted segments that do not overlap.\<close>

fun chain :: "int \<Rightarrow> segment list \<Rightarrow> int \<Rightarrow> bool" where
  "chain a [] b \<longleftrightarrow> a = b"
| "chain a (s # ss) b \<longleftrightarrow> sg_start s = a \<and> a < sg_end s \<and> chain (sg_end s) ss b"

fun apart :: "int \<Rightarrow> segment list \<Rightarrow> int \<Rightarrow> bool" where
  "apart a [] b \<longleftrightarrow> a \<le> b"
| "apart a (s # ss) b \<longleftrightarrow> a \<le> sg_start s \<and> sg_start s < sg_end s \<and> apart (sg_end s) ss b"

definition seg_covers :: "segment \<Rightarrow> int \<Rightarrow> bool" where
  "seg_covers s t \<longleftrightarrow> sg_start s \<le> t \<and> t < sg_end s"

lemma chain_append: "chain a (xs @ ys) b \<longleftrightarrow> (\<exists>m. chain a xs m \<and> chain m ys b)"
  by (induction xs arbitrary: a) auto

lemma chain_le: "chain a xs b \<Longrightarrow> a \<le> b"
  by (induction xs arbitrary: a) force+

lemma apart_le: "apart a xs b \<Longrightarrow> a \<le> b"
  by (induction xs arbitrary: a) force+

lemma apart_append: "apart a xs m \<Longrightarrow> apart m ys b \<Longrightarrow> apart a (xs @ ys) b"
proof (induction xs arbitrary: a)
  case Nil
  then show ?case
    by (cases ys) auto
qed auto

lemma apart_weaken: "apart a xs b \<Longrightarrow> a' \<le> a \<Longrightarrow> b \<le> b' \<Longrightarrow> apart a' xs b'"
  by (induction xs arbitrary: a a') auto

lemma apart_shrink: "apart a xs b \<Longrightarrow> a \<le> c \<Longrightarrow> \<forall>s \<in> set xs. sg_end s \<le> c \<Longrightarrow> apart a xs c"
  by (induction xs arbitrary: a) auto

lemma apart_filter: "apart a xs b \<Longrightarrow> apart a (filter P xs) b"
proof (induction xs arbitrary: a)
  case (Cons x xs)
  then show ?case
    using apart_weaken[of "sg_end x" "filter P xs" b a b] by auto
qed simp

lemma apart_starts: "apart a xs b \<Longrightarrow> \<forall>s \<in> set xs. a \<le> sg_start s \<and> sg_start s < sg_end s \<and> sg_end s \<le> b"
  by (induction xs arbitrary: a) (force dest: apart_le)+

lemma apart_sorted: "apart a xs b \<Longrightarrow> sorted (map sg_start xs)"
proof (induction xs arbitrary: a)
  case (Cons x xs)
  then show ?case
    using apart_starts[of "sg_end x" xs b] by force
qed simp

lemma apart_sort: "apart a xs b \<Longrightarrow> sort_key sg_start xs = xs"
  by (simp add: apart_sorted sort_key_id_if_sorted)

lemma fill_chain: "apart c xs e \<Longrightarrow> chain c (fill_up_segments xs c e) e"
proof (induction xs arbitrary: c)
  case (Cons x xs)
  then show ?case
    by (auto simp: max_def)
qed auto

lemma covers_clip:
  "(\<exists>s' \<in> set (clip_segment a b s). seg_covers s' t) \<longleftrightarrow> seg_covers s t \<and> a \<le> t \<and> t < b"
  by (auto simp: clip_segment_def seg_covers_def Let_def)

lemma fill_up_iff:
  assumes "apart c xs e" "\<forall>s \<in> set xs. sg_kind s \<noteq> Up"
  shows "(\<exists>s \<in> set (fill_up_segments xs c e). sg_kind s = Up \<and> seg_covers s t) \<longleftrightarrow>
     c \<le> t \<and> t < e \<and> \<not> (\<exists>s \<in> set xs. seg_covers s t)"
  using assms
proof (induction xs arbitrary: c)
  case Nil
  then show ?case
    by (auto simp: seg_covers_def)
next
  case (Cons x xs)
  have m: "max c (sg_end x) = sg_end x"
    using Cons.prems by simp
  have later: "\<forall>s \<in> set xs. sg_end x \<le> sg_start s" "sg_end x \<le> e"
    using Cons.prems apart_starts[of "sg_end x" xs e] apart_le[of "sg_end x" xs e] by auto
  have "(\<exists>s \<in> set (fill_up_segments xs (sg_end x) e). sg_kind s = Up \<and> seg_covers s t) \<longleftrightarrow>
      sg_end x \<le> t \<and> t < e \<and> \<not> (\<exists>s \<in> set xs. seg_covers s t)"
    using Cons by simp
  then show ?case
    using Cons.prems later by (auto simp: m seg_covers_def)
qed

definition clamp :: "int \<Rightarrow> int \<Rightarrow> int \<Rightarrow> int" where
  "clamp a b x = max a (min x b)"

lemma clip_apart:
  "apart m xs n \<Longrightarrow> a \<le> b \<Longrightarrow> apart (clamp a b m) (concat (map (clip_segment a b) xs)) (clamp a b n)"
proof (induction xs arbitrary: m)
  case Nil
  then show ?case
    by (auto simp: clamp_def)
next
  case (Cons x xs)
  have "apart (clamp a b m) (clip_segment a b x) (clamp a b (sg_end x))"
    using Cons.prems by (auto simp: clip_segment_def clamp_def Let_def max_def min_def)
  then show ?case
    using Cons by (auto intro: apart_append)
qed

lemma kinds_sum: "chain a xs b \<Longrightarrow> kind_ms Up xs + kind_ms Gap xs + kind_ms Dark xs = b - a"
proof (induction xs arbitrary: a)
  case (Cons x xs)
  then have "kind_ms Up xs + kind_ms Gap xs + kind_ms Dark xs = b - sg_end x" "a = sg_start x"
    by auto
  then show ?case
    by (cases "sg_kind x") (simp_all add: kind_ms_def seg_len_def)
qed (simp add: kind_ms_def)

lemma kind_ms_nonneg: "chain a xs b \<Longrightarrow> 0 \<le> kind_ms k xs"
proof (induction xs arbitrary: a)
  case (Cons x xs)
  then show ?case
    by (auto simp: kind_ms_def seg_len_def)
qed (simp add: kind_ms_def)

section \<open>Rendering\<close>

lemma concat_slices:
  assumes "\<And>i. i < m \<Longrightarrow> g i \<le> g (Suc i)" "g 0 = (0 :: nat)"
  shows "concat (map (\<lambda>i. take (g (Suc i) - g i) (drop (g i) xs)) [0..<m]) = take (g m) xs"
  using assms(1)
proof (induction m)
  case (Suc m)
  have "take (g m) xs @ take (g (Suc m) - g m) (drop (g m) xs) = take (g (Suc m)) xs"
    using Suc.prems[of m] by (simp add: take_add[symmetric])
  then show ?case
    using Suc by simp
qed (simp add: assms(2))

lemma chunks_cover: "0 < k \<Longrightarrow> concat (map (chunk_of k xs) [0..<k]) = xs"
proof -
  assume k: "0 < k"
  have "concat (map (\<lambda>i. take (Suc i * length xs div k - i * length xs div k) (drop (i * length xs div k) xs)) [0..<k]) =
      take (k * length xs div k) xs"
    by (rule concat_slices) (simp_all add: div_le_mono)
  moreover have "chunk_of k xs = (\<lambda>i. take (Suc i * length xs div k - i * length xs div k) (drop (i * length xs div k) xs))"
    by (simp add: fun_eq_iff chunk_of_def Let_def)
  ultimately show ?thesis
    using k by simp
qed

lemma worst_kind_fold:
  "severity (foldl (\<lambda>w s. if severity (sg_kind s) > severity w then sg_kind s else w) k xs) =
   Max (set (severity k # map (severity \<circ> sg_kind) xs))"
proof (induction xs arbitrary: k)
  case (Cons x xs)
  have "Max (insert (severity (if severity (sg_kind x) > severity k then sg_kind x else k)) (severity ` sg_kind ` set xs)) =
      Max (insert (severity k) (insert (severity (sg_kind x)) (severity ` sg_kind ` set xs)))"
    by (cases "xs = []") (auto simp: max_def)
  then show ?case
    by (simp add: Cons.IH image_comp)
qed simp

lemma worst_kind_greatest: "s \<in> set chunk \<Longrightarrow> severity (sg_kind s) \<le> severity (worst_kind chunk)"
proof -
  assume s: "s \<in> set chunk"
  then obtain x xs where c: "chunk = x # xs"
    by (cases chunk) auto
  show ?thesis
    using s by (simp add: worst_kind_def c worst_kind_fold) force
qed

lemma chain_bounds: "chain a xs b \<Longrightarrow> s \<in> set xs \<Longrightarrow> a \<le> sg_start s \<and> sg_start s < sg_end s \<and> sg_end s \<le> b"
  by (induction xs arbitrary: a) (force dest: chain_le)+

lemma chain_ends: "chain a xs b \<Longrightarrow> xs \<noteq> [] \<Longrightarrow> sg_start (hd xs) = a \<and> sg_end (last xs) = b \<and> a < b"
proof (induction xs arbitrary: a)
  case (Cons x xs)
  then show ?case
    using chain_le[of "sg_end x" xs b] by (cases xs) force+
qed simp

lemma merge_chunk_chain: "chain a c b \<Longrightarrow> chain a (merge_chunk c) b"
  using chain_ends[of a c b] by (auto simp: merge_chunk_def)

lemma merge_chunks_chain: "chain a (concat cs) b \<Longrightarrow> chain a (concat (map merge_chunk cs)) b"
proof (induction cs arbitrary: a)
  case (Cons c cs)
  then obtain m where "chain a c m" "chain m (concat cs) b"
    by (auto simp: chain_append)
  then show ?case
    using merge_chunk_chain[of a c m] Cons.IH[of m] by (auto simp: chain_append)
qed simp

lemma merge_chunks_worst:
  "chain a (concat cs) b \<Longrightarrow> s \<in> set (concat cs) \<Longrightarrow>
   \<exists>s' \<in> set (concat (map merge_chunk cs)). sg_start s' \<le> sg_start s \<and> sg_end s \<le> sg_end s' \<and>
     severity (sg_kind s) \<le> severity (sg_kind s')"
proof (induction cs arbitrary: a)
  case (Cons c cs)
  obtain m where m: "chain a c m" "chain m (concat cs) b"
    using Cons.prems(1) by (auto simp: chain_append)
  show ?case
  proof (cases "s \<in> set c")
    case True
    then have "merge_chunk c = [\<lparr>sg_start = a, sg_end = m, sg_kind = worst_kind c\<rparr>]"
      using chain_ends[OF m(1)] by (auto simp: merge_chunk_def)
    then show ?thesis
      using chain_bounds[OF m(1) True] worst_kind_greatest[OF True] by auto
  next
    case False
    then show ?thesis
      using Cons.IH[OF m(2)] Cons.prems(2) by auto
  qed
qed simp

lemma length_merge_chunks: "length (concat (map merge_chunk cs)) \<le> length cs"
  by (induction cs) (auto simp: merge_chunk_def)

lemma downsample_merges:
  "\<not> length segments \<le> MAX_RENDER_SEGMENTS \<Longrightarrow>
   \<exists>cs. concat cs = segments \<and> downsample segments = concat (map merge_chunk cs) \<and> length cs = MAX_RENDER_SEGMENTS"
  using chunks_cover[of MAX_RENDER_SEGMENTS segments]
  by (intro exI[of _ "map (chunk_of MAX_RENDER_SEGMENTS segments) [0..<MAX_RENDER_SEGMENTS]"])
    (simp add: downsample_def MAX_RENDER_SEGMENTS_def comp_def)

lemma downsample_chain: "chain a segments b \<Longrightarrow> chain a (downsample segments) b"
  using downsample_merges[of segments] merge_chunks_chain
  by (cases "length segments \<le> MAX_RENDER_SEGMENTS") (auto simp: downsample_def)

text \<open>The segments rendered for a window are at most 500, cover exactly what the exact segments cover,
  and never show any stretch as better than it was: each exact segment lies inside a rendered one of at
  least its severity.
\<close>

theorem downsample_hides_nothing:
  assumes "chain a segments b"
  shows "length (downsample segments) \<le> MAX_RENDER_SEGMENTS \<and> chain a (downsample segments) b \<and>
     (\<forall>s \<in> set segments. \<exists>s' \<in> set (downsample segments).
        sg_start s' \<le> sg_start s \<and> sg_end s \<le> sg_end s' \<and> severity (sg_kind s) \<le> severity (sg_kind s'))"
proof (cases "length segments \<le> MAX_RENDER_SEGMENTS")
  case True
  then show ?thesis
    using assms by (auto simp: downsample_def)
next
  case False
  then obtain cs where cs: "concat cs = segments" "downsample segments = concat (map merge_chunk cs)" "length cs = MAX_RENDER_SEGMENTS"
    using downsample_merges by blast
  show ?thesis
    using downsample_chain[OF assms] merge_chunks_worst[of a cs b] length_merge_chunks[of cs] assms by (simp add: cs)
qed

lemma downsample_hides_nothing_witness:
  "chain 0 (downsample [\<lparr>sg_start = 0, sg_end = 5, sg_kind = Up\<rparr>, \<lparr>sg_start = 5, sg_end = 9, sg_kind = Gap\<rparr>]) 9"
proof -
  have "chain 0 [\<lparr>sg_start = 0, sg_end = 5, sg_kind = Up\<rparr>, \<lparr>sg_start = 5, sg_end = 9, sg_kind = Gap\<rparr>] 9"
    by simp
  from downsample_hides_nothing[OF this] show ?thesis
    by blast
qed


section \<open>The ledger of a history\<close>

text \<open>
  Stored segments do not overlap, none lies before the ledger's first observation or after the last
  counted beacon (a startup that charges a dark segment counts as one).
\<close>

definition ledger_ok :: "int \<Rightarrow> ledger \<Rightarrow> bool" where
  "ledger_ok now_ms l \<longleftrightarrow>
     (case lg_row l of
        None \<Rightarrow> lg_segments l = []
      | Some r \<Rightarrow>
          lr_first_observed r \<le> now_ms \<and>
          (case lr_last_beacon r of
             None \<Rightarrow> lg_segments l = []
           | Some b \<Rightarrow> b \<le> now_ms \<and> apart (lr_first_observed r) (lg_segments l) b) \<and>
          (case lr_last_tick r of None \<Rightarrow> True | Some k \<Rightarrow> lr_first_observed r \<le> k \<and> k \<le> now_ms)) \<and>
     (\<forall>s \<in> set (lg_segments l). sg_kind s \<noteq> Up)"

text \<open>
  A charged restart is orderly if the last heartbeat before it came after every stored segment: no
  outage ended between that heartbeat and the crash, and no startup failed before its first heartbeat.
\<close>

fun orderly :: "uptime_event \<Rightarrow> ledger \<Rightarrow> bool" where
  "orderly (Startup t) l =
     (case lg_row l of None \<Rightarrow> True
      | Some r \<Rightarrow> (case lr_last_tick r of None \<Rightarrow> True
          | Some k \<Rightarrow> t - k \<le> DARK_THRESHOLD_MS \<or> (\<forall>s \<in> set (lg_segments l). sg_end s \<le> k)))"
| "orderly e l = True"

fun history_ok :: "int \<Rightarrow> uptime_event list \<Rightarrow> ledger \<Rightarrow> bool" where
  "history_ok now_ms [] l = True"
| "history_ok now_ms (e # es) l \<longleftrightarrow> now_ms \<le> event_time e \<and> orderly e l \<and> history_ok (event_time e) es (uptime_step e l)"

lemma ledger_ok_empty [simp]: "ledger_ok t empty_ledger"
  by (simp add: ledger_ok_def empty_ledger_def)

lemma ledger_ok_later: "ledger_ok t l \<Longrightarrow> t \<le> t' \<Longrightarrow> ledger_ok t' l"
  by (auto simp: ledger_ok_def split: option.splits)

lemma apart_snoc: "apart a xs b \<Longrightarrow> b \<le> sg_start s \<Longrightarrow> sg_start s < sg_end s \<Longrightarrow> apart a (xs @ [s]) (sg_end s)"
  using apart_append[of a xs b "[s]" "sg_end s"] by simp

lemma ledger_ok_beacon:
  assumes "ledger_ok t l"
  shows "ledger_ok t (record_link_beacon t l)"
proof (cases "lg_row l")
  case None
  then show ?thesis
    using assms by (auto simp: ledger_ok_def record_link_beacon_def row_or_seed_def seed_row_def)
next
  case (Some r)
  show ?thesis
  proof (cases "lr_last_beacon r")
    case None
    then show ?thesis
      using assms Some by (auto simp: ledger_ok_def record_link_beacon_def row_or_seed_def split: option.splits)
  next
    case (Some b)
    note s = \<open>lg_row l = Some r\<close> Some
    have b: "apart (lr_first_observed r) (lg_segments l) b" "b \<le> t"
      using assms s by (auto simp: ledger_ok_def)
    have "b < t \<Longrightarrow> apart (lr_first_observed r) (lg_segments l @ [\<lparr>sg_start = b, sg_end = t, sg_kind = Gap\<rparr>]) t"
      using apart_snoc[OF b(1), of "\<lparr>sg_start = b, sg_end = t, sg_kind = Gap\<rparr>"] by simp
    moreover have "apart (lr_first_observed r) (lg_segments l) t"
      using b by (blast intro: apart_weaken)
    ultimately show ?thesis
      using assms s b(2) by (auto simp: ledger_ok_def record_link_beacon_def row_or_seed_def add_segment_def GAP_TOLERANCE_MS_def
          split: option.splits)
  qed
qed

lemma ledger_ok_tick:
  "ledger_ok t l \<Longrightarrow> ledger_ok t (link_uptime_tick t l)"
  by (auto simp: ledger_ok_def link_uptime_tick_def row_or_seed_def seed_row_def split: option.splits)

lemma ledger_ok_startup:
  assumes "ledger_ok t l" "orderly (Startup t) l"
  shows "ledger_ok t (reconcile_link_uptime_startup t l)"
proof (cases "lg_row l")
  case None
  then show ?thesis
    using assms by (auto simp: ledger_ok_def reconcile_link_uptime_startup_def seed_row_def)
next
  case (Some r)
  show ?thesis
  proof (cases "case lr_last_tick r of None \<Rightarrow> True | Some k \<Rightarrow> t - k \<le> DARK_THRESHOLD_MS")
    case True
    then show ?thesis
      using assms Some by (auto simp: reconcile_link_uptime_startup_def split: option.splits)
  next
    case False
    then obtain k where k: "lr_last_tick r = Some k" "DARK_THRESHOLD_MS < t - k"
      by (auto split: option.splits)
    have f: "lr_first_observed r \<le> k" "\<forall>s \<in> set (lg_segments l). sg_end s \<le> k"
      using assms Some k by (auto simp: ledger_ok_def)
    have a: "apart (lr_first_observed r) (lg_segments l) k"
    proof (cases "lr_last_beacon r")
      case None
      then show ?thesis
        using assms(1) Some f(1) by (simp add: ledger_ok_def)
    next
      case (Some b)
      then show ?thesis
        using assms(1) \<open>lg_row l = Some r\<close> f by (auto simp: ledger_ok_def intro: apart_shrink)
    qed
    have "k < t"
      using k(2) by (simp add: DARK_THRESHOLD_MS_def)
    then show ?thesis
      using assms(1) Some k f(1) apart_snoc[OF a, of "\<lparr>sg_start = k, sg_end = t, sg_kind = Dark\<rparr>"]
      by (auto simp: ledger_ok_def reconcile_link_uptime_startup_def add_segment_def)
  qed
qed

lemma ledger_ok_step: "ledger_ok t l \<Longrightarrow> t \<le> event_time e \<Longrightarrow> orderly e l \<Longrightarrow> ledger_ok (event_time e) (uptime_step e l)"
  using ledger_ok_later[of t l "event_time e"]
  by (cases e) (simp_all add: ledger_ok_beacon ledger_ok_tick ledger_ok_startup del: orderly.simps(1))

lemma ledger_ok_history:
  "history_ok t es l \<Longrightarrow> ledger_ok t l \<Longrightarrow> t \<le> now_ms \<Longrightarrow> \<forall>e \<in> set es. event_time e \<le> now_ms \<Longrightarrow>
   ledger_ok now_ms (fold uptime_step es l)"
proof (induction es arbitrary: t l)
  case Nil
  then show ?case
    by (auto intro: ledger_ok_later)
next
  case (Cons e es)
  then have "ledger_ok (event_time e) (uptime_step e l)"
    by (auto intro: ledger_ok_step)
  then show ?case
    using Cons by auto
qed

section \<open>The report of a history\<close>

definition non_up :: "ledger \<Rightarrow> int \<Rightarrow> int \<Rightarrow> segment list" where
  "non_up l window_ms now_ms =
     (let start = now_ms - window_ms
      in dark_head (map_option lr_first_observed (lg_row l)) start now_ms @
         concat (map (clip_segment start now_ms) (filter (\<lambda>s. sg_end s > start \<and> sg_start s < now_ms) (lg_segments l))) @
         live_tail (map_option lr_first_observed (lg_row l)) (case lg_row l of None \<Rightarrow> None | Some r \<Rightarrow> lr_last_beacon r)
           start now_ms now_ms)"

lemma non_up_apart:
  assumes "ledger_ok now_ms l" "0 \<le> window_ms"
  shows "apart (now_ms - window_ms) (non_up l window_ms now_ms) now_ms"
    "exact_segments l window_ms now_ms = fill_up_segments (non_up l window_ms now_ms) (now_ms - window_ms) now_ms"
proof -
  let ?a = "now_ms - window_ms"
  let ?rows = "filter (\<lambda>s. sg_end s > ?a \<and> sg_start s < now_ms) (lg_segments l)"
  let ?f = "map_option lr_first_observed (lg_row l)"
  let ?b = "case lg_row l of None \<Rightarrow> None | Some r \<Rightarrow> lr_last_beacon r"
  have "apart ?a (dark_head ?f ?a now_ms @ concat (map (clip_segment ?a now_ms) ?rows) @ live_tail ?f ?b ?a now_ms now_ms) now_ms
      \<and> sort_key sg_start ?rows = ?rows"
  proof (cases "lg_row l")
    case None
    then show ?thesis
      using assms by (auto simp: ledger_ok_def dark_head_def live_tail_def)
  next
    case (Some r)
    have f: "lr_first_observed r \<le> now_ms"
      using assms(1) Some by (simp add: ledger_ok_def)
    have hd: "apart ?a (dark_head ?f ?a now_ms) (clamp ?a now_ms (lr_first_observed r))"
      using f assms(2) by (auto simp: Some dark_head_def clamp_def Let_def)
    show ?thesis
    proof (cases "lr_last_beacon r")
      case None
      have "apart (clamp ?a now_ms (lr_first_observed r)) (live_tail ?f ?b ?a now_ms now_ms) now_ms"
        using f assms(2) by (auto simp: Some None live_tail_def clamp_def)
      then show ?thesis
        using apart_append[OF hd] assms(1) Some None by (simp add: ledger_ok_def)
    next
      case b: (Some b)
      have s: "apart (lr_first_observed r) (lg_segments l) b" "b \<le> now_ms"
        using assms(1) Some b by (simp_all add: ledger_ok_def)
      have tl: "apart (clamp ?a now_ms b) (live_tail ?f ?b ?a now_ms now_ms) now_ms"
        using s(2) assms(2) by (auto simp: Some b live_tail_def clamp_def)
      have mid: "apart (clamp ?a now_ms (lr_first_observed r)) (concat (map (clip_segment ?a now_ms) ?rows)) (clamp ?a now_ms b)"
        using assms(2) apart_filter[OF s(1)] by (intro clip_apart) auto
      show ?thesis
        using apart_append[OF hd apart_append[OF mid tl]] apart_sort[OF apart_filter[OF s(1)]] by blast
    qed
  qed
  then have n: "apart ?a (non_up l window_ms now_ms) now_ms" "sort_key sg_start ?rows = ?rows"
    by (simp_all add: non_up_def Let_def)
  show "apart ?a (non_up l window_ms now_ms) now_ms"
    by (rule n(1))
  have "collect_non_up_intervals ?f ?b ?rows ?a now_ms now_ms = non_up l window_ms now_ms"
    using apart_sort[OF n(1)] by (simp add: collect_non_up_intervals_def non_up_def Let_def)
  then show "exact_segments l window_ms now_ms = fill_up_segments (non_up l window_ms now_ms) ?a now_ms"
    by (simp add: exact_segments_def n(2) Let_def)
qed

lemma exact_chain:
  "ledger_ok now_ms l \<Longrightarrow> 0 \<le> window_ms \<Longrightarrow> chain (now_ms - window_ms) (exact_segments l window_ms now_ms) now_ms"
  by (simp add: non_up_apart fill_chain)

text \<open>C35: for every history of beacons, heartbeats and orderly restarts, the report of a window is exact:
  its segments follow each other without hole or overlap from the start to the end of the window, the
  up, gap and dark times add up to the window, and both percentages lie between 0 and 100.
\<close>

theorem uptime_report_exact:
  assumes "history_ok t0 events empty_ledger" "\<forall>e \<in> set events. event_time e \<le> now_ms" "t0 \<le> now_ms" "0 < window_ms"
    and "report = get_link_uptime (fold uptime_step events empty_ledger) window_ms now_ms"
    and "segs = exact_segments (fold uptime_step events empty_ledger) window_ms now_ms"
  shows "chain (now_ms - window_ms) (ur_segments report) now_ms \<and>
     chain (now_ms - window_ms) segs now_ms \<and>
     kind_ms Up segs + kind_ms Gap segs + kind_ms Dark segs = window_ms \<and>
     0 \<le> ur_coverage_pct report \<and> ur_coverage_pct report \<le> 100 \<and>
     (\<forall>p. ur_uptime_pct report = Some p \<longrightarrow> 0 \<le> p \<and> p \<le> 100)"
proof -
  let ?l = "fold uptime_step events empty_ledger"
  have "ledger_ok now_ms ?l"
    using assms(1-3) by (intro ledger_ok_history) auto
  then have c: "chain (now_ms - window_ms) segs now_ms"
    using assms(4) by (simp add: exact_chain assms(6))
  note sum = kinds_sum[OF c] and pos = kind_ms_nonneg[OF c]
  have gap: "sum_list (map seg_len (filter (\<lambda>s. sg_kind s = Gap) segs)) = kind_ms Gap segs"
    by (simp add: kind_ms_def)
  have le: "100 * of_int x / of_int y \<le> (100 :: rat)" "0 \<le> 100 * of_int x / (of_int y :: rat)" if "0 \<le> x" "x \<le> y" "0 < y" for x y
    using that by (simp_all add: divide_le_eq)
  have "chain (now_ms - window_ms) (downsample segs) now_ms"
    using downsample_chain[OF c] .
  moreover have "0 \<le> ur_coverage_pct report \<and> ur_coverage_pct report \<le> 100"
    using le[of "kind_ms Up segs + kind_ms Gap segs" window_ms] pos[of Up] pos[of Gap] pos[of Dark] sum assms(4)
    by (simp add: assms(5) get_link_uptime_def gap Let_def flip: assms(6))
  moreover have "0 \<le> p \<and> p \<le> 100" if "ur_uptime_pct report = Some p" for p
    using that le[of "kind_ms Up segs" "kind_ms Up segs + kind_ms Gap segs"] pos[of Up] pos[of Gap]
    by (auto simp add: assms(5) get_link_uptime_def gap Let_def simp flip: assms(6) split: if_splits)
  ultimately show ?thesis
    using c sum by (simp add: assms(5) get_link_uptime_def Let_def flip: assms(6))
qed


definition sample_history :: "uptime_event list" where
  "sample_history = [Startup 0, Tick 10, Beacon 1000, Tick 30000, Beacon 900000, Tick 910000, Startup 1200000, Tick 1200010, Beacon 1300000]"

lemma uptime_report_exact_witness:
  "ur_uptime_pct (get_link_uptime (fold uptime_step sample_history empty_ledger) 1400000 1400000) \<noteq> None \<and>
   chain 0 (ur_segments (get_link_uptime (fold uptime_step sample_history empty_ledger) 1400000 1400000)) 1400000"
proof -
  have "history_ok 0 sample_history empty_ledger"
    by code_simp
  moreover have "\<forall>e \<in> set sample_history. event_time e \<le> 1400000"
    by (simp add: sample_history_def)
  moreover have "ur_uptime_pct (get_link_uptime (fold uptime_step sample_history empty_ledger) 1400000 1400000) \<noteq> None"
    by code_simp
  ultimately show ?thesis
    using uptime_report_exact[of 0 sample_history 1400000 1400000] by auto
qed

section \<open>What up means\<close>

lemma head_covers:
  "(\<exists>s \<in> set (dark_head f a b). seg_covers s t) \<longleftrightarrow> a \<le> t \<and> t < b \<and> (\<forall>x. f = Some x \<longrightarrow> t < x)"
  by (auto simp: dark_head_def seg_covers_def Let_def split: option.splits)

lemma tail_covers:
  "(\<exists>s \<in> set (live_tail f lb a b n). seg_covers s t) \<longleftrightarrow> a \<le> t \<and> t < b \<and>
     (case lb of None \<Rightarrow> (\<exists>x. f = Some x \<and> x \<le> t) | Some y \<Rightarrow> GAP_TOLERANCE_MS < n - y \<and> y \<le> t)"
  by (cases lb; cases f) (auto simp: live_tail_def seg_covers_def)

lemma clipped_cover:
  "(\<exists>s \<in> set (concat (map (clip_segment a b) rs)). seg_covers s t) \<longleftrightarrow> a \<le> t \<and> t < b \<and> (\<exists>s \<in> set rs. seg_covers s t)"
proof -
  have "(\<exists>s \<in> set (concat (map (clip_segment a b) rs)). seg_covers s t) \<longleftrightarrow>
      (\<exists>s \<in> set rs. \<exists>s' \<in> set (clip_segment a b s). seg_covers s' t)"
    by auto
  then show ?thesis
    by (auto simp only: covers_clip)
qed

lemma rows_cover:
  "(\<exists>s \<in> set (concat (map (clip_segment a b) (filter (\<lambda>s. sg_end s > a \<and> sg_start s < b) rows))). seg_covers s t) \<longleftrightarrow>
   a \<le> t \<and> t < b \<and> (\<exists>s \<in> set rows. seg_covers s t)"
  unfolding clipped_cover by (auto simp: seg_covers_def)

lemma non_up_kinds:
  "ledger_ok now_ms l \<Longrightarrow> \<forall>s \<in> set (non_up l w now_ms). sg_kind s \<noteq> Up"
  by (auto simp: non_up_def dark_head_def live_tail_def clip_segment_def ledger_ok_def Let_def split: option.splits if_splits)



section \<open>Stored segments are honest\<close>

fun seg_heard :: "uptime_event list \<Rightarrow> segment \<Rightarrow> bool" where
  "seg_heard es s \<longleftrightarrow>
     (sg_kind s = Gap \<and> GAP_TOLERANCE_MS < sg_end s - sg_start s \<and> Beacon (sg_end s) \<in> set es \<and>
        (\<forall>t. Beacon t \<in> set es \<longrightarrow> t \<le> sg_start s \<or> sg_end s \<le> t)) \<or>
     (sg_kind s = Dark \<and> DARK_THRESHOLD_MS < sg_end s - sg_start s \<and> Startup (sg_end s) \<in> set es \<and>
        (\<forall>t. Tick t \<in> set es \<longrightarrow> t \<le> sg_start s \<or> sg_end s \<le> t))"

definition heard :: "uptime_event list \<Rightarrow> ledger \<Rightarrow> bool" where
  "heard es l \<longleftrightarrow>
     (\<forall>b. Beacon b \<in> set es \<longrightarrow> (\<exists>r c. lg_row l = Some r \<and> lr_last_beacon r = Some c \<and> b \<le> c)) \<and>
     (\<forall>k. Tick k \<in> set es \<longrightarrow> (\<exists>r c. lg_row l = Some r \<and> lr_last_tick r = Some c \<and> k \<le> c)) \<and>
     (\<forall>r c. lg_row l = Some r \<and> lr_last_beacon r = Some c \<longrightarrow> (\<exists>e \<in> set es. event_time e = c)) \<and>
     list_all (seg_heard es) (lg_segments l)"

lemma seg_heard_snoc:
  assumes "seg_heard es s" "\<And>x. x \<in> set es \<Longrightarrow> event_time x \<le> event_time e"
  shows "seg_heard (es @ [e]) s"
  using assms(1) assms(2)[of "Beacon (sg_end s)"] assms(2)[of "Startup (sg_end s)"] by auto

lemma heard_segments_snoc:
  "heard es l \<Longrightarrow> (\<And>x. x \<in> set es \<Longrightarrow> event_time x \<le> event_time e) \<Longrightarrow> list_all (seg_heard (es @ [e])) (lg_segments l)"
  using seg_heard_snoc[of es _ e] by (simp add: heard_def list_all_iff del: seg_heard.simps)

lemma heard_beacon:
  assumes "heard es l" "\<And>x. x \<in> set es \<Longrightarrow> event_time x \<le> t"
  shows "heard (es @ [Beacon t]) (record_link_beacon t l)"
proof -
  have old: "list_all (seg_heard (es @ [Beacon t])) (lg_segments l)"
    using heard_segments_snoc[OF assms(1), of "Beacon t"] assms(2) by simp
  show ?thesis
  proof (cases "lr_last_beacon (row_or_seed t l)")
    case None
    then have "record_link_beacon t l = l\<lparr>lg_row := Some ((row_or_seed t l)\<lparr>lr_last_beacon := Some t, lr_open_up_start := Some t\<rparr>)\<rparr>"
      by (simp add: record_link_beacon_def)
    then show ?thesis
      using assms old by (fastforce simp: heard_def row_or_seed_def)
  next
    case (Some b)
    then obtain r where r: "lg_row l = Some r" "row_or_seed t l = r"
      by (auto simp: row_or_seed_def seed_row_def split: option.splits)
    have b: "b \<le> t" "\<And>x. Beacon x \<in> set es \<Longrightarrow> x \<le> b"
      using assms Some r by (fastforce simp: heard_def)+
    then have "seg_heard (es @ [Beacon t]) \<lparr>sg_start = b, sg_end = t, sg_kind = Gap\<rparr>" if "GAP_TOLERANCE_MS < t - b"
      using that by auto
    then show ?thesis
      using assms(1) b old Some r
      by (simp add: heard_def record_link_beacon_def add_segment_def Let_def del: seg_heard.simps) force
  qed
qed

lemma heard_tick:
  assumes "heard es l" "\<And>x. x \<in> set es \<Longrightarrow> event_time x \<le> t"
  shows "heard (es @ [Tick t]) (link_uptime_tick t l)"
proof -
  have "list_all (seg_heard (es @ [Tick t])) (lg_segments l)"
    using heard_segments_snoc[OF assms(1), of "Tick t"] assms(2) by simp
  then show ?thesis
    using assms by (fastforce simp: heard_def link_uptime_tick_def row_or_seed_def seed_row_def split: option.splits)
qed

lemma heard_startup:
  assumes "heard es l" "\<And>x. x \<in> set es \<Longrightarrow> event_time x \<le> t"
  shows "heard (es @ [Startup t]) (reconcile_link_uptime_startup t l)"
proof -
  have old: "list_all (seg_heard (es @ [Startup t])) (lg_segments l)"
    using heard_segments_snoc[OF assms(1), of "Startup t"] assms(2) by simp
  show ?thesis
  proof (cases "\<exists>r k. lg_row l = Some r \<and> lr_last_tick r = Some k \<and> DARK_THRESHOLD_MS < t - k")
    case False
    then have "reconcile_link_uptime_startup t l = (case lg_row l of None \<Rightarrow> l\<lparr>lg_row := Some (seed_row t)\<rparr> | Some r \<Rightarrow> l)"
      by (auto simp: reconcile_link_uptime_startup_def split: option.splits)
    then show ?thesis
      using assms old by (fastforce simp: heard_def seed_row_def split: option.splits)
  next
    case True
    then obtain r k where r: "lg_row l = Some r" "lr_last_tick r = Some k" "DARK_THRESHOLD_MS < t - k"
      by blast
    have "\<And>x. Tick x \<in> set es \<Longrightarrow> x \<le> k"
      using assms(1) r by (fastforce simp: heard_def)
    then have "seg_heard (es @ [Startup t]) \<lparr>sg_start = k, sg_end = t, sg_kind = Dark\<rparr>"
      using r(3) by auto
    then show ?thesis
      using assms old r by (fastforce simp: heard_def reconcile_link_uptime_startup_def add_segment_def)
  qed
qed

lemma heard_history: "sorted (map event_time es) \<Longrightarrow> heard es (fold uptime_step es empty_ledger)"
proof (induction es rule: rev_induct)
  case Nil
  then show ?case
    by (simp add: heard_def empty_ledger_def)
next
  case (snoc e es)
  then show ?case
    by (cases e) (auto simp: sorted_append heard_beacon heard_tick heard_startup)
qed

text \<open>C37: in any history in time order, orderly or not, a stored gap is longer than the tolerance, ends
  with a beacon and has none inside, and a stored dark segment is longer than its threshold, ends with
  a startup and has no heartbeat inside: a restart that takes less than that charges nothing.
\<close>

theorem stored_segments_honest:
  assumes "sorted (map event_time events)" "s \<in> set (lg_segments (fold uptime_step events empty_ledger))"
  shows "(sg_kind s = Gap \<and> GAP_TOLERANCE_MS < sg_end s - sg_start s \<and> Beacon (sg_end s) \<in> set events \<and>
        (\<forall>t. Beacon t \<in> set events \<longrightarrow> t \<le> sg_start s \<or> sg_end s \<le> t)) \<or>
     (sg_kind s = Dark \<and> DARK_THRESHOLD_MS < sg_end s - sg_start s \<and> Startup (sg_end s) \<in> set events \<and>
        (\<forall>t. Tick t \<in> set events \<longrightarrow> t \<le> sg_start s \<or> sg_end s \<le> t))"
  using heard_history[OF assms(1)] assms(2) by (simp add: heard_def list_all_iff)

lemma stored_segments_honest_witness:
  "Startup 1200000 \<in> set sample_history \<and> DARK_THRESHOLD_MS < 1200000 - (910000 :: int)"
proof -
  have s: "sorted (map event_time sample_history)"
    by (simp add: sample_history_def)
  have "lg_segments (fold uptime_step sample_history empty_ledger) =
      [\<lparr>sg_start = 1000, sg_end = 900000, sg_kind = Gap\<rparr>, \<lparr>sg_start = 910000, sg_end = 1200000, sg_kind = Dark\<rparr>]"
    by code_simp
  then have "\<lparr>sg_start = 910000, sg_end = 1200000, sg_kind = Dark\<rparr> \<in> set (lg_segments (fold uptime_step sample_history empty_ledger))"
    by simp
  from stored_segments_honest[OF s this] show ?thesis
    by simp
qed


section \<open>Which beacons are ours\<close>

text \<open>The three copies of one beacon recorded in the source's comment: two count, the relayed one does not.\<close>

lemma beacon_copies:
  "is_uplink_time_beacon [(''msg'', JStr ''{CET}x''), (''src_type'', JStr ''udp''), (''src'', JStr ''OE1XAR-33'')]"
  "is_uplink_time_beacon [(''msg'', JStr ''{CET}x''), (''src_type'', JStr ''ble_remote''), (''src'', JStr ''OE1XAR-33''), (''via'', JStr ''OE1XAR-33'')]"
  "\<not> is_uplink_time_beacon [(''msg'', JStr ''{CET}x''), (''src_type'', JStr ''lora''), (''src'', JStr ''OE1XAR-62,DB0AU-12''), (''via'', JStr ''DB0AU-12'')]"
  by code_simp+

lemma beacon_hops:
  assumes "is_uplink_time_beacon message" "map_of message ''via'' = Some (JStr v)" "w \<in> set (split_on (CHR '','') v)"
  shows "strip w = '''' \<or> upper (strip w) = upper (strip (before (CHR '','') (str_or '''' (dict_get message ''src'' JNull))))"
  using assms by (auto simp: is_uplink_time_beacon_def Let_def dict_get_def filter_empty_conv split: if_splits)

lemma other_frames_ignored: "\<not> is_uplink_time_beacon message \<Longrightarrow> beacon_hook message now_ms l = l"
  by (simp add: beacon_hook_def)

text \<open>The second copy of a beacon, received a moment later, extends the run and adds no segment.\<close>

lemma second_copy:
  assumes "lr_last_beacon r = Some b" "lg_row l = Some r" "b \<le> t" "t - b \<le> GAP_TOLERANCE_MS"
  shows "lg_segments (record_link_beacon t l) = lg_segments l \<and>
     lg_row (record_link_beacon t l) = Some (r\<lparr>lr_last_beacon := Some t\<rparr>)"
  using assms by (auto simp: record_link_beacon_def row_or_seed_def Let_def)

section \<open>Outages the ledger loses\<close>

text \<open>
  An outage still open when the process goes down: before the restart the reader shows it as a gap,
  afterwards the whole silence up to the last heartbeat is reported up.
\<close>

lemma outage_before_restart_forgotten:
  "exact_segments (fold uptime_step [Startup 0, Tick 0, Beacon 0, Tick 3600000] empty_ledger) 3600000 3600000 =
     [\<lparr>sg_start = 0, sg_end = 3600000, sg_kind = Gap\<rparr>]"
  "exact_segments (fold uptime_step [Startup 0, Tick 0, Beacon 0, Tick 3600000, Startup 3800000] empty_ledger) 3800000 3800000 =
     [\<lparr>sg_start = 0, sg_end = 3600000, sg_kind = Up\<rparr>, \<lparr>sg_start = 3600000, sg_end = 3800000, sg_kind = Dark\<rparr>]"
  by code_simp+

text \<open>The first beacon ever counted turns the silence before it from a gap into up time.\<close>

lemma first_beacon_rewrites_silence:
  "exact_segments (fold uptime_step [Startup 0, Tick 3600000] empty_ledger) 3600000 3600000 =
     [\<lparr>sg_start = 0, sg_end = 3600000, sg_kind = Gap\<rparr>]"
  "exact_segments (fold uptime_step [Startup 0, Tick 3600000, Beacon 3600000] empty_ledger) 3600000 3600000 =
     [\<lparr>sg_start = 0, sg_end = 3600000, sg_kind = Up\<rparr>]"
  by code_simp+

text \<open>Two failed startups before the next heartbeat are charged from the same heartbeat, and overlap.\<close>

lemma restarts_overlap:
  "ur_segments (get_link_uptime (fold uptime_step [Startup 0, Beacon 0, Tick 10, Startup 200000, Startup 300000] empty_ledger) 300000 300000) =
     [\<lparr>sg_start = 0, sg_end = 10, sg_kind = Up\<rparr>, \<lparr>sg_start = 10, sg_end = 200000, sg_kind = Dark\<rparr>,
      \<lparr>sg_start = 10, sg_end = 300000, sg_kind = Dark\<rparr>]"
  by code_simp

end
