(* ===== verification/SignalBuckets.thy ===== *)
theory SignalBuckets
  imports McPrelude
begin

text \<open>
  The signal history of \<open>storage/ingest.py\<close>: \<open>signal_log\<close>, the in-memory accumulators of the current
  five-minute buckets and the table \<open>signal_buckets\<close> they are flushed to. The accumulators are a
  dictionary in insertion order, keyed by station and bucket; \<open>INSERT OR REPLACE\<close> is
  \<^const>\<open>AList.update\<close> on the table's primary key. Python's \<open>round(x, 2)\<close> is the parameter \<open>round2\<close>; the
  mean is exact.
\<close>

section \<open>Accumulating and flushing\<close>

definition BUCKET_SECONDS :: int where
  "BUCKET_SECONDS = 5 * 60"

definition bucket_ms :: int where
  "bucket_ms = BUCKET_SECONDS * 1000"

definition VALID_RSSI_RANGE :: "rat \<times> rat" where
  "VALID_RSSI_RANGE = (-140, -30)"

definition VALID_SNR_RANGE :: "rat \<times> rat" where
  "VALID_SNR_RANGE = (-30, 12)"

definition in_range :: "rat \<times> rat \<Rightarrow> rat \<Rightarrow> bool" where
  "in_range r x \<longleftrightarrow> fst r \<le> x \<and> x \<le> snd r"

record log_row =
  sl_callsign :: string
  sl_ts :: int
  sl_rssi :: rat
  sl_snr :: rat
  sl_source :: string

record bucket_row =
  bk_rssi_avg :: rat
  bk_rssi_min :: rat
  bk_rssi_max :: rat
  bk_snr_avg :: rat
  bk_snr_min :: rat
  bk_snr_max :: rat
  bk_count :: nat

type_synonym accumulators = "(string \<times> int, rat list \<times> rat list) dict"
type_synonym bucket_table = "(string \<times> int \<times> int, bucket_row) dict"

definition mean :: "rat list \<Rightarrow> rat" where
  "mean xs = sum_list xs / of_nat (length xs)"

definition list_min :: "rat list \<Rightarrow> rat" where
  "list_min xs = foldl min (hd xs) (tl xs)"

definition list_max :: "rat list \<Rightarrow> rat" where
  "list_max xs = foldl max (hd xs) (tl xs)"

definition build_bucket_tuple :: "(rat \<Rightarrow> rat) \<Rightarrow> string \<Rightarrow> int \<Rightarrow> int \<Rightarrow> rat list \<times> rat list \<Rightarrow> (string \<times> int \<times> int) \<times> bucket_row" where
  "build_bucket_tuple round2 callsign bucket_ts bucket_size v =
     ((callsign, bucket_ts, bucket_size),
      \<lparr>bk_rssi_avg = round2 (mean (fst v)), bk_rssi_min = list_min (fst v), bk_rssi_max = list_max (fst v),
       bk_snr_avg = round2 (mean (snd v)), bk_snr_min = round2 (list_min (snd v)), bk_snr_max = round2 (list_max (snd v)),
       bk_count = length (fst v)\<rparr>)"

definition bucket_start :: "int \<Rightarrow> int" where
  "bucket_start timestamp = timestamp div bucket_ms * bucket_ms"

definition add_value :: "string \<times> int \<Rightarrow> rat \<Rightarrow> rat \<Rightarrow> accumulators \<Rightarrow> accumulators" where
  "add_value key rssi snr acc =
     (let v = dict_get acc key ([], []) in AList.update key (fst v @ [rssi], snd v @ [snr]) acc)"

definition is_old :: "string \<Rightarrow> int \<Rightarrow> (string \<times> int) \<times> 'v \<Rightarrow> bool" where
  "is_old callsign start e \<longleftrightarrow> fst (fst e) = callsign \<and> snd (fst e) < start"

definition build_all :: "(rat \<Rightarrow> rat) \<Rightarrow> accumulators \<Rightarrow> bucket_table" where
  "build_all round2 acc =
     map (\<lambda>(k, v). build_bucket_tuple round2 (fst k) (snd k) bucket_ms v)
       (filter (\<lambda>(k, v). fst v \<noteq> [] \<and> snd v \<noteq> []) acc)"

definition accumulate_signal :: "(rat \<Rightarrow> rat) \<Rightarrow> string \<Rightarrow> int \<Rightarrow> rat \<Rightarrow> rat \<Rightarrow> accumulators \<Rightarrow> bucket_table \<times> accumulators" where
  "accumulate_signal round2 callsign timestamp rssi snr acc =
     (let start = bucket_start timestamp;
          acc1 = add_value (callsign, start) rssi snr acc
      in (build_all round2 (filter (is_old callsign start) acc1), filter (\<lambda>e. \<not> is_old callsign start e) acc1))"

definition flush_completed_buckets :: "bucket_table \<Rightarrow> bucket_table \<Rightarrow> bucket_table" where
  "flush_completed_buckets completed table = foldl (\<lambda>t (k, b). AList.update k b t) table completed"

record signal_state =
  sg_log :: "log_row list"
  sg_acc :: accumulators
  sg_buckets :: bucket_table

definition signal_init :: signal_state where
  "signal_init = \<lparr>sg_log = [], sg_acc = [], sg_buckets = []\<rparr>"

definition flush_all_accumulators :: "(rat \<Rightarrow> rat) \<Rightarrow> signal_state \<Rightarrow> signal_state" where
  "flush_all_accumulators round2 st =
     st\<lparr>sg_buckets := flush_completed_buckets (build_all round2 (sg_acc st)) (sg_buckets st)\<rparr>"

text \<open>The three writes of an accepted reading: the log under its originator, the bucket under the last hop.\<close>

definition log_signal :: "(rat \<Rightarrow> rat) \<Rightarrow> string \<Rightarrow> string \<Rightarrow> int \<Rightarrow> rat \<Rightarrow> rat \<Rightarrow> string \<Rightarrow> signal_state \<Rightarrow> signal_state" where
  "log_signal round2 callsign signal_via timestamp rssi snr source st =
     (let (completed, acc) = accumulate_signal round2 signal_via timestamp rssi snr (sg_acc st)
      in st\<lparr>sg_log := sg_log st @ [\<lparr>sl_callsign = callsign, sl_ts = timestamp, sl_rssi = rssi, sl_snr = snr, sl_source = source\<rparr>],
            sg_acc := acc, sg_buckets := flush_completed_buckets completed (sg_buckets st)\<rparr>)"

text \<open>At a start the accumulators are empty and the current bucket is read back from the log.\<close>

definition init_bucket_accumulators :: "int \<Rightarrow> signal_state \<Rightarrow> signal_state" where
  "init_bucket_accumulators now_ms st =
     (let start = now_ms div bucket_ms * bucket_ms;
          rows = filter (\<lambda>r. start \<le> sl_ts r \<and> in_range VALID_RSSI_RANGE (sl_rssi r) \<and> in_range VALID_SNR_RANGE (sl_snr r)) (sg_log st)
      in st\<lparr>sg_acc := foldl (\<lambda>acc r. add_value (sl_callsign r, start) (sl_rssi r) (sl_snr r) acc) [] rows\<rparr>)"

section \<open>The buckets against the measurements\<close>

record measurement =
  sm_callsign :: string
  sm_via :: string
  sm_ts :: int
  sm_rssi :: rat
  sm_snr :: rat
  sm_source :: string

datatype signal_event = Measured measurement | FlushAll

fun signal_step :: "(rat \<Rightarrow> rat) \<Rightarrow> signal_event \<Rightarrow> signal_state \<Rightarrow> signal_state" where
  "signal_step round2 (Measured m) = log_signal round2 (sm_callsign m) (sm_via m) (sm_ts m) (sm_rssi m) (sm_snr m) (sm_source m)"
| "signal_step round2 FlushAll = flush_all_accumulators round2"

text \<open>The measurements of one link in one bucket, and the bucket of its last one.\<close>

fun measured_in :: "string \<Rightarrow> int \<Rightarrow> signal_event list \<Rightarrow> rat list \<times> rat list" where
  "measured_in c b [] = ([], [])"
| "measured_in c b (FlushAll # es) = measured_in c b es"
| "measured_in c b (Measured m # es) =
     (if sm_via m = c \<and> bucket_start (sm_ts m) = b
      then (sm_rssi m # fst (measured_in c b es), sm_snr m # snd (measured_in c b es)) else measured_in c b es)"

fun current :: "string \<Rightarrow> signal_event list \<Rightarrow> int option \<Rightarrow> int option" where
  "current c [] d = d"
| "current c (FlushAll # es) d = current c es d"
| "current c (Measured m # es) d = current c es (if sm_via m = c then Some (bucket_start (sm_ts m)) else d)"

text \<open>The links' measurements arrive in the order of their buckets.\<close>

fun in_order :: "signal_event list \<Rightarrow> signal_event list \<Rightarrow> bool" where
  "in_order past [] = True"
| "in_order past (FlushAll # es) = in_order (past @ [FlushAll]) es"
| "in_order past (Measured m # es) \<longleftrightarrow>
     (\<forall>b. current (sm_via m) past None = Some b \<longrightarrow> b \<le> bucket_start (sm_ts m)) \<and> in_order (past @ [Measured m]) es"

lemma measured_in_append:
  "measured_in c b (xs @ ys) = (fst (measured_in c b xs) @ fst (measured_in c b ys), snd (measured_in c b xs) @ snd (measured_in c b ys))"
  by (induction c b xs rule: measured_in.induct) auto

lemma current_append: "current c (xs @ ys) d = current c ys (current c xs d)"
  by (induction c xs d rule: current.induct) auto

lemma measured_in_lengths: "fst (measured_in c b es) = [] \<longleftrightarrow> snd (measured_in c b es) = []"
  by (induction c b es rule: measured_in.induct) auto

lemma current_measured: "current c es None = Some b \<Longrightarrow> fst (measured_in c b es) \<noteq> []"
proof (induction es rule: rev_induct)
  case (snoc e es)
  then show ?case
    by (cases e) (auto simp: current_append measured_in_append split: if_splits)
qed simp

definition exact_row :: "(rat \<Rightarrow> rat) \<Rightarrow> string \<Rightarrow> int \<Rightarrow> signal_event list \<Rightarrow> bucket_row" where
  "exact_row round2 c b es = snd (build_bucket_tuple round2 c b bucket_ms (measured_in c b es))"

definition buckets_ok :: "(rat \<Rightarrow> rat) \<Rightarrow> signal_event list \<Rightarrow> signal_state \<Rightarrow> bool" where
  "buckets_ok round2 es st \<longleftrightarrow>
     distinct (map fst (sg_acc st)) \<and>
     (\<forall>c b. map_of (sg_acc st) (c, b) = (if current c es None = Some b then Some (measured_in c b es) else None)) \<and>
     (\<forall>c b. fst (measured_in c b es) \<noteq> [] \<longrightarrow> current c es None \<noteq> Some b \<longrightarrow>
        map_of (sg_buckets st) (c, b, bucket_ms) = Some (exact_row round2 c b es)) \<and>
     (\<forall>c b z. fst (measured_in c b es) = [] \<or> z \<noteq> bucket_ms \<longrightarrow> map_of (sg_buckets st) (c, b, z) = None) \<and>
     (\<forall>c b. fst (measured_in c b es) \<noteq> [] \<longrightarrow> (\<exists>x. current c es None = Some x \<and> b \<le> x))"

lemma map_of_flush:
  "distinct (map fst completed) \<Longrightarrow>
   map_of (flush_completed_buckets completed table) k =
     (case map_of completed k of Some b \<Rightarrow> Some b | None \<Rightarrow> map_of table k)"
proof (induction completed arbitrary: table)
  case (Cons e es)
  have "map_of es (fst e) = None"
    using Cons.prems by (simp add: map_of_eq_None_iff)
  then show ?case
    using Cons.IH[of "AList.update (fst e) (snd e) table"] Cons.prems
    by (cases e) (auto simp: flush_completed_buckets_def split: option.splits)
qed (simp add: flush_completed_buckets_def)

lemma build_all_simps [simp]:
  "build_all round2 [] = []"
  "build_all round2 (e # acc) =
     (if fst (snd e) \<noteq> [] \<and> snd (snd e) \<noteq> []
      then [build_bucket_tuple round2 (fst (fst e)) (snd (fst e)) bucket_ms (snd e)] else []) @ build_all round2 acc"
  by (simp_all add: build_all_def case_prod_beta)

lemma bucket_key [simp]: "fst (build_bucket_tuple round2 c b z v) = (c, b, z)"
  by (simp add: build_bucket_tuple_def)

lemma build_all_key: "(c, b, z) \<in> fst ` set (build_all round2 acc) \<Longrightarrow> (c, b) \<in> fst ` set acc"
  by (induction acc) (auto split: if_splits)

lemma distinct_build_all: "distinct (map fst acc) \<Longrightarrow> distinct (map fst (build_all round2 acc))"
proof (induction acc)
  case (Cons e acc)
  then show ?case
    using build_all_key[of "fst (fst e)" "snd (fst e)" bucket_ms round2 acc] by auto
qed simp

lemma map_of_Cons_fst: "map_of (e # d) k = (if fst e = k then Some (snd e) else map_of d k)"
  by (cases e) simp

lemma map_of_build_all:
  "distinct (map fst acc) \<Longrightarrow>
   map_of (build_all round2 acc) (c, b, z) =
     (case map_of acc (c, b) of
        Some v \<Rightarrow> if z = bucket_ms \<and> fst v \<noteq> [] \<and> snd v \<noteq> [] then Some (snd (build_bucket_tuple round2 c b bucket_ms v)) else None
      | None \<Rightarrow> None)"
proof (induction acc)
  case (Cons e acc)
  have n: "map_of acc (fst e) = None"
    using Cons.prems by (simp add: map_of_eq_None_iff)
  have ih: "map_of (build_all round2 acc) (c, b, z) =
     (case map_of acc (c, b) of
        Some v \<Rightarrow> if z = bucket_ms \<and> fst v \<noteq> [] \<and> snd v \<noteq> [] then Some (snd (build_bucket_tuple round2 c b bucket_ms v)) else None
      | None \<Rightarrow> None)"
    using Cons by simp
  show ?case
  proof (cases "fst e = (c, b)")
    case True
    then show ?thesis
      using n ih by (simp add: map_of_Cons_fst)
  next
    case False
    then have "fst (fst e) \<noteq> c \<or> snd (fst e) \<noteq> b"
      by (cases e) auto
    then have "map_of (build_all round2 (e # acc)) (c, b, z) = map_of (build_all round2 acc) (c, b, z)"
      by (auto simp: map_of_Cons_fst)
    then show ?thesis
      using False ih by (simp only: map_of_Cons_fst if_False)
  qed
qed simp

lemma map_of_filter_keys:
  "distinct (map fst d) \<Longrightarrow> map_of (filter (\<lambda>e. P (fst e)) d) k = (if P k then map_of d k else None)"
proof (induction d)
  case (Cons e d)
  have "map_of d (fst e) = None"
    using Cons.prems by (simp add: map_of_eq_None_iff)
  then show ?case
    using Cons by (cases e) auto
qed simp


lemma map_of_add_value:
  "map_of (add_value key rssi snr acc) k =
     (if k = key then Some (case map_of acc key of None \<Rightarrow> ([rssi], [snr]) | Some v \<Rightarrow> (fst v @ [rssi], snd v @ [snr]))
      else map_of acc k)"
  by (auto simp: add_value_def Let_def dict_get_def split: option.splits)

lemma distinct_add_value: "distinct (map fst acc) \<Longrightarrow> distinct (map fst (add_value key rssi snr acc))"
  by (simp add: add_value_def Let_def distinct_update)

lemma map_of_accumulate:
  assumes "distinct (map fst acc)" "accumulate_signal round2 c t rssi snr acc = (completed, acc')"
  defines "acc1 \<equiv> add_value (c, bucket_start t) rssi snr acc"
  shows "distinct (map fst acc')"
    "map_of acc' k = (if fst k = c \<and> snd k < bucket_start t then None else map_of acc1 k)"
    "map_of (flush_completed_buckets completed table) (c', b, z) =
       (case (if c' = c \<and> b < bucket_start t then map_of acc1 (c', b) else None) of
          Some v \<Rightarrow> if z = bucket_ms \<and> fst v \<noteq> [] \<and> snd v \<noteq> [] then Some (snd (build_bucket_tuple round2 c' b bucket_ms v))
                   else map_of table (c', b, z)
        | None \<Rightarrow> map_of table (c', b, z))"
proof -
  let ?old = "\<lambda>k. fst k = c \<and> snd k < bucket_start t"
  have d: "distinct (map fst acc1)"
    using assms(1) by (simp add: acc1_def distinct_add_value)
  have e: "acc' = filter (\<lambda>e. \<not> ?old (fst e)) acc1" "completed = build_all round2 (filter (\<lambda>e. ?old (fst e)) acc1)"
    using assms(2) by (auto simp: accumulate_signal_def acc1_def is_old_def[abs_def] Let_def)
  show "distinct (map fst acc')"
    using d by (simp add: e(1) distinct_map_filter)
  show "map_of acc' k = (if ?old k then None else map_of acc1 k)"
    unfolding e(1) using map_of_filter_keys[OF d, of "\<lambda>k. \<not> ?old k"] by simp
  have f: "distinct (map fst (filter (\<lambda>e. ?old (fst e)) acc1))"
    using d by (simp add: distinct_map_filter)
  have g: "map_of (filter (\<lambda>e. ?old (fst e)) acc1) (c', b) = (if c' = c \<and> b < bucket_start t then map_of acc1 (c', b) else None)"
    using map_of_filter_keys[OF d, of ?old "(c', b)"] by simp
  show "map_of (flush_completed_buckets completed table) (c', b, z) =
       (case (if c' = c \<and> b < bucket_start t then map_of acc1 (c', b) else None) of
          Some v \<Rightarrow> if z = bucket_ms \<and> fst v \<noteq> [] \<and> snd v \<noteq> [] then Some (snd (build_bucket_tuple round2 c' b bucket_ms v))
                   else map_of table (c', b, z)
        | None \<Rightarrow> map_of table (c', b, z))"
    unfolding e(2) map_of_flush[OF distinct_build_all[OF f]] map_of_build_all[OF f] g
    by (cases "c' = c \<and> b < bucket_start t"; cases "map_of acc1 (c', b)") auto
qed


lemma buckets_ok_flush:
  assumes "buckets_ok round2 es st"
  shows "buckets_ok round2 (es @ [FlushAll]) (flush_all_accumulators round2 st)"
proof -
  have d: "distinct (map fst (sg_acc st))"
    using assms by (simp add: buckets_ok_def)
  have a: "map_of (sg_acc st) (c, b) = (if current c es None = Some b then Some (measured_in c b es) else None)" for c b
    using assms by (simp add: buckets_ok_def)
  have f: "map_of (sg_buckets (flush_all_accumulators round2 st)) (c, b, z) =
      (if current c es None = Some b \<and> z = bucket_ms then Some (exact_row round2 c b es) else map_of (sg_buckets st) (c, b, z))" for c b z
    using current_measured[of c es b] measured_in_lengths[of c b es]
    by (simp add: flush_all_accumulators_def map_of_flush[OF distinct_build_all[OF d]] map_of_build_all[OF d] a exact_row_def)
  have s: "measured_in c b (es @ [FlushAll]) = measured_in c b es" "current c (es @ [FlushAll]) None = current c es None" for c b
    by (simp_all add: measured_in_append current_append)
  have z: "exact_row round2 c b (es @ [FlushAll]) = exact_row round2 c b es" for c b
    by (simp add: exact_row_def s)
  show ?thesis
    unfolding buckets_ok_def s z f
    using assms current_measured[of _ es] by (auto simp: buckets_ok_def flush_all_accumulators_def)
qed

lemma buckets_ok_measured:
  assumes "buckets_ok round2 es st" "\<forall>b. current (sm_via m) es None = Some b \<longrightarrow> b \<le> bucket_start (sm_ts m)"
  shows "buckets_ok round2 (es @ [Measured m]) (signal_step round2 (Measured m) st)"
proof -
  let ?c = "sm_via m" and ?b = "bucket_start (sm_ts m)"
  let ?acc1 = "add_value (?c, ?b) (sm_rssi m) (sm_snr m) (sg_acc st)"
  obtain completed acc' where k: "accumulate_signal round2 ?c (sm_ts m) (sm_rssi m) (sm_snr m) (sg_acc st) = (completed, acc')"
    by (cases "accumulate_signal round2 ?c (sm_ts m) (sm_rssi m) (sm_snr m) (sg_acc st)")
  have st': "sg_acc (signal_step round2 (Measured m) st) = acc'"
    "sg_buckets (signal_step round2 (Measured m) st) = flush_completed_buckets completed (sg_buckets st)"
    by (simp_all add: log_signal_def k)
  have d: "distinct (map fst (sg_acc st))"
    using assms(1) by (simp add: buckets_ok_def)
  have a: "map_of (sg_acc st) (c, b) = (if current c es None = Some b then Some (measured_in c b es) else None)" for c b
    using assms(1) by (simp add: buckets_ok_def)
  note acc = map_of_accumulate[OF d k]
  have mi: "measured_in c b (es @ [Measured m]) = (if c = ?c \<and> b = ?b
      then (fst (measured_in c b es) @ [sm_rssi m], snd (measured_in c b es) @ [sm_snr m]) else measured_in c b es)" for c b
    by (simp add: measured_in_append)
  have cu: "current c (es @ [Measured m]) None = (if c = ?c then Some ?b else current c es None)" for c
    by (simp add: current_append)
  have last: "\<exists>x. current c es None = Some x \<and> b \<le> x" if "fst (measured_in c b es) \<noteq> []" for c b
    using assms(1) that by (simp add: buckets_ok_def)
  have fresh: "current ?c es None = Some ?b \<or> measured_in ?c ?b es = ([], [])"
    using last[of ?c ?b] assms(2) measured_in_lengths[of ?c ?b es] by (cases "measured_in ?c ?b es") fastforce
  have a1: "map_of ?acc1 (c, b) = (if c = ?c \<and> b = ?b then Some (measured_in c b (es @ [Measured m]))
      else map_of (sg_acc st) (c, b))" for c b
    using fresh by (auto simp: map_of_add_value a mi)
  have acc': "map_of acc' (c, b) = (if current c (es @ [Measured m]) None = Some b then Some (measured_in c b (es @ [Measured m])) else None)" for c b
    using assms(2) unfolding acc(2) a1 cu by (auto simp: a mi)
  have row: "exact_row round2 c b (es @ [Measured m]) = exact_row round2 c b es" if "c \<noteq> ?c \<or> b \<noteq> ?b" for c b
    using that by (auto simp: exact_row_def mi)
  have table: "map_of (flush_completed_buckets completed (sg_buckets st)) (c, b, z) =
      (if c = ?c \<and> b < ?b \<and> current c es None = Some b \<and> z = bucket_ms then Some (exact_row round2 c b es)
       else map_of (sg_buckets st) (c, b, z))" for c b z
    using current_measured[of c es b] measured_in_lengths[of c b es]
    unfolding acc(3) a1 by (auto simp: a exact_row_def)
  have t3: "map_of (flush_completed_buckets completed (sg_buckets st)) (c, b, bucket_ms) = Some (exact_row round2 c b (es @ [Measured m]))"
    if n: "fst (measured_in c b (es @ [Measured m])) \<noteq> []" and u: "current c (es @ [Measured m]) None \<noteq> Some b" for c b
  proof -
    have ne: "c \<noteq> ?c \<or> b \<noteq> ?b"
      using u by (auto simp: cu)
    then have n': "fst (measured_in c b es) \<noteq> []"
      using n by (auto simp: mi)
    have "c = ?c \<Longrightarrow> b < ?b"
      using last[OF n'] assms(2) ne by fastforce
    moreover have "current c es None \<noteq> Some b \<Longrightarrow> map_of (sg_buckets st) (c, b, bucket_ms) = Some (exact_row round2 c b es)"
      using assms(1) n' by (simp add: buckets_ok_def)
    ultimately show ?thesis
      using u unfolding table row[OF ne] by (auto simp: cu split: if_splits)
  qed
  have t4: "map_of (flush_completed_buckets completed (sg_buckets st)) (c, b, z) = None"
    if "fst (measured_in c b (es @ [Measured m])) = [] \<or> z \<noteq> bucket_ms" for c b z
    using that assms(1) current_measured[of c es b] unfolding table by (auto simp: buckets_ok_def mi split: if_splits)
  have t5: "\<exists>x. current c (es @ [Measured m]) None = Some x \<and> b \<le> x" if "fst (measured_in c b (es @ [Measured m])) \<noteq> []" for c b
    using that last[of c b] assms(2) by (fastforce simp: cu mi split: if_splits)
  show ?thesis
    unfolding buckets_ok_def st' using acc(1) acc' t3 t4 t5 by blast
qed


lemma buckets_ok_init: "buckets_ok round2 [] signal_init"
  by (simp add: buckets_ok_def signal_init_def)

lemma buckets_ok_run:
  "in_order past es \<Longrightarrow> buckets_ok round2 past st \<Longrightarrow> buckets_ok round2 (past @ es) (fold (signal_step round2) es st)"
proof (induction past es arbitrary: st rule: in_order.induct)
  case (2 past es)
  then show ?case
    using buckets_ok_flush[OF 2(3)] by simp
next
  case (3 past m es)
  then have "buckets_ok round2 (past @ [Measured m]) (signal_step round2 (Measured m) st)"
    by (intro buckets_ok_measured) simp_all
  then show ?case
    using 3 by simp
qed simp

text \<open>C38: if the readings of every link arrive in the order of their buckets, with reads of the charts
  anywhere between them, then after a read every row of \<open>signal_buckets\<close> is the aggregate of exactly
  the readings of its link and bucket, and no row is missing.
\<close>

theorem chart_buckets_exact:
  assumes "in_order [] es"
  shows "map_of (sg_buckets (flush_all_accumulators round2 (fold (signal_step round2) es signal_init))) (c, b, bucket_ms) =
     (if fst (measured_in c b es) = [] then None
      else Some (snd (build_bucket_tuple round2 c b bucket_ms (measured_in c b es))))"
proof -
  have ok: "buckets_ok round2 es (fold (signal_step round2) es signal_init)"
    using buckets_ok_run[OF assms buckets_ok_init] by simp
  have d: "distinct (map fst (sg_acc (fold (signal_step round2) es signal_init)))"
    using ok by (simp add: buckets_ok_def)
  show ?thesis
    using ok current_measured[of c es b] measured_in_lengths[of c b es]
    by (auto simp: flush_all_accumulators_def map_of_flush[OF distinct_build_all[OF d]] map_of_build_all[OF d]
        buckets_ok_def exact_row_def)
qed

lemma chart_buckets_exact_witness:
  "map_of (sg_buckets (flush_all_accumulators (\<lambda>x. x) (fold (signal_step (\<lambda>x. x))
       [Measured \<lparr>sm_callsign = ''A'', sm_via = ''B'', sm_ts = 1000, sm_rssi = - 90, sm_snr = 5, sm_source = ''lora''\<rparr>, FlushAll,
        Measured \<lparr>sm_callsign = ''C'', sm_via = ''B'', sm_ts = 2000, sm_rssi = - 80, sm_snr = 7, sm_source = ''lora''\<rparr>] signal_init)))
     (''B'', 0, bucket_ms) \<noteq> None"
proof -
  let ?es = "[Measured \<lparr>sm_callsign = ''A'', sm_via = ''B'', sm_ts = 1000, sm_rssi = - 90, sm_snr = 5, sm_source = ''lora''\<rparr>, FlushAll,
        Measured \<lparr>sm_callsign = ''C'', sm_via = ''B'', sm_ts = 2000, sm_rssi = - 80, sm_snr = 7, sm_source = ''lora''\<rparr>]"
  have "in_order [] ?es" "fst (measured_in ''B'' 0 ?es) \<noteq> []"
    by (simp_all add: bucket_start_def bucket_ms_def BUCKET_SECONDS_def)
  then show ?thesis
    using chart_buckets_exact[of ?es "\<lambda>x. x" "''B''" 0] by simp
qed

section \<open>Where buckets lose readings\<close>

text \<open>
  A reading that arrives late, from a replayed notification, opens its old bucket again; the next flush
  replaces the finished row by one made of the late reading alone.
\<close>

lemma late_reading_replaces_bucket:
  "map_option bk_count (map_of (sg_buckets (fold (signal_step (\<lambda>x. x))
       (map (\<lambda>t. Measured \<lparr>sm_callsign = ''B'', sm_via = ''B'', sm_ts = t, sm_rssi = - 90, sm_snr = 5, sm_source = ''mheard''\<rparr>)
         [1000, 2000, 3000, 300000, 4000, 300001]) signal_init)) (''B'', 0, bucket_ms)) = Some 1"
  by code_simp

text \<open>
  Readings are accumulated under the last hop, but read back from the log, which keeps the originator:
  after a start in the middle of a bucket the relayed readings count for a link that was never measured.
\<close>

lemma restart_credits_the_originator:
  "(let m = \<lparr>sm_callsign = ''A'', sm_via = ''B'', sm_ts = 1000, sm_rssi = - 90, sm_snr = 5, sm_source = ''lora''\<rparr>;
        st = init_bucket_accumulators 2000 (signal_step (\<lambda>x. x) (Measured m) signal_init)
    in map fst (sg_acc st)) = [(''A'', 0)]"
  by code_simp

end
