(* ===== verification/MessageStore.thy ===== *)
theory MessageStore
  imports Telemetry Uptime SignalBuckets Destinations BleFrames
begin

text \<open>
  Storing a frame: \<open>store_message\<close> of \<open>storage/ingest.py\<close> with its helpers.

  \<^item> The tables are lists of rows in the order of their ids. A station's row of \<open>station_positions\<close> is
    split: the sensor columns, \<open>alt\<close>, \<open>batt\<close> and \<open>last_seen\<close> are those of \<^typ>\<open>station\<close>, the others a
    dictionary of columns (a missing key is the column's default).
  \<^item> A frame is handled by a task. Its parts before and after the two awaits that matter, the lookup of
    an earlier copy and the writing, are separate steps, so the tasks of several frames interleave; a
    part is atomic.
  \<^item> Frames have strings where the model needs them: a \<open>type\<close>, \<open>src_type\<close>, \<open>dst\<close>, \<open>via\<close> or \<open>msg_id\<close> of
    another kind is refused with \<open>TypeError\<close>, as are a \<open>timestamp\<close> that is no integer and a signal
    value that is no number. A non-string \<open>src\<close> raises \<open>AttributeError\<close>, as in the code.
  \<^item> Parameters: \<open>loads\<close>, \<open>dumps\<close>, \<open>baro\<close> as in \<open>Telemetry\<close>, \<open>round2\<close> as in \<open>SignalBuckets\<close>, \<open>to_metres\<close> for
    \<open>round(feet * FEET_TO_METERS)\<close> (the \<open>\d\<close> of the altitude pattern is read as an ASCII digit), and \<open>classify\<close> for the classifier's five columns, empty where it fails.
\<close>

section \<open>Tables\<close>

definition DEDUP_WINDOW_MS :: int where
  "DEDUP_WINDOW_MS = 60 * 60 * 1000"

definition RECENT_INGEST_PRUNE_AT :: nat where
  "RECENT_INGEST_PRUNE_AT = 4096"

definition MHEARD_THROTTLE_MS :: int where
  "MHEARD_THROTTLE_MS = 120000"

record message_row =
  mr_id :: nat
  mr_msg_id :: "string option"
  mr_src :: string
  mr_dst :: string
  mr_msg :: string
  mr_type :: string
  mr_ts :: int
  mr_rssi :: "rat option"
  mr_snr :: "rat option"
  mr_src_type :: string
  mr_raw :: string
  mr_via :: string
  mr_columns :: msgd
  mr_echo_id :: "string option"
  mr_conversation :: "string option"
  mr_fcs_ok :: "bool option"
  mr_acked :: bool
  mr_send_success :: bool

record ack_row =
  ak_msg_id :: string
  ak_kind :: string
  ak_from :: string
  ak_via :: "string option"
  ak_ts :: int

type_synonym recent_ingest = "(string \<times> string, int) dict"

record store =
  st_recent :: recent_ingest
  st_messages :: "message_row list"
  st_next_id :: nat
  st_acks :: "ack_row list"
  st_signal :: signal_state
  st_tele :: tele_db
  st_columns :: "(string, msgd) dict"
  st_uptime :: ledger
  st_events :: "msgd list"

definition store_init :: store where
  "store_init = \<lparr>st_recent = [], st_messages = [], st_next_id = 1, st_acks = [], st_signal = signal_init,
     st_tele = empty_db, st_columns = [], st_uptime = empty_ledger, st_events = []\<rparr>"

text \<open>\<open>ORDER BY timestamp DESC LIMIT 1\<close>, the first inserted among equal timestamps.\<close>

definition latest_message :: "(message_row \<Rightarrow> bool) \<Rightarrow> message_row list \<Rightarrow> message_row option" where
  "latest_message P rows = (case filter P rows of [] \<Rightarrow> None
     | r # rs \<Rightarrow> Some (foldl (\<lambda>b x. if mr_ts x > mr_ts b then x else b) r rs))"

definition update_message :: "nat \<Rightarrow> (message_row \<Rightarrow> message_row) \<Rightarrow> store \<Rightarrow> store" where
  "update_message i f st = st\<lparr>st_messages := map (\<lambda>r. if mr_id r = i then f r else r) (st_messages st)\<rparr>"

definition publish :: "msgd \<Rightarrow> store \<Rightarrow> store" where
  "publish e st = st\<lparr>st_events := st_events st @ [e]\<rparr>"

section \<open>What a frame says\<close>

definition field_str :: "string \<Rightarrow> string \<Rightarrow> msgd \<Rightarrow> string res" where
  "field_str k d message = (case map_of message k of None \<Rightarrow> Inr d | Some (JStr s) \<Rightarrow> Inr s | _ \<Rightarrow> Inl TypeError)"

definition field_opt_str :: "string \<Rightarrow> msgd \<Rightarrow> string option res" where
  "field_opt_str k message = (case map_of message k of None \<Rightarrow> Inr None | Some JNull \<Rightarrow> Inr None
     | Some (JStr s) \<Rightarrow> Inr (Some s) | _ \<Rightarrow> Inl TypeError)"

record parsed =
  pf_msg_id :: "string option"
  pf_src :: string
  pf_dst :: string
  pf_msg :: string
  pf_type :: string
  pf_ts :: int
  pf_rssi :: "rat option"
  pf_snr :: "rat option"
  pf_src_type :: string
  pf_callsign :: string
  pf_relay_via :: string
  pf_msg_via :: string
  pf_signal_via :: string
  pf_fcs_ok :: "bool option"
  pf_echo_id :: "string option"
  pf_conversation :: "string option"

definition INVALID_CHARACTER_MSG :: string where
  "INVALID_CHARACTER_MSG = ''-- invalid character --''"

definition CORE_DUMP_FILTER_TEXT :: string where
  "CORE_DUMP_FILTER_TEXT = ''No core dump''"

definition should_filter_message :: "msgd \<Rightarrow> bool" where
  "should_filter_message message =
     (let msg_content = str_or '''' (dict_get message ''msg'' (JStr ''''));
          src_type = dict_get message ''src_type'' (JStr ''''); src = dict_get message ''src'' (JStr '''')
      in if startswith msg_content ''{CET}'' then True
         else if src_type = JStr ''BLE'' then True
         else if map_of message ''transformer'' = Some (JStr ''generic_ble'') then True
         else if src = JStr ''response'' then True
         else if src_type = JStr ''TEST'' then True
         else if msg_content = INVALID_CHARACTER_MSG then True
         else contains msg_content CORE_DUMP_FILTER_TEXT)"

definition relay_path :: "string \<Rightarrow> string" where
  "relay_path src = join '','' (map strip (tl (split_on (CHR '','') src)))"

definition signal_source :: "string \<Rightarrow> string \<Rightarrow> string" where
  "signal_source msg_via callsign = (if msg_via \<noteq> [] then strip (after_last (CHR '','') msg_via) else callsign)"

definition echo_id_of :: "string \<Rightarrow> string option" where
  "echo_id_of msg = (case ack_suffix msg of None \<Rightarrow> None | Some (pre, ds, nl) \<Rightarrow> Some ds)"

definition parse_frame :: "int \<Rightarrow> msgd \<Rightarrow> parsed res" where
  "parse_frame now_ms message =
     bind_res (field_opt_str ''msg_id'' message) (\<lambda>msg_id.
     bind_res (str_of (dict_get message ''src'' (JStr ''''))) (\<lambda>src.
     bind_res (field_str ''dst'' '''' message) (\<lambda>dst.
     bind_res (field_str ''type'' ''msg'' message) (\<lambda>msg_type.
     bind_res (field_str ''src_type'' '''' message) (\<lambda>src_type.
     bind_res (tele_timestamp now_ms message) (\<lambda>timestamp.
     bind_res (opt_number ''rssi'' message) (\<lambda>rssi.
     bind_res (opt_number ''snr'' message) (\<lambda>snr.
     bind_res (field_opt_str ''via'' message) (\<lambda>via_field.
     (let msg = str_or '''' (dict_get message ''msg'' (JStr ''''));
          callsign = strip (before (CHR '','') src);
          relay_via = relay_path src;
          msg_via = (case via_field of Some v \<Rightarrow> if v \<noteq> [] then v else relay_via | None \<Rightarrow> relay_via)
      in bind_res (if msg_type = ''msg'' then compute_conversation_key callsign dst else Inr None) (\<lambda>conversation.
           Inr \<lparr>pf_msg_id = msg_id, pf_src = src, pf_dst = dst, pf_msg = msg, pf_type = msg_type, pf_ts = timestamp,
                pf_rssi = rssi, pf_snr = snr, pf_src_type = src_type, pf_callsign = callsign,
                pf_relay_via = relay_via, pf_msg_via = msg_via, pf_signal_via = signal_source msg_via callsign,
                pf_fcs_ok = (case map_of message ''fcs_ok'' of None \<Rightarrow> None | Some JNull \<Rightarrow> None | Some v \<Rightarrow> Some (truthy v)),
                pf_echo_id = (if msg_type = ''msg'' \<and> msg \<noteq> [] then echo_id_of msg else None),
                pf_conversation = conversation\<rparr>))))))))))) "

section \<open>Acknowledgements\<close>

definition coerce_ack_via :: "json \<Rightarrow> string option" where
  "coerce_ack_via v = (case v of JStr s \<Rightarrow> if s \<in> {''lora'', ''udp''} then Some s else None | _ \<Rightarrow> None)"

definition ack_attribution_fields :: "string option \<Rightarrow> string option \<Rightarrow> msgd" where
  "ack_attribution_fields ack_from ack_via =
     (case ack_from of None \<Rightarrow> [] | Some f \<Rightarrow> [(''from'', JStr f)]) @
     (case ack_via of None \<Rightarrow> [] | Some v \<Rightarrow> [(''via'', JStr v)])"

definition record_message_ack :: "string \<Rightarrow> string \<Rightarrow> string option \<Rightarrow> string option \<Rightarrow> int \<Rightarrow> store \<Rightarrow> store" where
  "record_message_ack msg_id kind ack_from ack_via timestamp st =
     (let who = (case ack_from of None \<Rightarrow> '''' | Some f \<Rightarrow> f)
      in if list_ex (\<lambda>a. ak_msg_id a = msg_id \<and> ak_kind a = kind \<and> ak_from a = who) (st_acks st) then st
         else st\<lparr>st_acks := st_acks st @ [\<lparr>ak_msg_id = msg_id, ak_kind = kind, ak_from = who, ak_via = ack_via, ak_ts = timestamp\<rparr>]\<rparr>)"

definition chat_row :: "string \<Rightarrow> store \<Rightarrow> message_row option" where
  "chat_row msg_id st = latest_message (\<lambda>r. mr_msg_id r = Some msg_id \<and> mr_type r = ''msg'') (st_messages st)"

definition mark_row :: "string \<Rightarrow> (message_row \<Rightarrow> message_row) \<Rightarrow> store \<Rightarrow> store" where
  "mark_row msg_id f st = (case chat_row msg_id st of None \<Rightarrow> st | Some r \<Rightarrow> update_message (mr_id r) f st)"

text \<open>\<open>ack_type\<close> of a decoded frame; the text of an unknown one is \<open>repr\<close> of it, a parameter.\<close>

text \<open>Python's equality with an integer: \<open>2.0\<close> and, for 0 and 1, the booleans compare equal.\<close>

fun equals_int :: "json \<Rightarrow> int \<Rightarrow> bool" where
  "equals_int (JInt i) n = (i = n)"
| "equals_int (JFloat r) n = (r = of_int n)"
| "equals_int (JBool b) n = (n = (if b then 1 else 0))"
| "equals_int _ n = False"

definition handle_ack :: "(json \<Rightarrow> string) \<Rightarrow> string \<Rightarrow> json \<Rightarrow> int \<Rightarrow> string option \<Rightarrow> string option \<Rightarrow> store \<Rightarrow> store" where
  "handle_ack py_repr msg_id ack_type timestamp ack_from ack_via st =
     (let found = chat_row msg_id st \<noteq> None;
          st1 = mark_row msg_id (\<lambda>r. r\<lparr>mr_send_success := True\<rparr>) st
      in if equals_int ack_type 2 then
           let st2 = mark_row msg_id (\<lambda>r. r\<lparr>mr_acked := True\<rparr>) st1
           in if \<not> found then st2
              else publish ([(''msg_id'', JStr msg_id), (''acked'', JBool True), (''ack_kind'', JStr ''peer'')] @
                            ack_attribution_fields ack_from ack_via)
                     (record_message_ack msg_id ''peer'' ack_from ack_via timestamp st2)
         else
           let ack_kind = (if equals_int ack_type 0 then ''node'' else if equals_int ack_type 1 then ''gateway''
                           else ''unknown('' @ py_repr ack_type @ '')'');
               st2 = (if found \<and> ack_kind \<in> {''node'', ''gateway''}
                      then record_message_ack msg_id ack_kind ack_from ack_via timestamp st1 else st1)
           in publish ([(''msg_id'', JStr msg_id), (''sent'', JBool True), (''ack_kind'', JStr ack_kind)] @
                       ack_attribution_fields ack_from ack_via) st2)"

text \<open>\<open>re.search(r":ack([0-9]+)", msg)\<close>: the digits of the first match.\<close>

fun inline_ack :: "string \<Rightarrow> string option" where
  "inline_ack [] = None"
| "inline_ack (c # cs) =
     (let ds = takeWhile ascii_digit (drop 4 (c # cs))
      in if startswith (c # cs) '':ack'' \<and> ds \<noteq> [] then Some ds else inline_ack cs)"

definition handle_inline_ack :: "string \<Rightarrow> store \<Rightarrow> store" where
  "handle_inline_ack msg st =
     (case inline_ack msg of
        None \<Rightarrow> st
      | Some ack_num \<Rightarrow>
          (case latest_message (\<lambda>r. mr_echo_id r = Some ack_num \<and> mr_type r = ''msg'') (st_messages st) of
             None \<Rightarrow> st
           | Some original \<Rightarrow>
               publish [(''msg_id'', case mr_msg_id original of None \<Rightarrow> JNull | Some i \<Rightarrow> JStr i), (''acked'', JBool True),
                        (''ack_kind'', JStr ''peer'')]
                 (update_message (mr_id original) (\<lambda>r. r\<lparr>mr_acked := True\<rparr>) st)))"


section \<open>Duplicates\<close>

definition sender_key :: "string \<Rightarrow> string \<Rightarrow> string \<times> string" where
  "sender_key callsign msg_id = (upper (strip callsign), msg_id)"

definition prune_recent :: "int \<Rightarrow> recent_ingest \<Rightarrow> recent_ingest" where
  "prune_recent timestamp recent =
     (if RECENT_INGEST_PRUNE_AT \<le> length recent
      then filter (\<lambda>(k, ts). \<not> ts \<le> timestamp - DEDUP_WINDOW_MS) recent else recent)"

definition claim_recent_ingest :: "string \<Rightarrow> string \<Rightarrow> int \<Rightarrow> recent_ingest \<Rightarrow> bool \<times> recent_ingest" where
  "claim_recent_ingest callsign msg_id timestamp recent =
     (let key = sender_key callsign msg_id in
      case map_of recent key of
        Some seen \<Rightarrow>
          if timestamp - seen \<le> DEDUP_WINDOW_MS then (False, recent)
          else (True, AList.update key timestamp (prune_recent timestamp recent))
      | None \<Rightarrow> (True, AList.update key timestamp (prune_recent timestamp recent)))"

text \<open>SQLite's \<open>UPPER\<close> and \<open>TRIM\<close> know ASCII letters and spaces only.\<close>

definition sql_upper :: "string \<Rightarrow> string" where
  "sql_upper s = map (\<lambda>c. if ascii_lower c then char_of (cp c - 32) else c) s"

definition sql_trim :: "string \<Rightarrow> string" where
  "sql_trim s = rev (dropWhile (\<lambda>c. c = CHR '' '') (rev (dropWhile (\<lambda>c. c = CHR '' '') s)))"

definition copy_in_table :: "string \<Rightarrow> string \<Rightarrow> int \<Rightarrow> message_row list \<Rightarrow> bool" where
  "copy_in_table callsign msg_id timestamp rows \<longleftrightarrow>
     list_ex (\<lambda>r. mr_msg_id r = Some msg_id \<and> timestamp - DEDUP_WINDOW_MS < mr_ts r \<and>
                  sql_upper (sql_trim (before (CHR '','') (mr_src r))) = upper callsign) rows"

section \<open>Stations and signals\<close>

text \<open>The \<open>timestamp\<close> of an upsert: an explicit \<open>null\<close> counts as missing.\<close>

definition upsert_ts :: "int \<Rightarrow> msgd \<Rightarrow> int" where
  "upsert_ts now_ms data = (case map_of data ''timestamp'' of Some (JInt t) \<Rightarrow> t | _ \<Rightarrow> now_ms)"

definition field :: "msgd \<Rightarrow> string \<Rightarrow> json" where
  "field data k = dict_get data k JNull"

definition default_columns :: msgd where
  "default_columns = [(''lat_dir'', JStr ''''), (''lon_dir'', JStr ''''), (''gw'', JInt 0), (''signal_via'', JStr ''''),
     (''via_shortest'', JStr ''''), (''via_paths'', JStr ''[]''), (''source'', JStr ''local'')]"

definition columns_of :: "string \<Rightarrow> store \<Rightarrow> msgd" where
  "columns_of callsign st = dict_get (st_columns st) callsign default_columns"

definition set_columns :: "string \<Rightarrow> msgd \<Rightarrow> store \<Rightarrow> store" where
  "set_columns callsign cols st = st\<lparr>st_columns := AList.update callsign cols (st_columns st)\<rparr>"

definition coalesce_json :: "json \<Rightarrow> json \<Rightarrow> json" where
  "coalesce_json a b = (if a = JNull then b else a)"

definition nonempty_json :: "json \<Rightarrow> json \<Rightarrow> json" where
  "nonempty_json a b = (if a = JNull \<or> a = JStr '''' then b else a)"

definition put :: "string \<Rightarrow> json \<Rightarrow> msgd \<Rightarrow> msgd" where
  "put k v cols = AList.update k v cols"

definition blank_station :: station where
  "blank_station = \<lparr>sp_alt = None, sp_values = replicate 8 None, sp_telemetry_ts = None, sp_last_seen = None, sp_extras = None\<rparr>"

text \<open>The columns shared with the telemetry upsert, with \<open>last_seen\<close> growing once the row exists.\<close>

definition touch_station :: "string \<Rightarrow> rat option \<Rightarrow> rat option \<Rightarrow> int \<Rightarrow> tele_db \<Rightarrow> tele_db" where
  "touch_station callsign alt batt timestamp db =
     (let new = (case map_of (db_stations db) callsign of
          None \<Rightarrow> blank_station\<lparr>sp_alt := alt, sp_values := (replicate 8 None)[7 := batt], sp_last_seen := Some timestamp\<rparr>
        | Some s \<Rightarrow> s\<lparr>sp_alt := coalesce alt (sp_alt s),
                     sp_values := (sp_values s)[7 := coalesce batt (sp_values s ! 7)],
                     sp_last_seen := Some (max (case sp_last_seen s of None \<Rightarrow> 0 | Some t \<Rightarrow> t) timestamp)\<rparr>)
      in db\<lparr>db_stations := AList.update callsign new (db_stations db)\<rparr>)"

definition touch :: "string \<Rightarrow> rat option \<Rightarrow> rat option \<Rightarrow> int \<Rightarrow> store \<Rightarrow> store" where
  "touch callsign alt batt timestamp st = st\<lparr>st_tele := touch_station callsign alt batt timestamp (st_tele st)\<rparr>"

definition row_exists :: "string \<Rightarrow> store \<Rightarrow> bool" where
  "row_exists callsign st \<longleftrightarrow> in_dict callsign (db_stations (st_tele st))"

definition upsert_signal :: "int \<Rightarrow> string \<Rightarrow> msgd \<Rightarrow> string \<Rightarrow> store \<Rightarrow> store" where
  "upsert_signal now_ms callsign data signal_via st =
     (if is_placeholder_callsign callsign then st
      else let ts = upsert_ts now_ms data; cols = columns_of callsign st;
               co = (\<lambda>k. put k (coalesce_json (field data k) (field cols k)))
           in set_columns callsign
                (co ''mesh'' (co ''lora_mod'' (co ''hw_id''
                  (put ''signal_ts'' (JInt ts) (put ''signal_via'' (JStr signal_via)
                    (put ''snr'' (field data ''snr'') (put ''rssi'' (field data ''rssi'') cols)))))))
                (touch callsign None None ts st))"

definition upsert_heard :: "int \<Rightarrow> string \<Rightarrow> msgd \<Rightarrow> store \<Rightarrow> store" where
  "upsert_heard now_ms callsign data st =
     (if is_placeholder_callsign callsign then st
      else let ts = upsert_ts now_ms data; cols = columns_of callsign st
           in set_columns callsign
                (put ''gw'' (if row_exists callsign st then coalesce_json (field data ''gw'') (field cols ''gw'') else field data ''gw'') cols)
                (touch callsign None None ts st))"

definition shortest_via :: "string \<Rightarrow> string \<Rightarrow> string" where
  "shortest_via new old = (if new = [] then [] else if old = [] then old else if length new < length old then new else old)"

definition via_paths :: "(bool \<Rightarrow> json \<Rightarrow> string) \<Rightarrow> string \<Rightarrow> int \<Rightarrow> string" where
  "via_paths dumps via ts =
     (if via \<noteq> [] then dumps False (JList [JObj [(''path'', JStr via), (''last_seen'', JInt ts)]]) else ''[]'')"

definition upsert_position :: "(bool \<Rightarrow> json \<Rightarrow> string) \<Rightarrow> int \<Rightarrow> string \<Rightarrow> msgd \<Rightarrow> store \<Rightarrow> store res" where
  "upsert_position dumps now_ms callsign data st =
     (if is_placeholder_callsign callsign then Inr st
      else bind_res (opt_number ''alt'' data) (\<lambda>alt. bind_res (opt_number ''batt'' data) (\<lambda>batt.
        let ts = upsert_ts now_ms data; cols = columns_of callsign st; via = str_or '''' (dict_get data ''via'' (JStr ''''));
            paths = via_paths dumps via ts; fresh = \<not> row_exists callsign st;
            raw = (\<lambda>k. put k (field data k));
            co = (\<lambda>k. put k (if fresh then field data k else coalesce_json (field data k) (field cols k)));
            ne = (\<lambda>k. put k (if fresh then field data k else nonempty_json (field data k) (field cols k)));
            dir = (\<lambda>k. put k (if fresh then dict_get data k (JStr '''') else nonempty_json (dict_get data k (JStr '''')) (field cols k)))
        in Inr (set_columns callsign
             (co ''lat'' (co ''lon'' (dir ''lat_dir'' (dir ''lon_dir'' (co ''hw_id'' (ne ''firmware'' (ne ''fw_sub''
               (ne ''aprs_symbol'' (ne ''aprs_symbol_group'' (co ''gw''
                 (put ''via_shortest'' (JStr (if fresh then via else shortest_via via (str_or '''' (field cols ''via_shortest''))))
                   (put ''via_paths'' (if paths \<noteq> ''[]'' \<or> fresh then JStr paths else field cols ''via_paths'')
                     (put ''position_ts'' (JInt ts) cols)))))))))))))
             (touch callsign alt batt ts st)))))"

text \<open>Signal readings of MHeard beacons and of frames heard over the air; the result says whether it was MHeard.\<close>

definition is_mheard_frame :: "parsed \<Rightarrow> bool" where
  "is_mheard_frame p \<longleftrightarrow> (pf_msg_id p = None \<or> pf_msg_id p = Some []) \<and> pf_src_type p = ''ble'' \<and> pf_type p = ''pos''"

definition ingest_signal :: "(rat \<Rightarrow> rat) \<Rightarrow> int \<Rightarrow> parsed \<Rightarrow> msgd \<Rightarrow> store \<Rightarrow> store" where
  "ingest_signal round2 now_ms p message st =
     (let is_mheard = is_mheard_frame p;
          is_lora = (pf_src_type p = ''lora'' \<and> pf_type p \<in> {''pos'', ''msg''})
      in case (pf_rssi p, pf_snr p) of
           (Some rssi, Some snr) \<Rightarrow>
             if (is_mheard \<or> is_lora) \<and> in_range VALID_RSSI_RANGE rssi \<and> in_range VALID_SNR_RANGE snr
             then if is_placeholder_callsign (pf_callsign p) \<or> is_placeholder_callsign (pf_signal_via p) then st
                  else upsert_signal now_ms (pf_callsign p) message (pf_signal_via p)
                         (st\<lparr>st_signal := log_signal round2 (pf_callsign p) (pf_signal_via p) (pf_ts p) rssi snr
                            (if is_mheard then ''mheard'' else ''lora'') (st_signal st)\<rparr>)
             else st
         | _ \<Rightarrow> st)"


section \<open>Positions, MHeard and the message row\<close>

text \<open>What a part of the handling leaves behind, and the exception that ended it, if any.\<close>

type_synonym outcome = "store \<times> py_error option"

definition attempt :: "store res \<Rightarrow> store \<Rightarrow> outcome" where
  "attempt r st = (case r of Inl e \<Rightarrow> (st, Some e) | Inr st' \<Rightarrow> (st', None))"

definition then_also :: "outcome \<Rightarrow> (store \<Rightarrow> outcome) \<Rightarrow> outcome" where
  "then_also o' f = (case o' of (st, None) \<Rightarrow> f st | (st, Some e) \<Rightarrow> (st, Some e))"

record externals =
  ex_loads :: "string \<Rightarrow> json option"
  ex_dumps :: "bool \<Rightarrow> json \<Rightarrow> string"
  ex_baro :: "rat \<Rightarrow> rat \<Rightarrow> rat"
  ex_round2 :: "rat \<Rightarrow> rat"
  ex_to_metres :: "int \<Rightarrow> int"
  ex_classify :: "parsed \<Rightarrow> msgd"
  ex_repr :: "json \<Rightarrow> string"

definition call_store_telemetry :: "externals \<Rightarrow> int \<Rightarrow> string \<Rightarrow> msgd \<Rightarrow> store \<Rightarrow> outcome" where
  "call_store_telemetry x now_ms callsign data st =
     attempt (bind_res (store_telemetry (ex_loads x) (\<lambda>b d. ex_dumps x b (JObj d)) (ex_baro x) now_ms callsign data (st_tele st))
       (\<lambda>db. Inr (st\<lparr>st_tele := db\<rparr>))) st"

definition WEATHER_BEACON_FIELDS :: "string list" where
  "WEATHER_BEACON_FIELDS = [''temp1'', ''temp2'', ''hum'', ''hum2'', ''qfe'', ''qnh'', ''gas'', ''co2'']"

definition has_weather :: "msgd \<Rightarrow> bool" where
  "has_weather data \<longleftrightarrow> list_ex (\<lambda>f. field data f \<noteq> JNull) WEATHER_BEACON_FIELDS"

definition raw_get :: "json \<Rightarrow> string \<Rightarrow> json res" where
  "raw_get raw_parsed k = (case raw_parsed of JObj d \<Rightarrow> Inr (field d k) | _ \<Rightarrow> Inl AttributeError)"

definition raw_fallback :: "string \<Rightarrow> string option" where
  "raw_fallback k = (if k = ''lon'' then Some ''long'' else if k = ''lon_dir'' then Some ''long_dir'' else None)"

definition fill_field :: "json \<Rightarrow> string \<Rightarrow> msgd \<Rightarrow> msgd res" where
  "fill_field raw_parsed k data =
     (if field data k \<noteq> JNull then Inr data
      else bind_res (raw_get raw_parsed k) (\<lambda>v.
        bind_res (case raw_fallback k of Some k' \<Rightarrow> if v = JNull then raw_get raw_parsed k' else Inr v | None \<Rightarrow> Inr v) (\<lambda>v'.
          Inr (if v' \<noteq> JNull then put k v' data else data))))"

definition POSITION_FIELDS :: "string list" where
  "POSITION_FIELDS = [''lat'', ''lon'', ''alt'', ''lat_dir'', ''lon_dir'', ''hw_id'', ''firmware'', ''fw_sub'',
     ''aprs_symbol'', ''aprs_symbol_group'', ''batt'', ''gw'']"

fun fill_fields :: "json \<Rightarrow> string list \<Rightarrow> msgd \<Rightarrow> msgd res" where
  "fill_fields raw_parsed [] data = Inr data"
| "fill_fields raw_parsed (k # ks) data = bind_res (fill_field raw_parsed k data) (fill_fields raw_parsed ks)"

text \<open>\<open>re.search(r"/A=(\d{6})", msg)\<close>\<close>

fun aprs_altitude :: "string \<Rightarrow> int option" where
  "aprs_altitude [] = None"
| "aprs_altitude (c # cs) =
     (let ds = take 6 (drop 3 (c # cs))
      in if startswith (c # cs) ''/A='' \<and> length ds = 6 \<and> list_all ascii_digit ds then Some (dec_val ds) else aprs_altitude cs)"

definition fill_altitude :: "(int \<Rightarrow> int) \<Rightarrow> msgd \<Rightarrow> msgd res" where
  "fill_altitude to_metres data =
     (if truthy (field data ''alt'') then Inr data
      else case dict_get data ''msg'' (JStr '''') of
        JStr s \<Rightarrow> Inr (case aprs_altitude s of None \<Rightarrow> data | Some ft \<Rightarrow> put ''alt'' (JInt (to_metres ft)) data)
      | _ \<Rightarrow> Inl TypeError)"

definition store_position :: "externals \<Rightarrow> int \<Rightarrow> string \<Rightarrow> msgd \<Rightarrow> string \<Rightarrow> string \<Rightarrow> store \<Rightarrow> outcome" where
  "store_position x now_ms callsign message raw relay_via st =
     (let raw_parsed = (case ex_loads x raw of None \<Rightarrow> JObj [] | Some v \<Rightarrow> v)
      in case bind_res (fill_fields raw_parsed POSITION_FIELDS (put ''via'' (JStr relay_via) message)) (fill_altitude (ex_to_metres x)) of
           Inl e \<Rightarrow> (st, Some e)
         | Inr pos_data \<Rightarrow>
             then_also
               (if truthy (field pos_data ''lat'') \<and> truthy (field pos_data ''lon'')
                then attempt (upsert_position (ex_dumps x) now_ms callsign pos_data st) st else (st, None))
               (\<lambda>st1. if has_weather pos_data then call_store_telemetry x now_ms callsign pos_data st1 else (st1, None)))"

text \<open>The throttle of MHeard rows: the latest recent one is updated in place.\<close>

definition mheard_row :: "string \<Rightarrow> int \<Rightarrow> message_row \<Rightarrow> bool" where
  "mheard_row src timestamp r \<longleftrightarrow> mr_src r = src \<and> mr_src_type r = ''ble'' \<and> mr_type r = ''pos'' \<and> mr_msg_id r = None \<and>
     timestamp - MHEARD_THROTTLE_MS < mr_ts r"

definition store_mheard :: "parsed \<Rightarrow> string \<Rightarrow> store \<Rightarrow> store option" where
  "store_mheard p raw st =
     (case latest_message (mheard_row (pf_src p) (pf_ts p)) (st_messages st) of
        None \<Rightarrow> None
      | Some r \<Rightarrow> Some (update_message (mr_id r)
          (\<lambda>r. r\<lparr>mr_rssi := pf_rssi p, mr_snr := pf_snr p, mr_ts := pf_ts p, mr_raw := raw\<rparr>) st))"

definition MESSAGE_COLUMNS :: "string list" where
  "MESSAGE_COLUMNS = [''hw_id'', ''lora_mod'', ''max_hop'', ''mesh_info'', ''firmware'', ''fw_sub'', ''last_hw_id'',
     ''last_sending'', ''transformer'']"

text \<open>SQLite binds no list or object, which drops the row, and no integer beyond 64 bits, which raises.\<close>

fun unbindable :: "json \<Rightarrow> bool" where
  "unbindable (JList xs) = True"
| "unbindable (JObj d) = True"
| "unbindable _ = False"

fun too_large :: "json \<Rightarrow> bool" where
  "too_large (JInt i) = (i < - (2 ^ 63) \<or> 2 ^ 63 \<le> i)"
| "too_large _ = False"

definition insert_message_row :: "externals \<Rightarrow> parsed \<Rightarrow> msgd \<Rightarrow> string \<Rightarrow> store \<Rightarrow> outcome" where
  "insert_message_row x p message raw st =
     (let cols = map (\<lambda>k. (k, field message k)) MESSAGE_COLUMNS @ ex_classify x p
      in if list_ex (\<lambda>(k, v). too_large v) cols then (st, Some OverflowError)
         else if list_ex (\<lambda>(k, v). unbindable v) cols then (st, None)
         else (st\<lparr>st_messages := st_messages st @
                   [\<lparr>mr_id = st_next_id st, mr_msg_id = pf_msg_id p, mr_src = pf_src p, mr_dst = pf_dst p, mr_msg = pf_msg p,
                     mr_type = pf_type p, mr_ts = pf_ts p, mr_rssi = pf_rssi p, mr_snr = pf_snr p,
                     mr_src_type = pf_src_type p, mr_raw = raw, mr_via = pf_msg_via p, mr_columns = cols,
                     mr_echo_id = pf_echo_id p, mr_conversation = pf_conversation p, mr_fcs_ok = pf_fcs_ok p,
                     mr_acked = False, mr_send_success = False\<rparr>],
                  st_next_id := st_next_id st + 1\<rparr>, None))"

section \<open>The three parts of store_message\<close>

record task =
  tk_now :: int
  tk_message :: msgd
  tk_raw :: string
  tk_parsed :: parsed
  tk_checked :: bool

datatype begun = Done "py_error option" | Pending task

definition salvage :: "externals \<Rightarrow> task \<Rightarrow> store \<Rightarrow> outcome" where
  "salvage x t st =
     (if pf_type (tk_parsed t) = ''pos'' \<and> has_weather (tk_message t)
      then call_store_telemetry x (tk_now t) (pf_callsign (tk_parsed t))
             (put ''via'' (JStr (pf_relay_via (tk_parsed t))) (tk_message t)) st
      else (st, None))"

definition finished :: "outcome \<Rightarrow> begun \<times> store" where
  "finished o' = (Done (snd o'), fst o')"

text \<open>From the call to the claim.\<close>

definition store_begin :: "externals \<Rightarrow> int \<Rightarrow> msgd \<Rightarrow> string \<Rightarrow> store \<Rightarrow> begun \<times> store" where
  "store_begin x now_ms message raw st =
     (let st1 = st\<lparr>st_uptime := beacon_hook message now_ms (st_uptime st)\<rparr> in
      if should_filter_message message then finished (st1, None)
      else (case parse_frame now_ms message of
        Inl e \<Rightarrow> finished (st1, Some e)
      | Inr p \<Rightarrow>
          if pf_type p = ''tele'' then finished (call_store_telemetry x now_ms (pf_callsign p) message st1)
          else if pf_type p = ''ack'' then
            finished (case pf_msg_id p of
                    Some m \<Rightarrow> if m = [] then (st1, None)
                      else (handle_ack (ex_repr x) m (field message ''ack_type'') (pf_ts p)
                              (normalise_ack_callsign (AckJson (field message ''ack_from'')))
                              (coerce_ack_via (field message ''ack_via'')) st1, None)
                  | None \<Rightarrow> (st1, None))
          else
            let st2 = handle_inline_ack (pf_msg p) st1;
                t = \<lparr>tk_now = now_ms, tk_message = message, tk_raw = raw, tk_parsed = p, tk_checked = False\<rparr>
            in (case pf_msg_id p of
                 None \<Rightarrow> (Pending (t\<lparr>tk_checked := True\<rparr>), st2)
               | Some m \<Rightarrow>
                   let (fresh, recent) = claim_recent_ingest (pf_callsign p) m (pf_ts p) (st_recent st2);
                       st3 = st2\<lparr>st_recent := recent\<rparr>
                   in if fresh then (Pending t, st3) else finished (salvage x t st3))))"

text \<open>The lookup of an earlier copy.\<close>

definition store_check :: "externals \<Rightarrow> task \<Rightarrow> store \<Rightarrow> begun \<times> store" where
  "store_check x t st =
     (case pf_msg_id (tk_parsed t) of
        None \<Rightarrow> (Pending t, st)
      | Some m \<Rightarrow>
          if copy_in_table (pf_callsign (tk_parsed t)) m (pf_ts (tk_parsed t)) (st_messages st)
          then finished (salvage x t st) else (Pending (t\<lparr>tk_checked := True\<rparr>), st))"

text \<open>The writes.\<close>

definition record_origin :: "task \<Rightarrow> store \<Rightarrow> outcome" where
  "record_origin t st =
     (let mh_origin = field (tk_message t) ''mh_origin'' in
      if is_mheard_frame (tk_parsed t) \<and> truthy mh_origin
      then (case mh_origin of JStr c \<Rightarrow> (upsert_heard (tk_now t) c (tk_message t) st, None) | _ \<Rightarrow> (st, Some AttributeError))
      else (st, None))"

definition write_row :: "externals \<Rightarrow> task \<Rightarrow> store \<Rightarrow> outcome" where
  "write_row x t st =
     (let p = tk_parsed t in
      case (if is_mheard_frame p then store_mheard p (tk_raw t) st else None) of
        Some st' \<Rightarrow> (st', None)
      | None \<Rightarrow> if is_link_check_payload (JStr (pf_msg p)) then (st, None) else insert_message_row x p (tk_message t) (tk_raw t) st)"

definition store_finish :: "externals \<Rightarrow> task \<Rightarrow> store \<Rightarrow> outcome" where
  "store_finish x t st =
     (let p = tk_parsed t; st1 = ingest_signal (ex_round2 x) (tk_now t) p (tk_message t) st
      in then_also
           (if pf_type p = ''pos'' \<and> \<not> is_mheard_frame p
            then store_position x (tk_now t) (pf_callsign p) (tk_message t) (tk_raw t) (pf_relay_via p) st1 else (st1, None))
           (\<lambda>st2. then_also (record_origin t st2) (write_row x t)))"

text \<open>One frame at a time.\<close>

definition store_message :: "externals \<Rightarrow> int \<Rightarrow> msgd \<Rightarrow> string \<Rightarrow> store \<Rightarrow> outcome" where
  "store_message x now_ms message raw st =
     (case store_begin x now_ms message raw st of
        (Done e, st1) \<Rightarrow> (st1, e)
      | (Pending t, st1) \<Rightarrow>
          (case store_check x t st1 of
             (Done e, st2) \<Rightarrow> (st2, e)
           | (Pending t', st2) \<Rightarrow> store_finish x t' st2))"

section \<open>Interleaved tasks\<close>

record ingest =
  in_store :: store
  in_tasks :: "(nat, task) dict"

datatype store_event = Arrive nat int msgd string | Look nat | Write nat | Restart int

definition settle :: "nat \<Rightarrow> begun \<times> store \<Rightarrow> ingest \<Rightarrow> ingest" where
  "settle i r w =
     (case r of
        (Done e, st) \<Rightarrow> w\<lparr>in_store := st, in_tasks := AList.delete i (in_tasks w)\<rparr>
      | (Pending t, st) \<Rightarrow> w\<lparr>in_store := st, in_tasks := AList.update i t (in_tasks w)\<rparr>)"

fun store_event_step :: "externals \<Rightarrow> store_event \<Rightarrow> ingest \<Rightarrow> ingest" where
  "store_event_step x (Arrive i now_ms message raw) w =
     (if in_dict i (in_tasks w) then w else settle i (store_begin x now_ms message raw (in_store w)) w)"
| "store_event_step x (Look i) w =
     (case map_of (in_tasks w) i of
        Some t \<Rightarrow> if tk_checked t then w else settle i (store_check x t (in_store w)) w
      | None \<Rightarrow> w)"
| "store_event_step x (Write i) w =
     (case map_of (in_tasks w) i of
        Some t \<Rightarrow> if tk_checked t then settle i (finished (store_finish x t (in_store w))) w else w
      | None \<Rightarrow> w)"
| "store_event_step x (Restart now_ms) w =
     (let st = in_store w in
      w\<lparr>in_store := st\<lparr>st_recent := [], st_signal := init_bucket_accumulators now_ms (st_signal st),
                       st_uptime := reconcile_link_uptime_startup now_ms (st_uptime st)\<rparr>, in_tasks := []\<rparr>)"


section \<open>Rows are only added, and flags only set\<close>

text \<open>
  A later state of a row: identity and content are as they were, the two delivery flags can only have
  been set; only a row without message id can have been refreshed by the MHeard throttle.
\<close>

definition row_grows :: "message_row \<Rightarrow> message_row \<Rightarrow> bool" where
  "row_grows r s \<longleftrightarrow>
     mr_id s = mr_id r \<and> mr_msg_id s = mr_msg_id r \<and> mr_src s = mr_src r \<and> mr_dst s = mr_dst r \<and> mr_msg s = mr_msg r \<and>
     mr_type s = mr_type r \<and> mr_src_type s = mr_src_type r \<and> mr_via s = mr_via r \<and> mr_echo_id s = mr_echo_id r \<and>
     mr_conversation s = mr_conversation r \<and> (mr_acked r \<longrightarrow> mr_acked s) \<and> (mr_send_success r \<longrightarrow> mr_send_success s) \<and>
     (mr_msg_id r = None \<or> mr_ts s = mr_ts r \<and> mr_raw s = mr_raw r)"

definition rows_grow :: "message_row list \<Rightarrow> message_row list \<Rightarrow> bool" where
  "rows_grow xs ys \<longleftrightarrow> (\<exists>zs new. ys = zs @ new \<and> list_all2 row_grows xs zs)"

lemma row_grows_refl [simp]: "row_grows r r"
  by (simp add: row_grows_def)

lemma row_grows_trans: "row_grows a b \<Longrightarrow> row_grows b c \<Longrightarrow> row_grows a c"
  by (auto simp: row_grows_def)

lemma rows_grow_append: "list_all2 row_grows xs zs \<Longrightarrow> rows_grow xs (zs @ new)"
  by (auto simp: rows_grow_def)

lemma rows_grow_refl [simp]: "rows_grow xs xs"
  using rows_grow_append[of xs xs "[]"] by (simp add: list.rel_refl)

lemma rows_grow_trans: "rows_grow xs ys \<Longrightarrow> rows_grow ys zs \<Longrightarrow> rows_grow xs zs"
proof -
  assume "rows_grow xs ys" "rows_grow ys zs"
  then obtain ys' n1 zs' n2 where a: "ys = ys' @ n1" "list_all2 row_grows xs ys'" "zs = zs' @ n2" "list_all2 row_grows ys zs'"
    by (auto simp: rows_grow_def)
  then obtain u v where "zs' = u @ v" "list_all2 row_grows ys' u"
    by (auto simp: list_all2_append1)
  moreover have "list_all2 row_grows xs u"
    using a(2) calculation(2) by (blast intro: list_all2_trans row_grows_trans)
  ultimately show ?thesis
    using a(3) unfolding rows_grow_def by (metis append.assoc)
qed

lemma rows_grow_snoc: "rows_grow xs (xs @ [r])"
  by (rule rows_grow_append) (simp add: list.rel_refl)

lemma rows_grow_map: "(\<And>r. row_grows r (f r)) \<Longrightarrow> rows_grow xs (map f xs)"
  using rows_grow_append[of xs "map f xs" "[]"] by (simp add: list_all2_conv_all_nth)

lemma rows_grow_mem: "rows_grow xs ys \<Longrightarrow> r \<in> set xs \<Longrightarrow> \<exists>s \<in> set ys. row_grows r s"
proof -
  assume "rows_grow xs ys" "r \<in> set xs"
  then obtain zs new where "ys = zs @ new" "list_all2 row_grows xs zs"
    by (auto simp: rows_grow_def)
  then show ?thesis
    using \<open>r \<in> set xs\<close> by (fastforce simp: list_all2_conv_all_nth in_set_conv_nth)
qed

lemma latest_message_Some:
  assumes "latest_message P rows = Some r"
  shows "r \<in> set rows" "P r"
proof -
  have "foldl (\<lambda>b x. if mr_ts x > mr_ts b then x else b) b rs \<in> insert b (set rs)" for b and rs :: "message_row list"
  proof (induction rs arbitrary: b)
    case (Cons x rs)
    then show ?case
      using Cons[of "if mr_ts b < mr_ts x then x else b"] by (auto split: if_splits)
  qed simp
  then have "r \<in> set (filter P rows)"
    using assms by (cases "filter P rows") (auto simp: latest_message_def simp del: set_filter)
  then show "r \<in> set rows" "P r"
    by simp_all
qed

definition table_grows :: "store \<Rightarrow> store \<Rightarrow> bool" where
  "table_grows st st' \<longleftrightarrow> rows_grow (st_messages st) (st_messages st')"

named_theorems same_messages \<open>operations that leave the message table alone\<close>

lemma publish_messages [same_messages]: "st_messages (publish e st) = st_messages st"
  by (simp add: publish_def)

lemma table_grows_refl [simp]: "table_grows st st"
  by (simp add: table_grows_def)

lemma table_grows_trans: "table_grows a b \<Longrightarrow> table_grows b c \<Longrightarrow> table_grows a c"
  unfolding table_grows_def by (rule rows_grow_trans)


definition same_rows :: "store \<Rightarrow> store \<Rightarrow> bool" where
  "same_rows st st' \<longleftrightarrow> list_all2 row_grows (st_messages st) (st_messages st') \<and> st_next_id st' = st_next_id st \<and> st_recent st' = st_recent st"

definition row_ids_ok :: "store \<Rightarrow> bool" where
  "row_ids_ok st \<longleftrightarrow> distinct (map mr_id (st_messages st)) \<and> (\<forall>r \<in> set (st_messages st). mr_id r < st_next_id st)"

lemma same_rows_refl [simp]: "same_rows st st"
  by (simp add: same_rows_def list.rel_refl)

lemma same_rows_trans: "same_rows a b \<Longrightarrow> same_rows b c \<Longrightarrow> same_rows a c"
  unfolding same_rows_def by (auto intro: list_all2_trans[where ?P1.0 = row_grows and ?P2.0 = row_grows] row_grows_trans)

lemma same_rows_grows: "same_rows a b \<Longrightarrow> table_grows a b"
  using rows_grow_append[of "st_messages a" "st_messages b" "[]"] by (simp add: same_rows_def table_grows_def)

lemma same_rows_ids: "same_rows a b \<Longrightarrow> map mr_id (st_messages b) = map mr_id (st_messages a)"
proof -
  assume "same_rows a b"
  then have "list_all2 row_grows (st_messages a) (st_messages b)"
    by (simp add: same_rows_def)
  then show ?thesis
    by (induction rule: list_all2_induct) (simp_all add: row_grows_def)
qed

lemma row_ids_same: "same_rows a b \<Longrightarrow> row_ids_ok a \<Longrightarrow> row_ids_ok b"
proof -
  assume s: "same_rows a b" and a: "row_ids_ok a"
  have "mr_id ` set (st_messages b) = mr_id ` set (st_messages a)"
    using same_rows_ids[OF s] by (metis list.set_map)
  then have "\<forall>r \<in> set (st_messages b). mr_id r < st_next_id b"
    using a s by (metis (no_types, lifting) row_ids_ok_def image_iff same_rows_def)
  then show ?thesis
    using a same_rows_ids[OF s] by (simp add: row_ids_ok_def)
qed

text \<open>Operations on other tables.\<close>

lemma other_tables [same_messages, simp]:
  "st_messages (publish e st) = st_messages st" "st_next_id (publish e st) = st_next_id st" "st_recent (publish e st) = st_recent st"
  "st_messages (record_message_ack m k f v t st) = st_messages st" "st_next_id (record_message_ack m k f v t st) = st_next_id st" "st_recent (record_message_ack m k f v t st) = st_recent st"
  "st_messages (set_columns c cols st) = st_messages st" "st_next_id (set_columns c cols st) = st_next_id st" "st_recent (set_columns c cols st) = st_recent st"
  "st_messages (touch c a b t st) = st_messages st" "st_next_id (touch c a b t st) = st_next_id st" "st_recent (touch c a b t st) = st_recent st"
  by (simp_all add: publish_def record_message_ack_def set_columns_def touch_def Let_def)

lemma upserts_messages [same_messages, simp]:
  "st_messages (upsert_signal n c d v st) = st_messages st" "st_next_id (upsert_signal n c d v st) = st_next_id st" "st_recent (upsert_signal n c d v st) = st_recent st"
  "st_messages (upsert_heard n c d st) = st_messages st" "st_next_id (upsert_heard n c d st) = st_next_id st" "st_recent (upsert_heard n c d st) = st_recent st"
  by (simp_all add: upsert_signal_def upsert_heard_def Let_def)

lemma position_messages [same_messages]:
  "upsert_position dumps n c d st = Inr st' \<Longrightarrow> st_messages st' = st_messages st \<and> st_next_id st' = st_next_id st \<and> st_recent st' = st_recent st"
  by (auto simp: upsert_position_def Let_def split: if_splits)

lemma ingest_signal_messages [same_messages, simp]:
  "st_messages (ingest_signal r2 n p m st) = st_messages st" "st_next_id (ingest_signal r2 n p m st) = st_next_id st" "st_recent (ingest_signal r2 n p m st) = st_recent st"
  by (simp_all add: ingest_signal_def Let_def split: option.splits)

lemma attempt_messages:
  "(\<And>st'. r = Inr st' \<Longrightarrow> same_rows st st') \<Longrightarrow> same_rows st (fst (attempt r st))"
  by (cases r) (simp_all add: attempt_def)

lemma then_also_rows:
  "same_rows st (fst o1) \<Longrightarrow> (\<And>st1. fst o1 = st1 \<Longrightarrow> same_rows st1 (fst (f st1))) \<Longrightarrow> same_rows st (fst (then_also o1 f))"
  by (cases o1; cases "snd o1") (auto simp: then_also_def intro: same_rows_trans)

lemma telemetry_rows [same_messages, simp]: "same_rows st (fst (call_store_telemetry x n c d st))"
  unfolding call_store_telemetry_def by (rule attempt_messages) (auto simp: same_rows_def list.rel_refl)

lemma salvage_rows [simp]: "same_rows st (fst (salvage x t st))"
  by (simp add: salvage_def)

lemma store_position_rows: "same_rows st (fst (store_position x n c m raw via st))"
proof -
  have p: "same_rows st (fst (attempt (upsert_position d n c pos st) st))" for d pos
    by (rule attempt_messages) (auto simp: same_rows_def list.rel_refl dest: position_messages)
  show ?thesis
    by (auto simp: store_position_def Let_def intro!: then_also_rows p split: sum.splits)
qed

lemma record_origin_rows: "same_rows st (fst (record_origin t st))"
  by (auto simp: record_origin_def Let_def same_rows_def list.rel_refl split: json.splits)

text \<open>Updates of flags, and of a throttled MHeard row.\<close>

lemma update_message_rows:
  "(\<And>r. r \<in> set (st_messages st) \<Longrightarrow> mr_id r = i \<Longrightarrow> row_grows r (f r)) \<Longrightarrow> same_rows st (update_message i f st)"
  by (auto simp: same_rows_def update_message_def list_all2_conv_all_nth)

lemma mark_row_rows: "(\<And>r. row_grows r (f r)) \<Longrightarrow> same_rows st (mark_row m f st)"
  by (auto simp: mark_row_def intro: update_message_rows split: option.splits)

lemma same_rows_next: "same_rows st st' \<Longrightarrow> st_messages st'' = st_messages st' \<Longrightarrow> st_next_id st'' = st_next_id st' \<Longrightarrow>
   st_recent st'' = st_recent st' \<Longrightarrow> same_rows st st''"
  by (simp add: same_rows_def)

lemma same_rows_other:
  "same_rows st (publish e st') = same_rows st st'" "same_rows st (record_message_ack m k f v ts st') = same_rows st st'"
  by (simp_all add: same_rows_def)

lemma handle_ack_rows: "same_rows st (handle_ack rep m ty ts f v st)"
proof -
  have g: "same_rows st (mark_row m (\<lambda>r. r\<lparr>mr_send_success := True\<rparr>) st)" for st
    by (rule mark_row_rows) (simp add: row_grows_def)
  have a: "same_rows st (mark_row m (\<lambda>r. r\<lparr>mr_acked := True\<rparr>) st)" for st
    by (rule mark_row_rows) (simp add: row_grows_def)
  show ?thesis
    using g[of st] same_rows_trans[OF g a, of st]
    by (auto simp: handle_ack_def Let_def intro: same_rows_next)
qed

lemma handle_inline_ack_rows: "same_rows st (handle_inline_ack msg st)"
proof -
  have "same_rows st (update_message i (\<lambda>r. r\<lparr>mr_acked := True\<rparr>) st)" for i
    by (rule update_message_rows) (simp add: row_grows_def)
  then show ?thesis
    by (simp add: handle_inline_ack_def same_rows_other split: option.splits)
qed

lemma store_mheard_rows: "row_ids_ok st \<Longrightarrow> store_mheard p raw st = Some st' \<Longrightarrow> same_rows st st'"
proof -
  assume ids: "row_ids_ok st" and s: "store_mheard p raw st = Some st'"
  then obtain r where r: "latest_message (mheard_row (pf_src p) (pf_ts p)) (st_messages st) = Some r"
      "st' = update_message (mr_id r) (\<lambda>r. r\<lparr>mr_rssi := pf_rssi p, mr_snr := pf_snr p, mr_ts := pf_ts p, mr_raw := raw\<rparr>) st"
    by (auto simp: store_mheard_def split: option.splits)
  have "s = r" if "s \<in> set (st_messages st)" "mr_id s = mr_id r" for s
    using ids latest_message_Some(1)[OF r(1)] that by (auto simp: row_ids_ok_def distinct_map inj_on_def)
  then have "mr_msg_id s = None" if "s \<in> set (st_messages st)" "mr_id s = mr_id r" for s
    using latest_message_Some(2)[OF r(1)] that by (auto simp: mheard_row_def)
  then show ?thesis
    unfolding r(2) by (intro update_message_rows) (auto simp: row_grows_def)
qed

text \<open>Only the last write adds a row, under the frame's own sender, id and time.\<close>

lemma write_row_rows:
  assumes "row_ids_ok st"
  shows "same_rows st (fst (write_row x t st)) \<or>
    (\<exists>r. st_messages (fst (write_row x t st)) = st_messages st @ [r] \<and> st_next_id (fst (write_row x t st)) = st_next_id st + 1 \<and>
       st_recent (fst (write_row x t st)) = st_recent st \<and> mr_id r = st_next_id st \<and> mr_msg_id r = pf_msg_id (tk_parsed t) \<and> mr_src r = pf_src (tk_parsed t) \<and> mr_ts r = pf_ts (tk_parsed t))"
  using store_mheard_rows[OF assms, of "tk_parsed t" "tk_raw t"]
  by (auto simp: write_row_def insert_message_row_def Let_def split: option.splits if_splits)


section \<open>A message is stored once\<close>

lemma sql_upper_ascii: "isascii s \<Longrightarrow> sql_upper s = upper s"
proof (induction s)
  case (Cons c s)
  then show ?case
    by (auto simp: sql_upper_def upper_Cons isascii_def upper_char_ascii_case)
qed (simp add: sql_upper_def)

definition plain_source :: "string \<Rightarrow> bool" where
  "plain_source src \<longleftrightarrow> isascii src \<and> (\<forall>c \<in> set src. is_space c \<longrightarrow> c = CHR '' '')"

lemma sql_plain:
  assumes "plain_source src"
  shows "sql_upper (sql_trim (before (CHR '','') src)) = upper (strip (before (CHR '','') src))"
proof -
  define b where "b = before (CHR '','') src"
  have b: "isascii b" "\<And>c. c \<in> set b \<Longrightarrow> is_space c \<longleftrightarrow> c = CHR '' ''"
    using assms before_set[of "CHR '',''" src]
    by (auto simp: b_def plain_source_def isascii_def list_all_iff subset_iff) (simp add: is_space_def)
  have d: "dropWhile is_space xs = dropWhile (\<lambda>c. c = CHR '' '') xs" if "set xs \<subseteq> set b" for xs
    using that b(2) by (intro dropWhile_cong) auto
  have "set (rev (dropWhile (\<lambda>c. c = CHR '' '') b)) \<subseteq> set b"
    by (auto dest: set_dropWhileD)
  then have t: "sql_trim b = strip b"
    by (simp add: sql_trim_def strip_def lstrip_def rstrip_def d)
  have "isascii (strip b)"
    using b(1) strip_set[of b] by (auto simp: isascii_def list_all_iff)
  then have "sql_upper (strip b) = upper (strip b)"
    by (rule sql_upper_ascii)
  then show ?thesis
    using t by (simp add: b_def)
qed


text \<open>The stored messages that a copy can meet: id, message id, sender and time.\<close>

definition row_sender :: "message_row \<Rightarrow> string" where
  "row_sender r = upper (strip (before (CHR '','') (mr_src r)))"

definition cores :: "store \<Rightarrow> (nat \<times> string \<times> string \<times> int) set" where
  "cores st = {(mr_id r, m, row_sender r, mr_ts r) |r m. r \<in> set (st_messages st) \<and> mr_msg_id r = Some m}"

definition plain_rows :: "store \<Rightarrow> bool" where
  "plain_rows st \<longleftrightarrow> (\<forall>r \<in> set (st_messages st). plain_source (mr_src r))"

lemma same_rows_cores: "same_rows a b \<Longrightarrow> cores b = cores a \<and> plain_rows b = plain_rows a"
proof -
  assume "same_rows a b"
  then have "list_all2 row_grows (st_messages a) (st_messages b)"
    by (simp add: same_rows_def)
  then have "{(mr_id r, m, row_sender r, mr_ts r) |r m. r \<in> set (st_messages b) \<and> mr_msg_id r = Some m} =
      {(mr_id r, m, row_sender r, mr_ts r) |r m. r \<in> set (st_messages a) \<and> mr_msg_id r = Some m} \<and>
      (\<forall>r \<in> set (st_messages b). plain_source (mr_src r)) = (\<forall>r \<in> set (st_messages a). plain_source (mr_src r))"
  proof (induction rule: list_all2_induct)
    case (Cons x xs y ys)
    have split: "{(mr_id r, m, row_sender r, mr_ts r) |r m. r \<in> set (z # zs) \<and> mr_msg_id r = Some m} =
        {(mr_id z, m, row_sender z, mr_ts z) |m. mr_msg_id z = Some m} \<union>
        {(mr_id r, m, row_sender r, mr_ts r) |r m. r \<in> set zs \<and> mr_msg_id r = Some m}" for z zs
      by auto
    have "{(mr_id y, m, row_sender y, mr_ts y) |m. mr_msg_id y = Some m} = {(mr_id x, m, row_sender x, mr_ts x) |m. mr_msg_id x = Some m}"
      using Cons.hyps(1) by (auto simp: row_grows_def row_sender_def)
    then show ?case
      unfolding split using Cons.IH Cons.hyps(1) by (simp add: row_grows_def)
  qed simp
  then show ?thesis
    by (simp add: cores_def plain_rows_def)
qed

definition apart_ts :: "int \<Rightarrow> int \<Rightarrow> bool" where
  "apart_ts a b \<longleftrightarrow> DEDUP_WINDOW_MS \<le> \<bar>a - b\<bar>"

lemma apart_ts_sym: "apart_ts a b = apart_ts b a"
  by (auto simp: apart_ts_def)

definition task_sender :: "task \<Rightarrow> string" where
  "task_sender t = upper (strip (pf_callsign (tk_parsed t)))"

definition copy_task_ok :: "task \<Rightarrow> bool" where
  "copy_task_ok t \<longleftrightarrow> plain_source (pf_src (tk_parsed t)) \<and>
     pf_callsign (tk_parsed t) = strip (before (CHR '','') (pf_src (tk_parsed t)))"

lemma no_copy_apart:
  assumes "\<not> copy_in_table (pf_callsign (tk_parsed t)) m ts (st_messages st)" "plain_rows st" "copy_task_ok t"
    "(i, m, task_sender t, ts') \<in> cores st"
  shows "apart_ts ts' ts"
proof -
  obtain r where r: "r \<in> set (st_messages st)" "mr_msg_id r = Some m" "row_sender r = task_sender t" "mr_ts r = ts'"
    using assms(4) by (auto simp: cores_def)
  have "sql_upper (sql_trim (before (CHR '','') (mr_src r))) = row_sender r"
    using assms(2) r(1) sql_plain by (simp add: plain_rows_def row_sender_def)
  moreover have "task_sender t = upper (pf_callsign (tk_parsed t))"
    using assms(3) by (simp add: task_sender_def copy_task_ok_def)
  ultimately have "\<not> ts - DEDUP_WINDOW_MS < mr_ts r"
    using assms(1) r by (auto simp: copy_in_table_def list_ex_iff)
  then show ?thesis
    by (simp add: apart_ts_def r(4))
qed

text \<open>The parts of the handling, for this purpose.\<close>

lemma parse_frame_callsign: "parse_frame now_ms message = Inr p \<Longrightarrow> pf_callsign p = strip (before (CHR '','') (pf_src p))"
  by (auto simp: parse_frame_def Let_def)

lemma claim_cases:
  assumes "claim_recent_ingest c m ts recent = (fresh, recent')"
  shows "if fresh
    then (\<forall>v. map_of recent (sender_key c m) = Some v \<longrightarrow> DEDUP_WINDOW_MS < ts - v) \<and>
         map_of recent' (sender_key c m) = Some ts \<and>
         (\<forall>k. k \<noteq> sender_key c m \<longrightarrow> map_of recent' k = map_of (prune_recent ts recent) k)
    else recent' = recent"
  using assms by (auto simp: claim_recent_ingest_def Let_def split: option.splits if_splits)

lemma begin_cases:
  assumes "store_begin x now_ms message raw st = (b, st')"
  shows "(\<exists>e. b = Done e) \<and> same_rows st st' \<or>
    (\<exists>t. b = Pending t \<and> parse_frame now_ms message = Inr (tk_parsed t) \<and>
       same_rows st (st'\<lparr>st_recent := st_recent st\<rparr>) \<and>
       (case pf_msg_id (tk_parsed t) of
          None \<Rightarrow> tk_checked t \<and> st_recent st' = st_recent st
        | Some m \<Rightarrow> \<not> tk_checked t \<and>
            claim_recent_ingest (pf_callsign (tk_parsed t)) m (pf_ts (tk_parsed t)) (st_recent st) = (True, st_recent st')))"
proof -
  define st1 where "st1 = st\<lparr>st_uptime := beacon_hook message now_ms (st_uptime st)\<rparr>"
  have s1: "same_rows st st1"
    by (simp add: st1_def same_rows_def list.rel_refl)
  show ?thesis
  proof (cases "should_filter_message message \<or> (\<exists>e. parse_frame now_ms message = Inl e)")
    case True
    then obtain e where "store_begin x now_ms message raw st = finished (st1, e)"
      by (cases "should_filter_message message") (auto simp: store_begin_def Let_def simp flip: st1_def)
    then show ?thesis
      using assms s1 by (auto simp: finished_def)
  next
    case False
    then obtain p where p: "parse_frame now_ms message = Inr p" and f: "\<not> should_filter_message message"
      by (cases "parse_frame now_ms message") auto
    consider (early) "pf_type p = ''tele'' \<or> pf_type p = ''ack''" | (chat) "pf_type p \<noteq> ''tele''" "pf_type p \<noteq> ''ack''"
      by blast
    then show ?thesis
    proof cases
      case early
      have "same_rows st (fst (call_store_telemetry x n c d st1))" for n c d
        using same_rows_trans[OF s1 telemetry_rows] .
      moreover have "same_rows st (handle_ack rep m ty ts g v st1)" for rep m ty ts g v
        using same_rows_trans[OF s1 handle_ack_rows] .
      ultimately have "same_rows st (fst o1)"
        if "o1 = (if pf_type p = ''tele'' then call_store_telemetry x now_ms (pf_callsign p) message st1
          else case pf_msg_id p of None \<Rightarrow> (st1, None)
            | Some m \<Rightarrow> if m = [] then (st1, None)
               else (handle_ack (ex_repr x) m (field message ''ack_type'') (pf_ts p)
                   (normalise_ack_callsign (AckJson (field message ''ack_from''))) (coerce_ack_via (field message ''ack_via'')) st1, None))" for o1
        using s1 that by (auto split: option.splits)
      moreover have "store_begin x now_ms message raw st = finished (if pf_type p = ''tele'' then call_store_telemetry x now_ms (pf_callsign p) message st1
          else case pf_msg_id p of None \<Rightarrow> (st1, None)
            | Some m \<Rightarrow> if m = [] then (st1, None)
               else (handle_ack (ex_repr x) m (field message ''ack_type'') (pf_ts p)
                   (normalise_ack_callsign (AckJson (field message ''ack_from''))) (coerce_ack_via (field message ''ack_via'')) st1, None))"
        using early p f by (auto simp: store_begin_def Let_def simp flip: st1_def)
      ultimately show ?thesis
        using assms by (auto simp: finished_def)
    next
      case chat
      define st2 where "st2 = handle_inline_ack (pf_msg p) st1"
      define t where "t = \<lparr>tk_now = now_ms, tk_message = message, tk_raw = raw, tk_parsed = p, tk_checked = False\<rparr>"
      have s2: "same_rows st st2"
        unfolding st2_def by (rule same_rows_trans[OF s1 handle_inline_ack_rows])
      then have r2: "st_recent st2 = st_recent st"
        by (simp add: same_rows_def)
      have b: "(b, st') = (case pf_msg_id p of
          None \<Rightarrow> (Pending (t\<lparr>tk_checked := True\<rparr>), st2)
        | Some m \<Rightarrow> (let (fresh, recent) = claim_recent_ingest (pf_callsign p) m (pf_ts p) (st_recent st2);
              st3 = st2\<lparr>st_recent := recent\<rparr> in if fresh then (Pending t, st3) else finished (salvage x t st3)))"
      proof -
        have "store_begin x now_ms message raw st = (case pf_msg_id p of
            None \<Rightarrow> (Pending (t\<lparr>tk_checked := True\<rparr>), st2)
          | Some m \<Rightarrow> (let (fresh, recent) = claim_recent_ingest (pf_callsign p) m (pf_ts p) (st_recent st2);
                st3 = st2\<lparr>st_recent := recent\<rparr> in if fresh then (Pending t, st3) else finished (salvage x t st3)))"
          using chat f unfolding store_begin_def Let_def st1_def[symmetric] p st2_def t_def by simp
        then show ?thesis
          using assms by simp
      qed
      show ?thesis
      proof (cases "pf_msg_id p")
        case None
        then show ?thesis
          using b s2 r2 p by (auto simp: t_def same_rows_def)
      next
        case (Some m)
        obtain fresh recent where k: "claim_recent_ingest (pf_callsign p) m (pf_ts p) (st_recent st) = (fresh, recent)"
          by (cases "claim_recent_ingest (pf_callsign p) m (pf_ts p) (st_recent st)")
        show ?thesis
        proof (cases fresh)
          case True
          then show ?thesis
            using b s2 r2 p Some k by (auto simp: t_def same_rows_def)
        next
          case False
          then have "recent = st_recent st2"
            using claim_cases[OF k] r2 by simp
          then have id: "st2\<lparr>st_recent := recent\<rparr> = st2"
            by (cases st2) simp
          then have "b = Done (snd (salvage x t st2))" "st' = fst (salvage x t st2)"
            using b Some k r2 False id by (simp_all add: finished_def Let_def)
          then show ?thesis
            using same_rows_trans[OF s2 salvage_rows] by blast
        qed
      qed
    qed
  qed
qed

lemma finish_cases:
  assumes "row_ids_ok st"
  shows "same_rows st (fst (store_finish x t st)) \<or>
    (\<exists>st2 r. same_rows st st2 \<and> st_messages (fst (store_finish x t st)) = st_messages st2 @ [r] \<and>
       st_next_id (fst (store_finish x t st)) = st_next_id st + 1 \<and> st_recent (fst (store_finish x t st)) = st_recent st \<and>
       mr_id r = st_next_id st \<and> mr_msg_id r = pf_msg_id (tk_parsed t) \<and> mr_src r = pf_src (tk_parsed t) \<and> mr_ts r = pf_ts (tk_parsed t))"
proof -
  let ?p = "tk_parsed t"
  define o1 where "o1 = (let st1 = ingest_signal (ex_round2 x) (tk_now t) ?p (tk_message t) st in
    if pf_type ?p = ''pos'' \<and> \<not> is_mheard_frame ?p
    then store_position x (tk_now t) (pf_callsign ?p) (tk_message t) (tk_raw t) (pf_relay_via ?p) st1 else (st1, None))"
  have "same_rows st (ingest_signal (ex_round2 x) (tk_now t) ?p (tk_message t) st)"
    by (simp add: same_rows_def list.rel_refl)
  then have s1: "same_rows st (fst o1)"
    using same_rows_trans[OF _ store_position_rows] by (auto simp: o1_def Let_def)
  have f: "store_finish x t st = then_also o1 (\<lambda>st2. then_also (record_origin t st2) (write_row x t))"
    by (simp add: store_finish_def o1_def Let_def)
  show ?thesis
  proof (cases "snd o1 \<noteq> None \<or> snd (record_origin t (fst o1)) \<noteq> None")
    case True
    then have "fst (store_finish x t st) = fst o1 \<or> fst (store_finish x t st) = fst (record_origin t (fst o1))"
      by (cases o1; cases "snd o1"; cases "record_origin t (fst o1)") (auto simp: f then_also_def)
    then show ?thesis
      using s1 same_rows_trans[OF s1 record_origin_rows] by metis
  next
    case False
    define st2 where "st2 = fst (record_origin t (fst o1))"
    have e: "store_finish x t st = write_row x t st2"
      using False by (cases o1; cases "record_origin t (fst o1)") (auto simp: f then_also_def st2_def)
    have s2: "same_rows st st2"
      unfolding st2_def by (rule same_rows_trans[OF s1 record_origin_rows])
    then have n: "st_next_id st2 = st_next_id st" "st_recent st2 = st_recent st"
      by (simp_all add: same_rows_def)
    from write_row_rows[OF row_ids_same[OF s2 assms], of x t] show ?thesis
      unfolding e using s2 n same_rows_trans[OF s2] by metis
  qed
qed


text \<open>
  The invariant: two tasks that hold a claim for one message lie a window apart, a task past the lookup lies
  a window apart from every stored copy, and so do two stored copies.
\<close>

definition task_key :: "task \<Rightarrow> string \<Rightarrow> string \<times> string" where
  "task_key t m = sender_key (pf_callsign (tk_parsed t)) m"

definition copies_inv :: "store \<Rightarrow> (nat \<Rightarrow> task option) \<Rightarrow> bool" where
  "copies_inv st M \<longleftrightarrow> row_ids_ok st \<and> plain_rows st \<and> (\<forall>i t. M i = Some t \<longrightarrow> copy_task_ok t) \<and>
     (\<forall>i t m. M i = Some t \<longrightarrow> pf_msg_id (tk_parsed t) = Some m \<longrightarrow>
        (\<exists>v. map_of (st_recent st) (task_key t m) = Some v \<and> pf_ts (tk_parsed t) \<le> v)) \<and>
     (\<forall>i t j u m. M i = Some t \<longrightarrow> M j = Some u \<longrightarrow> i \<noteq> j \<longrightarrow> pf_msg_id (tk_parsed t) = Some m \<longrightarrow>
        pf_msg_id (tk_parsed u) = Some m \<longrightarrow> task_sender t = task_sender u \<longrightarrow>
        apart_ts (pf_ts (tk_parsed t)) (pf_ts (tk_parsed u))) \<and>
     (\<forall>i t m n ts. M i = Some t \<longrightarrow> tk_checked t \<longrightarrow> pf_msg_id (tk_parsed t) = Some m \<longrightarrow>
        (n, m, task_sender t, ts) \<in> cores st \<longrightarrow> apart_ts ts (pf_ts (tk_parsed t))) \<and>
     (\<forall>n k m s a b. (n, m, s, a) \<in> cores st \<longrightarrow> (k, m, s, b) \<in> cores st \<longrightarrow> n \<noteq> k \<longrightarrow> apart_ts a b)"

lemma task_key_eq: "task_key t m = (task_sender t, m)"
  by (simp add: task_key_def task_sender_def sender_key_def)

lemma copies_same: "same_rows st st' \<Longrightarrow> copies_inv st M \<Longrightarrow> copies_inv st' M"
  using same_rows_cores[of st st'] row_ids_same[of st st'] by (auto simp: copies_inv_def same_rows_def)

lemma copies_invD:
  assumes "copies_inv st M"
  shows "row_ids_ok st" "plain_rows st" "M i = Some t \<Longrightarrow> copy_task_ok t"
    "M i = Some t \<Longrightarrow> pf_msg_id (tk_parsed t) = Some m \<Longrightarrow> \<exists>v. map_of (st_recent st) (task_key t m) = Some v \<and> pf_ts (tk_parsed t) \<le> v"
    "M i = Some t \<Longrightarrow> M j = Some u \<Longrightarrow> i \<noteq> j \<Longrightarrow> pf_msg_id (tk_parsed t) = Some m \<Longrightarrow> pf_msg_id (tk_parsed u) = Some m \<Longrightarrow>
       task_sender t = task_sender u \<Longrightarrow> apart_ts (pf_ts (tk_parsed t)) (pf_ts (tk_parsed u))"
    "M i = Some t \<Longrightarrow> tk_checked t \<Longrightarrow> pf_msg_id (tk_parsed t) = Some m \<Longrightarrow> (n, m, task_sender t, a) \<in> cores st \<Longrightarrow>
       apart_ts a (pf_ts (tk_parsed t))"
    "(n, m, s, a) \<in> cores st \<Longrightarrow> (k, m, s, b) \<in> cores st \<Longrightarrow> n \<noteq> k \<Longrightarrow> apart_ts a b"
  using assms unfolding copies_inv_def by - (elim conjE; simp; fail | elim conjE; metis)+

text \<open>A change of one task of the invariant has to be justified for that task only.\<close>

lemma copies_task:
  assumes o: "copies_inv st M" and t: "copy_task_ok t"
    and claim: "\<And>m. pf_msg_id (tk_parsed t) = Some m \<Longrightarrow> \<exists>v. map_of (st_recent st) (task_key t m) = Some v \<and> pf_ts (tk_parsed t) \<le> v"
    and apart: "\<And>j u m. M j = Some u \<Longrightarrow> j \<noteq> i \<Longrightarrow> pf_msg_id (tk_parsed t) = Some m \<Longrightarrow> pf_msg_id (tk_parsed u) = Some m \<Longrightarrow>
       task_sender u = task_sender t \<Longrightarrow> apart_ts (pf_ts (tk_parsed u)) (pf_ts (tk_parsed t))"
    and stored: "\<And>m n a. tk_checked t \<Longrightarrow> pf_msg_id (tk_parsed t) = Some m \<Longrightarrow> (n, m, task_sender t, a) \<in> cores st \<Longrightarrow>
       apart_ts a (pf_ts (tk_parsed t))"
  shows "copies_inv st (M(i \<mapsto> t))"
proof -
  have apart': "apart_ts (pf_ts (tk_parsed t)) (pf_ts (tk_parsed u))"
    if "M j = Some u" "j \<noteq> i" "pf_msg_id (tk_parsed t) = Some m" "pf_msg_id (tk_parsed u) = Some m" "task_sender t = task_sender u" for j u m
    using apart[OF that(1-4)] that(5) by (simp add: apart_ts_sym)
  note d = copies_invD[OF o]
  show ?thesis
    unfolding copies_inv_def
  proof (intro conjI allI impI)
    fix j u m assume "(M(i \<mapsto> t)) j = Some u" "pf_msg_id (tk_parsed u) = Some m"
    then show "\<exists>v. map_of (st_recent st) (task_key u m) = Some v \<and> pf_ts (tk_parsed u) \<le> v"
      using claim d(4) by (cases "j = i") simp_all
  next
    fix j u k w m
    assume "(M(i \<mapsto> t)) j = Some u" "(M(i \<mapsto> t)) k = Some w" "j \<noteq> k" "pf_msg_id (tk_parsed u) = Some m"
      "pf_msg_id (tk_parsed w) = Some m" "task_sender u = task_sender w"
    then show "apart_ts (pf_ts (tk_parsed u)) (pf_ts (tk_parsed w))"
      using apart apart' d(5) by (cases "j = i"; cases "k = i") simp_all
  next
    fix j u m n a assume "(M(i \<mapsto> t)) j = Some u" "tk_checked u" "pf_msg_id (tk_parsed u) = Some m" "(n, m, task_sender u, a) \<in> cores st"
    then show "apart_ts a (pf_ts (tk_parsed u))"
      using stored d(6) by (cases "j = i") simp_all
  next
    fix j u assume "(M(i \<mapsto> t)) j = Some u"
    then show "copy_task_ok u"
      using t d(3) by (cases "j = i") simp_all
  qed (use d(1,2,7) in \<open>simp_all\<close>)
qed

lemma copies_fewer:
  assumes o: "copies_inv st M" and sub: "\<And>j u. N j = Some u \<Longrightarrow> M j = Some u"
  shows "copies_inv st N"
proof -
  note d = copies_invD[OF o]
  show ?thesis
    unfolding copies_inv_def
  proof (intro conjI allI impI)
    show "row_ids_ok st" "plain_rows st"
      by (rule d)+
  next
    fix j u k w m
    assume "N j = Some u" "N k = Some w" "j \<noteq> k" "pf_msg_id (tk_parsed u) = Some m" "pf_msg_id (tk_parsed w) = Some m"
      "task_sender u = task_sender w"
    then show "apart_ts (pf_ts (tk_parsed u)) (pf_ts (tk_parsed w))"
      by (rule d(5)[OF sub sub])
  next
    fix j u m n a assume "N j = Some u" "tk_checked u" "pf_msg_id (tk_parsed u) = Some m" "(n, m, task_sender u, a) \<in> cores st"
    then show "apart_ts a (pf_ts (tk_parsed u))"
      by (rule d(6)[OF sub])
  next
    fix j u m assume "N j = Some u" "pf_msg_id (tk_parsed u) = Some m"
    then show "\<exists>v. map_of (st_recent st) (task_key u m) = Some v \<and> pf_ts (tk_parsed u) \<le> v"
      by (rule d(4)[OF sub])
  qed (fact d(7) | rule d(3)[OF sub], assumption)+
qed

lemma copies_drop: "copies_inv st M \<Longrightarrow> copies_inv st (M(i := None))"
  by (erule copies_fewer) (simp split: if_splits)

lemma copies_unkeyed:
  assumes "copies_inv st M" "copy_task_ok t" "pf_msg_id (tk_parsed t) = None"
  shows "copies_inv st (M(i \<mapsto> t))"
  using assms by (intro copies_task) simp_all

lemma copies_checked:
  assumes o: "copies_inv st M" and i: "M i = Some t" and m: "pf_msg_id (tk_parsed t) = Some m"
    and c: "\<not> copy_in_table (pf_callsign (tk_parsed t)) m (pf_ts (tk_parsed t)) (st_messages st)"
  shows "copies_inv st (M(i \<mapsto> t\<lparr>tk_checked := True\<rparr>))"
proof -
  have a: "apart_ts ts (pf_ts (tk_parsed t))" if "(n, m, task_sender t, ts) \<in> cores st" for n ts
    using no_copy_apart[OF c] that o i by (auto simp: copies_inv_def)
  have s [simp]: "task_sender (t\<lparr>tk_checked := True\<rparr>) = task_sender t" "copy_task_ok (t\<lparr>tk_checked := True\<rparr>) = copy_task_ok t"
    "task_key (t\<lparr>tk_checked := True\<rparr>) k = task_key t k" for k
    by (simp_all add: task_sender_def copy_task_ok_def task_key_def)
  note d = copies_invD[OF o]
  show ?thesis
    by (rule copies_task[OF o]) (use d(3-5) i m a in \<open>simp_all\<close>)
qed

lemma copies_claimed:
  assumes o: "copies_inv st M" and i: "M i = None" and t: "copy_task_ok t" "\<not> tk_checked t" "pf_msg_id (tk_parsed t) = Some m"
    and k: "claim_recent_ingest (pf_callsign (tk_parsed t)) m (pf_ts (tk_parsed t)) (st_recent st) = (True, recent)"
    and calm: "length (st_recent st) < RECENT_INGEST_PRUNE_AT \<or>
      (\<forall>j u. M j = Some u \<longrightarrow> pf_ts (tk_parsed t) - DEDUP_WINDOW_MS < pf_ts (tk_parsed u))"
  shows "copies_inv (st\<lparr>st_recent := recent\<rparr>) (M(i \<mapsto> t))"
proof -
  let ?ts = "pf_ts (tk_parsed t)" and ?key = "task_key t m"
  have new: "\<And>v. map_of (st_recent st) ?key = Some v \<Longrightarrow> DEDUP_WINDOW_MS < ?ts - v" "map_of recent ?key = Some ?ts"
    and other: "\<And>q. q \<noteq> ?key \<Longrightarrow> map_of recent q = map_of (prune_recent ?ts (st_recent st)) q"
    using claim_cases[OF k] by (simp_all add: task_key_def del: split_paired_All)
  have claim: "\<exists>v. map_of recent (task_key u q) = Some v \<and> pf_ts (tk_parsed u) \<le> v"
    if u: "M j = Some u" "pf_msg_id (tk_parsed u) = Some q" for j u q
  proof -
    obtain v where v: "map_of (st_recent st) (task_key u q) = Some v" "pf_ts (tk_parsed u) \<le> v"
      using copies_invD(4)[OF o u] by blast
    show ?thesis
    proof (cases "task_key u q = ?key")
      case True
      then have "DEDUP_WINDOW_MS < ?ts - v"
        using new(1) v(1) by simp
      then show ?thesis
        using True new(2) v(2) by (simp add: DEDUP_WINDOW_MS_def)
    next
      case False
      have "map_of (prune_recent ?ts (st_recent st)) (task_key u q) = Some v"
      proof (cases "length (st_recent st) < RECENT_INGEST_PRUNE_AT")
        case False
        then have "\<not> v \<le> ?ts - DEDUP_WINDOW_MS"
          using calm u(1) v(2) by fastforce
        then show ?thesis
          using map_of_filter_in[OF v(1), of "\<lambda>k ts. \<not> ts \<le> ?ts - DEDUP_WINDOW_MS"] by (simp add: prune_recent_def v(1))
      qed (simp add: prune_recent_def v(1))
      then show ?thesis
        using other[OF False] v(2) by simp
    qed
  qed
  have apart: "apart_ts (pf_ts (tk_parsed u)) ?ts"
    if u: "M j = Some u" "pf_msg_id (tk_parsed u) = Some m" "task_sender u = task_sender t" for j u
  proof -
    obtain v where v: "map_of (st_recent st) (task_key u m) = Some v" "pf_ts (tk_parsed u) \<le> v"
      using copies_invD(4)[OF o u(1,2)] by blast
    then have "DEDUP_WINDOW_MS < ?ts - v"
      using new(1) u(3) by (simp add: task_key_eq)
    then show ?thesis
      using v(2) by (simp add: apart_ts_def DEDUP_WINDOW_MS_def)
  qed
  have [simp]: "cores (st\<lparr>st_recent := recent\<rparr>) = cores st" "row_ids_ok (st\<lparr>st_recent := recent\<rparr>) = row_ids_ok st"
    "plain_rows (st\<lparr>st_recent := recent\<rparr>) = plain_rows st"
    by (simp_all add: cores_def row_ids_ok_def plain_rows_def)
  note d = copies_invD[OF o]
  have "copies_inv (st\<lparr>st_recent := recent\<rparr>) M"
    unfolding copies_inv_def by (intro conjI allI impI) (use d(1-3,5-7) claim in \<open>simp_all\<close>)
  then show ?thesis
    by (rule copies_task) (use t new(2) apart in \<open>simp_all\<close>)
qed

lemma copies_written:
  assumes o: "copies_inv st M" and i: "M i = Some t" "tk_checked t"
    and w: "st_messages st' = st_messages st @ [r]" "st_next_id st' = st_next_id st + 1" "st_recent st' = st_recent st"
    and r: "mr_id r = st_next_id st" "mr_msg_id r = pf_msg_id (tk_parsed t)" "mr_src r = pf_src (tk_parsed t)" "mr_ts r = pf_ts (tk_parsed t)"
  shows "copies_inv st' (M(i := None))"
proof -
  note d = copies_invD[OF o]
  have s: "row_sender r = task_sender t" "plain_source (mr_src r)"
    using d(3)[OF i(1)] r by (simp_all add: copy_task_ok_def row_sender_def task_sender_def)
  have c: "cores st' = cores st \<union> {(mr_id r, m, task_sender t, pf_ts (tk_parsed t)) |m. pf_msg_id (tk_parsed t) = Some m}"
  proof -
    have "cores st' = cores st \<union> {(mr_id r, m, row_sender r, mr_ts r) |m. mr_msg_id r = Some m}"
      unfolding cores_def w by auto
    then show ?thesis
      by (simp add: r s(1))
  qed
  have ids: "row_ids_ok st'" "plain_rows st'"
    using d(1,2) r s(2) by (auto simp: row_ids_ok_def plain_rows_def w less_Suc_eq)
  have e: "M j = Some u" "j \<noteq> i" if "(M(i := None)) j = Some u" for j u
    using that by (simp_all split: if_splits)
  note d' = copies_invD[OF copies_drop[OF o, of i]]
  show ?thesis
    unfolding copies_inv_def
  proof (intro conjI allI impI)
    fix j u m n a
    assume u: "(M(i := None)) j = Some u" "tk_checked u" "pf_msg_id (tk_parsed u) = Some m" "(n, m, task_sender u, a) \<in> cores st'"
    show "apart_ts a (pf_ts (tk_parsed u))"
      using u(4) d(6)[OF e(1)[OF u(1)] u(2,3)] d(5)[OF i(1) e(1)[OF u(1)]] e(2)[OF u(1)] u(3) by (auto simp: c)
  next
    fix n k m q a b
    assume a: "(n, m, q, a) \<in> cores st'" "(k, m, q, b) \<in> cores st'" "n \<noteq> k"
    then show "apart_ts a b"
      using d(7) d(6)[OF i] by (auto simp: c apart_ts_sym[of "pf_ts (tk_parsed t)"])
  next
    fix j u m assume "(M(i := None)) j = Some u" "pf_msg_id (tk_parsed u) = Some m"
    then show "\<exists>v. map_of (st_recent st') (task_key u m) = Some v \<and> pf_ts (tk_parsed u) \<le> v"
      unfolding w(3) by (rule d'(4))
  qed (fact ids | rule d'(3,5), assumption+)+
qed


text \<open>
  The conditions on arrivals: the sender is plain ASCII without other white space than blanks, on which
  Python's and SQLite's folding agree, and the claims are not swept while a task of an older time is under way.
\<close>

definition arrival_ok :: "store_event \<Rightarrow> ingest \<Rightarrow> bool" where
  "arrival_ok ev w =
     (case ev of
        Arrive i now_ms message raw \<Rightarrow>
          (case parse_frame now_ms message of
             Inl e \<Rightarrow> True
           | Inr p \<Rightarrow> plain_source (pf_src p) \<and>
               (length (st_recent (in_store w)) < RECENT_INGEST_PRUNE_AT \<or>
                list_all (\<lambda>(j, t). pf_ts p - DEDUP_WINDOW_MS < pf_ts (tk_parsed t)) (in_tasks w)))
      | _ \<Rightarrow> True)"

fun ingest_run :: "externals \<Rightarrow> store_event list \<Rightarrow> ingest \<Rightarrow> ingest" where
  "ingest_run x [] w = w"
| "ingest_run x (ev # evs) w = ingest_run x evs (store_event_step x ev w)"

fun arrivals_ok :: "externals \<Rightarrow> store_event list \<Rightarrow> ingest \<Rightarrow> bool" where
  "arrivals_ok x [] w \<longleftrightarrow> True"
| "arrivals_ok x (ev # evs) w \<longleftrightarrow> arrival_ok ev w \<and> arrivals_ok x evs (store_event_step x ev w)"

definition ingest_init :: ingest where
  "ingest_init = \<lparr>in_store = store_init, in_tasks = []\<rparr>"

lemma settle_tasks:
  "in_store (settle i (b, st) w) = st"
  "map_of (in_tasks (settle i (b, st) w)) = (map_of (in_tasks w))(i := (case b of Done e \<Rightarrow> None | Pending t \<Rightarrow> Some t))"
  by (simp_all add: settle_def delete_conv' update_conv' split: begun.splits)

lemma copies_begin:
  assumes o: "copies_inv st M" and i: "M i = None" and b: "store_begin x now_ms message raw st = (b, st')"
    and plain: "\<And>p. parse_frame now_ms message = Inr p \<Longrightarrow> plain_source (pf_src p)"
    and calm: "\<And>p. parse_frame now_ms message = Inr p \<Longrightarrow> length (st_recent st) < RECENT_INGEST_PRUNE_AT \<or>
      (\<forall>j u. M j = Some u \<longrightarrow> pf_ts p - DEDUP_WINDOW_MS < pf_ts (tk_parsed u))"
  shows "copies_inv st' (M(i := (case b of Done e \<Rightarrow> None | Pending t \<Rightarrow> Some t)))"
  using begin_cases[OF b]
proof (elim disjE exE conjE)
  fix e assume "b = Done e" "same_rows st st'"
  then show ?thesis
    using copies_drop[OF copies_same[OF _ o]] by simp
next
  fix t
  let ?old = "st'\<lparr>st_recent := st_recent st\<rparr>"
  assume t: "b = Pending t" "parse_frame now_ms message = Inr (tk_parsed t)" and s: "same_rows st ?old"
    and c: "case pf_msg_id (tk_parsed t) of None \<Rightarrow> tk_checked t \<and> st_recent st' = st_recent st
      | Some m \<Rightarrow> \<not> tk_checked t \<and>
          claim_recent_ingest (pf_callsign (tk_parsed t)) m (pf_ts (tk_parsed t)) (st_recent st) = (True, st_recent st')"
  have old: "copies_inv ?old M"
    by (rule copies_same[OF s o])
  have ok: "copy_task_ok t"
    using plain[OF t(2)] parse_frame_callsign[OF t(2)] by (simp add: copy_task_ok_def)
  show ?thesis
  proof (cases "pf_msg_id (tk_parsed t)")
    case None
    then have "?old = st'"
      using c by (cases st') simp
    then show ?thesis
      using copies_unkeyed[OF old ok None] t(1) by simp
  next
    case (Some m)
    have u: "\<not> tk_checked t"
      and claimed: "claim_recent_ingest (pf_callsign (tk_parsed t)) m (pf_ts (tk_parsed t)) (st_recent ?old) = (True, st_recent st')"
      using c unfolding Some by simp_all
    have "copies_inv (?old\<lparr>st_recent := st_recent st'\<rparr>) (M(i \<mapsto> t))"
      by (rule copies_claimed[OF old i ok u Some claimed]) (use calm[OF t(2)] in simp)
    then show ?thesis
      using t(1) by simp
  qed
qed

lemma copies_check:
  assumes o: "copies_inv st M" and i: "M i = Some t" and b: "store_check x t st = (b, st')"
  shows "copies_inv st' (M(i := (case b of Done e \<Rightarrow> None | Pending t \<Rightarrow> Some t)))"
proof (cases "pf_msg_id (tk_parsed t)")
  case None
  then show ?thesis
    using b o i by (auto simp: store_check_def fun_upd_idem)
next
  case (Some m)
  show ?thesis
  proof (cases "copy_in_table (pf_callsign (tk_parsed t)) m (pf_ts (tk_parsed t)) (st_messages st)")
    case True
    then show ?thesis
      using b Some copies_drop[OF copies_same[OF salvage_rows o]] by (auto simp: store_check_def finished_def)
  next
    case False
    then show ?thesis
      using b Some copies_checked[OF o i Some] by (auto simp: store_check_def)
  qed
qed

lemma copies_finish:
  assumes o: "copies_inv st M" and i: "M i = Some t" "tk_checked t"
  shows "copies_inv (fst (store_finish x t st)) (M(i := None))"
  using finish_cases[OF copies_invD(1)[OF o], of x t]
proof (elim disjE exE conjE)
  assume "same_rows st (fst (store_finish x t st))"
  then show ?thesis
    by (rule copies_drop[OF copies_same[OF _ o]])
next
  fix st2 r
  assume s: "same_rows st st2" and w: "st_messages (fst (store_finish x t st)) = st_messages st2 @ [r]"
    "st_next_id (fst (store_finish x t st)) = st_next_id st + 1" "st_recent (fst (store_finish x t st)) = st_recent st"
    and r: "mr_id r = st_next_id st" "mr_msg_id r = pf_msg_id (tk_parsed t)" "mr_src r = pf_src (tk_parsed t)" "mr_ts r = pf_ts (tk_parsed t)"
  then show ?thesis
    using copies_written[OF copies_same[OF s o] i] by (simp add: same_rows_def)
qed

lemma copies_restart:
  assumes "copies_inv st M" "st_messages st' = st_messages st" "st_next_id st' = st_next_id st"
  shows "copies_inv st' Map.empty"
  using assms by (simp add: copies_inv_def row_ids_ok_def plain_rows_def cores_def)

lemma copies_step:
  assumes o: "copies_inv (in_store w) (map_of (in_tasks w))" and ok: "arrival_ok ev w"
  shows "copies_inv (in_store (store_event_step x ev w)) (map_of (in_tasks (store_event_step x ev w)))"
proof (cases ev)
  case (Arrive i now_ms message raw)
  obtain b st' where b: "store_begin x now_ms message raw (in_store w) = (b, st')"
    by (cases "store_begin x now_ms message raw (in_store w)")
  show ?thesis
  proof (cases "map_of (in_tasks w) i")
    case None
    have "copies_inv st' ((map_of (in_tasks w))(i := (case b of Done e \<Rightarrow> None | Pending t \<Rightarrow> Some t)))"
      by (rule copies_begin[OF o None b])
        (use ok Arrive in \<open>auto simp: arrival_ok_def list_all_iff dest!: map_of_SomeD\<close>)
    then show ?thesis
      using Arrive None b by (simp add: in_dict_def settle_tasks)
  qed (use Arrive o in \<open>simp add: in_dict_def\<close>)
next
  case (Look i)
  then show ?thesis
    using o copies_check[OF o, of i]
    by (cases "map_of (in_tasks w) i"; cases "store_check x (the (map_of (in_tasks w) i)) (in_store w)") (simp_all add: settle_tasks)
next
  case (Write i)
  then show ?thesis
    using o copies_finish[OF o, of i] by (cases "map_of (in_tasks w) i") (simp_all add: finished_def settle_tasks)
next
  case (Restart now_ms)
  then show ?thesis
    using copies_restart[OF o] by (simp add: Let_def)
qed

lemma copies_run:
  "copies_inv (in_store w) (map_of (in_tasks w)) \<Longrightarrow> arrivals_ok x evs w \<Longrightarrow>
     copies_inv (in_store (ingest_run x evs w)) (map_of (in_tasks (ingest_run x evs w)))"
  by (induction x evs w rule: ingest_run.induct) (simp_all add: copies_step)

lemma copies_init: "copies_inv (in_store ingest_init) (map_of (in_tasks ingest_init))"
  by (simp add: copies_inv_def ingest_init_def store_init_def row_ids_ok_def plain_rows_def cores_def)

text \<open>C39: However the tasks that ingest the copies of one message interleave, and across restarts, two stored
  rows with the same message id and sender lie at least the deduplication window apart: the synchronous claim
  stops the copies that arrive together, the look into the table those that arrive after a restart.\<close>

theorem message_stored_once:
  assumes "arrivals_ok x evs ingest_init"
    and "{r, s} \<subseteq> set (st_messages (in_store (ingest_run x evs ingest_init)))" "mr_id r \<noteq> mr_id s"
    and "mr_msg_id r = Some m" "mr_msg_id s = Some m" "row_sender r = row_sender s"
  shows "DEDUP_WINDOW_MS \<le> \<bar>mr_ts r - mr_ts s\<bar>"
proof -
  let ?st = "in_store (ingest_run x evs ingest_init)"
  have "(mr_id r, m, row_sender r, mr_ts r) \<in> cores ?st" "(mr_id s, m, row_sender r, mr_ts s) \<in> cores ?st"
    using assms by (auto simp: cores_def)
  then show ?thesis
    using copies_invD(7)[OF copies_run[OF copies_init assms(1)]] assms(3) unfolding apart_ts_def by blast
qed


definition demo_externals :: externals where
  "demo_externals = \<lparr>ex_loads = (\<lambda>s. None), ex_dumps = (\<lambda>b v. ''''), ex_baro = (\<lambda>p a. p), ex_round2 = (\<lambda>v. v),
     ex_to_metres = (\<lambda>f. f), ex_classify = (\<lambda>p. []), ex_repr = (\<lambda>v. '''')\<rparr>"

definition demo_copy :: "string \<Rightarrow> int \<Rightarrow> msgd" where
  "demo_copy src ts = [(''msg_id'', JStr ''3A''), (''src'', JStr src), (''dst'', JStr ''*''), (''msg'', JStr ''hi''), (''type'', JStr ''msg''),
     (''src_type'', JStr ''udp''), (''timestamp'', JInt ts)]"

text \<open>Two copies at once, one of them over a relay, a third after a restart, and the same id again much later.\<close>

definition demo_ingest :: "store_event list" where
  "demo_ingest = [Arrive 0 1000 (demo_copy ''DK5EN-1'' 1000) '''', Arrive 1 1040 (demo_copy ''dk5en-1,DB0X'' 1040) '''', Look 0, Look 1,
     Write 0, Write 1, Restart 2000, Arrive 2 3000 (demo_copy ''DK5EN-1,DB0X'' 3000) '''', Look 2, Write 2,
     Arrive 3 4000000 (demo_copy ''DK5EN-1'' 4000000) '''', Look 3, Write 3]"

lemma demo_ingest_run:
  "arrivals_ok demo_externals demo_ingest ingest_init"
  "map (\<lambda>r. (mr_id r, mr_msg_id r, row_sender r, mr_ts r)) (st_messages (in_store (ingest_run demo_externals demo_ingest ingest_init))) =
     [(1, Some ''3A'', ''DK5EN-1'', 1000), (2, Some ''3A'', ''DK5EN-1'', 4000000)]"
  by code_simp+

theorem message_stored_once_witness:
  "\<exists>r s. {r, s} \<subseteq> set (st_messages (in_store (ingest_run demo_externals demo_ingest ingest_init))) \<and> mr_ts r = 1000 \<and>
     mr_ts s = 4000000 \<and> DEDUP_WINDOW_MS \<le> \<bar>mr_ts r - mr_ts s\<bar>"
proof -
  let ?rows = "st_messages (in_store (ingest_run demo_externals demo_ingest ingest_init))"
  obtain r s where e: "?rows = [r, s]"
    using demo_ingest_run(2) by (auto simp: map_eq_Cons_conv)
  then have d: "mr_id r = 1" "mr_msg_id r = Some ''3A''" "row_sender r = ''DK5EN-1''" "mr_ts r = 1000"
    "mr_id s = 2" "mr_msg_id s = Some ''3A''" "row_sender s = ''DK5EN-1''" "mr_ts s = 4000000"
    using demo_ingest_run(2) by simp_all
  have "DEDUP_WINDOW_MS \<le> \<bar>mr_ts r - mr_ts s\<bar>"
    by (rule message_stored_once[OF demo_ingest_run(1)]) (simp_all add: e d)
  then show ?thesis
    using e d by (intro exI[of _ r] exI[of _ s]) simp
qed


text \<open>Every step leaves the stored rows in place.\<close>

definition kept :: "store \<Rightarrow> store \<Rightarrow> bool" where
  "kept st st' \<longleftrightarrow> rows_grow (st_messages st) (st_messages st') \<and> row_ids_ok st'"

lemma kept_same: "row_ids_ok st \<Longrightarrow> same_rows st st' \<Longrightarrow> kept st st'"
  using row_ids_same[of st st'] same_rows_grows[of st st'] by (simp add: kept_def table_grows_def)

lemma kept_other:
  "row_ids_ok st \<Longrightarrow> st_messages st' = st_messages st \<Longrightarrow> st_next_id st' = st_next_id st \<Longrightarrow> kept st st'"
  by (simp add: kept_def row_ids_ok_def)

lemma kept_trans: "kept a b \<Longrightarrow> kept b c \<Longrightarrow> kept a c"
  unfolding kept_def using rows_grow_trans by blast

lemma kept_begin: "row_ids_ok st \<Longrightarrow> kept st (snd (store_begin x now_ms message raw st))"
proof -
  assume ids: "row_ids_ok st"
  obtain b st' where b: "store_begin x now_ms message raw st = (b, st')"
    by (cases "store_begin x now_ms message raw st")
  from begin_cases[OF b] have "same_rows st st' \<or> same_rows st (st'\<lparr>st_recent := st_recent st\<rparr>)"
    by blast
  then have "kept st st' \<or> kept st (st'\<lparr>st_recent := st_recent st\<rparr>)"
    using kept_same[OF ids] by blast
  then show ?thesis
    using b by (auto simp: kept_def row_ids_ok_def)
qed

lemma kept_check: "row_ids_ok st \<Longrightarrow> kept st (snd (store_check x t st))"
  using kept_same[of st st] kept_same[OF _ salvage_rows, of st x t]
  by (simp add: store_check_def finished_def split: option.splits)

lemma kept_finish:
  assumes ids: "row_ids_ok st"
  shows "kept st (fst (store_finish x t st))"
  using finish_cases[OF ids, of x t]
proof (elim disjE exE conjE)
  assume "same_rows st (fst (store_finish x t st))"
  then show ?thesis
    by (rule kept_same[OF ids])
next
  fix st2 r
  assume s: "same_rows st st2" and w: "st_messages (fst (store_finish x t st)) = st_messages st2 @ [r]"
    "st_next_id (fst (store_finish x t st)) = st_next_id st + 1" and r: "mr_id r = st_next_id st"
  have "kept st2 (fst (store_finish x t st))"
    using row_ids_same[OF s ids] s w r by (auto simp: kept_def row_ids_ok_def same_rows_def rows_grow_snoc)
  then show ?thesis
    by (rule kept_trans[OF kept_same[OF ids s]])
qed

lemma settle_store: "in_store (settle i r w) = snd r"
  by (cases r) (simp add: settle_tasks)

lemma kept_step: "row_ids_ok (in_store w) \<Longrightarrow> kept (in_store w) (in_store (store_event_step x ev w))"
  by (cases ev)
    (auto simp: settle_store kept_begin kept_check kept_finish kept_other finished_def Let_def split: option.splits)

lemma kept_run: "row_ids_ok (in_store w) \<Longrightarrow> kept (in_store w) (in_store (ingest_run x evs w))"
proof (induction x evs w rule: ingest_run.induct)
  case (2 x ev evs w)
  have "kept (in_store w) (in_store (store_event_step x ev w))"
    by (rule kept_step[OF 2(2)])
  then show ?case
    using 2(1) kept_trans by (auto simp: kept_def)
qed (simp add: kept_other)

lemma ingest_run_append: "ingest_run x (evs @ evs') w = ingest_run x evs' (ingest_run x evs w)"
  by (induction x evs w rule: ingest_run.induct) simp_all


definition demo_ack :: store_event where
  "demo_ack = Arrive 7 5000 [(''msg_id'', JStr ''3A''), (''src'', JStr ''DB0X''), (''type'', JStr ''ack''), (''ack_type'', JInt 2)] ''''"

lemma demo_ack_run:
  "map (\<lambda>r. (mr_id r, mr_msg r, mr_acked r)) (st_messages (in_store (ingest_run demo_externals (take 6 demo_ingest) ingest_init))) =
     [(1, ''hi'', False)]"
  "map (\<lambda>r. (mr_id r, mr_msg r, mr_acked r)) (st_messages (in_store (ingest_run demo_externals (take 6 demo_ingest @ [demo_ack]) ingest_init))) =
     [(1, ''hi'', True)]"
  by code_simp+


text \<open>An inline acknowledgement is matched by its number alone: one between two other stations, about a message
  of their own, marks the local message that happened to carry the same number.\<close>

definition demo_own :: msgd where
  "demo_own = [(''msg_id'', JStr ''1F''), (''src'', JStr ''DK5EN-99''), (''dst'', JStr ''DL1ABC-1''), (''msg'', JStr ''hello{042''),
     (''type'', JStr ''msg''), (''src_type'', JStr ''udp''), (''timestamp'', JInt 1000)]"

definition demo_foreign_ack :: msgd where
  "demo_foreign_ack = [(''msg_id'', JStr ''77''), (''src'', JStr ''OE1XXX-1''), (''dst'', JStr ''OE3YYY-2''), (''msg'', JStr ''OE3YYY-2:ack042''),
     (''type'', JStr ''msg''), (''src_type'', JStr ''udp''), (''timestamp'', JInt 2000)]"

lemma foreign_inline_ack_claims_delivery:
  "map (\<lambda>r. (mr_dst r, mr_acked r)) (st_messages (in_store (ingest_run demo_externals
      [Arrive 0 1000 demo_own '''', Look 0, Write 0, Arrive 1 2000 demo_foreign_ack ''''] ingest_init))) = [(''DL1ABC-1'', True)]"
  by code_simp


text \<open>A telemetry frame of an unconfigured node gets a station row: the guard of \<open>_upsert_station_position\<close> is not
  the only way to that table.\<close>

lemma placeholder_gets_station_row:
  "is_placeholder_callsign ''XX0XXX-00'' \<and>
   map_of (db_stations (st_tele (fst (store_message demo_externals 1000
     [(''src'', JStr ''XX0XXX-00''), (''type'', JStr ''tele''), (''temp1'', JInt 21), (''timestamp'', JInt 1000)] [] store_init))))
     ''XX0XXX-00'' \<noteq> None"
  by code_simp

end
