(* ===== verification/Spec2Isabelle.thy ===== *)
theory Spec2Isabelle
  imports Routing Response Push HeyPath BleRegisters BleService BleWrites UdpIngress
    MessageStore
begin

text \<open>
  Verification development of McApp (DK5EN/McAdvChat): the Python backend \<open>src/mcapp\<close> that stands between
  a MeshCom LoRa node and the browsers, and the BLE service \<open>ble_service\<close> that owns the Bluetooth link.

  \<^bold>\<open>The program.\<close> Frames reach the proxy over Extern-UDP (\<open>udp_handler.py\<close>) and over BLE (\<open>ble_adapter.py\<close>,
  the service's \<open>main.py\<close>, then SSE to \<open>ble_client_remote.py\<close> and \<open>main.py\<close>). They are decoded
  (\<open>ble_protocol.py\<close>, \<open>hey_path.py\<close>, \<open>linkcheck.py\<close>), filtered (blocklist, dedup), stored (\<open>storage/\<close>), pushed
  (\<open>push_delivery.py\<close>) and, when they are commands, routed to a handler whose reply goes back in chunks
  (\<open>commands/\<close>). What a user sends passes the suppression rules and leaves over UDP or BLE
  (\<open>MessageRouter\<close> in \<open>main.py\<close>).

  \<^bold>\<open>The theories\<close>, each with the files it translates; its definitions carry the names of the code.
  \<^item> \<open>McPrelude\<close>, \<open>NumText\<close>, \<open>Regex\<close>, \<open>Utf8\<close>: Python text, dictionaries, exceptions, JSON values, numbers as text,
    the compiled patterns and the UTF-8 codec. \<open>Interfaces\<close>: the contracts (locales) the components
    share, each interpreted on the components that provide it.
  \<^item> \<open>Callsigns\<close>, \<open>Destinations\<close>, \<open>CommandParsing\<close>: \<open>util.py\<close>, \<open>commands/constants.py\<close>, \<open>commands/parsing.py\<close>,
    \<open>storage/constants.py\<close>. What a command's target can be, and that free text cannot choose it.
  \<^item> \<open>Suppression\<close>, \<open>Identity\<close>, \<open>Blocklist\<close>, \<open>Routing\<close>, \<open>Response\<close>: \<open>suppression.py\<close>, \<open>MessageRouter\<close> of
    \<open>main.py\<close>, \<open>commands/handler.py\<close>, \<open>admin_commands.py\<close>, \<open>routing.py\<close>, \<open>response.py\<close>. Who may execute what, what is
    transmitted, what is blocked, and that replies to one station keep their order.
  \<^item> \<open>Dedup\<close>, \<open>CtcPing\<close>, \<open>LinkFrames\<close>, \<open>LinkSessions\<close>: \<open>commands/dedup.py\<close>, \<open>ctcping.py\<close>, \<open>linkcheck.py\<close> and
    \<open>src/mcapp/linkcheck.py\<close>. Caches against their window specification; test and link-check sessions as step
    systems that are bounded, end, and attribute an answer to the attempt it answers.
  \<^item> \<open>BleFrames\<close>, \<open>HeyPath\<close>, \<open>UdpIngress\<close>, \<open>Push\<close>: \<open>ble_protocol.py\<close>, \<open>hey_path.py\<close>, \<open>udp_handler.py\<close>,
    \<open>push_delivery.py\<close>. Round trips of the wire formats, detection of corrupted bytes, the target of the UDP port,
    and coalescing without loss.
  \<^item> \<open>BleRegisters\<close>: \<open>ble_client_remote.py\<close> and the register handling of \<open>main.py\<close>. \<open>BleService\<close>, \<open>RegisterSalvage\<close>:
    \<open>ble_service/src/main.py\<close>. \<open>BleAdapter\<close>, \<open>BleWrites\<close>: \<open>ble_service/src/ble_adapter.py\<close>. Link state and
    register cache of the client, retry ladders and routes of the service, the composite connect over BlueZ, and what
    is written to the node.
  \<^item> \<open>Telemetry\<close>: \<open>storage/telemetry_reconcile.py\<close> and \<open>store_telemetry\<close> of \<open>storage/ingest.py\<close>. \<open>Uptime\<close>:
    \<open>storage/uptime.py\<close>. Rows of a station stay a window apart and old frames do no harm; reports of the
    gateway's availability are exact covers of their window.
  \<^item> \<open>SignalBuckets\<close>, \<open>MessageStore\<close>: the rest of \<open>store_message\<close> of \<open>storage/ingest.py\<close>. Charts hold the readings
    of their links; a message whose copies arrive over several transports at once, or again after a restart, is
    stored once, and its row stays.
  \<^item> This theory: the client's view of the service, across \<open>BleRegisters\<close> and \<open>BleService\<close>.

  \<^bold>\<open>State.\<close> An object of the code is a record with its attributes; a dictionary is an association list in insertion
  order; an exception is the left summand of a result, or, in \<open>BleAdapter\<close>, a value of the action. Asynchronous code
  is cut at its awaits: what runs between two of them is one step, and the steps of different tasks
  interleave arbitrarily (\<open>LinkSessions\<close>, \<open>CtcPing\<close>, \<open>Response\<close>, \<open>Push\<close>, \<open>BleRegisters\<close>, \<open>BleService\<close>,
  \<open>MessageStore\<close>). Some records
  carry history variables, which no step reads: \<open>sv_events\<close>, \<open>sv_attempts\<close>, \<open>sv_resets\<close>, \<open>ad_calls\<close>,
  \<open>ad_callbacks\<close>, \<open>rc_log\<close>.

  \<^bold>\<open>Parameters\<close> stand for code outside the repository, as arguments of the definitions: \<open>json.loads\<close> and
  \<open>json.dumps\<close>, hashes (\<open>sha256\<close>, \<open>md5\<close>), \<open>repr\<close>, \<open>struct.pack\<close> of a float, the floating-point scaling, rounding and the
  barometric power, the text classifier, \<open>unicodedata\<close>, and BlueZ over D-Bus, an arbitrary function from the calls made so far to
  the next answer. No property assumes more of them than its statement says.

  \<^bold>\<open>Bounds.\<close> Texts of the proxy are strings of the code points up to U+00FF, and lists of code points where the
  encoding matters (\<open>Utf8\<close>, \<open>BleWrites\<close>, \<open>UdpIngress\<close>). Floats are exact rationals; not-a-number and the
  infinities are outside. Every loop of the model is structural or bounded by the code's own bound: the
  \<open>SERVICE_POLLS\<close> (20) rounds of waiting for services, the four delays of a retry ladder, the attempts of a link
  check, and scans that consume their text; none needs fuel beyond that.

  \<^bold>\<open>Not modelled.\<close> Of modelled components: the delivery of a push (pywebpush), sockets and the HTTP/SSE transport,
  the scan, pair, config and command routes of the service, keepalive and DST loops and the pairing agent of
  the adapter. As components: the SQL of \<open>sqlite_storage.py\<close>, \<open>storage/query.py\<close>, \<open>storage/migrations.py\<close>, \<open>storage/prefs.py\<close>
  and the backfills of \<open>storage/ingest.py\<close>, whose behaviour is that of SQLite on statements the sources only
  compose (the statements of \<open>store_message\<close> are modelled as operations on lists of rows); \<open>sse_handler.py\<close> and \<open>sse_routes\<close>, FastAPI routes that pass requests on; \<open>meteo.py\<close>, a client of weather
  services; the text classifier, a table of heuristics; application wiring, configuration, logging and the
  update runner. The tests are not part of the program.
\<close>

section \<open>The client's view of the BLE service\<close>

lemma get_status_keys:
  "dict_get (get_status a st) ''connected'' v = JBool (sv_connected st)"
  "dict_get (get_status a st) ''reconnecting'' v = JBool (sv_reconnecting st)"
  "dict_get (get_status a st) ''state'' v = JStr (if sv_reconnecting st then ''reconnecting'' else a)"
  by (simp_all add: get_status_def dict_get_def)

text \<open>C26: BLE service and its client (ble_service/src/main.py get_status, ble_client_remote.py refresh_status): after
  a refresh from a reachable service state the client is connected exactly when the service's link is up; it shows
  "connecting" only while the adapter is connecting or a retry ladder is really at work (asleep before, in or after an
  attempt), so a finished or cancelled ladder can never leave the client waiting; and without a link it keeps no
  device address unless it is connecting.\<close>
theorem client_view_of_service:
  assumes "service_reachable st" and "adapter_state = ''connected'' \<longleftrightarrow> sv_connected st"
    and "b' = refresh_status (Some (get_status adapter_state st)) b"
  shows "(bs_state b' = Connected \<longleftrightarrow> sv_connected st)
    \<and> (bs_state b' = Connecting \<longrightarrow> adapter_state = ''connecting'' \<or> (\<exists>s. ladder_attempting s st))
    \<and> (\<not> sv_connected st \<and> bs_state b' \<noteq> Connecting \<longrightarrow> bs_address b' = JNull)"
  using status_honest_reachable [OF assms(1)] assms(2,3)
  by (auto simp: refresh_status_def get_status_keys from_wire_def status_honest_def)

lemma client_view_of_service_witness:
  "bs_state (refresh_status (Some (get_status ''connected'' demo_service)) ble_init) = Connected"
proof -
  have "sv_connected demo_service" by code_simp
  then show ?thesis using client_view_of_service [OF demo_service_reachable _ refl, of "''connected''" ble_init] by simp
qed

end
